(* ===== verification/Prelude.thy ===== *)
theory Prelude
  imports Main "HOL-Library.Word" "HOL-Library.Monad_Syntax"
begin

text \<open>
  Shared vocabulary of the development: the machine integer types of the C code, error
  codes as values, the byte-order helpers the wire format uses, C strings in fixed-size
  buffers, and the list and word lemmas that several components need.

  Two layers of failure are kept apart. A C function that returns \<open>0\<close> or a negative
  error code returns a value of \<open>'a res = errno + 'a\<close>. A C function whose recursion may
  not end returns \<open>'b option\<close>, where \<open>None\<close> stands for a call that never returns.
\<close>

unbundle bit_operations_syntax

section \<open>Machine integers and results\<close>

type_synonym u8 = "8 word"
type_synonym u16 = "16 word"
type_synonym u32 = "32 word"
type_synonym f32 = "32 word" \<comment> \<open>an IEEE single, as its bit pattern\<close>
type_synonym bytes = "8 word list"

datatype errno =
    EINVAL | ENOMEM | EIO | ENODEV | ENOENT | EBADMSG | ENOTSUP | EALREADY | ENOMSG | EAGAIN
  | EBUSY | ETIMEDOUT | EHOSTUNREACH | ENOTCONN | EOTHER int

type_synonym 'a res = "errno + 'a"

named_theorems cfg_simps \<open>unfolding rules of the configuration constants\<close>
named_theorems inv_intros \<open>introduction rules for the component invariants\<close>

abbreviation ok :: "unit res" where
  "ok \<equiv> Inr ()"

text \<open>The cast \<open>(uint8_t)\<close> of a non-negative C integer.\<close>

definition u8_cast :: "nat \<Rightarrow> nat" where
  "u8_cast n = n mod 256"

lemma u8_cast_id [simp]: "n < 256 \<Longrightarrow> u8_cast n = n"
  by (simp add: u8_cast_def)

lemma u8_cast_mod [simp]: "0 < m \<Longrightarrow> m \<le> 256 \<Longrightarrow> u8_cast (n mod m) = n mod m"
  by (rule u8_cast_id) (meson less_le_trans mod_less_divisor)

section \<open>Little-endian words\<close>

text \<open>
  The packed wire header stores 32-bit words with \<^verbatim>\<open>sys_cpu_to_le32\<close> and
  \<^verbatim>\<open>sys_put_le32\<close>, and reads them with \<^verbatim>\<open>sys_le32_to_cpu\<close>: least significant byte first.
\<close>

definition put_le16 :: "u16 \<Rightarrow> bytes" where
  "put_le16 w = [ucast w, ucast (drop_bit 8 w)]"

definition get_le16 :: "bytes \<Rightarrow> u16" where
  "get_le16 bs = ucast (bs ! 0) OR push_bit 8 (ucast (bs ! 1))"

definition put_le32 :: "u32 \<Rightarrow> bytes" where
  "put_le32 w = [ucast w, ucast (drop_bit 8 w), ucast (drop_bit 16 w), ucast (drop_bit 24 w)]"

definition get_le32 :: "bytes \<Rightarrow> u32" where
  "get_le32 bs = ucast (bs ! 0) OR push_bit 8 (ucast (bs ! 1))
     OR push_bit 16 (ucast (bs ! 2)) OR push_bit 24 (ucast (bs ! 3))"

definition get_be32 :: "bytes \<Rightarrow> u32" where
  "get_be32 bs = push_bit 24 (ucast (bs ! 0)) OR push_bit 16 (ucast (bs ! 1))
     OR push_bit 8 (ucast (bs ! 2)) OR ucast (bs ! 3)"

lemma length_put_le16 [simp]: "length (put_le16 w) = 2"
  by (simp add: put_le16_def)

lemma length_put_le32 [simp]: "length (put_le32 w) = 4"
  by (simp add: put_le32_def)

lemma get_put_le16 [simp]: "get_le16 (put_le16 w @ rest) = w"
  unfolding get_le16_def put_le16_def
  by (rule bit_word_eqI)
    (auto simp: bit_or_iff bit_push_bit_iff bit_ucast_iff bit_drop_bit_eq not_le
      dest: bit_imp_le_length)

lemma get_put_le32 [simp]: "get_le32 (put_le32 w @ rest) = w"
proof (rule bit_word_eqI)
  fix n assume n: "n < LENGTH(32)"
  then have "n < 8 \<or> (8 \<le> n \<and> n < 16) \<or> (16 \<le> n \<and> n < 24) \<or> (24 \<le> n \<and> n < 32)"
    by auto
  then show "bit (get_le32 (put_le32 w @ rest)) n = bit w n"
    unfolding get_le32_def put_le32_def
    by (auto simp: bit_or_iff bit_push_bit_iff bit_ucast_iff bit_drop_bit_eq)
qed

lemma get_put_le32_nil [simp]: "get_le32 (put_le32 w) = w"
  using get_put_le32 [of w "[]"] by simp

section \<open>C strings in fixed-size buffers\<close>

text \<open>
  A C string is a \<^typ>\<open>string\<close> without its terminating NUL. \<open>strncpy(dst, src, n - 1)\<close>
  followed by a NUL at \<open>dst[n - 1]\<close> keeps the first \<open>n - 1\<close> characters.
\<close>

definition strn :: "nat \<Rightarrow> string \<Rightarrow> string" where
  "strn n s = take (n - 1) s"

definition cstr_bytes :: "string \<Rightarrow> bytes" where
  "cstr_bytes s = map (\<lambda>c. of_char c) s"

lemma length_strn: "0 < n \<Longrightarrow> length (strn n s) < n"
  by (simp add: strn_def)

lemma strn_strn [simp]: "strn n (strn n s) = strn n s"
  by (simp add: strn_def)

lemma strn_id: "length s < n \<Longrightarrow> strn n s = s"
  by (simp add: strn_def)

section \<open>Lists\<close>

lemma take_update_ge [simp]: "n \<le> i \<Longrightarrow> take n (xs[i := x]) = take n xs"
  by (rule nth_equalityI) auto

lemma take_append_exact [simp]: "length xs = n \<Longrightarrow> take n (xs @ ys) = xs"
  by simp

lemma drop_append_exact [simp]: "length xs = n \<Longrightarrow> drop n (xs @ ys) = ys"
  by simp

lemma list_update_set_mem: "i < length xs \<Longrightarrow> x \<in> set (xs[i := x])"
  by (rule set_update_memI)

text \<open>The first index of a list whose element satisfies a predicate: a C \<open>for\<close> loop with
  \<open>break\<close>.\<close>

fun find_index :: "('a \<Rightarrow> bool) \<Rightarrow> 'a list \<Rightarrow> nat option" where
  "find_index P [] = None"
| "find_index P (x # xs) = (if P x then Some 0 else map_option Suc (find_index P xs))"

lemma find_index_None: "find_index P xs = None \<longleftrightarrow> (\<forall>x\<in>set xs. \<not> P x)"
  by (induction xs) auto

lemma find_index_SomeD:
  "find_index P xs = Some j \<Longrightarrow> j < length xs \<and> P (xs ! j) \<and> (\<forall>k<j. \<not> P (xs ! k))"
proof (induction xs arbitrary: j)
  case Nil
  then show ?case by simp
next
  case (Cons x xs)
  then show ?case
    by (auto split: if_splits simp: nth_Cons less_Suc_eq_0_disj)
qed

lemma find_index_mem: "x \<in> set xs \<Longrightarrow> P x \<Longrightarrow> \<exists>j. find_index P xs = Some j"
  by (metis find_index_None not_None_eq)

end
