(* ===== verification/Types.thy ===== *)
theory Types
  imports Prelude
begin

text \<open>
  The data the components share: build-time configuration, the decoded packet
  (\<^verbatim>\<open>include/zephyr/meshtastic/meshtastic.h\<close>), the protobuf messages the stack reads and
  writes (\<^verbatim>\<open>src/proto/meshtastic\<close>, with the field widths of the \<^verbatim>\<open>.options\<close> files), the stack
  context \<^verbatim>\<open>mt\<close> (\<^verbatim>\<open>src/meshtastic_core.h\<close>), and the nanopb codec, which is not part of the
  repository and is therefore a parameter of every definition that uses it.

  Protobuf enums are natural numbers: a decoded enum field may hold any value, and several
  checks of the code reject the values above the last one it knows.
\<close>

section \<open>Constants\<close>

abbreviation (input) NODE_BROADCAST :: u32 where "NODE_BROADCAST \<equiv> 0xFFFFFFFF"
abbreviation (input) CHANNEL_INDEX_INVALID :: u8 where "CHANNEL_INDEX_INVALID \<equiv> 0xFF"
abbreviation (input) MAX_PAYLOAD_LEN :: nat where "MAX_PAYLOAD_LEN \<equiv> 233"
abbreviation (input) MAX_TEXT_LEN :: nat where "MAX_TEXT_LEN \<equiv> 233"
abbreviation (input) MAX_CHANNELS :: nat where "MAX_CHANNELS \<equiv> 8"
abbreviation (input) PKT_MAX :: nat where "PKT_MAX \<equiv> 255"
abbreviation (input) HDR_LEN :: nat where "HDR_LEN \<equiv> 16"
abbreviation (input) PAYLOAD_MAX :: nat where "PAYLOAD_MAX \<equiv> 239"
abbreviation (input) API_FRAME_MAX :: nat where "API_FRAME_MAX \<equiv> 512"

abbreviation (input) CHANNEL_LONGFAST :: string where "CHANNEL_LONGFAST \<equiv> ''LongFast''"
abbreviation (input) FREQ_US :: u32 where "FREQ_US \<equiv> 906875000"
abbreviation (input) FREQ_EU :: u32 where "FREQ_EU \<equiv> 869525000"

abbreviation (input) PORT_UNKNOWN :: u32 where "PORT_UNKNOWN \<equiv> 0"
abbreviation (input) PORT_TEXT_MESSAGE :: u32 where "PORT_TEXT_MESSAGE \<equiv> 1"
abbreviation (input) PORT_POSITION :: u32 where "PORT_POSITION \<equiv> 3"
abbreviation (input) PORT_NODEINFO :: u32 where "PORT_NODEINFO \<equiv> 4"
abbreviation (input) PORT_ROUTING :: u32 where "PORT_ROUTING \<equiv> 5"
abbreviation (input) PORT_TEXT_COMPRESSED :: u32 where "PORT_TEXT_COMPRESSED \<equiv> 7"
abbreviation (input) PORT_DETECTION_SENSOR :: u32 where "PORT_DETECTION_SENSOR \<equiv> 10"
abbreviation (input) PORT_NODE_STATUS :: u32 where "PORT_NODE_STATUS \<equiv> 36"
abbreviation (input) PORT_RANGE_TEST :: u32 where "PORT_RANGE_TEST \<equiv> 66"
abbreviation (input) PORT_TELEMETRY :: u32 where "PORT_TELEMETRY \<equiv> 67"

abbreviation (input) Role_DISABLED :: nat where "Role_DISABLED \<equiv> 0"
abbreviation (input) Role_PRIMARY :: nat where "Role_PRIMARY \<equiv> 1"
abbreviation (input) Role_SECONDARY :: nat where "Role_SECONDARY \<equiv> 2"

abbreviation (input) DeviceRole_CLIENT :: nat where "DeviceRole_CLIENT \<equiv> 0"
abbreviation (input) DeviceRole_CLIENT_MUTE :: nat where "DeviceRole_CLIENT_MUTE \<equiv> 1"
abbreviation (input) DeviceRole_CLIENT_BASE :: nat where "DeviceRole_CLIENT_BASE \<equiv> 12"

abbreviation (input) Rebroadcast_ALL :: nat where "Rebroadcast_ALL \<equiv> 0"
abbreviation (input) Rebroadcast_LOCAL_ONLY :: nat where "Rebroadcast_LOCAL_ONLY \<equiv> 2"
abbreviation (input) Rebroadcast_KNOWN_ONLY :: nat where "Rebroadcast_KNOWN_ONLY \<equiv> 3"
abbreviation (input) Rebroadcast_NONE :: nat where "Rebroadcast_NONE \<equiv> 4"
abbreviation (input) Rebroadcast_CORE_PORTNUMS_ONLY :: nat where "Rebroadcast_CORE_PORTNUMS_ONLY \<equiv> 5"

section \<open>Build-time configuration\<close>

text \<open>The Kconfig symbols the modelled code reads.\<close>

record kconfig =
  DUP_CACHE_SIZE :: nat
  DEFAULT_HOP_LIMIT :: u8
  TX_POWER :: int
  NODE_LONG_NAME :: string
  NODE_SHORT_NAME :: string
  NODE_ID_CUSTOM :: bool
  NODE_ID_DEFAULT :: u32
  OUTBOUND_QUEUE_DEPTH :: nat
  RX_QUEUE_DEPTH :: nat
  TX_BUSY_RETRIES :: nat
  TX_BUSY_BACKOFF_MIN_MS :: nat
  TX_BUSY_BACKOFF_MAX_MS :: nat
  AIRTIME :: bool
  NODEDB :: bool
  NODEDB_MAX_NODES :: nat
  RELIABLE :: bool
  RELIABLE_MAX_PENDING :: nat
  RELIABLE_RETRANSMISSIONS :: nat
  RELIABLE_RETRY_INTERVAL_MS :: nat
  RELIABLE_RETRY_JITTER_MS :: nat
  PHONEAPI :: bool
  SETTINGS :: bool
  BLE :: bool
  BLE_FIXED_PASSKEY :: bool
  BLE_PASSKEY :: u32
  SERIAL :: bool
  GNSS :: bool
  MQTT :: bool
  MQTT_IGNORE_MQTT :: bool
  MQTT_UPLINK_ENABLED :: bool
  MQTT_DOWNLINK_ENABLED :: bool
  MQTT_ENCRYPTION_ENABLED :: bool
  MQTT_MAP_REPORT :: bool
  MQTT_PUBLISH_QUEUE_SIZE :: nat
  MQTT_TX_BUFFER_SIZE :: nat
  MQTT_BROKER_HOST :: string
  MQTT_USERNAME :: string
  MQTT_PASSWORD :: string
  MQTT_ROOT :: string
  MQTT_MAP_REPORT_INTERVAL_SEC :: u32
  MQTT_MAP_REPORT_POSITION_PRECISION :: u32

text \<open>The ranges the Kconfig files impose.\<close>

definition kconfig_ok :: "kconfig \<Rightarrow> bool" where
  "kconfig_ok k \<longleftrightarrow>
     4 \<le> DUP_CACHE_SIZE k \<and> DUP_CACHE_SIZE k \<le> 64 \<and>
     1 \<le> DEFAULT_HOP_LIMIT k \<and> DEFAULT_HOP_LIMIT k \<le> 7 \<and>
     2 \<le> OUTBOUND_QUEUE_DEPTH k \<and> OUTBOUND_QUEUE_DEPTH k \<le> 32 \<and>
     2 \<le> RX_QUEUE_DEPTH k \<and> RX_QUEUE_DEPTH k \<le> 16 \<and>
     TX_BUSY_RETRIES k \<le> 32 \<and>
     1 \<le> NODEDB_MAX_NODES k \<and> NODEDB_MAX_NODES k \<le> 256 \<and>
     1 \<le> RELIABLE_MAX_PENDING k \<and> RELIABLE_MAX_PENDING k \<le> 16 \<and>
     RELIABLE_RETRANSMISSIONS k \<le> 8 \<and>
     1000 \<le> RELIABLE_RETRY_INTERVAL_MS k \<and> RELIABLE_RETRY_INTERVAL_MS k \<le> 120000 \<and>
     RELIABLE_RETRY_JITTER_MS k \<le> 30000 \<and>
     4 \<le> MQTT_PUBLISH_QUEUE_SIZE k \<and> MQTT_PUBLISH_QUEUE_SIZE k \<le> 64 \<and>
     256 \<le> MQTT_TX_BUFFER_SIZE k \<and> MQTT_TX_BUFFER_SIZE k \<le> 4096"

text \<open>The defaults of the Kconfig files, for a build with every modelled feature enabled.\<close>

definition default_kconfig :: kconfig where
  "default_kconfig = \<lparr>
     DUP_CACHE_SIZE = 16, DEFAULT_HOP_LIMIT = 3, TX_POWER = 17,
     NODE_LONG_NAME = ''Zephyr Meshtastic'', NODE_SHORT_NAME = ''ZEPH'',
     NODE_ID_CUSTOM = True, NODE_ID_DEFAULT = 0xDEADBEEF,
     OUTBOUND_QUEUE_DEPTH = 8, RX_QUEUE_DEPTH = 4,
     TX_BUSY_RETRIES = 6, TX_BUSY_BACKOFF_MIN_MS = 8, TX_BUSY_BACKOFF_MAX_MS = 40,
     AIRTIME = True, NODEDB = True, NODEDB_MAX_NODES = 16,
     RELIABLE = True, RELIABLE_MAX_PENDING = 3, RELIABLE_RETRANSMISSIONS = 3,
     RELIABLE_RETRY_INTERVAL_MS = 12000, RELIABLE_RETRY_JITTER_MS = 3000,
     PHONEAPI = True, SETTINGS = True, BLE = False, BLE_FIXED_PASSKEY = False, BLE_PASSKEY = 0,
     SERIAL = True, GNSS = False,
     MQTT = True, MQTT_IGNORE_MQTT = False, MQTT_UPLINK_ENABLED = True,
     MQTT_DOWNLINK_ENABLED = True, MQTT_ENCRYPTION_ENABLED = True, MQTT_MAP_REPORT = False,
     MQTT_PUBLISH_QUEUE_SIZE = 32, MQTT_TX_BUFFER_SIZE = 1024,
     MQTT_BROKER_HOST = ''mqtt.meshtastic.org'', MQTT_USERNAME = ''meshdev'',
     MQTT_PASSWORD = ''large4cats'', MQTT_ROOT = ''msh/EU_868'',
     MQTT_MAP_REPORT_INTERVAL_SEC = 900, MQTT_MAP_REPORT_POSITION_PRECISION = 14\<rparr>"

lemma kconfig_ok_default: "kconfig_ok default_kconfig"
  by (simp add: kconfig_ok_def default_kconfig_def)

section \<open>Packets and protobuf messages\<close>

text \<open>
  \<^verbatim>\<open>struct meshtastic_packet\<close>. A \<open>NULL\<close> payload pointer is \<open>None\<close>; the length is a field of
  its own, as in C, and a reader takes that many bytes.
\<close>

record packet =
  p_from :: u32
  p_to :: u32
  p_id :: u32
  p_portnum :: u32
  p_payload :: "bytes option"
  p_payload_len :: nat
  p_data_dest :: u32
  p_data_source :: u32
  p_request_id :: u32
  p_reply_id :: u32
  p_hop_limit :: u8
  p_hop_start :: u8
  p_channel :: u8
  p_channel_index :: u8
  p_next_hop :: u8
  p_relay_node :: u8
  p_want_ack :: bool
  p_via_mqtt :: bool
  p_want_response :: bool
  p_rssi :: int
  p_snr :: int

definition packet_zero :: packet where
  "packet_zero = \<lparr>p_from = 0, p_to = 0, p_id = 0, p_portnum = 0, p_payload = None, p_payload_len = 0,
     p_data_dest = 0, p_data_source = 0, p_request_id = 0, p_reply_id = 0, p_hop_limit = 0,
     p_hop_start = 0, p_channel = 0, p_channel_index = 0, p_next_hop = 0, p_relay_node = 0,
     p_want_ack = False, p_via_mqtt = False, p_want_response = False, p_rssi = 0, p_snr = 0\<rparr>"

text \<open>The payload bytes a packet describes.\<close>

definition payload_bytes :: "packet \<Rightarrow> bytes" where
  "payload_bytes p = (case p_payload p of None \<Rightarrow> [] | Some bs \<Rightarrow> take (p_payload_len p) bs)"

text \<open>\<^verbatim>\<open>meshtastic_Data\<close>: the fields the stack sets; the payload array carries its own size.\<close>

record data =
  d_portnum :: u32
  d_payload :: bytes
  d_want_response :: bool
  d_dest :: u32
  d_source :: u32
  d_request_id :: u32
  d_reply_id :: u32

definition data_zero :: data where
  "data_zero = \<lparr>d_portnum = 0, d_payload = [], d_want_response = False, d_dest = 0, d_source = 0,
     d_request_id = 0, d_reply_id = 0\<rparr>"

text \<open>
  The \<open>payload_variant\<close> union of \<^verbatim>\<open>meshtastic_MeshPacket\<close>. With neither tag set the code still
  reads the union as an encrypted byte array, so that case carries those bytes.
\<close>

datatype payload_variant = Untagged bytes | Decoded data | Encrypted bytes

datatype transport = TRANSPORT_INTERNAL | TRANSPORT_LORA | TRANSPORT_MQTT

record mesh_packet =
  m_from :: u32
  m_to :: u32
  m_channel :: u8
  m_id :: u32
  m_rx_snr :: int
  m_rx_rssi :: int
  m_hop_limit :: u8
  m_hop_start :: u8
  m_want_ack :: bool
  m_via_mqtt :: bool
  m_next_hop :: u8
  m_relay_node :: u8
  m_transport :: transport
  m_priority_ack :: bool
  m_variant :: payload_variant

definition mesh_zero :: mesh_packet where
  "mesh_zero = \<lparr>m_from = 0, m_to = 0, m_channel = 0, m_id = 0, m_rx_snr = 0, m_rx_rssi = 0,
     m_hop_limit = 0, m_hop_start = 0, m_want_ack = False, m_via_mqtt = False, m_next_hop = 0,
     m_relay_node = 0, m_transport = TRANSPORT_INTERNAL, m_priority_ack = False,
     m_variant = Untagged []\<rparr>"

definition encrypted_view :: "payload_variant \<Rightarrow> bytes" where
  "encrypted_view v = (case v of Untagged bs \<Rightarrow> bs | Encrypted bs \<Rightarrow> bs | Decoded _ \<Rightarrow> [])"

record user =
  u_id :: string
  u_long_name :: string
  u_short_name :: string
  u_macaddr :: bytes
  u_hw_model :: nat
  u_role :: nat
  u_is_licensed :: bool
  u_has_is_unmessagable :: bool
  u_is_unmessagable :: bool
  u_public_key :: bytes

text \<open>An optional protobuf field: \<^verbatim>\<open>has_x\<close> and \<^verbatim>\<open>x\<close>.\<close>

type_synonym 'a opt_field = "bool \<times> 'a"

record position =
  pos_latitude_i :: "int opt_field"
  pos_longitude_i :: "int opt_field"
  pos_altitude :: "int opt_field"
  pos_time :: u32
  pos_location_source :: nat
  pos_precision_bits :: u32

record device_metrics =
  dm_battery_level :: "u32 opt_field"
  dm_voltage :: "f32 opt_field"
  dm_channel_utilization :: "f32 opt_field"
  dm_air_util_tx :: "f32 opt_field"
  dm_uptime_seconds :: "u32 opt_field"

record environment_metrics =
  em_temperature :: "f32 opt_field"
  em_relative_humidity :: "f32 opt_field"
  em_barometric_pressure :: "f32 opt_field"
  em_gas_resistance :: "f32 opt_field"
  em_voltage :: "f32 opt_field"
  em_current :: "f32 opt_field"
  em_iaq :: "u16 opt_field"
  em_distance :: "f32 opt_field"
  em_lux :: "f32 opt_field"
  em_white_lux :: "f32 opt_field"
  em_ir_lux :: "f32 opt_field"
  em_uv_lux :: "f32 opt_field"
  em_wind_direction :: "u16 opt_field"
  em_wind_speed :: "f32 opt_field"
  em_weight :: "f32 opt_field"
  em_wind_gust :: "f32 opt_field"
  em_wind_lull :: "f32 opt_field"
  em_radiation :: "f32 opt_field"
  em_rainfall_1h :: "f32 opt_field"
  em_rainfall_24h :: "f32 opt_field"
  em_soil_moisture :: "u8 opt_field"
  em_soil_temperature :: "f32 opt_field"
  em_one_wire_temperature :: "f32 list"

datatype telemetry =
    Telemetry_none
  | Telemetry_device_metrics device_metrics
  | Telemetry_environment_metrics environment_metrics
  | Telemetry_other nat

text \<open>\<^verbatim>\<open>meshtastic_Routing\<close>: either the \<open>error_reason\<close> variant or another one.\<close>

datatype routing = Routing_error_reason nat | Routing_other nat

section \<open>The nanopb codec\<close>

text \<open>
  \<^verbatim>\<open>pb_encode\<close> writes a message into a buffer of a given size and fails when it does not fit;
  \<^verbatim>\<open>pb_decode\<close> reads a message from a byte string. Both are outside the repository.
\<close>

record nanopb =
  enc_Data :: "data \<Rightarrow> bytes option"
  dec_Data :: "bytes \<Rightarrow> data option"
  enc_Routing :: "routing \<Rightarrow> bytes option"
  dec_Routing :: "bytes \<Rightarrow> routing option"
  enc_User :: "user \<Rightarrow> bytes option"
  dec_User :: "bytes \<Rightarrow> user option"
  dec_Position :: "bytes \<Rightarrow> position option"
  dec_Telemetry :: "bytes \<Rightarrow> telemetry option"
  dec_StatusMessage :: "bytes \<Rightarrow> string option"

definition pb_encode :: "('m \<Rightarrow> bytes option) \<Rightarrow> nat \<Rightarrow> 'm \<Rightarrow> bytes option" where
  "pb_encode enc n m = (case enc m of None \<Rightarrow> None | Some bs \<Rightarrow> if length bs \<le> n then Some bs else None)"

lemma pb_encode_Some: "pb_encode enc n m = Some bs \<longleftrightarrow> enc m = Some bs \<and> length bs \<le> n"
  by (auto simp: pb_encode_def split: option.splits)

text \<open>What the stack relies on: decoding what was encoded gives the message back.\<close>

definition pb_roundtrip :: "('m \<Rightarrow> bytes option) \<Rightarrow> (bytes \<Rightarrow> 'm option) \<Rightarrow> bool" where
  "pb_roundtrip enc dec \<longleftrightarrow> (\<forall>m bs. enc m = Some bs \<longrightarrow> dec bs = Some m)"

section \<open>Events and the stack context\<close>

datatype event_type =
    EVENT_PACKET_RECEIVED | EVENT_TEXT_MESSAGE | EVENT_TX_DONE | EVENT_TX_FAILED
  | EVENT_BLE_CONNECTED | EVENT_BLE_DISCONNECTED | EVENT_GNSS_FIX | EVENT_METRICS_ERROR
  | EVENT_TX_ACKED | EVENT_TX_NO_ACK

text \<open>What the application observes: receive callbacks and stack events.\<close>

datatype effect =
    RecvCb packet
  | Event event_type "errno option" "packet option"

record status =
  s_initialized :: bool
  s_ble_connected :: bool
  s_node_id :: u32
  s_tx_packets :: u32
  s_tx_failures :: u32
  s_rx_packets :: u32
  s_relayed_packets :: u32
  s_duplicate_packets :: u32
  s_decode_failures :: u32
  s_rx_dropped :: u32
  s_rx_rearm_failures :: u32
  s_last_rx_from :: u32
  s_last_rssi :: int
  s_last_snr :: int

definition status_zero :: status where
  "status_zero = \<lparr>s_initialized = False, s_ble_connected = False, s_node_id = 0, s_tx_packets = 0,
     s_tx_failures = 0, s_rx_packets = 0, s_relayed_packets = 0, s_duplicate_packets = 0,
     s_decode_failures = 0, s_rx_dropped = 0, s_rx_rearm_failures = 0, s_last_rx_from = 0,
     s_last_rssi = 0, s_last_snr = 0\<rparr>"

text \<open>
  \<^verbatim>\<open>struct meshtastic_context\<close>. A callback pointer is the question whether it is set; what the
  callbacks are told is collected, newest last, in \<open>mt_log\<close>, which the code does not have.
\<close>

record mt_context =
  mt_lora_ready :: bool
  mt_node_id :: u32
  mt_ch_hash :: u8
  mt_hop_limit :: u8
  mt_tx_power :: int
  mt_frequency :: u32
  mt_channel_name :: string
  mt_long_name :: string
  mt_short_name :: string
  mt_recv_cb :: bool
  mt_event_cb :: bool
  mt_next_pkt_id :: u32
  mt_next_fromradio_id :: u32
  mt_dup_cache :: "(u32 \<times> u32) list"
  mt_dup_head :: nat
  mt_status :: status
  mt_initialized :: bool
  mt_radio_rx_armed :: bool
  mt_log :: "effect list"

definition emit_event :: "event_type \<Rightarrow> errno option \<Rightarrow> packet option \<Rightarrow> mt_context \<Rightarrow> mt_context" where
  "emit_event ty err pkt c =
     (if mt_event_cb c then c\<lparr>mt_log := mt_log c @ [Event ty err pkt]\<rparr> else c)"

definition allocate_packet_id :: "mt_context \<Rightarrow> u32 \<times> mt_context" where
  "allocate_packet_id c =
     (let id = mt_next_pkt_id c; c = c\<lparr>mt_next_pkt_id := id + 1\<rparr>
      in if id = 0
         then (mt_next_pkt_id c, c\<lparr>mt_next_pkt_id := mt_next_pkt_id c + 1\<rparr>)
         else (id, c))"

definition next_fromradio_id :: "mt_context \<Rightarrow> u32 \<times> mt_context" where
  "next_fromradio_id c =
     (let id = mt_next_fromradio_id c; c = c\<lparr>mt_next_fromradio_id := id + 1\<rparr>
      in if id = 0
         then (mt_next_fromradio_id c, c\<lparr>mt_next_fromradio_id := mt_next_fromradio_id c + 1\<rparr>)
         else (id, c))"

lemma allocate_packet_id_nonzero: "fst (allocate_packet_id c) \<noteq> 0"
  by (simp add: allocate_packet_id_def Let_def)

lemma next_fromradio_id_nonzero: "fst (next_fromradio_id c) \<noteq> 0"
  by (simp add: next_fromradio_id_def Let_def)

end
