(* ===== verification/NodeDB.thy ===== *)
theory NodeDB
  imports Types
begin

text \<open>
  The in-RAM node database of \<^verbatim>\<open>src/meshtastic_nodedb.c\<close>: a fixed array of entries filled in
  order of first contact, one per node number, where the entry that was heard least
  recently, never the local one, makes room for a new node once the array is full. The
  mutex is not modelled: every operation takes it for its whole body.
\<close>

section \<open>Entries\<close>

record node_info_lite =
  n_num :: u32
  n_long_name :: string
  n_short_name :: string
  n_hw_model :: u8
  n_role :: u8
  n_public_key :: bytes
  n_bitfield :: u32
  n_last_heard :: u32
  n_snr :: int
  n_channel :: u8
  n_next_hop :: u8
  n_has_hops_away :: bool
  n_hops_away :: u8

definition node_info_lite_zero :: node_info_lite where
  "node_info_lite_zero = \<lparr>n_num = 0, n_long_name = [], n_short_name = [], n_hw_model = 0, n_role = 0,
     n_public_key = [], n_bitfield = 0, n_last_heard = 0, n_snr = 0, n_channel = 0, n_next_hop = 0,
     n_has_hops_away = False, n_hops_away = 0\<rparr>"

record position_lite =
  pl_latitude_i :: int
  pl_longitude_i :: int
  pl_altitude :: int
  pl_time :: u32
  pl_location_source :: nat
  pl_precision_bits :: u32

definition position_lite_zero :: position_lite where
  "position_lite_zero = \<lparr>pl_latitude_i = 0, pl_longitude_i = 0, pl_altitude = 0, pl_time = 0,
     pl_location_source = 0, pl_precision_bits = 0\<rparr>"

definition device_metrics_zero :: device_metrics where
  "device_metrics_zero = \<lparr>dm_battery_level = (False, 0), dm_voltage = (False, 0),
     dm_channel_utilization = (False, 0), dm_air_util_tx = (False, 0), dm_uptime_seconds = (False, 0)\<rparr>"

definition environment_metrics_zero :: environment_metrics where
  "environment_metrics_zero = \<lparr>em_temperature = (False, 0), em_relative_humidity = (False, 0),
     em_barometric_pressure = (False, 0), em_gas_resistance = (False, 0), em_voltage = (False, 0),
     em_current = (False, 0), em_iaq = (False, 0), em_distance = (False, 0), em_lux = (False, 0),
     em_white_lux = (False, 0), em_ir_lux = (False, 0), em_uv_lux = (False, 0),
     em_wind_direction = (False, 0), em_wind_speed = (False, 0), em_weight = (False, 0),
     em_wind_gust = (False, 0), em_wind_lull = (False, 0), em_radiation = (False, 0),
     em_rainfall_1h = (False, 0), em_rainfall_24h = (False, 0), em_soil_moisture = (False, 0),
     em_soil_temperature = (False, 0), em_one_wire_temperature = []\<rparr>"

record nodedb_entry =
  e_used :: bool
  e_node :: node_info_lite
  e_has_position :: bool
  e_position :: position_lite
  e_has_device_metrics :: bool
  e_device_metrics :: device_metrics
  e_has_environment_metrics :: bool
  e_environment_metrics :: environment_metrics
  e_has_status :: bool
  e_status :: string

definition entry_zero :: nodedb_entry where
  "entry_zero = \<lparr>e_used = False, e_node = node_info_lite_zero, e_has_position = False,
     e_position = position_lite_zero, e_has_device_metrics = False,
     e_device_metrics = device_metrics_zero, e_has_environment_metrics = False,
     e_environment_metrics = environment_metrics_zero, e_has_status = False, e_status = []\<rparr>"

record nodedb =
  nd_entries :: "nodedb_entry list"
  nd_count :: nat

abbreviation entry_num :: "nodedb_entry \<Rightarrow> u32" where
  "entry_num e \<equiv> n_num (e_node e)"

section \<open>Operations\<close>

definition uptime_seconds :: "int \<Rightarrow> u32" where
  "uptime_seconds now_ms = word_of_int (now_ms div 1000)"

definition write_bit :: "u32 \<Rightarrow> nat \<Rightarrow> bool \<Rightarrow> u32" where
  "write_bit w n b = (if b then set_bit n w else unset_bit n w)"

abbreviation (input) VIA_MQTT_BIT :: nat where "VIA_MQTT_BIT \<equiv> 2"
abbreviation (input) HAS_USER_BIT :: nat where "HAS_USER_BIT \<equiv> 5"
abbreviation (input) IS_LICENSED_BIT :: nat where "IS_LICENSED_BIT \<equiv> 6"
abbreviation (input) IS_UNMESSAGABLE_BIT :: nat where "IS_UNMESSAGABLE_BIT \<equiv> 7"
abbreviation (input) HAS_IS_UNMESSAGABLE_BIT :: nat where "HAS_IS_UNMESSAGABLE_BIT \<equiv> 8"

definition apply_user :: "user \<Rightarrow> nodedb_entry \<Rightarrow> nodedb_entry" where
  "apply_user u e =
     (let n = (e_node e)\<lparr>n_long_name := strn 25 (u_long_name u), n_short_name := strn 5 (u_short_name u),
           n_hw_model := of_nat (u_hw_model u), n_role := of_nat (u_role u),
           n_public_key := take (min (length (u_public_key u)) 32) (u_public_key u)\<rparr>;
          b = write_bit (n_bitfield n) HAS_USER_BIT True;
          b = write_bit b IS_LICENSED_BIT (u_is_licensed u);
          b = write_bit b HAS_IS_UNMESSAGABLE_BIT (u_has_is_unmessagable u);
          b = write_bit b IS_UNMESSAGABLE_BIT (u_has_is_unmessagable u \<and> u_is_unmessagable u)
      in e\<lparr>e_node := n\<lparr>n_bitfield := b\<rparr>\<rparr>)"

definition opt_int :: "int opt_field \<Rightarrow> int" where
  "opt_int f = (if fst f then snd f else 0)"

definition apply_position :: "position \<Rightarrow> nodedb_entry \<Rightarrow> nodedb_entry" where
  "apply_position p e = e\<lparr>e_has_position := True,
     e_position := \<lparr>pl_latitude_i = opt_int (pos_latitude_i p), pl_longitude_i = opt_int (pos_longitude_i p),
       pl_altitude = opt_int (pos_altitude p), pl_time = pos_time p,
       pl_location_source = pos_location_source p, pl_precision_bits = pos_precision_bits p\<rparr>\<rparr>"

definition find_entry :: "nodedb \<Rightarrow> u32 \<Rightarrow> nat option" where
  "find_entry db num = find_index (\<lambda>e. e_used e \<and> entry_num e = num) (take (nd_count db) (nd_entries db))"

text \<open>The scan for the oldest entry: \<open>oldest\<close> starts at \<open>UINT32_MAX\<close>, no index is \<open>SIZE_MAX\<close>.\<close>

fun oldest_scan :: "u32 \<Rightarrow> nat \<Rightarrow> nodedb_entry list \<Rightarrow> u32 \<Rightarrow> nat option \<Rightarrow> nat option" where
  "oldest_scan local i [] oldest best = best"
| "oldest_scan local i (e # es) oldest best =
     (if \<not> e_used e \<or> entry_num e = local then oldest_scan local (Suc i) es oldest best
      else if n_last_heard (e_node e) < oldest
      then oldest_scan local (Suc i) es (n_last_heard (e_node e)) (Some i)
      else oldest_scan local (Suc i) es oldest best)"

definition oldest_evictable_index :: "u32 \<Rightarrow> nodedb \<Rightarrow> nat option" where
  "oldest_evictable_index local db =
     oldest_scan local 0 (take (nd_count db) (nd_entries db)) 0xFFFFFFFF None"

definition fresh_entry :: "u32 \<Rightarrow> nodedb_entry" where
  "fresh_entry num = entry_zero\<lparr>e_used := True, e_node := node_info_lite_zero\<lparr>n_num := num\<rparr>\<rparr>"

definition get_or_create_entry :: "u32 \<Rightarrow> u32 \<Rightarrow> nodedb \<Rightarrow> nat option \<times> nodedb" where
  "get_or_create_entry local num db =
     (if num = 0 then (None, db)
      else case find_entry db num of
        Some i \<Rightarrow> (Some i, db)
      | None \<Rightarrow>
          if nd_count db < length (nd_entries db)
          then (Some (nd_count db),
                db\<lparr>nd_entries := (nd_entries db)[nd_count db := fresh_entry num], nd_count := nd_count db + 1\<rparr>)
          else case oldest_evictable_index local db of
              None \<Rightarrow> (None, db)
            | Some i \<Rightarrow> (Some i, db\<lparr>nd_entries := (nd_entries db)[i := fresh_entry num]\<rparr>))"

definition decode_payload :: "(bytes \<Rightarrow> 'm option) \<Rightarrow> packet \<Rightarrow> 'm option" where
  "decode_payload dec p =
     (if p_payload p = None \<or> p_payload_len p = 0 then None else dec (payload_bytes p))"

definition packet_hops_away :: "packet \<Rightarrow> u8 option" where
  "packet_hops_away p =
     (if p_hop_start p = 0 \<or> p_hop_start p < p_hop_limit p then None
      else Some (p_hop_start p - p_hop_limit p))"

definition apply_basic_packet :: "packet \<Rightarrow> u32 \<Rightarrow> nodedb_entry \<Rightarrow> nodedb_entry" where
  "apply_basic_packet p now_sec e =
     (let n = (e_node e)\<lparr>n_last_heard := now_sec, n_snr := p_snr p,
           n_channel := (if p_channel_index p \<noteq> CHANNEL_INDEX_INVALID then p_channel_index p else 0),
           n_next_hop := p_next_hop p,
           n_bitfield := write_bit (n_bitfield (e_node e)) VIA_MQTT_BIT (p_via_mqtt p)\<rparr>;
          n = (case packet_hops_away p of None \<Rightarrow> n
               | Some h \<Rightarrow> n\<lparr>n_has_hops_away := True, n_hops_away := h\<rparr>)
      in e\<lparr>e_node := n\<rparr>)"

definition apply_telemetry :: "telemetry \<Rightarrow> nodedb_entry \<Rightarrow> nodedb_entry" where
  "apply_telemetry t e =
     (case t of
        Telemetry_device_metrics dm \<Rightarrow> e\<lparr>e_has_device_metrics := True, e_device_metrics := dm\<rparr>
      | Telemetry_environment_metrics em \<Rightarrow>
          e\<lparr>e_has_environment_metrics := True, e_environment_metrics := em\<rparr>
      | _ \<Rightarrow> e)"

text \<open>What one packet does to the entry of its sender, after the payload has been decoded.\<close>

definition update_entry :: "nanopb \<Rightarrow> packet \<Rightarrow> u32 \<Rightarrow> nodedb_entry \<Rightarrow> nodedb_entry" where
  "update_entry pb p now_sec e =
     (let port = p_portnum p;
          usr = (if port = PORT_NODEINFO then decode_payload (dec_User pb) p else None);
          pos = (if port = PORT_POSITION \<and> \<not> p_want_response p then decode_payload (dec_Position pb) p else None);
          tel = (if port = PORT_TELEMETRY then decode_payload (dec_Telemetry pb) p else None);
          sta = (if port = PORT_NODE_STATUS then decode_payload (dec_StatusMessage pb) p else None);
          e = apply_basic_packet p now_sec e;
          e = (case usr of None \<Rightarrow> e | Some u \<Rightarrow> apply_user u e);
          e = (case pos of None \<Rightarrow> e | Some q \<Rightarrow> apply_position q e);
          e = (case tel of None \<Rightarrow> e | Some t \<Rightarrow> apply_telemetry t e)
      in (case sta of None \<Rightarrow> e | Some s \<Rightarrow> e\<lparr>e_has_status := True, e_status := s\<rparr>))"

definition module_nodedb_on_packet :: "nanopb \<Rightarrow> u32 \<Rightarrow> int \<Rightarrow> packet \<Rightarrow> nodedb \<Rightarrow> nodedb" where
  "module_nodedb_on_packet pb local now_ms p db =
     (if p_from p = 0 \<or> p_from p = local then db
      else case get_or_create_entry local (p_from p) db of
        (None, db') \<Rightarrow> db'
      | (Some i, db') \<Rightarrow>
          db'\<lparr>nd_entries := (nd_entries db')[i := update_entry pb p (uptime_seconds now_ms) (nd_entries db' ! i)]\<rparr>)"

section \<open>Snapshots\<close>

record nodedb_node =
  nn_num :: u32
  nn_last_heard_uptime_sec :: u32
  nn_snr :: int
  nn_channel :: u8
  nn_next_hop :: u8
  nn_via_mqtt :: bool
  nn_has_hops_away :: bool
  nn_hops_away :: u8
  nn_has_user :: bool
  nn_long_name :: string
  nn_short_name :: string
  nn_hw_model :: u8
  nn_role :: u8
  nn_is_licensed :: bool
  nn_has_is_unmessagable :: bool
  nn_is_unmessagable :: bool
  nn_public_key :: bytes
  nn_has_position :: bool
  nn_position :: position_lite
  nn_has_device_metrics :: bool
  nn_device_metrics :: device_metrics
  nn_has_environment_metrics :: bool
  nn_environment_metrics :: environment_metrics
  nn_has_status :: bool
  nn_status :: string

definition copy_device_metrics :: "device_metrics \<Rightarrow> device_metrics" where
  "copy_device_metrics s = \<lparr>dm_battery_level = dm_battery_level s, dm_voltage = dm_voltage s,
     dm_channel_utilization = dm_channel_utilization s, dm_air_util_tx = dm_air_util_tx s,
     dm_uptime_seconds = dm_uptime_seconds s\<rparr>"

definition copy_environment_metrics :: "environment_metrics \<Rightarrow> environment_metrics" where
  "copy_environment_metrics s = \<lparr>em_temperature = em_temperature s,
     em_relative_humidity = em_relative_humidity s, em_barometric_pressure = em_barometric_pressure s,
     em_gas_resistance = em_gas_resistance s, em_voltage = em_voltage s, em_current = em_current s,
     em_iaq = em_iaq s, em_distance = em_distance s, em_lux = em_lux s, em_white_lux = em_white_lux s,
     em_ir_lux = em_ir_lux s, em_uv_lux = em_uv_lux s, em_wind_direction = em_wind_direction s,
     em_wind_speed = em_wind_speed s, em_weight = em_weight s, em_wind_gust = em_wind_gust s,
     em_wind_lull = em_wind_lull s, em_radiation = em_radiation s, em_rainfall_1h = em_rainfall_1h s,
     em_rainfall_24h = em_rainfall_24h s, em_soil_moisture = em_soil_moisture s,
     em_soil_temperature = em_soil_temperature s,
     em_one_wire_temperature = take (min (length (em_one_wire_temperature s)) 8) (em_one_wire_temperature s)\<rparr>"

definition fill_snapshot :: "nodedb_entry \<Rightarrow> nodedb_node" where
  "fill_snapshot e =
     (let n = e_node e in
      \<lparr>nn_num = n_num n, nn_last_heard_uptime_sec = n_last_heard n, nn_snr = n_snr n,
       nn_channel = n_channel n, nn_next_hop = n_next_hop n,
       nn_via_mqtt = bit (n_bitfield n) VIA_MQTT_BIT,
       nn_has_hops_away = n_has_hops_away n, nn_hops_away = n_hops_away n,
       nn_has_user = bit (n_bitfield n) HAS_USER_BIT,
       nn_long_name = strn 25 (n_long_name n), nn_short_name = strn 5 (n_short_name n),
       nn_hw_model = n_hw_model n, nn_role = n_role n,
       nn_is_licensed = bit (n_bitfield n) IS_LICENSED_BIT,
       nn_has_is_unmessagable = bit (n_bitfield n) HAS_IS_UNMESSAGABLE_BIT,
       nn_is_unmessagable = bit (n_bitfield n) IS_UNMESSAGABLE_BIT,
       nn_public_key = take (min (length (n_public_key n)) 32) (n_public_key n),
       nn_has_position = e_has_position e,
       nn_position = (if e_has_position e
          then (e_position e)\<lparr>pl_location_source := u8_cast (pl_location_source (e_position e))\<rparr>
          else position_lite_zero),
       nn_has_device_metrics = e_has_device_metrics e,
       nn_device_metrics = (if e_has_device_metrics e then copy_device_metrics (e_device_metrics e)
          else device_metrics_zero),
       nn_has_environment_metrics = e_has_environment_metrics e,
       nn_environment_metrics = (if e_has_environment_metrics e
          then copy_environment_metrics (e_environment_metrics e) else environment_metrics_zero),
       nn_has_status = e_has_status e,
       nn_status = (if e_has_status e then strn 80 (e_status e) else [])\<rparr>)"

definition nodedb_count :: "nodedb \<Rightarrow> nat" where
  "nodedb_count db = nd_count db"

definition nodedb_get :: "nodedb \<Rightarrow> u32 \<Rightarrow> nodedb_node res" where
  "nodedb_get db num =
     (case find_entry db num of None \<Rightarrow> Inl ENOENT | Some i \<Rightarrow> Inr (fill_snapshot (nd_entries db ! i)))"

definition nodedb_get_by_index :: "nodedb \<Rightarrow> nat \<Rightarrow> nodedb_node res" where
  "nodedb_get_by_index db i =
     (if nd_count db \<le> i \<or> \<not> e_used (nd_entries db ! i) then Inl ENOENT
      else Inr (fill_snapshot (nd_entries db ! i)))"

definition nodedb_init :: "kconfig \<Rightarrow> u32 \<Rightarrow> user \<Rightarrow> int \<Rightarrow> unit res \<times> nodedb" where
  "nodedb_init k local usr now_ms =
     (case get_or_create_entry local local
            \<lparr>nd_entries = replicate (NODEDB_MAX_NODES k) entry_zero, nd_count = 0\<rparr> of
        (None, db) \<Rightarrow> (Inl ENOMEM, db)
      | (Some i, db) \<Rightarrow>
          (ok, db\<lparr>nd_entries := (nd_entries db)[i :=
             (let e = nd_entries db ! i
              in apply_user usr (e\<lparr>e_node := (e_node e)\<lparr>n_last_heard := uptime_seconds now_ms\<rparr>\<rparr>))]\<rparr>))"

section \<open>The invariant\<close>

abbreviation live :: "nodedb \<Rightarrow> nodedb_entry list" where
  "live db \<equiv> take (nd_count db) (nd_entries db)"

text \<open>The live entries are in use, carry non-zero node numbers, and no number occurs twice.\<close>

definition nodedb_inv :: "nodedb \<Rightarrow> bool" where
  "nodedb_inv db \<longleftrightarrow> nd_count db \<le> length (nd_entries db) \<and>
     (\<forall>e\<in>set (live db). e_used e \<and> entry_num e \<noteq> 0) \<and> distinct (map entry_num (live db))"

lemma nodedb_invD:
  assumes "nodedb_inv db" "i < nd_count db"
  shows "e_used (nd_entries db ! i)" "entry_num (nd_entries db ! i) \<noteq> 0" "i < length (nd_entries db)"
proof -
  from assms have len: "i < length (live db)" by (simp add: nodedb_inv_def)
  then have "live db ! i \<in> set (live db)" by (rule nth_mem)
  with assms show "e_used (nd_entries db ! i)" "entry_num (nd_entries db ! i) \<noteq> 0"
    by (auto simp: nodedb_inv_def)
  from assms show "i < length (nd_entries db)" by (simp add: nodedb_inv_def)
qed

lemma live_mem: "nodedb_inv db \<Longrightarrow> j < nd_count db \<Longrightarrow> nd_entries db ! j \<in> set (live db)"
  using nth_mem [of j "live db"] by (simp add: nodedb_inv_def)

lemma nodedb_inv_inj:
  assumes "nodedb_inv db" "i < nd_count db" "j < nd_count db"
    and "entry_num (nd_entries db ! i) = entry_num (nd_entries db ! j)"
  shows "i = j"
  using assms nth_eq_iff_index_eq [of "map entry_num (live db)" i j]
  by (auto simp: nodedb_inv_def)

lemma find_entry_iff:
  assumes "nodedb_inv db"
  shows "find_entry db num = Some i \<longleftrightarrow> i < nd_count db \<and> entry_num (nd_entries db ! i) = num"
proof
  assume "find_entry db num = Some i"
  then show "i < nd_count db \<and> entry_num (nd_entries db ! i) = num"
    unfolding find_entry_def by (auto dest!: find_index_SomeD)
next
  assume r: "i < nd_count db \<and> entry_num (nd_entries db ! i) = num"
  with assms have m: "nd_entries db ! i \<in> set (live db)"
    "e_used (nd_entries db ! i) \<and> entry_num (nd_entries db ! i) = num"
    using nodedb_invD(1) [OF assms, of i] live_mem [OF assms, of i] by simp_all
  obtain j where j: "find_entry db num = Some j"
    unfolding find_entry_def
    using find_index_mem [OF m(1), where P = "\<lambda>e. e_used e \<and> entry_num e = num"] m(2) by auto
  then have "j < nd_count db \<and> entry_num (nd_entries db ! j) = num"
    unfolding find_entry_def by (auto dest!: find_index_SomeD)
  with r nodedb_inv_inj [OF assms, of j i] have "j = i" by simp
  with j show "find_entry db num = Some i" by simp
qed

lemma find_entry_None_iff:
  assumes "nodedb_inv db"
  shows "find_entry db num = None \<longleftrightarrow> num \<notin> entry_num ` set (live db)"
  using assms by (auto simp: find_entry_def find_index_None nodedb_inv_def)

lemma nodedb_inv_update:
  assumes inv: "nodedb_inv db" and i: "i < nd_count db" and e: "e_used e" "entry_num e \<noteq> 0"
    and fresh: "\<And>j. j < nd_count db \<Longrightarrow> j \<noteq> i \<Longrightarrow> entry_num (nd_entries db ! j) \<noteq> entry_num e"
  shows "nodedb_inv (db\<lparr>nd_entries := (nd_entries db)[i := e]\<rparr>)"
proof -
  let ?l = "live db"
  have len: "length ?l = nd_count db" using inv by (simp add: nodedb_inv_def)
  have upd: "take (nd_count db) ((nd_entries db)[i := e]) = ?l[i := e]"
    by (simp add: take_update_swap)
  have "entry_num e \<notin> set (map entry_num ?l) - {map entry_num ?l ! i}"
  proof
    assume a: "entry_num e \<in> set (map entry_num ?l) - {map entry_num ?l ! i}"
    then have "entry_num e \<in> set (map entry_num ?l)" by simp
    then obtain j where "j < length (map entry_num ?l)" "map entry_num ?l ! j = entry_num e"
      unfolding in_set_conv_nth by auto
    with a len i fresh [of j] show False by (cases "j = i") auto
  qed
  then have "distinct ((map entry_num ?l)[i := entry_num e])"
    using inv by (intro distinct_list_update) (simp_all only: nodedb_inv_def simp_thms)
  moreover have "\<forall>x\<in>set (?l[i := e]). e_used x \<and> entry_num x \<noteq> 0"
    using inv e set_update_subset_insert [of ?l i e] by (auto simp: nodedb_inv_def)
  ultimately show ?thesis using inv by (simp add: nodedb_inv_def upd map_update)
qed

lemma nodedb_inv_append:
  assumes inv: "nodedb_inv db" and room: "nd_count db < length (nd_entries db)"
    and e: "e_used e" "entry_num e \<noteq> 0" "entry_num e \<notin> entry_num ` set (live db)"
  shows "nodedb_inv (db\<lparr>nd_entries := (nd_entries db)[nd_count db := e], nd_count := Suc (nd_count db)\<rparr>)"
proof -
  have "take (Suc (nd_count db)) ((nd_entries db)[nd_count db := e]) = live db @ [e]"
    using room by (simp add: take_Suc_conv_app_nth)
  with inv room e show ?thesis by (auto simp: nodedb_inv_def)
qed

section \<open>Eviction\<close>

lemma oldest_scan_cases:
  "oldest_scan local i es oldest best = Some j \<Longrightarrow>
     best = Some j \<or>
     (i \<le> j \<and> j - i < length es \<and> e_used (es ! (j - i)) \<and> entry_num (es ! (j - i)) \<noteq> local \<and>
      n_last_heard (e_node (es ! (j - i))) < oldest)"
proof (induction local i es oldest best rule: oldest_scan.induct)
  case (1 local i oldest best)
  then show ?case by simp
next
  case (2 local i e es oldest best)
  have step: "P ((e # es) ! (j - i))" if "Suc i \<le> j" "P (es ! (j - Suc i))" for P
    using that by (metis Suc_diff_Suc Suc_le_lessD nth_Cons_Suc)
  show ?case
  proof (cases "e_used e \<and> entry_num e \<noteq> local \<and> n_last_heard (e_node e) < oldest")
    case True
    with 2 show ?thesis
      using step [of "\<lambda>x. e_used x \<and> entry_num x \<noteq> local \<and> n_last_heard (e_node x) < oldest"]
      by (auto simp: less_diff_conv2)
  next
    case False
    with 2 show ?thesis
      using step [of "\<lambda>x. e_used x \<and> entry_num x \<noteq> local \<and> n_last_heard (e_node x) < oldest"]
      by (auto split: if_splits)
  qed
qed

lemma oldest_scan_minimal:
  "oldest_scan local i es oldest best = Some j \<Longrightarrow>
     (best = Some j \<and> (\<forall>e\<in>set es. e_used e \<and> entry_num e \<noteq> local \<longrightarrow> oldest \<le> n_last_heard (e_node e))) \<or>
     (i \<le> j \<and> j - i < length es \<and> n_last_heard (e_node (es ! (j - i))) < oldest \<and>
      (\<forall>e\<in>set es. e_used e \<and> entry_num e \<noteq> local \<longrightarrow>
         n_last_heard (e_node (es ! (j - i))) \<le> n_last_heard (e_node e)))"
proof (induction local i es oldest best rule: oldest_scan.induct)
  case (1 local i oldest best)
  then show ?case by simp
next
  case (2 local i e es oldest best)
  have nth: "(e # es) ! (j - i) = es ! (j - Suc i)" if "Suc i \<le> j"
    using that by (metis Suc_diff_Suc Suc_le_lessD nth_Cons_Suc)
  have len: "j - i < length (e # es)" if "Suc i \<le> j" "j - Suc i < length es"
    using that by simp
  show ?case
  proof (cases "\<not> e_used e \<or> entry_num e = local")
    case True
    with 2 have IH: "best = Some j \<and> (\<forall>x\<in>set es. e_used x \<and> entry_num x \<noteq> local \<longrightarrow> oldest \<le> n_last_heard (e_node x)) \<or>
        (Suc i \<le> j \<and> j - Suc i < length es \<and> n_last_heard (e_node (es ! (j - Suc i))) < oldest \<and>
         (\<forall>x\<in>set es. e_used x \<and> entry_num x \<noteq> local \<longrightarrow> n_last_heard (e_node (es ! (j - Suc i))) \<le> n_last_heard (e_node x)))"
      by simp
    with True show ?thesis using nth len by auto
  next
    case el: False
    show ?thesis
    proof (cases "n_last_heard (e_node e) < oldest")
      case True
      with 2 el have IH: "(i = j \<and> (\<forall>x\<in>set es. e_used x \<and> entry_num x \<noteq> local \<longrightarrow> n_last_heard (e_node e) \<le> n_last_heard (e_node x))) \<or>
          (Suc i \<le> j \<and> j - Suc i < length es \<and> n_last_heard (e_node (es ! (j - Suc i))) < n_last_heard (e_node e) \<and>
           (\<forall>x\<in>set es. e_used x \<and> entry_num x \<noteq> local \<longrightarrow> n_last_heard (e_node (es ! (j - Suc i))) \<le> n_last_heard (e_node x)))"
        by simp
      with True show ?thesis using nth len by (auto intro: less_imp_le less_trans)
    next
      case False
      with 2 el have IH: "best = Some j \<and> (\<forall>x\<in>set es. e_used x \<and> entry_num x \<noteq> local \<longrightarrow> oldest \<le> n_last_heard (e_node x)) \<or>
          (Suc i \<le> j \<and> j - Suc i < length es \<and> n_last_heard (e_node (es ! (j - Suc i))) < oldest \<and>
           (\<forall>x\<in>set es. e_used x \<and> entry_num x \<noteq> local \<longrightarrow> n_last_heard (e_node (es ! (j - Suc i))) \<le> n_last_heard (e_node x)))"
        by simp
      with False show ?thesis using nth len by (auto simp: not_less)
    qed
  qed
qed

lemma oldest_scan_None:
  "oldest_scan local i es oldest None = None \<longleftrightarrow>
     (\<forall>e\<in>set es. e_used e \<and> entry_num e \<noteq> local \<longrightarrow> oldest \<le> n_last_heard (e_node e))"
proof (induction es arbitrary: i)
  case Nil
  then show ?case by simp
next
  case (Cons e es)
  have some: "oldest_scan local k xs o' (Some b) \<noteq> None" for k xs o' b
    by (induction xs arbitrary: k o' b) auto
  from Cons show ?case by (auto simp: some not_less)
qed

lemma oldest_evictable_indexD:
  assumes "nodedb_inv db" "oldest_evictable_index local db = Some i"
  shows "i < nd_count db" "entry_num (nd_entries db ! i) \<noteq> local"
    "\<forall>j<nd_count db. entry_num (nd_entries db ! j) \<noteq> local \<longrightarrow>
       n_last_heard (e_node (nd_entries db ! i)) \<le> n_last_heard (e_node (nd_entries db ! j))"
proof -
  note c = oldest_scan_cases [OF assms(2) [unfolded oldest_evictable_index_def]]
  note m = oldest_scan_minimal [OF assms(2) [unfolded oldest_evictable_index_def]]
  from c show "i < nd_count db" "entry_num (nd_entries db ! i) \<noteq> local" by auto
  show "\<forall>j<nd_count db. entry_num (nd_entries db ! j) \<noteq> local \<longrightarrow>
      n_last_heard (e_node (nd_entries db ! i)) \<le> n_last_heard (e_node (nd_entries db ! j))"
  proof (intro allI impI)
    fix j assume j: "j < nd_count db" "entry_num (nd_entries db ! j) \<noteq> local"
    then have "nd_entries db ! j \<in> set (live db)" "e_used (nd_entries db ! j)"
      using nodedb_invD [OF assms(1), of j] live_mem [OF assms(1)] by auto
    with m j c show "n_last_heard (e_node (nd_entries db ! i)) \<le> n_last_heard (e_node (nd_entries db ! j))"
      by auto
  qed
qed

section \<open>Lookups after updates\<close>

lemma fresh_entry_simps [simp]:
  "e_used (fresh_entry num)" "entry_num (fresh_entry num) = num"
  by (simp_all add: fresh_entry_def)

lemma update_entry_simps [simp]:
  "e_used (update_entry pb p t e) = e_used e"
  "entry_num (update_entry pb p t e) = entry_num e"
  by (auto simp: update_entry_def apply_basic_packet_def apply_user_def apply_position_def
      apply_telemetry_def Let_def split: option.splits telemetry.splits)

lemma update_entry_last_heard [simp]:
  "n_last_heard (e_node (update_entry pb p t e)) = t"
  by (auto simp: update_entry_def apply_basic_packet_def apply_user_def apply_position_def
      apply_telemetry_def Let_def split: option.splits telemetry.splits)

lemma update_entry_channel [simp]:
  "n_channel (e_node (update_entry pb p t e))
     = (if p_channel_index p \<noteq> CHANNEL_INDEX_INVALID then p_channel_index p else 0)"
  by (auto simp: update_entry_def apply_basic_packet_def apply_user_def apply_position_def
      apply_telemetry_def Let_def split: option.splits telemetry.splits)

text \<open>All that a client needs of \<open>get_or_create_entry\<close>.\<close>

lemma get_or_create_entry_spec:
  assumes inv: "nodedb_inv db" and res: "get_or_create_entry local num db = (Some i, db')"
  shows "nodedb_inv db' \<and> i < nd_count db' \<and> entry_num (nd_entries db' ! i) = num \<and>
    length (nd_entries db') = length (nd_entries db) \<and> nd_count db \<le> nd_count db' \<and>
    (\<forall>j<nd_count db. j \<noteq> i \<longrightarrow> nd_entries db' ! j = nd_entries db ! j) \<and>
    (i < nd_count db \<longrightarrow> entry_num (nd_entries db ! i) = num \<or> entry_num (nd_entries db ! i) \<noteq> local)"
proof (cases "find_entry db num")
  case (Some k)
  with res have "i = k" "db' = db" by (auto simp: get_or_create_entry_def split: if_splits)
  with Some inv show ?thesis by (simp add: find_entry_iff)
next
  case None
  then have fresh: "num \<notin> entry_num ` set (live db)" by (simp add: find_entry_None_iff inv)
  have nz: "num \<noteq> 0" using res by (auto simp: get_or_create_entry_def split: if_splits)
  show ?thesis
  proof (cases "nd_count db < length (nd_entries db)")
    case True
    with res None nz have "i = nd_count db"
      "db' = db\<lparr>nd_entries := (nd_entries db)[nd_count db := fresh_entry num], nd_count := Suc (nd_count db)\<rparr>"
      by (auto simp: get_or_create_entry_def)
    with True nz fresh inv show ?thesis
      using nodedb_inv_append [of db "fresh_entry num"] by auto
  next
    case False
    with res None nz obtain k where k: "oldest_evictable_index local db = Some k"
      "i = k" "db' = db\<lparr>nd_entries := (nd_entries db)[k := fresh_entry num]\<rparr>"
      by (auto simp: get_or_create_entry_def split: option.splits)
    note kk = oldest_evictable_indexD [OF inv k(1)]
    have "entry_num (nd_entries db ! j) \<noteq> num" if "j < nd_count db" for j
      using fresh that inv nth_mem [of j "live db"] by (auto simp: nodedb_inv_def)
    then have "nodedb_inv db'"
      unfolding k(3) using kk nz by (intro nodedb_inv_update [OF inv]) auto
    with k kk nodedb_invD [OF inv kk(1)] show ?thesis by auto
  qed
qed

lemma nodedb_inv_get_or_create:
  assumes "nodedb_inv db"
  shows "nodedb_inv (snd (get_or_create_entry local num db))"
proof (cases "fst (get_or_create_entry local num db)")
  case None
  with assms show ?thesis
    by (auto simp: get_or_create_entry_def split: option.splits if_splits)
next
  case (Some i)
  with get_or_create_entry_spec [OF assms, of local num i] show ?thesis
    by (metis prod.collapse)
qed

text \<open>The shape of \<open>module_nodedb_on_packet\<close>: unchanged, or one slot rewritten.\<close>

lemma on_packet_cases:
  assumes inv: "nodedb_inv db"
  obtains (same) "module_nodedb_on_packet pb local now p db = db"
      "p_from p = 0 \<or> p_from p = local \<or>
       (p_from p \<notin> entry_num ` set (live db) \<and> nd_count db = length (nd_entries db) \<and>
        oldest_evictable_index local db = None)"
    | (upd) i db' where "p_from p \<noteq> 0" "p_from p \<noteq> local"
      "get_or_create_entry local (p_from p) db = (Some i, db')"
      "module_nodedb_on_packet pb local now p db = db'\<lparr>nd_entries :=
         (nd_entries db')[i := update_entry pb p (uptime_seconds now) (nd_entries db' ! i)]\<rparr>"
proof (cases "p_from p = 0 \<or> p_from p = local")
  case True
  then show ?thesis by (intro that(1)) (auto simp: module_nodedb_on_packet_def)
next
  case False
  show ?thesis
  proof (cases "get_or_create_entry local (p_from p) db")
    case (Pair r db')
    show ?thesis
    proof (cases r)
      case None
      with Pair False inv have "db' = db" "p_from p \<notin> entry_num ` set (live db)"
        "nd_count db = length (nd_entries db)" "oldest_evictable_index local db = None"
        by (auto simp: get_or_create_entry_def nodedb_inv_def find_entry_None_iff [OF inv]
            split: option.splits if_splits)
      with Pair None False that(1) show ?thesis by (simp add: module_nodedb_on_packet_def)
    next
      case (Some i)
      with Pair False that(2) show ?thesis by (simp add: module_nodedb_on_packet_def)
    qed
  qed
qed

lemma nodedb_inv_on_packet [inv_intros]:
  assumes inv: "nodedb_inv db"
  shows "nodedb_inv (module_nodedb_on_packet pb local now p db)"
  using inv
proof (cases rule: on_packet_cases [of db pb local now p])
  case same
  with inv show ?thesis by simp
next
  case (upd i db')
  note g = get_or_create_entry_spec [OF inv upd(3)]
  show ?thesis
    unfolding upd(4)
  proof (rule nodedb_inv_update)
    fix j assume j: "j < nd_count db'" "j \<noteq> i"
    then show "entry_num (nd_entries db' ! j) \<noteq> entry_num (update_entry pb p (uptime_seconds now) (nd_entries db' ! i))"
      using g nodedb_inv_inj [of db' j i] by auto
  qed (use g upd nodedb_invD [of db' i] in auto)
qed

lemma fill_snapshot_simps [simp]:
  "nn_num (fill_snapshot e) = entry_num e"
  "nn_last_heard_uptime_sec (fill_snapshot e) = n_last_heard (e_node e)"
  "nn_channel (fill_snapshot e) = n_channel (e_node e)"
  by (simp_all add: fill_snapshot_def Let_def)

lemma nodedb_get_iff:
  assumes "nodedb_inv db"
  shows "nodedb_get db num = Inr n \<longleftrightarrow>
    (\<exists>i<nd_count db. entry_num (nd_entries db ! i) = num \<and> n = fill_snapshot (nd_entries db ! i))"
proof -
  have "nodedb_get db num = Inr n \<longleftrightarrow> (\<exists>i. find_entry db num = Some i \<and> n = fill_snapshot (nd_entries db ! i))"
    by (auto simp: nodedb_get_def split: option.splits)
  then show ?thesis by (simp add: find_entry_iff [OF assms] conj_assoc)
qed

lemma nodedb_get_None_iff:
  assumes "nodedb_inv db"
  shows "nodedb_get db num = Inl ENOENT \<longleftrightarrow> num \<notin> entry_num ` set (live db)"
  using find_entry_None_iff [OF assms, of num] by (auto simp: nodedb_get_def split: option.splits)

lemma nodedb_get_error: "nodedb_get db num = Inl e \<Longrightarrow> e = ENOENT"
  by (auto simp: nodedb_get_def split: option.splits)

text \<open>The entry of the sender after a packet was recorded.\<close>

lemma on_packet_sender:
  assumes inv: "nodedb_inv db" and goc: "get_or_create_entry local (p_from p) db = (Some i, db')"
  shows "nodedb_get (db'\<lparr>nd_entries := (nd_entries db')[i := update_entry pb p t (nd_entries db' ! i)]\<rparr>) (p_from p)
    = Inr (fill_snapshot (update_entry pb p t (nd_entries db' ! i)))"
proof -
  let ?u = "update_entry pb p t (nd_entries db' ! i)"
  let ?d = "db'\<lparr>nd_entries := (nd_entries db')[i := ?u]\<rparr>"
  note g = get_or_create_entry_spec [OF inv goc]
  have il: "i < length (nd_entries db')" "e_used (nd_entries db' ! i)"
    "entry_num (nd_entries db' ! i) \<noteq> 0"
    using g nodedb_invD [of db' i] by auto
  have "entry_num (nd_entries db' ! j) \<noteq> entry_num ?u" if "j < nd_count db'" "j \<noteq> i" for j
    using that g nodedb_inv_inj [of db' j i] by auto
  then have "nodedb_inv ?d" using g il by (intro nodedb_inv_update) auto
  then show ?thesis using g il by (subst nodedb_get_iff) auto
qed

section \<open>The contract the rest of the stack uses\<close>

text \<open>
  The channel table and the router ask only whether a node is known and on which channel it
  was heard. \<open>peer_directory\<close> is that interface: hearing a packet keeps the invariant and
  never forgets the local node.
\<close>

locale peer_directory =
  fixes inv :: "'db \<Rightarrow> bool"
    and known :: "'db \<Rightarrow> u32 \<Rightarrow> bool"
    and hear :: "int \<times> packet \<Rightarrow> 'db \<Rightarrow> 'db"
    and self :: u32
  assumes inv_hear: "inv db \<Longrightarrow> inv (hear tp db)"
    and known_self_hear: "inv db \<Longrightarrow> known db self \<Longrightarrow> known (hear tp db) self"
begin

lemma inv_hear_all: "inv db \<Longrightarrow> inv (fold hear tps db)"
  by (induction tps arbitrary: db) (auto intro: inv_hear)

lemma known_self_hear_all: "inv db \<Longrightarrow> known db self \<Longrightarrow> known (fold hear tps db) self"
  by (induction tps arbitrary: db) (auto intro: inv_hear known_self_hear)

end

lemma on_packet_keeps:
  assumes inv: "nodedb_inv db" and get: "nodedb_get db num = Inr n" and other: "num \<noteq> p_from p"
  shows "nodedb_get (module_nodedb_on_packet pb local now p db) num = Inr n \<or>
    num \<noteq> local \<and> nd_count db = length (nd_entries db) \<and> nodedb_get db (p_from p) = Inl ENOENT \<and>
    (\<forall>m n'. nodedb_get db m = Inr n' \<longrightarrow> m \<noteq> local \<longrightarrow>
       nn_last_heard_uptime_sec n \<le> nn_last_heard_uptime_sec n')"
  using inv
proof (cases rule: on_packet_cases [of db pb local now p])
  case same
  with get show ?thesis by simp
next
  case (upd i db')
  note g = get_or_create_entry_spec [OF inv upd(3)]
  have inv': "nodedb_inv (module_nodedb_on_packet pb local now p db)"
    by (rule nodedb_inv_on_packet [OF inv])
  from get obtain j where j: "j < nd_count db" "entry_num (nd_entries db ! j) = num"
    "n = fill_snapshot (nd_entries db ! j)"
    by (auto simp: nodedb_get_iff [OF inv])
  show ?thesis
  proof (cases "j = i")
    case False
    then have "nd_entries db' ! j = nd_entries db ! j" "j < nd_count db'" using g j by auto
    then have "nodedb_get (module_nodedb_on_packet pb local now p db) num = Inr n"
      using j False by (subst nodedb_get_iff [OF inv']) (auto simp: upd(4) intro!: exI [of _ j])
    then show ?thesis ..
  next
    case True
    note goc = upd(3) [unfolded get_or_create_entry_def]
    have new: "find_entry db (p_from p) = None"
    proof (cases "find_entry db (p_from p)")
      case (Some k)
      with goc upd(1) have "k = i" by simp
      with Some find_entry_iff [OF inv] True j other show ?thesis by auto
    qed
    have full: "nd_count db = length (nd_entries db)"
      using goc upd(1) new True j inv by (auto simp: nodedb_inv_def split: if_splits)
    then have ev: "oldest_evictable_index local db = Some j"
      using goc upd(1) new True by (simp split: option.splits)
    note m = oldest_evictable_indexD [OF inv ev]
    have "nodedb_get db (p_from p) = Inl ENOENT" using new by (simp add: nodedb_get_def)
    with full m j show ?thesis by (auto simp: nodedb_get_iff [OF inv])
  qed
qed

interpretation nodedb: peer_directory nodedb_inv "\<lambda>db num. \<exists>n. nodedb_get db num = Inr n"
  "\<lambda>(now, p). module_nodedb_on_packet pb local now p" local for pb local
proof unfold_locales
  fix db :: nodedb and tp :: "int \<times> packet"
  assume inv: "nodedb_inv db"
  then show "nodedb_inv ((case tp of (now, p) \<Rightarrow> module_nodedb_on_packet pb local now p) db)"
    by (cases tp) (simp add: nodedb_inv_on_packet)
  assume known: "\<exists>n. nodedb_get db local = Inr n"
  show "\<exists>n. nodedb_get ((case tp of (now, p) \<Rightarrow> module_nodedb_on_packet pb local now p) db) local = Inr n"
  proof (cases tp)
    case (Pair now p)
    with known inv on_packet_keeps [of db local _ p pb local now] show ?thesis
      by (cases "p_from p = local") (auto simp: module_nodedb_on_packet_def)
  qed
qed

section \<open>Properties\<close>

text \<open>
  a packet from another node is always recorded when its sender is already known, when
  there is a free slot, or when some entry other than the local one can be evicted. The
  lookup then returns the sender with the time of this packet, and the channel it came on.
\<close>

theorem nodedb_records_sender:
  assumes "nodedb_inv db" and "p_from p \<noteq> 0" and "p_from p \<noteq> local"
    and "nodedb_get db (p_from p) \<noteq> Inl ENOENT \<or> nd_count db < length (nd_entries db) \<or>
      oldest_evictable_index local db \<noteq> None"
  shows "\<exists>n. nodedb_get (module_nodedb_on_packet pb local now p db) (p_from p) = Inr n \<and>
    nn_num n = p_from p \<and> nn_last_heard_uptime_sec n = uptime_seconds now \<and>
    nn_channel n = (if p_channel_index p \<noteq> 0xFF then p_channel_index p else 0)"
  using assms(1)
proof (cases rule: on_packet_cases [of db pb local now p])
  case same
  with assms show ?thesis by (auto simp: nodedb_get_None_iff)
next
  case (upd i db')
  note g = get_or_create_entry_spec [OF assms(1) upd(3)]
  show ?thesis
    unfolding upd(4) on_packet_sender [OF assms(1) upd(3)] using g by simp
qed

text \<open>
  C32: recording a packet changes no other node, unless the table is full and the sender is
  new: then at most one other node is dropped, it is never the local node, and it is one
  that was heard least recently.
\<close>

theorem nodedb_eviction_policy:
  assumes "nodedb_inv db" and "nodedb_get db num = Inr n" and "num \<noteq> p_from p"
  shows "nodedb_get (module_nodedb_on_packet pb local now p db) num = Inr n \<or>
    num \<noteq> local \<and> nd_count db = length (nd_entries db) \<and> nodedb_get db (p_from p) = Inl ENOENT \<and>
    (\<forall>m n'. nodedb_get db m = Inr n' \<longrightarrow> m \<noteq> local \<longrightarrow>
       nn_last_heard_uptime_sec n \<le> nn_last_heard_uptime_sec n')"
  using assms by (rule on_packet_keeps)

lemma nodedb_init_ok:
  assumes "kconfig_ok k" "local \<noteq> 0"
  shows "fst (nodedb_init k local usr t) = ok \<and> nodedb_inv (snd (nodedb_init k local usr t)) \<and>
    (\<exists>n. nodedb_get (snd (nodedb_init k local usr t)) local = Inr n)"
proof -
  let ?d0 = "\<lparr>nd_entries = replicate (NODEDB_MAX_NODES k) entry_zero, nd_count = 0\<rparr>"
  have pos: "0 < NODEDB_MAX_NODES k" using assms by (simp add: kconfig_ok_def)
  have inv0: "nodedb_inv ?d0" by (simp add: nodedb_inv_def)
  let ?e = "apply_user usr ((fresh_entry local)\<lparr>e_node := (e_node (fresh_entry local))\<lparr>n_last_heard := uptime_seconds t\<rparr>\<rparr>)"
  have init: "nodedb_init k local usr t =
      (ok, \<lparr>nd_entries = (replicate (NODEDB_MAX_NODES k) entry_zero)[0 := ?e], nd_count = 1\<rparr>)"
    using pos assms by (simp add: nodedb_init_def get_or_create_entry_def find_entry_def Let_def)
  have e: "e_used ?e" "entry_num ?e = local" by (simp_all add: apply_user_def Let_def)
  have inv: "nodedb_inv (snd (nodedb_init k local usr t))"
    using nodedb_inv_append [OF inv0, of ?e] pos e assms by (simp add: init)
  then show ?thesis
    using pos e by (simp add: init nodedb_get_iff)
qed

text \<open>
  after initialisation the local node is in the database, and it stays there whatever
  sequence of packets is heard.
\<close>

theorem nodedb_local_node_stays:
  assumes "kconfig_ok k" and "local \<noteq> 0"
  shows "\<exists>n. nodedb_get (fold (\<lambda>(now, p). module_nodedb_on_packet pb local now p) tps
      (snd (nodedb_init k local usr t0))) local = Inr n"
  using nodedb_init_ok [OF assms, of usr t0]
  by (intro nodedb.known_self_hear_all) auto

end
