(* ===== verification/Channels.thy ===== *)
theory Channels
  imports NodeDB
begin

text \<open>
  The channel table of \<^verbatim>\<open>src/meshtastic_channels.c\<close>: eight slots, their cached one-byte wire
  hashes, the index of the primary slot, and the device role and rebroadcast mode that
  decide on relaying. Indices are natural numbers; callers convert from \<^verbatim>\<open>uint8_t\<close>.

  \<^verbatim>\<open>channel_get_key\<close> calls itself on the primary slot when a secondary slot has no key. Nothing
  in the code rules out that the primary slot is itself such a slot, so the function is
  partial: \<open>None\<close> is a call that does not return. Every operation that computes a key or a
  hash inherits that.
\<close>

section \<open>Slots\<close>

record channel_settings =
  cs_channel_num :: u32
  cs_psk :: bytes
  cs_name :: string
  cs_id :: u32
  cs_uplink_enabled :: bool
  cs_downlink_enabled :: bool
  cs_has_module_settings :: bool
  cs_position_precision :: u32
  cs_is_muted :: bool

record channel =
  ch_index :: nat
  ch_has_settings :: bool
  ch_settings :: channel_settings
  ch_role :: nat

definition settings_zero :: channel_settings where
  "settings_zero = \<lparr>cs_channel_num = 0, cs_psk = [], cs_name = [], cs_id = 0, cs_uplink_enabled = False,
     cs_downlink_enabled = False, cs_has_module_settings = False, cs_position_precision = 0, cs_is_muted = False\<rparr>"

definition channel_zero :: channel where
  "channel_zero = \<lparr>ch_index = 0, ch_has_settings = False, ch_settings = settings_zero, ch_role = 0\<rparr>"

record channels =
  ct_slots :: "channel list"
  ct_hashes :: bytes
  ct_primary_index :: nat
  ct_device_role :: nat
  ct_rebroadcast_mode :: nat

text \<open>\<^verbatim>\<open>struct meshtastic_channel_key\<close>: a 32-byte array and an effective length.\<close>

record channel_key =
  k_bytes :: bytes
  k_len :: nat

definition default_psk :: bytes where
  "default_psk = [0xd4, 0xf1, 0xbb, 0x3a, 0x20, 0x29, 0x07, 0x59,
     0xf0, 0xbc, 0xff, 0xab, 0xcf, 0x4e, 0x69, 0x01]"

lemma length_default_psk [simp]: "length default_psk = 16"
  by (simp add: default_psk_def)

abbreviation slot :: "channels \<Rightarrow> nat \<Rightarrow> channel" where
  "slot t i \<equiv> ct_slots t ! i"

section \<open>Keys and hashes\<close>

definition xor_hash_bytes :: "bytes \<Rightarrow> u8" where
  "xor_hash_bytes bs = fold (\<lambda>b code. code XOR b) bs 0"

definition channel_key_invalid :: "channel_key \<Rightarrow> bool" where
  "channel_key_invalid key \<longleftrightarrow> k_len key = 0"

definition expand_short_psk :: "u8 \<Rightarrow> channel_key \<Rightarrow> channel_key" where
  "expand_short_psk psk_index key =
     (let bs = default_psk @ drop 16 (k_bytes key);
          bs = (if 1 < psk_index then bs[15 := bs ! 15 + (psk_index - 1)] else bs)
      in key\<lparr>k_bytes := bs, k_len := 16\<rparr>)"

text \<open>The padding rules at the end of \<^verbatim>\<open>channel_get_key\<close>.\<close>

definition pad_key :: "channel_key \<Rightarrow> channel_key" where
  "pad_key key =
     (if k_len key < 16 then key\<lparr>k_len := 16\<rparr>
      else if 16 < k_len key \<and> k_len key < 32 then key\<lparr>k_len := 32\<rparr>
      else key)"

definition load_key :: "bytes \<Rightarrow> channel_key" where
  "load_key psk = \<lparr>k_bytes = psk @ replicate (32 - length psk) 0, k_len = length psk\<rparr>"

partial_function (option) channel_get_key :: "channels \<Rightarrow> nat \<Rightarrow> channel_key res option" where
  "channel_get_key t index =
     (if MAX_CHANNELS \<le> index then Some (Inl EINVAL)
      else let ch = slot t index in
        if \<not> ch_has_settings ch \<or> ch_role ch = Role_DISABLED then Some (Inl ENOENT)
        else let key = load_key (cs_psk (ch_settings ch)) in
          if k_len key = 0
          then (if ch_role ch = Role_SECONDARY then channel_get_key t (ct_primary_index t)
                else Some (Inr key))
          else if k_len key = 1
          then (let psk_index = k_bytes key ! 0 in
                if psk_index = 0 then Some (Inr (key\<lparr>k_len := 0\<rparr>))
                else Some (Inr (pad_key (expand_short_psk psk_index key))))
          else Some (Inr (pad_key key)))"

declare channel_get_key.simps [code]

definition channels_get_name :: "channels \<Rightarrow> nat \<Rightarrow> string" where
  "channels_get_name t index =
     (if MAX_CHANNELS \<le> index then []
      else let ch = slot t index in
        if \<not> ch_has_settings ch \<or> cs_name (ch_settings ch) = [] then CHANNEL_LONGFAST
        else cs_name (ch_settings ch))"

definition channel_generate_hash :: "channels \<Rightarrow> nat \<Rightarrow> u8 option" where
  "channel_generate_hash t index = do {
     r \<leftarrow> channel_get_key t index;
     Some (case r of
        Inl e \<Rightarrow> 0
      | Inr key \<Rightarrow>
          let h = xor_hash_bytes (cstr_bytes (channels_get_name t index))
          in if \<not> channel_key_invalid key then h XOR xor_hash_bytes (take (k_len key) (k_bytes key)) else h)
   }"

section \<open>Updating slots\<close>

definition set_slot_raw :: "channels \<Rightarrow> nat \<Rightarrow> channel \<Rightarrow> channels" where
  "set_slot_raw t i ch = t\<lparr>ct_slots := (ct_slots t)[i := ch]\<rparr>"

definition fixup_slot :: "nat \<Rightarrow> channel \<Rightarrow> channel" where
  "fixup_slot index ch =
     (let ch = ch\<lparr>ch_index := index\<rparr>;
          ch = (if \<not> ch_has_settings ch
                then ch\<lparr>ch_role := Role_DISABLED, ch_settings := settings_zero, ch_has_settings := True\<rparr>
                else ch)
      in if cs_name (ch_settings ch) = ''Default''
         then ch\<lparr>ch_settings := (ch_settings ch)\<lparr>cs_name := []\<rparr>\<rparr>
         else ch)"

definition channel_fixup :: "nat \<Rightarrow> channels \<Rightarrow> channels option" where
  "channel_fixup index t = do {
     let t' = set_slot_raw t index (fixup_slot index (slot t index));
     h \<leftarrow> channel_generate_hash t' index;
     Some (t'\<lparr>ct_hashes := (ct_hashes t')[index := h]\<rparr>)
   }"

fun demote_loop :: "nat \<Rightarrow> nat list \<Rightarrow> channels \<Rightarrow> channels option" where
  "demote_loop index [] t = Some t"
| "demote_loop index (i # is) t =
     (if i = index then demote_loop index is t
      else if ch_role (slot t i) = Role_PRIMARY
      then do {
        t' \<leftarrow> channel_fixup i (set_slot_raw t i ((slot t i)\<lparr>ch_role := Role_SECONDARY\<rparr>));
        demote_loop index is t'
      }
      else demote_loop index is t)"

definition demote_other_primary :: "nat \<Rightarrow> channels \<Rightarrow> channels option" where
  "demote_other_primary index t = demote_loop index [0..<MAX_CHANNELS] t"

definition channels_primary_hash :: "channels \<Rightarrow> u8" where
  "channels_primary_hash t = ct_hashes t ! ct_primary_index t"

definition channels_primary_name :: "channels \<Rightarrow> string" where
  "channels_primary_name t = channels_get_name t (ct_primary_index t)"

definition channels_primary_key :: "channels \<Rightarrow> channel_key res option" where
  "channels_primary_key t = channel_get_key t (ct_primary_index t)"

text \<open>\<^verbatim>\<open>mt.ch_hash\<close> and \<^verbatim>\<open>mt.channel_name\<close> follow the primary slot.\<close>

definition refresh_mt :: "channels \<Rightarrow> mt_context \<Rightarrow> mt_context" where
  "refresh_mt t c = c\<lparr>mt_ch_hash := channels_primary_hash t, mt_channel_name := channels_primary_name t\<rparr>"

fun fixup_loop :: "nat list \<Rightarrow> channels \<Rightarrow> channels option" where
  "fixup_loop [] t = Some t"
| "fixup_loop (i # is) t = do {
     t' \<leftarrow> channel_fixup i
       (set_slot_raw t i (channel_zero\<lparr>ch_role := Role_DISABLED, ch_has_settings := True\<rparr>));
     fixup_loop is t'
   }"

definition default_slot0 :: channel where
  "default_slot0 = channel_zero\<lparr>ch_role := Role_PRIMARY, ch_has_settings := True,
     ch_settings := settings_zero\<lparr>cs_name := CHANNEL_LONGFAST, cs_psk := default_psk,
       cs_uplink_enabled := True, cs_downlink_enabled := True,
       cs_has_module_settings := True, cs_position_precision := 13\<rparr>\<rparr>"

definition channels_init_defaults :: "channels \<Rightarrow> channels option" where
  "channels_init_defaults t = do {
     let t = t\<lparr>ct_slots := replicate MAX_CHANNELS channel_zero, ct_hashes := replicate MAX_CHANNELS 0,
               ct_primary_index := 0\<rparr>;
     let t = set_slot_raw t 0 default_slot0;
     t \<leftarrow> fixup_loop [1..<MAX_CHANNELS] t;
     channel_fixup 0 t
   }"

text \<open>The fields of \<^verbatim>\<open>struct meshtastic_config\<close>; a \<open>NULL\<close> pointer is \<open>None\<close>.\<close>

record mconfig =
  cfg_lora_dev :: bool
  cfg_node_id :: u32
  cfg_psk :: "bytes option"
  cfg_psk_len :: nat
  cfg_channel_name :: "string option"
  cfg_frequency :: u32
  cfg_hop_limit :: u8
  cfg_tx_power :: int
  cfg_long_name :: "string option"
  cfg_short_name :: "string option"

definition channels_init_from_config :: "mconfig \<Rightarrow> channels \<times> mt_context \<Rightarrow> (channels \<times> mt_context) option" where
  "channels_init_from_config cfg tc = do {
     t \<leftarrow> channels_init_defaults (fst tc);
     let ch = slot t 0;
     let s = ch_settings ch;
     let s = (case cfg_channel_name cfg of None \<Rightarrow> s | Some n \<Rightarrow> s\<lparr>cs_name := strn 12 n\<rparr>);
     let s = s\<lparr>cs_psk := take (cfg_psk_len cfg) (case cfg_psk cfg of None \<Rightarrow> [] | Some p \<Rightarrow> p)\<rparr>;
     t \<leftarrow> channel_fixup 0 (set_slot_raw t 0 (ch\<lparr>ch_settings := s\<rparr>));
     Some (t, refresh_mt t (snd tc))
   }"

definition channels_set_slot :: "nat \<Rightarrow> channel \<Rightarrow> channels \<times> mt_context \<Rightarrow> (unit res \<times> channels \<times> mt_context) option" where
  "channels_set_slot index ch tc =
     (let (t, c) = tc in
      if MAX_CHANNELS \<le> index then Some (Inl EINVAL, t, c)
      else do {
        let t = set_slot_raw t index (ch\<lparr>ch_index := index\<rparr>);
        t \<leftarrow> (if ch_role ch = Role_PRIMARY
             then demote_other_primary index (t\<lparr>ct_primary_index := index\<rparr>)
             else Some t);
        t \<leftarrow> channel_fixup index t;
        Some (ok, t, if index = ct_primary_index t then refresh_mt t c else c)
      })"

section \<open>Queries\<close>

definition channels_get :: "channels \<Rightarrow> nat \<Rightarrow> channel option" where
  "channels_get t index = (if MAX_CHANNELS \<le> index then None else Some (slot t index))"

definition channels_get_key :: "channels \<Rightarrow> nat \<Rightarrow> channel_key res option" where
  "channels_get_key t index = channel_get_key t index"

definition channels_get_hash :: "channels \<Rightarrow> nat \<Rightarrow> u8" where
  "channels_get_hash t index = (if MAX_CHANNELS \<le> index then 0 else ct_hashes t ! index)"

definition channels_decrypt_for_hash :: "channels \<Rightarrow> nat \<Rightarrow> u8 \<Rightarrow> bool" where
  "channels_decrypt_for_hash t index wire_hash \<longleftrightarrow> index < MAX_CHANNELS \<and> ct_hashes t ! index = wire_hash"

definition slot_enabled :: "channels \<Rightarrow> nat \<Rightarrow> bool" where
  "slot_enabled t index \<longleftrightarrow> index < MAX_CHANNELS \<and> ch_role (slot t index) \<noteq> Role_DISABLED"

definition peer_channel :: "kconfig \<Rightarrow> nodedb \<Rightarrow> channels \<Rightarrow> u32 \<Rightarrow> nat option" where
  "peer_channel k db t dest =
     (if NODEDB k \<and> dest \<noteq> 0 \<and> dest \<noteq> NODE_BROADCAST
      then case nodedb_get db dest of
          Inr node \<Rightarrow> if nn_channel node \<noteq> 0 \<and> slot_enabled t (unat (nn_channel node))
                      then Some (unat (nn_channel node)) else None
        | Inl _ \<Rightarrow> None
      else None)"

definition channels_resolve_send_index :: "kconfig \<Rightarrow> nodedb \<Rightarrow> channels \<Rightarrow> u32 \<Rightarrow> u8 \<Rightarrow> u8 \<Rightarrow> nat" where
  "channels_resolve_send_index k db t dest channel_index wire_hash =
     (if slot_enabled t (unat channel_index) then unat channel_index
      else case (if wire_hash \<noteq> 0
                 then find_index (\<lambda>i. channels_decrypt_for_hash t i wire_hash) [0..<MAX_CHANNELS]
                 else None) of
          Some i \<Rightarrow> i
        | None \<Rightarrow> (case peer_channel k db t dest of Some i \<Rightarrow> i | None \<Rightarrow> ct_primary_index t))"

definition channels_uplink_enabled :: "channels \<Rightarrow> nat \<Rightarrow> bool" where
  "channels_uplink_enabled t index =
     (case channels_get t index of
        None \<Rightarrow> False
      | Some ch \<Rightarrow> ch_role ch \<noteq> Role_DISABLED \<and> ch_has_settings ch \<and> cs_uplink_enabled (ch_settings ch))"

definition channels_downlink_enabled :: "channels \<Rightarrow> nat \<Rightarrow> bool" where
  "channels_downlink_enabled t index =
     (case channels_get t index of
        None \<Rightarrow> False
      | Some ch \<Rightarrow> ch_role ch \<noteq> Role_DISABLED \<and> ch_has_settings ch \<and> cs_downlink_enabled (ch_settings ch))"

definition channels_matches_mqtt_name :: "channels \<Rightarrow> string \<Rightarrow> bool" where
  "channels_matches_mqtt_name t channel_id =
     list_ex (\<lambda>i. ch_role (slot t i) \<noteq> Role_DISABLED \<and> channel_id = channels_get_name t i) [0..<MAX_CHANNELS]"

definition is_rebroadcaster :: "channels \<Rightarrow> bool" where
  "is_rebroadcaster t \<longleftrightarrow>
     ct_device_role t \<noteq> DeviceRole_CLIENT_MUTE \<and> ct_rebroadcast_mode t \<noteq> Rebroadcast_NONE"

definition decode_known_only :: "kconfig \<Rightarrow> nodedb \<Rightarrow> channels \<Rightarrow> u32 \<Rightarrow> bool" where
  "decode_known_only k db t from =
     (if ct_rebroadcast_mode t \<noteq> Rebroadcast_KNOWN_ONLY then True
      else NODEDB k \<and> (case nodedb_get db from of Inr _ \<Rightarrow> True | Inl _ \<Rightarrow> False))"

section \<open>The key lookup: when it returns, and what\<close>

text \<open>A slot that has no key of its own and asks the primary slot for one.\<close>

definition keyless :: "channel \<Rightarrow> bool" where
  "keyless ch \<longleftrightarrow> ch_has_settings ch \<and> ch_role ch = Role_SECONDARY \<and> cs_psk (ch_settings ch) = []"

text \<open>The key of a slot that does not ask the primary slot.\<close>

definition own_key :: "channel \<Rightarrow> channel_key res" where
  "own_key ch =
     (if \<not> ch_has_settings ch \<or> ch_role ch = Role_DISABLED then Inl ENOENT
      else let key = load_key (cs_psk (ch_settings ch)) in
        if k_len key = 0 then Inr key
        else if k_len key = 1
        then if k_bytes key ! 0 = 0 then Inr (key\<lparr>k_len := 0\<rparr>)
             else Inr (pad_key (expand_short_psk (k_bytes key ! 0) key))
        else Inr (pad_key key))"

lemma load_key_simps [simp]:
  "k_len (load_key psk) = length psk"
  "length psk \<le> 32 \<Longrightarrow> length (k_bytes (load_key psk)) = 32"
  by (simp_all add: load_key_def)

lemma get_key_out_of_range: "MAX_CHANNELS \<le> i \<Longrightarrow> channel_get_key t i = Some (Inl EINVAL)"
  by (simp add: channel_get_key.simps)

lemma get_key_own:
  "i < MAX_CHANNELS \<Longrightarrow> \<not> keyless (slot t i) \<Longrightarrow> channel_get_key t i = Some (own_key (slot t i))"
  by (subst channel_get_key.simps) (auto simp: own_key_def keyless_def Let_def)

lemma get_key_inherited:
  "i < MAX_CHANNELS \<Longrightarrow> keyless (slot t i) \<Longrightarrow>
     channel_get_key t i = channel_get_key t (ct_primary_index t)"
  by (subst channel_get_key.simps) (auto simp: keyless_def Let_def)

text \<open>The self-call on a keyless primary slot never returns.\<close>

lemma get_key_loops:
  assumes "ct_primary_index t < MAX_CHANNELS" "keyless (slot t (ct_primary_index t))"
  shows "channel_get_key t (ct_primary_index t) = None"
proof -
  have "\<not> (i = ct_primary_index t \<and> t' = t)" if "channel_get_key t' i = Some r" for t' i r
  proof (rule channel_get_key.raw_induct [where P = "\<lambda>t' i r. \<not> (i = ct_primary_index t \<and> t' = t)", OF _ that])
    fix f :: "channels \<Rightarrow> nat \<Rightarrow> channel_key res option" and t' i r
    assume IH: "\<And>t' i r. f t' i = Some r \<Longrightarrow> \<not> (i = ct_primary_index t \<and> t' = t)"
      and eq: "(if MAX_CHANNELS \<le> i then Some (Inl EINVAL)
        else let ch = slot t' i in
          if \<not> ch_has_settings ch \<or> ch_role ch = Role_DISABLED then Some (Inl ENOENT)
          else let key = load_key (cs_psk (ch_settings ch)) in
            if k_len key = 0
            then (if ch_role ch = Role_SECONDARY then f t' (ct_primary_index t') else Some (Inr key))
            else if k_len key = 1
            then (let psk_index = k_bytes key ! 0 in
                  if psk_index = 0 then Some (Inr (key\<lparr>k_len := 0\<rparr>))
                  else Some (Inr (pad_key (expand_short_psk psk_index key))))
            else Some (Inr (pad_key key))) = Some r"
    show "\<not> (i = ct_primary_index t \<and> t' = t)"
    proof
      assume "i = ct_primary_index t \<and> t' = t"
      with eq assms have "f t (ct_primary_index t) = Some r"
        by (simp add: keyless_def Let_def)
      with IH [of t "ct_primary_index t" r] show False by simp
    qed
  qed
  then show ?thesis by (cases "channel_get_key t (ct_primary_index t)") auto
qed

lemma get_key_cases:
  assumes "ct_primary_index t < MAX_CHANNELS"
  shows "channel_get_key t i =
    (if MAX_CHANNELS \<le> i then Some (Inl EINVAL)
     else if \<not> keyless (slot t i) then Some (own_key (slot t i))
     else if keyless (slot t (ct_primary_index t)) then None
     else Some (own_key (slot t (ct_primary_index t))))"
  using assms get_key_own [of i t] get_key_inherited [of i t] get_key_out_of_range [of i t]
    get_key_loops [of t] get_key_own [of "ct_primary_index t" t]
  by auto

lemma own_key_length:
  assumes "own_key ch = Inr key" "length (cs_psk (ch_settings ch)) \<le> 32"
  shows "k_len key \<in> {0, 16, 32} \<and> length (k_bytes key) = 32"
  using assms
  by (auto simp: own_key_def Let_def pad_key_def expand_short_psk_def load_key_def split: if_splits)

definition own_hash :: "channel \<Rightarrow> u8" where
  "own_hash ch = (case own_key ch of
      Inl e \<Rightarrow> 0
    | Inr key \<Rightarrow>
        let h = xor_hash_bytes (cstr_bytes (if \<not> ch_has_settings ch \<or> cs_name (ch_settings ch) = []
                then CHANNEL_LONGFAST else cs_name (ch_settings ch)))
        in if k_len key \<noteq> 0 then h XOR xor_hash_bytes (take (k_len key) (k_bytes key)) else h)"

lemma generate_hash_own:
  "i < MAX_CHANNELS \<Longrightarrow> \<not> keyless (slot t i) \<Longrightarrow> channel_generate_hash t i = Some (own_hash (slot t i))"
  by (simp add: channel_generate_hash_def get_key_own own_hash_def channel_key_invalid_def
      channels_get_name_def Let_def split: sum.splits)

section \<open>The invariant of the table\<close>

text \<open>
  A slot is settled when its settings are filled in, it carries its own index, and its cached
  hash is the hash of its name and key. A keyless slot is exempt from the last part: its
  hash was computed from the key the primary slot had when the keyless slot was written.
\<close>

definition slot_ok :: "channels \<Rightarrow> nat \<Rightarrow> bool" where
  "slot_ok t i \<longleftrightarrow> ch_has_settings (slot t i) \<and> ch_index (slot t i) = i \<and>
     (\<not> keyless (slot t i) \<longrightarrow> ct_hashes t ! i = own_hash (slot t i))"

definition table_shape :: "channels \<Rightarrow> bool" where
  "table_shape t \<longleftrightarrow> length (ct_slots t) = MAX_CHANNELS \<and> length (ct_hashes t) = MAX_CHANNELS \<and>
     ct_primary_index t < MAX_CHANNELS \<and>
     (\<forall>i<MAX_CHANNELS. length (cs_psk (ch_settings (slot t i))) \<le> 32)"

definition sole_primary :: "channels \<Rightarrow> bool" where
  "sole_primary t \<longleftrightarrow> (\<forall>i<MAX_CHANNELS. ch_role (slot t i) = Role_PRIMARY \<longrightarrow> i = ct_primary_index t)"

definition channels_inv :: "channels \<Rightarrow> bool" where
  "channels_inv t \<longleftrightarrow> table_shape t \<and> sole_primary t \<and> (\<forall>i<MAX_CHANNELS. slot_ok t i)"

lemma fixup_slot_simps [simp]:
  "ch_has_settings (fixup_slot i ch)" "ch_index (fixup_slot i ch) = i"
  by (auto simp: fixup_slot_def Let_def)

lemma fixup_slot_role: "ch_has_settings ch \<Longrightarrow> ch_role (fixup_slot i ch) = ch_role ch"
  by (simp add: fixup_slot_def Let_def)

lemma fixup_slot_role_le: "ch_role (fixup_slot i ch) = Role_PRIMARY \<Longrightarrow> ch_role ch = Role_PRIMARY"
  by (auto simp: fixup_slot_def Let_def split: if_splits)

lemma fixup_slot_psk_le:
  "length (cs_psk (ch_settings ch)) \<le> 32 \<Longrightarrow> length (cs_psk (ch_settings (fixup_slot i ch))) \<le> 32"
  by (auto simp: fixup_slot_def settings_zero_def Let_def)

lemma channel_fixup_spec:
  assumes sh: "table_shape t" and i: "i < MAX_CHANNELS" and fx: "channel_fixup i t = Some t'"
  shows "table_shape t' \<and> slot_ok t' i \<and> slot t' i = fixup_slot i (slot t i) \<and>
    ct_primary_index t' = ct_primary_index t \<and>
    (\<forall>j. j \<noteq> i \<longrightarrow> slot t' j = slot t j \<and> ct_hashes t' ! j = ct_hashes t ! j)"
proof -
  let ?u = "set_slot_raw t i (fixup_slot i (slot t i))"
  from fx obtain h where h: "channel_generate_hash ?u i = Some h"
    and t': "t' = ?u\<lparr>ct_hashes := (ct_hashes ?u)[i := h]\<rparr>"
    by (auto simp: channel_fixup_def Let_def bind_eq_Some_conv)
  have u: "slot ?u i = fixup_slot i (slot t i)"
    using sh i by (simp add: set_slot_raw_def table_shape_def)
  have "h = own_hash (slot ?u i)" if "\<not> keyless (slot ?u i)"
    using generate_hash_own [OF i that] h by simp
  then have "slot_ok t' i"
    using sh i u by (auto simp: slot_ok_def t' set_slot_raw_def table_shape_def)
  moreover have "length (cs_psk (ch_settings (slot t' j))) \<le> 32" if "j < MAX_CHANNELS" for j
    using sh i that fixup_slot_psk_le [of "slot t i" i]
    by (cases "j = i") (auto simp: t' set_slot_raw_def table_shape_def)
  ultimately show ?thesis
    using sh i u by (auto simp: t' set_slot_raw_def table_shape_def)
qed

lemma slot_ok_frame:
  "slot t' j = slot t j \<Longrightarrow> ct_hashes t' ! j = ct_hashes t ! j \<Longrightarrow> slot_ok t' j = slot_ok t j"
  by (simp add: slot_ok_def)

text \<open>The demotion loop settles every slot it touches and leaves no second primary slot.\<close>

lemma demote_loop_spec:
  assumes "table_shape t" "\<forall>i\<in>set is. i < MAX_CHANNELS" "demote_loop index is t = Some t'"
  shows "table_shape t' \<and> ct_primary_index t' = ct_primary_index t \<and>
    slot t' index = slot t index \<and> ct_hashes t' ! index = ct_hashes t ! index \<and>
    (\<forall>j. slot_ok t j \<longrightarrow> slot_ok t' j) \<and>
    (\<forall>j. j < MAX_CHANNELS \<longrightarrow> j \<noteq> index \<longrightarrow> ch_role (slot t' j) = Role_PRIMARY \<longrightarrow>
        ch_role (slot t j) = Role_PRIMARY \<and> j \<notin> set is)"
  using assms
proof (induction "is" arbitrary: t)
  case Nil
  then show ?case by simp
next
  case (Cons i "is")
  show ?case
  proof (cases "i \<noteq> index \<and> ch_role (slot t i) = Role_PRIMARY")
    case False
    with Cons.prems have "demote_loop index is t = Some t'" by (auto split: if_splits)
    with Cons.IH [of t] Cons.prems False show ?thesis by auto
  next
    case True
    let ?d = "set_slot_raw t i ((slot t i)\<lparr>ch_role := Role_SECONDARY\<rparr>)"
    from True Cons.prems obtain u where u: "channel_fixup i ?d = Some u" "demote_loop index is u = Some t'"
      by (auto simp: bind_eq_Some_conv)
    have i: "i < MAX_CHANNELS" using Cons.prems by simp
    have sh: "table_shape ?d"
      using Cons.prems(1) i by (auto simp: table_shape_def set_slot_raw_def nth_list_update)
    note f = channel_fixup_spec [OF sh i u(1)]
    have d: "slot u j = slot t j" "ct_hashes u ! j = ct_hashes t ! j" if "j \<noteq> i" for j
      using that f by (simp_all add: set_slot_raw_def)
    have di: "slot ?d i = (slot t i)\<lparr>ch_role := Role_SECONDARY\<rparr>"
      using Cons.prems(1) i by (simp add: set_slot_raw_def table_shape_def)
    have r: "ch_role (slot u i) \<noteq> Role_PRIMARY"
      using f di fixup_slot_role_le [of i "slot ?d i"] by auto
    have ok: "slot_ok u j" if "slot_ok t j" for j
      using that f d [of j] by (cases "j = i") (simp_all add: slot_ok_def)
    have p: "ct_primary_index u = ct_primary_index t" using f by (simp add: set_slot_raw_def)
    have IH: "table_shape t' \<and> ct_primary_index t' = ct_primary_index u \<and>
      slot t' index = slot u index \<and> ct_hashes t' ! index = ct_hashes u ! index \<and>
      (\<forall>j. slot_ok u j \<longrightarrow> slot_ok t' j) \<and>
      (\<forall>j. j < MAX_CHANNELS \<longrightarrow> j \<noteq> index \<longrightarrow> ch_role (slot t' j) = Role_PRIMARY \<longrightarrow>
          ch_role (slot u j) = Role_PRIMARY \<and> j \<notin> set is)"
      using Cons.IH [OF _ _ u(2)] Cons.prems f by simp
    have "ch_role (slot t j) = Role_PRIMARY \<and> j \<notin> set (i # is)"
      if "j < MAX_CHANNELS" "j \<noteq> index" "ch_role (slot t' j) = Role_PRIMARY" for j
      using IH that r d [of j] by (cases "j = i") auto
    with IH p ok d [of index] True show ?thesis by simp
  qed
qed

lemma set_slot_inv:
  assumes inv: "channels_inv t" and psk: "length (cs_psk (ch_settings ch)) \<le> 32"
    and res: "channels_set_slot index ch (t, c) = Some (r, t', c')"
  shows "channels_inv t'"
proof (cases "index < MAX_CHANNELS")
  case False
  with res inv show ?thesis by (simp add: channels_set_slot_def)
next
  case idx: True
  let ?u = "set_slot_raw t index (ch\<lparr>ch_index := index\<rparr>)"
  let ?p = "if ch_role ch = Role_PRIMARY then index else ct_primary_index t"
  from res idx obtain v where
    v: "(if ch_role ch = Role_PRIMARY then demote_other_primary index (?u\<lparr>ct_primary_index := index\<rparr>)
         else Some ?u) = Some v"
    and t': "channel_fixup index v = Some t'"
    by (auto simp: channels_set_slot_def Let_def bind_eq_Some_conv split: if_splits)
  have shu: "table_shape (?u\<lparr>ct_primary_index := ?p\<rparr>)"
    using inv idx psk by (auto simp: channels_inv_def table_shape_def set_slot_raw_def nth_list_update)
  have ui: "slot ?u index = ch\<lparr>ch_index := index\<rparr>"
    using inv idx by (simp add: channels_inv_def table_shape_def set_slot_raw_def)
  have uj: "slot_ok (?u\<lparr>ct_primary_index := ?p\<rparr>) j" "slot ?u j = slot t j" if "j < MAX_CHANNELS" "j \<noteq> index" for j
    using inv that by (auto simp: channels_inv_def slot_ok_def set_slot_raw_def)
  have "table_shape v \<and> ct_primary_index v = ?p \<and> slot v index = slot ?u index \<and>
      (\<forall>j<MAX_CHANNELS. j \<noteq> index \<longrightarrow> slot_ok v j \<and> (ch_role (slot v j) = Role_PRIMARY \<longrightarrow> j = ?p))"
  proof (cases "ch_role ch = Role_PRIMARY")
    case True
    with v have dl: "demote_loop index [0..<MAX_CHANNELS] (?u\<lparr>ct_primary_index := ?p\<rparr>) = Some v"
      by (simp add: demote_other_primary_def)
    from demote_loop_spec [OF shu _ dl] uj True show ?thesis by fastforce
  next
    case False
    with v have "v = ?u\<lparr>ct_primary_index := ?p\<rparr>" by (auto simp: set_slot_raw_def)
    with shu uj False inv show ?thesis by (auto simp: channels_inv_def sole_primary_def)
  qed
  note vv = this
  note f = channel_fixup_spec [OF _ idx t'] 
  have ok: "slot_ok t' j" if "j < MAX_CHANNELS" for j
    using f vv that by (cases "j = index") (auto simp: slot_ok_def)
  have "ch_role (slot t' index) = Role_PRIMARY \<Longrightarrow> index = ?p"
    using f vv ui fixup_slot_role_le [of index "slot v index"] by auto
  then have "j = ct_primary_index t'" if "j < MAX_CHANNELS" "ch_role (slot t' j) = Role_PRIMARY" for j
    using f vv that by (cases "j = index") auto
  with f vv ok show ?thesis by (auto simp: channels_inv_def sole_primary_def)
qed

section \<open>When an update returns\<close>

lemma keyless_fixup: "keyless (fixup_slot i ch) = keyless ch"
  by (auto simp: keyless_def fixup_slot_def settings_zero_def Let_def)

lemma keyless_index [simp]: "keyless (ch\<lparr>ch_index := i\<rparr>) = keyless ch"
  by (simp add: keyless_def)

lemma generate_hash_None:
  assumes "ct_primary_index t < MAX_CHANNELS" "i < MAX_CHANNELS"
  shows "channel_generate_hash t i = None \<longleftrightarrow> keyless (slot t i) \<and> keyless (slot t (ct_primary_index t))"
  using get_key_cases [OF assms(1), of i] assms(2) by (auto simp: channel_generate_hash_def)

lemma channel_fixup_None:
  assumes "table_shape t" "i < MAX_CHANNELS"
  shows "channel_fixup i t = None \<longleftrightarrow>
    keyless (slot t i) \<and> (i = ct_primary_index t \<or> keyless (slot t (ct_primary_index t)))"
proof -
  let ?u = "set_slot_raw t i (fixup_slot i (slot t i))"
  have "channel_fixup i t = None \<longleftrightarrow> channel_generate_hash ?u i = None"
    by (auto simp: channel_fixup_def Let_def bind_eq_None_conv)
  also have "\<dots> \<longleftrightarrow> keyless (slot ?u i) \<and> keyless (slot ?u (ct_primary_index t))"
    using generate_hash_None [of ?u i] assms by (simp add: set_slot_raw_def table_shape_def)
  also have "\<dots> \<longleftrightarrow> keyless (slot t i) \<and> (i = ct_primary_index t \<or> keyless (slot t (ct_primary_index t)))"
    using assms by (auto simp: set_slot_raw_def table_shape_def nth_list_update keyless_fixup)
  finally show ?thesis .
qed

lemma demote_loop_returns:
  assumes "table_shape t" "\<forall>i\<in>set is. i < MAX_CHANNELS" "ct_primary_index t = index"
    and "\<not> keyless (slot t index)"
  shows "\<exists>t'. demote_loop index is t = Some t'"
  using assms
proof (induction "is" arbitrary: t)
  case Nil
  then show ?case by simp
next
  case (Cons i "is")
  show ?case
  proof (cases "i \<noteq> index \<and> ch_role (slot t i) = Role_PRIMARY")
    case False
    with Cons show ?thesis by (auto split: if_splits)
  next
    case True
    let ?d = "set_slot_raw t i ((slot t i)\<lparr>ch_role := Role_SECONDARY\<rparr>)"
    have i: "i < MAX_CHANNELS" using Cons.prems by simp
    have sh: "table_shape ?d"
      using Cons.prems(1) i by (auto simp: table_shape_def set_slot_raw_def nth_list_update)
    have "channel_fixup i ?d \<noteq> None"
      using True Cons.prems by (subst channel_fixup_None [OF sh i]) (auto simp: set_slot_raw_def)
    then obtain u where u: "channel_fixup i ?d = Some u" by auto
    note f = channel_fixup_spec [OF sh i u]
    have "\<exists>t'. demote_loop index is u = Some t'"
      using f True Cons.prems by (intro Cons.IH) (auto simp: set_slot_raw_def)
    with True u show ?thesis by simp
  qed
qed

text \<open>What a successful update does to the slots.\<close>

lemma set_slot_result:
  assumes inv: "channels_inv t" and idx: "index < MAX_CHANNELS"
    and psk: "length (cs_psk (ch_settings ch)) \<le> 32"
    and res: "channels_set_slot index ch (t, c) = Some (r, t', c')"
  shows "r = ok \<and> slot t' index = fixup_slot index (ch\<lparr>ch_index := index\<rparr>) \<and>
    ct_primary_index t' = (if ch_role ch = Role_PRIMARY then index else ct_primary_index t) \<and>
    c' = (if index = ct_primary_index t' then refresh_mt t' c else c) \<and>
    (ch_role ch \<noteq> Role_PRIMARY \<longrightarrow>
      (\<forall>j. j \<noteq> index \<longrightarrow> slot t' j = slot t j \<and> ct_hashes t' ! j = ct_hashes t ! j))"
proof -
  let ?u = "set_slot_raw t index (ch\<lparr>ch_index := index\<rparr>)"
  from res idx obtain v where
    v: "(if ch_role ch = Role_PRIMARY then demote_other_primary index (?u\<lparr>ct_primary_index := index\<rparr>)
         else Some ?u) = Some v"
    and t': "channel_fixup index v = Some t'" and r: "r = ok"
    and c': "c' = (if index = ct_primary_index t' then refresh_mt t' c else c)"
    by (auto simp: channels_set_slot_def Let_def bind_eq_Some_conv split: if_splits)
  have shu: "table_shape (?u\<lparr>ct_primary_index := index\<rparr>)" "table_shape ?u"
    using inv idx psk by (auto simp: channels_inv_def table_shape_def set_slot_raw_def nth_list_update)
  have ui: "slot ?u index = ch\<lparr>ch_index := index\<rparr>"
    using inv idx by (simp add: channels_inv_def table_shape_def set_slot_raw_def)
  have vv: "table_shape v \<and> slot v index = slot ?u index \<and>
      ct_primary_index v = (if ch_role ch = Role_PRIMARY then index else ct_primary_index t)"
  proof (cases "ch_role ch = Role_PRIMARY")
    case True
    with v have "demote_loop index [0..<MAX_CHANNELS] (?u\<lparr>ct_primary_index := index\<rparr>) = Some v"
      by (simp add: demote_other_primary_def)
    from demote_loop_spec [OF shu(1) _ this] True show ?thesis by simp
  next
    case False
    then have "v = ?u" using v by simp
    moreover have "ct_primary_index ?u = ct_primary_index t" by (simp add: set_slot_raw_def)
    ultimately show ?thesis using shu(2) False by simp
  qed
  have f: "slot t' index = fixup_slot index (slot v index)" "ct_primary_index t' = ct_primary_index v"
    "\<And>j. j \<noteq> index \<Longrightarrow> slot t' j = slot v j \<and> ct_hashes t' ! j = ct_hashes v ! j"
    using channel_fixup_spec [OF conjunct1 [OF vv] idx t'] by simp_all
  have "slot t' j = slot t j \<and> ct_hashes t' ! j = ct_hashes t ! j"
    if "ch_role ch \<noteq> Role_PRIMARY" "j \<noteq> index" for j
  proof -
    have "v = ?u" using v that(1) by simp
    with f(3) [OF that(2)] that(2) show ?thesis by (simp add: set_slot_raw_def)
  qed
  then show ?thesis using f vv ui r c' by simp
qed

section \<open>Initial tables\<close>

lemma blank_slot_simps [simp]:
  "\<not> keyless (channel_zero\<lparr>ch_role := Role_DISABLED, ch_has_settings := True\<rparr>)"
  "fixup_slot i (channel_zero\<lparr>ch_role := Role_DISABLED, ch_has_settings := True\<rparr>)
     = channel_zero\<lparr>ch_index := i, ch_role := Role_DISABLED, ch_has_settings := True\<rparr>"
  by (simp_all add: keyless_def channel_zero_def settings_zero_def fixup_slot_def)

lemma table_shape_set_slot:
  "table_shape t \<Longrightarrow> length (cs_psk (ch_settings ch)) \<le> 32 \<Longrightarrow> table_shape (set_slot_raw t i ch)"
  by (cases "i < MAX_CHANNELS")
    (auto simp: table_shape_def set_slot_raw_def nth_list_update)

text \<open>A fix-up of a slot that has its own key returns.\<close>

lemma channel_fixup_returns:
  assumes "table_shape t" "i < MAX_CHANNELS" "\<not> keyless (slot t i)"
  obtains t' where "channel_fixup i t = Some t'"
  using channel_fixup_None [OF assms(1,2)] assms(3) by auto

lemma fixup_loop_spec:
  assumes "table_shape t" "\<forall>i\<in>set is. i < MAX_CHANNELS"
  shows "\<exists>t'. fixup_loop is t = Some t' \<and> table_shape t' \<and> ct_primary_index t' = ct_primary_index t \<and>
    (\<forall>i\<in>set is. slot_ok t' i \<and> ch_role (slot t' i) = Role_DISABLED) \<and>
    (\<forall>j. j \<notin> set is \<longrightarrow> slot t' j = slot t j \<and> ct_hashes t' ! j = ct_hashes t ! j)"
  using assms
proof (induction "is" arbitrary: t)
  case Nil
  then show ?case by simp
next
  case (Cons i "is")
  let ?b = "channel_zero\<lparr>ch_role := Role_DISABLED, ch_has_settings := True\<rparr>"
  let ?u = "set_slot_raw t i ?b"
  have i: "i < MAX_CHANNELS" using Cons.prems by simp
  have sh: "table_shape ?u"
    using Cons.prems by (intro table_shape_set_slot) (simp_all add: channel_zero_def settings_zero_def)
  have ui: "slot ?u i = ?b" using Cons.prems(1) i by (simp add: set_slot_raw_def table_shape_def)
  obtain v where v: "channel_fixup i ?u = Some v"
    using channel_fixup_returns [OF sh i] ui by (metis blank_slot_simps(1))
  note f = channel_fixup_spec [OF sh i v]
  have vi: "slot_ok v i" "ch_role (slot v i) = Role_DISABLED" using f ui by simp_all
  have vj: "slot v j = slot t j \<and> ct_hashes v ! j = ct_hashes t ! j" if "j \<noteq> i" for j
    using f that by (simp add: set_slot_raw_def)
  have pv: "ct_primary_index v = ct_primary_index t" using f by (simp add: set_slot_raw_def)
  obtain t' where t': "fixup_loop is v = Some t'" "table_shape t'"
      "ct_primary_index t' = ct_primary_index v"
      "\<forall>i\<in>set is. slot_ok t' i \<and> ch_role (slot t' i) = Role_DISABLED"
      "\<forall>j. j \<notin> set is \<longrightarrow> slot t' j = slot v j \<and> ct_hashes t' ! j = ct_hashes v ! j"
    using Cons.IH [of v] f Cons.prems(2) by auto
  have "slot_ok t' i \<and> ch_role (slot t' i) = Role_DISABLED"
    using t'(4,5) vi slot_ok_frame [of t' i v] by (cases "i \<in> set is") simp_all
  with t' v vj pv show ?case by simp
qed

definition blank_channels :: "channels \<Rightarrow> channels" where
  "blank_channels t = t\<lparr>ct_slots := replicate MAX_CHANNELS channel_zero,
     ct_hashes := replicate MAX_CHANNELS 0, ct_primary_index := 0\<rparr>"

lemma init_defaults_spec:
  obtains t' where "channels_init_defaults t = Some t'" "table_shape t'" "ct_primary_index t' = 0"
    "slot t' 0 = fixup_slot 0 default_slot0" "slot_ok t' 0"
    "\<forall>i<MAX_CHANNELS. i \<noteq> 0 \<longrightarrow> slot_ok t' i \<and> ch_role (slot t' i) = Role_DISABLED"
proof -
  let ?a = "set_slot_raw (blank_channels t) 0 default_slot0"
  have sh: "table_shape ?a"
    by (intro table_shape_set_slot)
      (simp_all add: table_shape_def blank_channels_def channel_zero_def settings_zero_def default_slot0_def)
  have a0: "slot ?a 0 = default_slot0" "ct_primary_index ?a = 0"
    by (simp_all add: set_slot_raw_def blank_channels_def)
  obtain u where u: "fixup_loop [1..<MAX_CHANNELS] ?a = Some u" "table_shape u" "ct_primary_index u = 0"
      "\<forall>i\<in>{1..<MAX_CHANNELS}. slot_ok u i \<and> ch_role (slot u i) = Role_DISABLED"
      "slot u 0 = default_slot0"
    using fixup_loop_spec [OF sh, of "[1..<MAX_CHANNELS]"] a0 by auto
  have nk: "\<not> keyless (slot u 0)" by (simp add: u(5) default_slot0_def keyless_def)
  obtain t' where t': "channel_fixup 0 u = Some t'"
    using channel_fixup_returns [OF u(2) _ nk] by auto
  note f = channel_fixup_spec [OF u(2) _ t', simplified]
  have rest: "slot_ok t' i \<and> ch_role (slot t' i) = Role_DISABLED" if "i < MAX_CHANNELS" "i \<noteq> 0" for i
    using f u(4) that slot_ok_frame [of t' i u] by simp
  have eq: "channels_init_defaults t = Some t'"
    using u(1) t' by (simp add: channels_init_defaults_def blank_channels_def)
  show thesis by (rule that [OF eq]) (use f u rest in simp_all)
qed

text \<open>Initialisation from a configuration with a key of at most 32 bytes.\<close>

lemma init_from_config_spec:
  assumes "cfg_psk_len cfg \<le> 32"
  obtains t' where "channels_init_from_config cfg (t, c) = Some (t', refresh_mt t' c)" "channels_inv t'"
    "ct_primary_index t' = 0" "ch_role (slot t' 0) = Role_PRIMARY"
    "cs_psk (ch_settings (slot t' 0)) = take (cfg_psk_len cfg) (case cfg_psk cfg of None \<Rightarrow> [] | Some p \<Rightarrow> p)"
    "\<forall>i<MAX_CHANNELS. i \<noteq> 0 \<longrightarrow> ch_role (slot t' i) = Role_DISABLED"
proof -
  obtain u where u: "channels_init_defaults t = Some u" "table_shape u" "ct_primary_index u = 0"
    "slot u 0 = fixup_slot 0 default_slot0" "slot_ok u 0"
    "\<forall>i<MAX_CHANNELS. i \<noteq> 0 \<longrightarrow> slot_ok u i \<and> ch_role (slot u i) = Role_DISABLED"
    by (rule init_defaults_spec)
  let ?k = "take (cfg_psk_len cfg) (case cfg_psk cfg of None \<Rightarrow> [] | Some p \<Rightarrow> p)"
  let ?s = "(case cfg_channel_name cfg of None \<Rightarrow> ch_settings (slot u 0)
     | Some n \<Rightarrow> (ch_settings (slot u 0))\<lparr>cs_name := strn 12 n\<rparr>)\<lparr>cs_psk := ?k\<rparr>"
  let ?ch = "(slot u 0)\<lparr>ch_settings := ?s\<rparr>"
  let ?v = "set_slot_raw u 0 ?ch"
  have sh: "table_shape ?v" using u(2) assms by (intro table_shape_set_slot) auto
  have v0: "slot ?v 0 = ?ch" using u(2) by (simp add: set_slot_raw_def table_shape_def)
  have role: "ch_role ?ch = Role_PRIMARY" "ch_has_settings ?ch"
    by (simp_all add: u(4) fixup_slot_def default_slot0_def)
  then have nk: "\<not> keyless (slot ?v 0)" by (simp add: v0 keyless_def)
  obtain t' where t': "channel_fixup 0 ?v = Some t'"
    using channel_fixup_returns [OF sh _ nk] by auto
  note f = channel_fixup_spec [OF sh _ t', simplified]
  have eq: "channels_init_from_config cfg (t, c) = Some (t', refresh_mt t' c)"
    using u(1) t' by (simp add: channels_init_from_config_def Let_def)
  have p: "ct_primary_index t' = 0" using f u(3) by (simp add: set_slot_raw_def)
  have rest: "slot_ok t' i \<and> ch_role (slot t' i) = Role_DISABLED" if "i < MAX_CHANNELS" "i \<noteq> 0" for i
    using f u(6) that slot_ok_frame [of t' i u] by (simp add: set_slot_raw_def)
  have s0: "slot t' 0 = fixup_slot 0 ?ch" using f v0 by simp
  have "ch_role (slot t' 0) = Role_PRIMARY" using role fixup_slot_role [of ?ch 0] s0 by simp
  moreover have "cs_psk (ch_settings (slot t' 0)) = ?k"
    using role(2) by (simp add: s0 fixup_slot_def Let_def)
  moreover have "channels_inv t'"
  proof -
    have "slot_ok t' i" if "i < MAX_CHANNELS" for i
      using f rest [of i] that by (cases "i = 0") simp_all
    moreover have "i = 0" if "i < MAX_CHANNELS" "ch_role (slot t' i) = Role_PRIMARY" for i
      using rest [of i] that by (cases "i = 0") simp_all
    ultimately show ?thesis using f p by (simp add: channels_inv_def sole_primary_def)
  qed
  ultimately show thesis using that [OF eq] p rest by simp
qed

section \<open>Tables a running node can have\<close>

text \<open>
  A table is live when, besides being consistent, its primary slot is not a keyless secondary
  one. The key lookup returns on a live table, and an update that returns leaves it live.
\<close>

definition channels_live :: "channels \<Rightarrow> bool" where
  "channels_live t \<longleftrightarrow> channels_inv t \<and> \<not> keyless (slot t (ct_primary_index t))"

lemma channels_live_shape:
  "channels_live t \<Longrightarrow> length (ct_slots t) = MAX_CHANNELS"
  "channels_live t \<Longrightarrow> length (ct_hashes t) = MAX_CHANNELS"
  "channels_live t \<Longrightarrow> ct_primary_index t < MAX_CHANNELS"
  by (simp_all add: channels_live_def channels_inv_def table_shape_def)

lemma get_key_returns:
  assumes "channels_live t"
  shows "\<exists>r. channel_get_key t i = Some r"
  using assms get_key_cases [OF channels_live_shape(3) [OF assms], of i]
  by (simp add: channels_live_def)

lemma channels_inv_roles [simp]:
  "table_shape (t\<lparr>ct_device_role := x\<rparr>) = table_shape t"
  "table_shape (t\<lparr>ct_rebroadcast_mode := y\<rparr>) = table_shape t"
  "channels_inv (t\<lparr>ct_device_role := x\<rparr>) = channels_inv t"
  "channels_inv (t\<lparr>ct_rebroadcast_mode := y\<rparr>) = channels_inv t"
  "channels_live (t\<lparr>ct_device_role := x\<rparr>) = channels_live t"
  "channels_live (t\<lparr>ct_rebroadcast_mode := y\<rparr>) = channels_live t"
  by (simp_all add: channels_live_def channels_inv_def table_shape_def sole_primary_def slot_ok_def)

lemma set_slot_live:
  assumes live: "channels_live t" and psk: "length (cs_psk (ch_settings ch)) \<le> 32"
    and hash: "mt_ch_hash c = channels_primary_hash t"
    and res: "channels_set_slot index ch (t, c) = Some (r, t', c')"
  shows "channels_live t' \<and> mt_ch_hash c' = channels_primary_hash t'"
proof (cases "index < MAX_CHANNELS")
  case False
  with res live hash show ?thesis by (simp add: channels_set_slot_def)
next
  case idx: True
  have inv: "channels_inv t" using live by (simp add: channels_live_def)
  note s = set_slot_result [OF inv idx psk res]
  have inv': "channels_inv t'" by (rule set_slot_inv [OF inv psk res])
  show ?thesis
  proof (cases "index = ct_primary_index t'")
    case True
    have "\<not> keyless ch"
    proof
      assume k: "keyless ch"
      then have np: "ch_role ch \<noteq> Role_PRIMARY" by (simp add: keyless_def)
      with s True have ip: "index = ct_primary_index t" by simp
      let ?u = "set_slot_raw t index (ch\<lparr>ch_index := index\<rparr>)"
      have sh: "table_shape ?u"
        using inv psk by (intro table_shape_set_slot) (simp_all add: channels_inv_def)
      have ui: "slot ?u index = ch\<lparr>ch_index := index\<rparr>" "ct_primary_index ?u = ct_primary_index t"
        using inv idx by (simp_all add: channels_inv_def table_shape_def set_slot_raw_def)
      have "channel_fixup index ?u = None"
        using k ip ui by (subst channel_fixup_None [OF sh idx]) simp
      with np idx res show False by (simp add: channels_set_slot_def)
    qed
    moreover have "slot t' index = fixup_slot index (ch\<lparr>ch_index := index\<rparr>)" using s by simp
    ultimately have "\<not> keyless (slot t' (ct_primary_index t'))"
      by (simp add: True [symmetric] keyless_fixup)
    moreover have "c' = refresh_mt t' c" using s True by simp
    ultimately show ?thesis using inv' by (simp add: channels_live_def refresh_mt_def)
  next
    case False
    with s have "ct_primary_index t' = ct_primary_index t" "ch_role ch \<noteq> Role_PRIMARY" "c' = c"
      by (simp_all split: if_splits)
    with s False live inv' hash show ?thesis
      by (simp add: channels_live_def channels_primary_hash_def)
  qed
qed

text \<open>
  The states the table goes through: initialisation, slot updates that returned, changes of
  the device role and the rebroadcast mode, and anything that leaves the table and the
  mirrored primary hash alone.
\<close>

inductive channels_reach :: "channels \<Rightarrow> mt_context \<Rightarrow> bool" where
  init: "channels_init_from_config cfg (t, c) = Some (t', c') \<Longrightarrow> cfg_psk_len cfg \<le> 32 \<Longrightarrow>
    channels_reach t' c'"
| set_slot: "channels_reach t c \<Longrightarrow> length (cs_psk (ch_settings ch)) \<le> 32 \<Longrightarrow>
    channels_set_slot index ch (t, c) = Some (r, t', c') \<Longrightarrow> channels_reach t' c'"
| role: "channels_reach t c \<Longrightarrow> channels_reach (t\<lparr>ct_device_role := x\<rparr>) c"
| mode: "channels_reach t c \<Longrightarrow> channels_reach (t\<lparr>ct_rebroadcast_mode := x\<rparr>) c"
| other: "channels_reach t c \<Longrightarrow> mt_ch_hash c' = mt_ch_hash c \<Longrightarrow> channels_reach t c'"

lemma channels_reach_live:
  "channels_reach t c \<Longrightarrow> channels_live t \<and> mt_ch_hash c = channels_primary_hash t"
proof (induction rule: channels_reach.induct)
  case (init cfg t c t' c')
  obtain u where u: "channels_init_from_config cfg (t, c) = Some (u, refresh_mt u c)" "channels_inv u"
    "ct_primary_index u = 0" "ch_role (slot u 0) = Role_PRIMARY"
    by (rule init_from_config_spec [OF init(2)])
  with init(1) have "t' = u \<and> c' = refresh_mt u c" by auto
  with u show ?case by (simp add: channels_live_def keyless_def refresh_mt_def)
next
  case (set_slot t c ch index r t' c')
  then show ?case using set_slot_live by blast
qed (simp_all add: channels_primary_hash_def)

text \<open>When an update does not return.\<close>

lemma set_slot_None:
  assumes "channels_inv t" and "index < 8" and "length (cs_psk (ch_settings ch)) \<le> 32"
  shows "channels_set_slot index ch (t, c) = None \<longleftrightarrow>
    keyless ch \<and> (index = ct_primary_index t \<or> keyless (slot t (ct_primary_index t)))"
proof -
  let ?u = "set_slot_raw t index (ch\<lparr>ch_index := index\<rparr>)"
  have shu: "table_shape (?u\<lparr>ct_primary_index := index\<rparr>)" "table_shape ?u"
    using assms by (auto simp: channels_inv_def table_shape_def set_slot_raw_def nth_list_update)
  have ui: "slot ?u index = ch\<lparr>ch_index := index\<rparr>"
    using assms by (simp add: channels_inv_def table_shape_def set_slot_raw_def)
  show ?thesis
  proof (cases "ch_role ch = Role_PRIMARY")
    case True
    then have nk: "\<not> keyless ch" by (simp add: keyless_def)
    then obtain v where v: "demote_loop index [0..<MAX_CHANNELS] (?u\<lparr>ct_primary_index := index\<rparr>) = Some v"
      using demote_loop_returns [OF shu(1), of "[0..<MAX_CHANNELS]" index] ui by auto
    from demote_loop_spec [OF shu(1) _ v] ui nk have "channel_fixup index v \<noteq> None"
      using assms(2) by (subst channel_fixup_None) auto
    then obtain w where "channel_fixup index v = Some w" by auto
    with True v nk assms(2) show ?thesis
      by (simp add: channels_set_slot_def demote_other_primary_def)
  next
    case False
    have "channels_set_slot index ch (t, c) = None \<longleftrightarrow> channel_fixup index ?u = None"
      using False assms(2) by (auto simp: channels_set_slot_def Let_def bind_eq_None_conv)
    also have "\<dots> \<longleftrightarrow> keyless ch \<and> (index = ct_primary_index ?u \<or> keyless (slot ?u (ct_primary_index ?u)))"
      using assms(2) ui by (subst channel_fixup_None [OF shu(2)]) auto
    also have "\<dots> \<longleftrightarrow> keyless ch \<and> (index = ct_primary_index t \<or> keyless (slot t (ct_primary_index t)))"
      by (cases "index = ct_primary_index t") (simp_all add: set_slot_raw_def)
    finally show ?thesis .
  qed
qed

section \<open>Choosing the slot of an outgoing packet\<close>

lemma find_index_upt:
  "find_index P [0..<n] = Some i \<Longrightarrow> i < n \<and> P i \<and> (\<forall>j<i. \<not> P j)"
  by (drule find_index_SomeD) auto

lemma peer_channel_Some: "peer_channel k db t dest = Some i \<Longrightarrow> slot_enabled t i"
  by (auto simp: peer_channel_def split: if_splits sum.splits)

lemma resolve_send_index_bound:
  assumes "ct_primary_index t < MAX_CHANNELS"
  shows "channels_resolve_send_index k db t dest idx h < MAX_CHANNELS"
  using assms
  by (auto simp: channels_resolve_send_index_def slot_enabled_def
      dest!: find_index_upt peer_channel_Some split: option.splits if_splits)

section \<open>The contract the wire codec uses\<close>

text \<open>
  \<open>key_table\<close> is what encryption and decryption rely on: a key that is handed out has one of
  the three lengths the cipher accepts and is backed by that many bytes.
\<close>

locale key_table =
  fixes inv :: "'t \<Rightarrow> bool" and get_key :: "'t \<Rightarrow> nat \<Rightarrow> channel_key res option"
  assumes key_len: "inv t \<Longrightarrow> get_key t i = Some (Inr key) \<Longrightarrow> k_len key \<in> {0, 16, 32}"
    and key_bytes: "inv t \<Longrightarrow> get_key t i = Some (Inr key) \<Longrightarrow> length (k_bytes key) = 32"
begin

lemma key_len_accepted:
  "inv t \<Longrightarrow> get_key t i = Some (Inr key) \<Longrightarrow> \<not> (k_len key \<noteq> 0 \<and> k_len key \<noteq> 16 \<and> k_len key \<noteq> 32)"
  using key_len by auto

lemma effective_key_length:
  "inv t \<Longrightarrow> get_key t i = Some (Inr key) \<Longrightarrow> length (take (k_len key) (k_bytes key)) = k_len key"
  using key_len [of t i key] key_bytes [of t i key] by auto

end

lemma get_key_length:
  assumes "channels_inv t" "channel_get_key t i = Some (Inr key)"
  shows "k_len key \<in> {0, 16, 32} \<and> length (k_bytes key) = 32"
proof -
  have pr: "ct_primary_index t < MAX_CHANNELS" using assms by (simp add: channels_inv_def table_shape_def)
  have "\<exists>j<MAX_CHANNELS. own_key (slot t j) = Inr key"
  proof (cases "keyless (slot t i)")
    case True
    with assms(2) pr have "own_key (slot t (ct_primary_index t)) = Inr key"
      by (simp add: get_key_cases [OF pr] split: if_splits)
    with pr show ?thesis by blast
  next
    case False
    with assms(2) have "i < MAX_CHANNELS \<and> own_key (slot t i) = Inr key"
      by (simp add: get_key_cases [OF pr] split: if_splits)
    then show ?thesis by blast
  qed
  then obtain j where j: "j < MAX_CHANNELS" "own_key (slot t j) = Inr key" by blast
  show ?thesis
    using own_key_length [OF j(2)] j(1) assms(1) by (simp add: channels_inv_def table_shape_def)
qed

interpretation chan: key_table channels_inv channels_get_key
  by unfold_locales (auto simp: channels_get_key_def dest: get_key_length)

section \<open>Properties\<close>

text \<open>
  every key the channel table hands out is empty (cleartext), an AES-128 key or an
  AES-256 key, with all its bytes present, whatever pre-shared key the slot was given.
\<close>

theorem channels_get_key_aes_sized:
  assumes "channels_inv t" and "channels_get_key t i = Some (Inr key)"
  shows "k_len key \<in> {0, 16, 32} \<and> length (take (k_len key) (k_bytes key)) = k_len key"
  using chan.key_len [OF assms] chan.effective_key_length [OF assms] by simp

text \<open>
  an update that returns keeps the table consistent: at most one primary slot, known to
  \<open>primary_index\<close>; every slot that has a key of its own carries the right cached hash; the
  updated slot reads back as written, and for an update to a non-primary role no other slot
  changes.
\<close>

theorem channels_set_slot_consistent:
  assumes "channels_inv t" and "index < 8" and "length (cs_psk (ch_settings ch)) \<le> 32"
    and "channels_set_slot index ch (t, c) = Some (r, t', c')"
  shows "r = ok \<and> channels_inv t' \<and> channels_get t' index = Some (fixup_slot index (ch\<lparr>ch_index := index\<rparr>)) \<and>
    (ch_role ch \<noteq> Role_PRIMARY \<longrightarrow> (\<forall>j. j \<noteq> index \<longrightarrow> channels_get t' j = channels_get t j))"
  using set_slot_inv [OF assms(1,3,4)] set_slot_result [OF assms] assms(2)
  by (simp add: channels_get_def)

text \<open>
  an update never returns exactly when it stores a secondary slot without a key while
  the primary index points at that slot, or at another slot of that kind: the key lookup
  then calls itself on the same slot for ever.
\<close>

theorem channels_set_slot_diverges_iff:
  assumes "channels_inv t" and "index < 8" and "length (cs_psk (ch_settings ch)) \<le> 32"
  shows "channels_set_slot index ch (t, c) = None \<longleftrightarrow>
    keyless ch \<and> (index = ct_primary_index t \<or> keyless (slot t (ct_primary_index t)))"
  using assms by (rule set_slot_None)

text \<open>
  whatever sequence of initialisation, slot updates and role changes a node has gone
  through, as long as each returned, every key lookup returns, no second slot is primary, and
  the mirrored hash \<^verbatim>\<open>mt.ch_hash\<close> is the cached hash of the primary slot.
\<close>

theorem channels_reach_total:
  assumes "channels_reach t c"
  shows "(\<exists>r. channels_get_key t i = Some r) \<and> channels_inv t \<and> mt_ch_hash c = channels_primary_hash t"
  using channels_reach_live [OF assms] get_key_returns [of t i]
  by (simp add: channels_live_def channels_get_key_def)

text \<open>
  the slot chosen for an outgoing packet is a slot of the table, and the sources are
  tried in order: an enabled requested slot, then the first slot with the wire hash, then
  the slot the peer was last heard on, then the primary slot.
\<close>

theorem channels_resolve_send_index_order:
  assumes "channels_inv t" and "s = channels_resolve_send_index k db t dest idx h"
  shows "s < 8 \<and>
    (slot_enabled t (unat idx) \<longrightarrow> s = unat idx) \<and>
    (\<not> slot_enabled t (unat idx) \<and> h \<noteq> 0 \<and> h \<in> set (ct_hashes t) \<longrightarrow>
      ct_hashes t ! s = h \<and> (\<forall>j < s. ct_hashes t ! j \<noteq> h)) \<and>
    (\<not> slot_enabled t (unat idx) \<and> (h = 0 \<or> h \<notin> set (ct_hashes t)) \<longrightarrow>
      s = (case peer_channel k db t dest of Some p \<Rightarrow> p | None \<Rightarrow> ct_primary_index t))"
proof -
  let ?P = "\<lambda>i. channels_decrypt_for_hash t i h"
  have sh: "length (ct_hashes t) = 8" "ct_primary_index t < 8"
    using assms(1) by (simp_all add: channels_inv_def table_shape_def)
  have lookup: "ct_hashes t ! s = h \<and> (\<forall>j < s. ct_hashes t ! j \<noteq> h)"
    if a: "\<not> slot_enabled t (unat idx)" "h \<noteq> 0" "h \<in> set (ct_hashes t)"
  proof -
    from a(3) sh obtain i where i: "i < 8" "ct_hashes t ! i = h" by (auto simp: in_set_conv_nth)
    then obtain j where j: "find_index ?P [0..<8] = Some j"
      using find_index_mem [of i "[0..<8]" ?P] by (auto simp: channels_decrypt_for_hash_def)
    with a(1,2) assms(2) have "s = j" by (simp add: channels_resolve_send_index_def)
    with find_index_upt [OF j] show ?thesis by (auto simp: channels_decrypt_for_hash_def)
  qed
  have fallback: "s = (case peer_channel k db t dest of Some p \<Rightarrow> p | None \<Rightarrow> ct_primary_index t)"
    if a: "\<not> slot_enabled t (unat idx)" "h = 0 \<or> h \<notin> set (ct_hashes t)"
  proof -
    have "find_index ?P [0..<8] = None" if "h \<noteq> 0"
      using a(2) that sh(1) by (auto simp: find_index_None channels_decrypt_for_hash_def)
    with a(1) assms(2) show ?thesis by (simp add: channels_resolve_send_index_def)
  qed
  show ?thesis
    using resolve_send_index_bound [OF sh(2)] assms(2) lookup fallback
    by (simp add: channels_resolve_send_index_def)
qed

section \<open>A table whose cached hash is out of date\<close>

definition stale_table :: channels where
  "stale_table = \<lparr>ct_slots = default_slot0 # channel_zero\<lparr>ch_index := 1, ch_role := Role_SECONDARY,
       ch_has_settings := True\<rparr> # map (\<lambda>i. channel_zero\<lparr>ch_index := i, ch_has_settings := True\<rparr>) [2..<8],
     ct_hashes = [8, 8, 0, 0, 0, 0, 0, 0], ct_primary_index = 0, ct_device_role = 0, ct_rebroadcast_mode = 0\<rparr>"

definition stale_update :: channel where
  "stale_update = default_slot0\<lparr>ch_settings := (ch_settings default_slot0)\<lparr>cs_psk := [2]\<rparr>\<rparr>"

lemma stale_table_inv: "channels_inv stale_table"
  by code_simp

lemma stale_set_slot:
  "map_option (\<lambda>(r, t, c). (r, channels_inv t, channels_get_hash t 1, channel_generate_hash t 1))
     (channels_set_slot 0 stale_update (stale_table, c)) = Some (ok, True, 8, Some 11)"
  by code_simp

text \<open>
  the cached hash of a keyless secondary slot is not kept up to date. There is a
  consistent table and an update of its primary slot after which the secondary slot is found
  under a wire hash that is not the hash of its name and current key.
\<close>

theorem keyless_hash_goes_stale:
  "\<exists>t ch t' c'. channels_inv t \<and> channels_set_slot 0 ch (t, c) = Some (ok, t', c') \<and> channels_inv t' \<and>
     channel_generate_hash t' 1 \<noteq> Some (channels_get_hash t' 1)"
proof -
  from stale_set_slot [of c] obtain t' c' where
    "channels_set_slot 0 stale_update (stale_table, c) = Some (ok, t', c')" "channels_inv t'"
    "channels_get_hash t' 1 = 8" "channel_generate_hash t' 1 = Some 11"
    by (auto simp: map_option_case split: option.splits)
  with stale_table_inv show ?thesis by fastforce
qed

end
