(* ===== verification/Packet.thy ===== *)
theory Packet
  imports Channels
begin

text \<open>
  Wire packets, of \<^verbatim>\<open>src/meshtastic_packet.c\<close>: the 16-byte header, AES-CTR encryption of the
  protobuf payload, and the conversions between \<^verbatim>\<open>struct meshtastic_packet\<close>, the protobuf
  \<^verbatim>\<open>MeshPacket\<close> and bytes on the air. The main result is the round trip from
  \<^verbatim>\<open>meshtastic_build_wire_packet\<close> to \<^verbatim>\<open>meshtastic_try_decode_wire_packet\<close> of a receiver that
  has the channel.

  The workspace buffers \<^verbatim>\<open>mt_ws\<close> are identified with the bytes last written to them. The PSA
  cipher is not part of the repository: each of its calls is a field of the parameter
  \<open>psa\<close>, which says whether the call succeeds and which bytes it puts out.
\<close>

section \<open>The wire header\<close>

record wire_header =
  h_dest :: u32
  h_src :: u32
  h_id :: u32
  h_flags :: u8
  h_channel :: u8
  h_next_hop :: u8
  h_relay_node :: u8

definition put_header :: "wire_header \<Rightarrow> bytes" where
  "put_header h = put_le32 (h_dest h) @ put_le32 (h_src h) @ put_le32 (h_id h) @
     [h_flags h, h_channel h, h_next_hop h, h_relay_node h]"

definition get_header :: "bytes \<Rightarrow> wire_header" where
  "get_header buf = \<lparr>h_dest = get_le32 buf, h_src = get_le32 (drop 4 buf), h_id = get_le32 (drop 8 buf),
     h_flags = buf ! 12, h_channel = buf ! 13, h_next_hop = buf ! 14, h_relay_node = buf ! 15\<rparr>"

abbreviation (input) FLAGS_HOP_LIMIT_MASK :: u8 where "FLAGS_HOP_LIMIT_MASK \<equiv> 0x07"
abbreviation (input) FLAGS_WANT_ACK :: u8 where "FLAGS_WANT_ACK \<equiv> 0x08"
abbreviation (input) FLAGS_VIA_MQTT :: u8 where "FLAGS_VIA_MQTT \<equiv> 0x10"
abbreviation (input) FLAGS_HOP_START_SHIFT :: nat where "FLAGS_HOP_START_SHIFT \<equiv> 5"
abbreviation (input) FLAGS_HOP_START_MASK :: u8 where "FLAGS_HOP_START_MASK \<equiv> 0xE0"

text \<open>The flag byte \<^verbatim>\<open>build_wire_packet\<close> and \<^verbatim>\<open>send_mesh_pb\<close> assemble.\<close>

definition make_flags :: "u8 \<Rightarrow> u8 \<Rightarrow> bool \<Rightarrow> bool \<Rightarrow> u8" where
  "make_flags hop_limit hop_start want_ack via_mqtt =
     (let f = (hop_limit AND FLAGS_HOP_LIMIT_MASK) OR push_bit FLAGS_HOP_START_SHIFT (hop_start AND 0x07);
          f = (if want_ack then f OR FLAGS_WANT_ACK else f)
      in if via_mqtt then f OR FLAGS_VIA_MQTT else f)"

section \<open>The cipher\<close>

text \<open>
  \<open>psa_update key nonce input\<close> and \<open>psa_finish key nonce input\<close> are the bytes
  \<^verbatim>\<open>psa_cipher_update\<close> and \<^verbatim>\<open>psa_cipher_finish\<close> put out, \<open>None\<close> when the call fails.
\<close>

record psa =
  psa_import_key :: "bytes \<Rightarrow> bool"
  psa_encrypt_setup :: "bytes \<Rightarrow> bool"
  psa_set_iv :: "bytes \<Rightarrow> bytes \<Rightarrow> bool"
  psa_update :: "bytes \<Rightarrow> bytes \<Rightarrow> bytes \<Rightarrow> bytes option"
  psa_finish :: "bytes \<Rightarrow> bytes \<Rightarrow> bytes \<Rightarrow> bytes option"

definition ctr_crypt :: "psa \<Rightarrow> bytes \<Rightarrow> bytes \<Rightarrow> bytes \<Rightarrow> bytes res" where
  "ctr_crypt psa key nonce inp =
     (if \<not> psa_import_key psa key then Inl EIO
      else if \<not> psa_encrypt_setup psa key then Inl EIO
      else if \<not> psa_set_iv psa key nonce then Inl EIO
      else case psa_update psa key nonce inp of
          None \<Rightarrow> Inl EIO
        | Some out \<Rightarrow> (case psa_finish psa key nonce inp of
              None \<Rightarrow> Inl EIO
            | Some fin \<Rightarrow> Inr (out @ fin)))"

text \<open>
  What the stack relies on, from the PSA specification of counter mode: as many bytes come
  out as went in, and applying the key stream to the output gives the input back.
\<close>

definition psa_ctr_ok :: "psa \<Rightarrow> bool" where
  "psa_ctr_ok psa \<longleftrightarrow> (\<forall>key nonce xs ys. ctr_crypt psa key nonce xs = Inr ys \<longrightarrow>
     length ys = length xs \<and> ctr_crypt psa key nonce ys = Inr xs)"

definition make_nonce :: "u32 \<Rightarrow> u32 \<Rightarrow> bytes" where
  "make_nonce pid from = put_le32 pid @ [0, 0, 0, 0] @ put_le32 from @ [0, 0, 0, 0]"

section \<open>Encoding\<close>

definition packet_data :: "packet \<Rightarrow> data" where
  "packet_data p = \<lparr>d_portnum = p_portnum p, d_payload = payload_bytes p, d_want_response = p_want_response p,
     d_dest = p_data_dest p, d_source = p_data_source p, d_request_id = p_request_id p,
     d_reply_id = p_reply_id p\<rparr>"

definition payload_args_bad :: "packet \<Rightarrow> bool" where
  "payload_args_bad p \<longleftrightarrow>
     (p_payload p = None \<and> p_payload_len p \<noteq> 0) \<or> MAX_PAYLOAD_LEN < p_payload_len p"

definition encode_packet_data :: "nanopb \<Rightarrow> packet \<Rightarrow> nat \<Rightarrow> bytes res" where
  "encode_packet_data pb p buf_len =
     (if payload_args_bad p then Inl EINVAL
      else case pb_encode (enc_Data pb) buf_len (packet_data p) of
          None \<Rightarrow> Inl ENOMEM
        | Some bs \<Rightarrow> Inr bs)"

definition meshtastic_encode_data :: "nanopb \<Rightarrow> u32 \<Rightarrow> bytes option \<Rightarrow> nat \<Rightarrow> nat \<Rightarrow> bytes res" where
  "meshtastic_encode_data pb portnum payload payload_len buf_len =
     encode_packet_data pb (packet_zero\<lparr>p_portnum := portnum, p_payload := payload, p_payload_len := payload_len\<rparr>)
       buf_len"

definition packet_to_mesh_pb :: "packet \<Rightarrow> mesh_packet res" where
  "packet_to_mesh_pb p =
     (if payload_args_bad p then Inl EINVAL
      else Inr (mesh_zero\<lparr>
        m_from := p_from p, m_to := p_to p,
        m_channel := (if p_channel_index p \<noteq> CHANNEL_INDEX_INVALID then p_channel_index p else 0),
        m_id := p_id p, m_rx_snr := p_snr p, m_rx_rssi := p_rssi p,
        m_hop_limit := p_hop_limit p, m_hop_start := p_hop_start p,
        m_want_ack := p_want_ack p, m_via_mqtt := p_via_mqtt p,
        m_next_hop := p_next_hop p, m_relay_node := p_relay_node p,
        m_transport := (if p_via_mqtt p then TRANSPORT_MQTT else TRANSPORT_LORA),
        m_variant := Decoded (packet_data p)\<rparr>))"

text \<open>\<^verbatim>\<open>meshtastic_mesh_packet_copy\<close> copies the struct, the union and the tag.\<close>

definition mesh_packet_copy :: "mesh_packet \<Rightarrow> mesh_packet" where
  "mesh_packet_copy src = src\<lparr>m_variant := m_variant src\<rparr>"

definition build_wire_packet ::
  "kconfig \<Rightarrow> nanopb \<Rightarrow> psa \<Rightarrow> nodedb \<Rightarrow> channels \<Rightarrow> packet \<Rightarrow> bytes res option" where
  "build_wire_packet k pb psa db t p =
     (case encode_packet_data pb p PAYLOAD_MAX of
        Inl e \<Rightarrow> Some (Inl e)
      | Inr pb_buf \<Rightarrow> do {
          let ch_index = channels_resolve_send_index k db t (p_to p) (p_channel_index p) (p_channel p);
          r \<leftarrow> channels_get_key t ch_index;
          Some (case r of
             Inl e \<Rightarrow> Inl e
           | Inr key \<Rightarrow>
               let wire_hash = channels_get_hash t ch_index;
                   enc = (if k_len key = 0 then Inr pb_buf
                          else ctr_crypt psa (take (k_len key) (k_bytes key)) (make_nonce (p_id p) (p_from p)) pb_buf)
               in case enc of
                    Inl e \<Rightarrow> Inl e
                  | Inr enc_buf \<Rightarrow> Inr (put_header
                      \<lparr>h_dest = p_to p, h_src = p_from p, h_id = p_id p,
                       h_flags = make_flags (p_hop_limit p) (p_hop_start p) (p_want_ack p) (p_via_mqtt p),
                       h_channel = wire_hash, h_next_hop = p_next_hop p, h_relay_node = p_relay_node p\<rparr> @ enc_buf))
        })"

section \<open>Decoding\<close>

definition decrypt_mesh_encrypted_key ::
  "nanopb \<Rightarrow> psa \<Rightarrow> u32 \<Rightarrow> u32 \<Rightarrow> bytes \<Rightarrow> channel_key \<Rightarrow> data res" where
  "decrypt_mesh_encrypted_key pb psa from pid enc key =
     (if enc = [] then Inl EINVAL
      else if PAYLOAD_MAX < length enc then Inl EINVAL
      else if k_len key \<noteq> 0 \<and> k_len key \<noteq> 16 \<and> k_len key \<noteq> 32 then Inl EINVAL
      else case (if k_len key = 0 then Inr enc
                 else ctr_crypt psa (take (k_len key) (k_bytes key)) (make_nonce pid from) enc) of
          Inl e \<Rightarrow> Inl e
        | Inr rx_dec \<Rightarrow> (case dec_Data pb rx_dec of
              None \<Rightarrow> Inl EIO
            | Some d \<Rightarrow> if d_portnum d = PORT_UNKNOWN then Inl EIO else Inr d))"

definition packet_wire_hash_for_index :: "channels \<Rightarrow> u8 \<Rightarrow> u8" where
  "packet_wire_hash_for_index t channel_index = channels_get_hash t (unat channel_index)"

fun try_decrypt_loop ::
  "nanopb \<Rightarrow> psa \<Rightarrow> channels \<Rightarrow> u8 \<Rightarrow> u32 \<Rightarrow> u32 \<Rightarrow> bytes \<Rightarrow> nat list \<Rightarrow> (nat \<times> data) res option" where
  "try_decrypt_loop pb psa t wire_hash from pid enc [] = Some (Inl EBADMSG)"
| "try_decrypt_loop pb psa t wire_hash from pid enc (i # is) =
     (case channels_get t i of
        None \<Rightarrow> try_decrypt_loop pb psa t wire_hash from pid enc is
      | Some ch \<Rightarrow>
          if ch_role ch = Role_DISABLED then try_decrypt_loop pb psa t wire_hash from pid enc is
          else if \<not> channels_decrypt_for_hash t i wire_hash
          then try_decrypt_loop pb psa t wire_hash from pid enc is
          else do {
            r \<leftarrow> channels_get_key t i;
            case r of
              Inl e \<Rightarrow> try_decrypt_loop pb psa t wire_hash from pid enc is
            | Inr key \<Rightarrow>
                (case decrypt_mesh_encrypted_key pb psa from pid enc key of
                   Inr d \<Rightarrow> Some (Inr (i, d))
                 | Inl e \<Rightarrow> try_decrypt_loop pb psa t wire_hash from pid enc is)
          })"

definition try_decrypt_wire_hash ::
  "nanopb \<Rightarrow> psa \<Rightarrow> channels \<Rightarrow> u8 \<Rightarrow> u32 \<Rightarrow> u32 \<Rightarrow> bytes \<Rightarrow> (nat \<times> data) res option" where
  "try_decrypt_wire_hash pb psa t wire_hash from pid enc =
     try_decrypt_loop pb psa t wire_hash from pid enc [0..<MAX_CHANNELS]"

definition mesh_pb_try_decode ::
  "nanopb \<Rightarrow> psa \<Rightarrow> channels \<Rightarrow> mt_context \<Rightarrow> mesh_packet \<Rightarrow> (unit res \<times> mesh_packet) option" where
  "mesh_pb_try_decode pb psa t c mesh =
     (case m_variant mesh of
        Decoded d \<Rightarrow> Some (ok, mesh)
      | v \<Rightarrow>
          (let enc = encrypted_view v in
           if (case v of Encrypted _ \<Rightarrow> False | _ \<Rightarrow> enc = []) then Some (Inl ENOTSUP, mesh)
           else let mesh = mesh\<lparr>m_variant := Encrypted enc\<rparr> in
             if enc = [] then Some (Inl EINVAL, mesh)
             else do {
               let wire_hash = (if m_channel mesh \<noteq> 0 then m_channel mesh else mt_ch_hash c);
               r \<leftarrow> try_decrypt_wire_hash pb psa t wire_hash (m_from mesh) (m_id mesh) enc;
               Some (case r of
                  Inl e \<Rightarrow> (Inl e, mesh)
                | Inr (i, d) \<Rightarrow> (ok, mesh\<lparr>m_variant := Decoded d, m_channel := word_of_nat i\<rparr>))
             }))"

text \<open>The destination buffer: \<open>None\<close> is a \<open>NULL\<close> pointer, \<open>Some n\<close> a buffer of \<open>n\<close> bytes.\<close>

definition copy_data_payload :: "data \<Rightarrow> nat option \<Rightarrow> bytes option res" where
  "copy_data_payload d buf =
     (if d_payload d = [] then Inr None
      else case buf of
          None \<Rightarrow> Inl ENOMEM
        | Some n \<Rightarrow> if n < length (d_payload d) then Inl ENOMEM else Inr (Some (d_payload d)))"

definition decoded_to_packet :: "channels \<Rightarrow> mt_context \<Rightarrow> mesh_packet \<Rightarrow> data \<Rightarrow> bytes option \<Rightarrow> packet" where
  "decoded_to_packet t c mesh d payload =
     \<lparr>p_from = m_from mesh, p_to = m_to mesh, p_id = m_id mesh, p_portnum = d_portnum d,
      p_payload = payload, p_payload_len = length (d_payload d),
      p_data_dest = d_dest d, p_data_source = d_source d, p_request_id = d_request_id d,
      p_reply_id = d_reply_id d, p_hop_limit = m_hop_limit mesh, p_hop_start = m_hop_start mesh,
      p_channel = (if m_channel mesh < 8 then channels_get_hash t (unat (m_channel mesh))
                   else if m_channel mesh \<noteq> 0 then m_channel mesh else mt_ch_hash c),
      p_channel_index = (if m_channel mesh < 8 then m_channel mesh else CHANNEL_INDEX_INVALID),
      p_next_hop = m_next_hop mesh, p_relay_node = m_relay_node mesh, p_want_ack = m_want_ack mesh,
      p_via_mqtt = m_via_mqtt mesh, p_want_response = d_want_response d, p_rssi = 0, p_snr = 0\<rparr>"

definition decoded_mesh_to_packet ::
  "channels \<Rightarrow> mt_context \<Rightarrow> mesh_packet \<Rightarrow> data \<Rightarrow> nat option \<Rightarrow> packet res" where
  "decoded_mesh_to_packet t c mesh d buf =
     (case copy_data_payload d buf of
        Inl e \<Rightarrow> Inl e
      | Inr payload \<Rightarrow> Inr (decoded_to_packet t c mesh d payload))"

text \<open>
  The recursive call of \<^verbatim>\<open>mesh_pb_to_packet\<close> is made on a packet that \<^verbatim>\<open>mesh_pb_try_decode\<close> has
  just decoded, so it takes the first branch.
\<close>

definition mesh_pb_to_packet ::
  "nanopb \<Rightarrow> psa \<Rightarrow> channels \<Rightarrow> mt_context \<Rightarrow> mesh_packet \<Rightarrow> nat option \<Rightarrow> packet res option" where
  "mesh_pb_to_packet pb psa t c mesh buf =
     (case m_variant mesh of
        Decoded d \<Rightarrow> Some (decoded_mesh_to_packet t c mesh d buf)
      | _ \<Rightarrow> do {
          (r, work) \<leftarrow> mesh_pb_try_decode pb psa t c (mesh_packet_copy mesh);
          Some (case r of
             Inl e \<Rightarrow> Inl e
           | Inr _ \<Rightarrow> (case m_variant work of
                Decoded d \<Rightarrow> decoded_mesh_to_packet t c work d buf
              | _ \<Rightarrow> Inl ENOTSUP))
        })"

definition fill_packet_from_header :: "wire_header \<Rightarrow> int \<Rightarrow> int \<Rightarrow> packet \<Rightarrow> packet" where
  "fill_packet_from_header hdr rssi snr p = p\<lparr>
     p_from := h_src hdr, p_to := h_dest hdr, p_id := h_id hdr,
     p_hop_limit := h_flags hdr AND FLAGS_HOP_LIMIT_MASK,
     p_hop_start := drop_bit FLAGS_HOP_START_SHIFT (h_flags hdr AND FLAGS_HOP_START_MASK),
     p_channel := h_channel hdr, p_channel_index := CHANNEL_INDEX_INVALID,
     p_next_hop := h_next_hop hdr, p_relay_node := h_relay_node hdr,
     p_want_ack := (h_flags hdr AND FLAGS_WANT_ACK \<noteq> 0),
     p_via_mqtt := (h_flags hdr AND FLAGS_VIA_MQTT \<noteq> 0),
     p_rssi := rssi, p_snr := snr\<rparr>"

text \<open>
  \<open>p0\<close> is what the caller's packet held before: the fields that only a decoded payload
  sets keep their old values. The result carries the flag \<open>*decoded\<close>.
\<close>

definition try_decode_wire_packet ::
  "kconfig \<Rightarrow> nanopb \<Rightarrow> psa \<Rightarrow> nodedb \<Rightarrow> channels \<Rightarrow> bytes \<Rightarrow> int \<Rightarrow> int \<Rightarrow> packet \<Rightarrow> nat option
     \<Rightarrow> (bool res \<times> packet) option" where
  "try_decode_wire_packet k pb psa db t buf rssi snr p0 cap =
     (if length buf < HDR_LEN then Some (Inl EINVAL, p0)
      else let hdr = get_header buf;
               p = (fill_packet_from_header hdr rssi snr p0)\<lparr>p_payload := None, p_payload_len := 0\<rparr>
        in if \<not> decode_known_only k db t (p_from p) then Some (Inr False, p)
        else do {
          r \<leftarrow> try_decrypt_wire_hash pb psa t (h_channel hdr) (p_from p) (p_id p) (drop HDR_LEN buf);
          Some (case r of
             Inl e \<Rightarrow> (Inr False, p)
           | Inr (i, d) \<Rightarrow> (case copy_data_payload d cap of
                Inl e \<Rightarrow> (Inl e, p)
              | Inr payload \<Rightarrow> (Inr True, p\<lparr>p_portnum := d_portnum d, p_payload := payload,
                  p_payload_len := length (d_payload d), p_data_dest := d_dest d,
                  p_data_source := d_source d, p_request_id := d_request_id d, p_reply_id := d_reply_id d,
                  p_want_response := d_want_response d, p_channel_index := word_of_nat i\<rparr>)))
        })"

definition decode_wire_packet ::
  "kconfig \<Rightarrow> nanopb \<Rightarrow> psa \<Rightarrow> nodedb \<Rightarrow> channels \<Rightarrow> bytes \<Rightarrow> int \<Rightarrow> int \<Rightarrow> packet \<Rightarrow> nat option
     \<Rightarrow> (unit res \<times> packet) option" where
  "decode_wire_packet k pb psa db t buf rssi snr p0 cap = do {
     (r, p) \<leftarrow> try_decode_wire_packet k pb psa db t buf rssi snr p0 cap;
     Some (case r of
        Inl e \<Rightarrow> (Inl e, p)
      | Inr decoded \<Rightarrow> if \<not> decoded then (Inl EBADMSG, p) else (ok, p))
   }"

section \<open>Headers read back\<close>

lemma length_put_header [simp]: "length (put_header h) = HDR_LEN"
  by (simp add: put_header_def)

lemma get_put_header [simp]: "get_header (put_header h @ rest) = h"
  by (simp add: get_header_def put_header_def nth_append)

text \<open>The bits of the flag masks.\<close>

lemma bit_mask_u8 [simp]: "bit (mask k :: u8) n \<longleftrightarrow> n < k \<and> n < 8"
  by (auto simp: bit_mask_iff)

lemma bit_exp_u8 [simp]: "bit (2 ^ k :: u8) n \<longleftrightarrow> n = k \<and> n < 8"
  by (auto simp: bit_exp_iff)

lemma flag_masks:
  "(0x07 :: u8) = mask 3" "(0x08 :: u8) = 2 ^ 3" "(0x10 :: u8) = 2 ^ 4" "(0xE0 :: u8) = push_bit 5 (mask 3)"
  by (simp_all add: mask_eq_exp_minus_1 push_bit_eq_mult)

lemma bit_make_flags:
  "bit (make_flags hl hs a v) n \<longleftrightarrow>
     (n < 3 \<and> bit hl n) \<or> (n = 3 \<and> a) \<or> (n = 4 \<and> v) \<or> (5 \<le> n \<and> n < 8 \<and> bit hs (n - 5))"
  by (cases a; cases v;
      simp only: make_flags_def Let_def flag_masks if_True if_False bit_or_iff bit_and_iff
        bit_push_bit_iff bit_mask_u8 bit_exp_u8; auto)

lemma make_flags_hop_limit: "make_flags hl hs a v AND 0x07 = hl AND 0x07"
  unfolding flag_masks by (rule bit_word_eqI) (auto simp: bit_make_flags bit_and_iff)

lemma make_flags_hop_start: "drop_bit 5 (make_flags hl hs a v AND 0xE0) = hs AND 0x07"
  unfolding flag_masks
  by (rule bit_word_eqI) (auto simp: bit_make_flags bit_and_iff bit_drop_bit_eq bit_push_bit_iff)

lemma and_exp_u8: "k < 8 \<Longrightarrow> (w :: u8) AND 2 ^ k \<noteq> 0 \<longleftrightarrow> bit w k"
  by (simp add: and_exp_eq_0_iff_not_bit)

lemma make_flags_want_ack: "make_flags hl hs a v AND 0x08 \<noteq> 0 \<longleftrightarrow> a"
  unfolding flag_masks by (subst and_exp_u8) (simp_all add: bit_make_flags)

lemma make_flags_via_mqtt: "make_flags hl hs a v AND 0x10 \<noteq> 0 \<longleftrightarrow> v"
  unfolding flag_masks by (subst and_exp_u8) (simp_all add: bit_make_flags)

lemmas make_flags_read = make_flags_hop_limit make_flags_hop_start make_flags_want_ack make_flags_via_mqtt

lemma fill_make_header:
  "fill_packet_from_header \<lparr>h_dest = dst, h_src = src, h_id = pid, h_flags = make_flags hl hs a v,
      h_channel = ch, h_next_hop = nh, h_relay_node = rn\<rparr> rssi snr p0 =
   p0\<lparr>p_from := src, p_to := dst, p_id := pid, p_hop_limit := hl AND 0x07, p_hop_start := hs AND 0x07,
      p_channel := ch, p_channel_index := CHANNEL_INDEX_INVALID, p_next_hop := nh, p_relay_node := rn,
      p_want_ack := a, p_via_mqtt := v, p_rssi := rssi, p_snr := snr\<rparr>"
  using make_flags_read [of hl hs a v] by (simp add: fill_packet_from_header_def)

section \<open>Decryption undoes encryption\<close>

text \<open>
  What the round trip needs of nanopb for \<^verbatim>\<open>Data\<close>: it decodes what it encoded, and the empty
  byte string is the message with every field at its default.
\<close>

definition pb_Data_ok :: "nanopb \<Rightarrow> bool" where
  "pb_Data_ok pb \<longleftrightarrow> pb_roundtrip (enc_Data pb) (dec_Data pb) \<and> dec_Data pb [] = Some data_zero"

lemma encode_packet_data_Inr:
  "encode_packet_data pb p n = Inr bs \<longleftrightarrow>
     \<not> payload_args_bad p \<and> enc_Data pb (packet_data p) = Some bs \<and> length bs \<le> n"
  by (auto simp: encode_packet_data_def pb_encode_def split: option.splits)

lemma encoded_data_nonempty:
  assumes "pb_Data_ok pb" "enc_Data pb d = Some bs" "d_portnum d \<noteq> 0"
  shows "bs \<noteq> [] \<and> dec_Data pb bs = Some d"
  using assms by (auto simp: pb_Data_ok_def pb_roundtrip_def data_zero_def)

lemma psa_ctr_okD:
  "psa_ctr_ok psa \<Longrightarrow> ctr_crypt psa key nonce xs = Inr ys \<Longrightarrow>
     length ys = length xs \<and> ctr_crypt psa key nonce ys = Inr xs"
  unfolding psa_ctr_ok_def by (elim allE impE) assumption+

lemma crypt_length:
  assumes "psa_ctr_ok psa" "(if z then Inr bs else ctr_crypt psa key nonce bs) = Inr enc"
  shows "length enc = length bs"
proof (cases z)
  case False
  with assms(2) have "ctr_crypt psa key nonce bs = Inr enc" by simp
  from psa_ctr_okD [OF assms(1) this] show ?thesis by simp
qed (use assms(2) in simp)

lemma decrypt_encrypted:
  assumes "pb_Data_ok pb" "psa_ctr_ok psa" "k_len key \<in> {0, 16, 32}"
    and "enc_Data pb d = Some bs" "d_portnum d \<noteq> 0" "length bs \<le> PAYLOAD_MAX"
    and "(if k_len key = 0 then Inr bs
          else ctr_crypt psa (take (k_len key) (k_bytes key)) (make_nonce pid from) bs) = Inr enc"
  shows "decrypt_mesh_encrypted_key pb psa from pid enc key = Inr d \<and> length enc = length bs"
proof -
  have "length enc = length bs \<and>
    (if k_len key = 0 then Inr enc
     else ctr_crypt psa (take (k_len key) (k_bytes key)) (make_nonce pid from) enc) = Inr bs"
  proof (cases "k_len key = 0")
    case False
    with assms(7) have c: "ctr_crypt psa (take (k_len key) (k_bytes key)) (make_nonce pid from) bs = Inr enc"
      by simp
    from psa_ctr_okD [OF assms(2) c] False show ?thesis by simp
  qed (use assms(7) in simp)
  moreover have "bs \<noteq> []" "dec_Data pb bs = Some d"
    using encoded_data_nonempty [OF assms(1,4,5)] by auto
  ultimately show ?thesis
    using assms(3,5,6) by (simp add: decrypt_mesh_encrypted_key_def) auto
qed

text \<open>The slots before the right one are skipped when none of them has the wire hash.\<close>

lemma try_decrypt_loop_skip:
  assumes "\<forall>i\<in>set is. \<not> channels_decrypt_for_hash t i h"
  shows "try_decrypt_loop pb psa t h from pid enc (is @ js) = try_decrypt_loop pb psa t h from pid enc js"
  using assms by (induction "is") (auto split: option.splits)

lemma try_decrypt_hit:
  assumes j: "slot_enabled t j" "ct_hashes t ! j = h" "\<forall>i<j. ct_hashes t ! i \<noteq> h"
    and key: "channels_get_key t j = Some (Inr key)"
    and dec: "decrypt_mesh_encrypted_key pb psa from pid enc key = Inr d"
  shows "try_decrypt_wire_hash pb psa t h from pid enc = Some (Inr (j, d))"
proof -
  have "[0..<MAX_CHANNELS] = [0..<j] @ j # [Suc j..<MAX_CHANNELS]"
    using j(1) upt_add_eq_append [of 0 j "MAX_CHANNELS - j"]
    by (simp add: slot_enabled_def upt_conv_Cons)
  then show ?thesis
    using j key dec
    by (simp add: try_decrypt_wire_hash_def try_decrypt_loop_skip channels_decrypt_for_hash_def
        slot_enabled_def channels_get_def)
qed

section \<open>Building and decoding return\<close>

lemma try_decrypt_loop_returns:
  "channels_live t \<Longrightarrow> \<exists>r. try_decrypt_loop pb psa t h from pid enc is = Some r"
proof (induction "is")
  case Nil
  then show ?case by simp
next
  case (Cons i "is")
  then obtain r where r: "try_decrypt_loop pb psa t h from pid enc is = Some r" by auto
  obtain q where "channels_get_key t i = Some q"
    using get_key_returns [OF Cons.prems, of i] by (auto simp: channels_get_key_def)
  with r show ?case by (auto split: option.splits sum.splits)
qed

lemma try_decrypt_returns:
  "channels_live t \<Longrightarrow> \<exists>r. try_decrypt_wire_hash pb psa t h from pid enc = Some r"
  by (simp add: try_decrypt_wire_hash_def try_decrypt_loop_returns)

lemma try_decode_returns:
  assumes "channels_live t"
  shows "\<exists>r p. try_decode_wire_packet k pb psa db t buf rssi snr p0 cap = Some (r, p)"
proof -
  let ?h = "get_header buf"
  obtain r where "try_decrypt_wire_hash pb psa t (h_channel ?h) (h_src ?h) (h_id ?h) (drop HDR_LEN buf) = Some r"
    using try_decrypt_returns [OF assms] by blast
  then show ?thesis
    by (cases r) (auto simp: try_decode_wire_packet_def fill_packet_from_header_def Let_def split: sum.splits)
qed

lemma build_wire_returns:
  assumes "channels_live t"
  shows "\<exists>r. build_wire_packet k pb psa db t p = Some r"
proof -
  let ?i = "channels_resolve_send_index k db t (p_to p) (p_channel_index p) (p_channel p)"
  obtain q where "channels_get_key t ?i = Some q"
    using get_key_returns [OF assms, of ?i] by (auto simp: channels_get_key_def)
  then show ?thesis by (auto simp: build_wire_packet_def split: sum.splits)
qed

lemma mesh_pb_try_decode_returns:
  assumes "channels_live t"
  shows "\<exists>r m. mesh_pb_try_decode pb psa t c mesh = Some (r, m)"
proof -
  obtain q where q: "try_decrypt_wire_hash pb psa t (if m_channel mesh \<noteq> 0 then m_channel mesh else mt_ch_hash c)
      (m_from mesh) (m_id mesh) (encrypted_view (m_variant mesh)) = Some q"
    using try_decrypt_returns [OF assms] by blast
  then show ?thesis
    by (cases "m_variant mesh"; cases q) (auto simp: mesh_pb_try_decode_def Let_def encrypted_view_def)
qed

text \<open>The inner structure of a successful build.\<close>

lemma build_wire_Inr:
  assumes "build_wire_packet k pb psa db t p = Some (Inr wire)"
  obtains bs key enc where
    "encode_packet_data pb p PAYLOAD_MAX = Inr bs"
    "channels_get_key t (channels_resolve_send_index k db t (p_to p) (p_channel_index p) (p_channel p)) = Some (Inr key)"
    "(if k_len key = 0 then Inr bs
      else ctr_crypt psa (take (k_len key) (k_bytes key)) (make_nonce (p_id p) (p_from p)) bs) = Inr enc"
    "wire = put_header \<lparr>h_dest = p_to p, h_src = p_from p, h_id = p_id p,
       h_flags = make_flags (p_hop_limit p) (p_hop_start p) (p_want_ack p) (p_via_mqtt p),
       h_channel = channels_get_hash t (channels_resolve_send_index k db t (p_to p) (p_channel_index p) (p_channel p)),
       h_next_hop = p_next_hop p, h_relay_node = p_relay_node p\<rparr> @ enc"
proof -
  let ?i = "channels_resolve_send_index k db t (p_to p) (p_channel_index p) (p_channel p)"
  obtain bs where bs: "encode_packet_data pb p PAYLOAD_MAX = Inr bs"
    using assms by (auto simp: build_wire_packet_def split: sum.splits)
  obtain q where q: "channels_get_key t ?i = Some q"
    using assms bs by (cases "channels_get_key t ?i") (simp_all add: build_wire_packet_def)
  obtain key where key: "channels_get_key t ?i = Some (Inr key)"
    using assms bs q by (cases q) (simp_all add: build_wire_packet_def)
  show thesis
  proof (cases "if k_len key = 0 then Inr bs
      else ctr_crypt psa (take (k_len key) (k_bytes key)) (make_nonce (p_id p) (p_from p)) bs")
    case (Inl e)
    with assms bs key show ?thesis by (simp add: build_wire_packet_def Let_def)
  next
    case (Inr enc)
    with assms bs key show ?thesis
      by (intro that [OF bs key Inr]) (simp add: build_wire_packet_def Let_def)
  qed
qed

section \<open>What decoding keeps of the header\<close>

lemma try_decode_header:
  assumes "try_decode_wire_packet k pb psa db t buf rssi snr p0 cap = Some (r, p)" and "HDR_LEN \<le> length buf"
  shows "p_from p = h_src (get_header buf) \<and> p_to p = h_dest (get_header buf) \<and> p_id p = h_id (get_header buf) \<and>
    p_hop_limit p = h_flags (get_header buf) AND 0x07 \<and>
    p_hop_start p = drop_bit 5 (h_flags (get_header buf) AND 0xE0) \<and> p_channel p = h_channel (get_header buf) \<and>
    p_next_hop p = h_next_hop (get_header buf) \<and> p_relay_node p = h_relay_node (get_header buf) \<and>
    p_want_ack p = (h_flags (get_header buf) AND 0x08 \<noteq> 0) \<and> p_via_mqtt p = (h_flags (get_header buf) AND 0x10 \<noteq> 0) \<and>
    p_rssi p = rssi \<and> p_snr p = snr"
proof (cases "decode_known_only k db t (h_src (get_header buf))")
  case False
  with assms show ?thesis by (auto simp: try_decode_wire_packet_def fill_packet_from_header_def Let_def)
next
  case True
  let ?T = "try_decrypt_wire_hash pb psa t (h_channel (get_header buf)) (h_src (get_header buf))
    (h_id (get_header buf)) (drop HDR_LEN buf)"
  obtain q where q: "?T = Some q"
    using assms True by (cases ?T) (simp_all add: try_decode_wire_packet_def fill_packet_from_header_def Let_def)
  show ?thesis
  proof (cases q)
    case (Inl e)
    with assms True q show ?thesis
      by (auto simp: try_decode_wire_packet_def fill_packet_from_header_def Let_def)
  next
    case (Inr x)
    obtain i d where x: "x = (i, d)" by force
    show ?thesis
      using assms True q Inr x by (cases "copy_data_payload d cap")
        (auto simp: try_decode_wire_packet_def fill_packet_from_header_def Let_def)
  qed
qed

lemma mesh_packet_copy_id [simp]: "mesh_packet_copy m = m"
  by (cases m) (simp add: mesh_packet_copy_def)

lemma mesh_pb_try_decode_header:
  assumes "mesh_pb_try_decode pb psa t c m = Some (r, m')"
  shows "m_via_mqtt m' = m_via_mqtt m \<and> m_from m' = m_from m \<and> m_to m' = m_to m \<and> m_id m' = m_id m \<and>
    m_hop_limit m' = m_hop_limit m \<and> m_hop_start m' = m_hop_start m \<and> m_want_ack m' = m_want_ack m \<and>
    m_next_hop m' = m_next_hop m \<and> m_relay_node m' = m_relay_node m"
proof -
  let ?enc = "encrypted_view (m_variant m)"
  let ?T = "try_decrypt_wire_hash pb psa t (if m_channel m \<noteq> 0 then m_channel m else mt_ch_hash c) (m_from m) (m_id m) ?enc"
  consider "m' = m" | "m' = m\<lparr>m_variant := Encrypted ?enc\<rparr>"
    | i d where "m' = m\<lparr>m_variant := Decoded d, m_channel := word_of_nat i\<rparr>"
  proof (cases "(\<exists>d. m_variant m = Decoded d) \<or> ?enc = []")
    case True
    with assms that(1,2) show ?thesis
      by (cases "m_variant m") (auto simp: mesh_pb_try_decode_def Let_def encrypted_view_def split: if_splits)
  next
    case False
    then have step: "mesh_pb_try_decode pb psa t c m = ?T \<bind> (\<lambda>r. Some (case r of
        Inl e \<Rightarrow> (Inl e, m\<lparr>m_variant := Encrypted ?enc\<rparr>)
      | Inr (i, d) \<Rightarrow> (ok, m\<lparr>m_variant := Decoded d, m_channel := word_of_nat i\<rparr>)))"
      by (cases "m_variant m") (simp_all add: mesh_pb_try_decode_def Let_def cong: sum.case_cong prod.case_cong)
    then obtain q where q: "?T = Some q" using assms by (cases ?T) simp_all
    show ?thesis
    proof (cases q)
      case (Inl e)
      with step q assms that(2) show ?thesis by simp
    next
      case (Inr x)
      obtain i d where x: "x = (i, d)" by force
      from step q assms Inr x have "m' = m\<lparr>m_variant := Decoded d, m_channel := word_of_nat i\<rparr>" by simp
      then show ?thesis by (rule that(3))
    qed
  qed
  then show ?thesis by cases simp_all
qed

lemma decoded_mesh_to_packet_header:
  "decoded_mesh_to_packet t c m d cap = Inr p \<Longrightarrow> p = decoded_to_packet t c m d (p_payload p)"
  by (cases "copy_data_payload d cap") (auto simp: decoded_mesh_to_packet_def decoded_to_packet_def)

lemma mesh_pb_to_packet_header:
  assumes "mesh_pb_to_packet pb psa t c m cap = Some (Inr p)"
  shows "p_via_mqtt p = m_via_mqtt m \<and> p_from p = m_from m \<and> p_to p = m_to m \<and> p_id p = m_id m \<and>
    p_hop_limit p = m_hop_limit m \<and> p_hop_start p = m_hop_start m \<and> p_want_ack p = m_want_ack m \<and>
    p_next_hop p = m_next_hop m \<and> p_relay_node p = m_relay_node m"
proof -
  obtain w d where "p = decoded_to_packet t c w d (p_payload p)"
    "w = m \<or> (\<exists>r. mesh_pb_try_decode pb psa t c m = Some (r, w))"
  proof (cases "\<exists>d. m_variant m = Decoded d")
    case True
    with assms decoded_mesh_to_packet_header that show ?thesis by (fastforce simp: mesh_pb_to_packet_def)
  next
    case False
    then have "\<exists>r w. mesh_pb_try_decode pb psa t c m = Some (r, w)"
      using assms by (cases "mesh_pb_try_decode pb psa t c m"; cases "m_variant m")
        (auto simp: mesh_pb_to_packet_def)
    then obtain r w where w: "mesh_pb_try_decode pb psa t c m = Some (r, w)" by blast
    then obtain d where "decoded_mesh_to_packet t c w d cap = Inr p"
      using assms False by (cases r; cases "m_variant w"; cases "m_variant m")
        (auto simp: mesh_pb_to_packet_def)
    with w that [of w d] decoded_mesh_to_packet_header show ?thesis by blast
  qed
  then show ?thesis
    using mesh_pb_try_decode_header [of pb psa t c m _ w] by (cases p) (auto simp: decoded_to_packet_def)
qed

section \<open>Properties\<close>

text \<open>A payload pointer is good for the length the packet states.\<close>

definition payload_readable :: "packet \<Rightarrow> bool" where
  "payload_readable p \<longleftrightarrow> (case p_payload p of None \<Rightarrow> True | Some bs \<Rightarrow> p_payload_len p \<le> length bs)"

lemma payload_bytes_length:
  "payload_readable p \<Longrightarrow> \<not> payload_args_bad p \<Longrightarrow>
     length (payload_bytes p) = p_payload_len p \<and> p_payload_len p \<le> MAX_PAYLOAD_LEN"
  by (auto simp: payload_readable_def payload_args_bad_def payload_bytes_def split: option.splits)

text \<open>
  A receiver shares a channel with a sender when one of its enabled slots has the sender's
  key, and is the first of its slots with the sender's wire hash.
\<close>

definition shares_channel :: "channels \<Rightarrow> nat \<Rightarrow> channels \<Rightarrow> nat \<Rightarrow> bool" where
  "shares_channel ts i tr j \<longleftrightarrow>
     slot_enabled tr j \<and> channels_get_key tr j = channels_get_key ts i \<and>
     ct_hashes tr ! j = channels_get_hash ts i \<and> (\<forall>l<j. ct_hashes tr ! l \<noteq> channels_get_hash ts i)"

text \<open>What a receiver makes of a packet: the payload and the header as sent.\<close>

definition received :: "packet \<Rightarrow> u8 \<Rightarrow> nat \<Rightarrow> int \<Rightarrow> int \<Rightarrow> packet" where
  "received p wire_hash j rssi snr = p\<lparr>
     p_payload := (if payload_bytes p = [] then None else Some (payload_bytes p)),
     p_payload_len := length (payload_bytes p),
     p_hop_limit := p_hop_limit p AND 0x07, p_hop_start := p_hop_start p AND 0x07,
     p_channel := wire_hash, p_channel_index := word_of_nat j, p_rssi := rssi, p_snr := snr\<rparr>"

definition wire_header_of :: "packet \<Rightarrow> u8 \<Rightarrow> wire_header" where
  "wire_header_of p wire_hash = \<lparr>h_dest = p_to p, h_src = p_from p, h_id = p_id p,
     h_flags = make_flags (p_hop_limit p) (p_hop_start p) (p_want_ack p) (p_via_mqtt p),
     h_channel = wire_hash, h_next_hop = p_next_hop p, h_relay_node = p_relay_node p\<rparr>"

text \<open>A built packet is a header and a payload that a receiver sharing the channel decrypts.\<close>

lemma built_wire_decrypts:
  assumes "pb_Data_ok pb" and "psa_ctr_ok psa" and "channels_inv ts"
    and "build_wire_packet k pb psa db ts p = Some (Inr wire)"
    and "p_portnum p \<noteq> 0" and "payload_readable p"
    and "s = channels_resolve_send_index k db ts (p_to p) (p_channel_index p) (p_channel p)"
    and "shares_channel ts s tr j"
  obtains enc where "wire = put_header (wire_header_of p (channels_get_hash ts s)) @ enc"
    and "enc \<noteq> []" and "length enc \<le> PAYLOAD_MAX"
    and "try_decrypt_wire_hash pb psa tr (channels_get_hash ts s) (p_from p) (p_id p) enc = Some (Inr (j, packet_data p))"
    and "length (payload_bytes p) = p_payload_len p" and "p_payload_len p \<le> MAX_PAYLOAD_LEN"
proof -
  obtain bs key enc where bs: "encode_packet_data pb p PAYLOAD_MAX = Inr bs"
    and key: "channels_get_key ts s = Some (Inr key)"
    and enc: "(if k_len key = 0 then Inr bs
      else ctr_crypt psa (take (k_len key) (k_bytes key)) (make_nonce (p_id p) (p_from p)) bs) = Inr enc"
    and wire: "wire = put_header (wire_header_of p (channels_get_hash ts s)) @ enc"
    using build_wire_Inr [OF assms(4)] assms(7) unfolding wire_header_of_def by blast
  have e: "enc_Data pb (packet_data p) = Some bs" "length bs \<le> PAYLOAD_MAX" "\<not> payload_args_bad p"
    using bs by (simp_all add: encode_packet_data_Inr)
  have kl: "k_len key \<in> {0, 16, 32}" by (rule chan.key_len [OF assms(3) key])
  have port: "d_portnum (packet_data p) \<noteq> 0" using assms(5) by (simp add: packet_data_def)
  note dec = decrypt_encrypted [OF assms(1,2) kl e(1) port e(2) enc]
  have "try_decrypt_wire_hash pb psa tr (channels_get_hash ts s) (p_from p) (p_id p) enc
      = Some (Inr (j, packet_data p))"
    by (rule try_decrypt_hit [where key = key]) (use assms(8) key dec in \<open>auto simp: shares_channel_def\<close>)
  moreover have "enc \<noteq> []" using dec encoded_data_nonempty [OF assms(1) e(1) port] by auto
  ultimately show thesis
    using that [of enc] wire dec e(2) payload_bytes_length [OF assms(6) e(3)] by simp
qed

lemma copy_packet_payload:
  "length (payload_bytes p) \<le> n \<Longrightarrow> copy_data_payload (packet_data p) (Some n)
     = Inr (if payload_bytes p = [] then None else Some (payload_bytes p))"
  by (simp add: copy_data_payload_def packet_data_def)

lemma wire_decodes:
  assumes "pb_Data_ok pb" and "psa_ctr_ok psa" and "channels_inv ts"
    and "build_wire_packet k pb psa db ts p = Some (Inr wire)"
    and "p_portnum p \<noteq> 0" and "payload_readable p"
    and "s = channels_resolve_send_index k db ts (p_to p) (p_channel_index p) (p_channel p)"
    and "shares_channel ts s tr j" and "decode_known_only kr dbr tr (p_from p)" and "p_payload_len p \<le> n"
  shows "try_decode_wire_packet kr pb psa dbr tr wire rssi snr p0 (Some n)
    = Some (Inr True, received p (channels_get_hash ts s) j rssi snr)"
proof (rule built_wire_decrypts [OF assms(1-8)])
  fix enc assume "wire = put_header (wire_header_of p (channels_get_hash ts s)) @ enc"
    and "try_decrypt_wire_hash pb psa tr (channels_get_hash ts s) (p_from p) (p_id p) enc = Some (Inr (j, packet_data p))"
    and "length (payload_bytes p) = p_payload_len p"
  with copy_packet_payload [of p n] assms(9,10) show ?thesis
    by (simp add: try_decode_wire_packet_def wire_header_of_def Let_def fill_make_header received_def packet_data_def)
qed

text \<open>
  C13: a packet that was built for the air is decoded, with every field, by every receiver
  that shares the channel and is willing to decode packets of that node.
\<close>

theorem wire_roundtrip:
  assumes "pb_Data_ok pb" and "psa_ctr_ok psa" and "channels_inv ts"
    and "build_wire_packet k pb psa db ts p = Some (Inr wire)"
    and "p_portnum p \<noteq> 0" and "payload_readable p"
    and "s = channels_resolve_send_index k db ts (p_to p) (p_channel_index p) (p_channel p)"
    and "shares_channel ts s tr j" and "decode_known_only kr dbr tr (p_from p)" and "p_payload_len p \<le> n"
  shows "try_decode_wire_packet kr pb psa dbr tr wire rssi snr p0 (Some n)
    = Some (Inr True, received p (channels_get_hash ts s) j rssi snr)"
  using assms by (rule wire_decodes)

lemma built_wire_length:
  assumes "psa_ctr_ok psa" and "build_wire_packet k pb psa db t p = Some (Inr wire)"
  shows "16 \<le> length wire \<and> length wire \<le> 255"
proof -
  show ?thesis
  proof (rule build_wire_Inr [OF assms(2)], goal_cases)
    case (1 bs key enc)
    from crypt_length [OF assms(1) 1(3)] 1(1,4) show ?case by (simp add: encode_packet_data_Inr)
  qed
qed

text \<open>
  a built packet fits a LoRa frame: a full header and at most 255 bytes in all.
\<close>

theorem build_wire_packet_fits:
  assumes "psa_ctr_ok psa" and "build_wire_packet k pb psa db t p = Some (Inr wire)"
  shows "16 \<le> length wire \<and> length wire \<le> 255"
  using assms by (rule built_wire_length)

lemma try_decrypt_loop_sound:
  assumes "try_decrypt_loop pb psa t h from pid enc is = Some (Inr (j, d))"
  shows "j \<in> set is \<and> slot_enabled t j \<and> channels_decrypt_for_hash t j h \<and>
    (\<exists>key. channels_get_key t j = Some (Inr key) \<and> decrypt_mesh_encrypted_key pb psa from pid enc key = Inr d)"
  using assms
proof (induction "is")
  case Nil
  then show ?case by simp
next
  case (Cons i "is")
  show ?case
  proof (cases "try_decrypt_loop pb psa t h from pid enc is = Some (Inr (j, d))")
    case True
    with Cons.IH show ?thesis by simp
  next
    case False
    then have en: "slot_enabled t i" and h: "channels_decrypt_for_hash t i h"
      using Cons.prems by (auto simp: channels_get_def slot_enabled_def split: if_splits)
    then have step: "channels_get_key t i \<bind> (\<lambda>r. case r of
        Inl e \<Rightarrow> try_decrypt_loop pb psa t h from pid enc is
      | Inr key \<Rightarrow> (case decrypt_mesh_encrypted_key pb psa from pid enc key of
            Inr d \<Rightarrow> Some (Inr (i, d))
          | Inl e \<Rightarrow> try_decrypt_loop pb psa t h from pid enc is)) = Some (Inr (j, d))"
      using Cons.prems by (simp add: channels_get_def slot_enabled_def)
    obtain key where key: "channels_get_key t i = Some (Inr key)"
      using step False by (cases "channels_get_key t i"; cases "the (channels_get_key t i)") simp_all
    show ?thesis
      using step False key en h by (cases "decrypt_mesh_encrypted_key pb psa from pid enc key") simp_all
  qed
qed

lemma decrypt_known_port:
  "decrypt_mesh_encrypted_key pb psa from pid enc key = Inr d \<Longrightarrow> d_portnum d \<noteq> 0"
  by (auto simp: decrypt_mesh_encrypted_key_def split: if_splits sum.splits option.splits)

text \<open>
  a packet is reported as decoded only when an enabled slot has the wire hash, that
  slot's key decrypts the payload to a protobuf message, and its port number is known; the
  slot is recorded in the packet.
\<close>

theorem try_decode_sound:
  assumes "try_decode_wire_packet k pb psa db t buf rssi snr p0 cap = Some (Inr True, p)"
  shows "\<exists>j key d. slot_enabled t j \<and> ct_hashes t ! j = h_channel (get_header buf) \<and>
    channels_get_key t j = Some (Inr key) \<and>
    decrypt_mesh_encrypted_key pb psa (h_src (get_header buf)) (h_id (get_header buf)) (drop 16 buf) key = Inr d \<and>
    p_portnum p = d_portnum d \<and> p_portnum p \<noteq> 0 \<and> p_channel_index p = word_of_nat j \<and>
    payload_bytes p = d_payload d"
proof -
  let ?h = "get_header buf"
  let ?t = "try_decrypt_wire_hash pb psa t (h_channel ?h) (h_src ?h) (h_id ?h) (drop 16 buf)"
  obtain j d where jd: "?t = Some (Inr (j, d))"
    using assms by (cases ?t; cases "the ?t")
      (auto simp: try_decode_wire_packet_def Let_def fill_packet_from_header_def split: if_splits)
  obtain pl where pl: "copy_data_payload d cap = Inr pl"
    and p: "p_portnum p = d_portnum d" "p_channel_index p = word_of_nat j" "p_payload p = pl"
      "p_payload_len p = length (d_payload d)"
    using assms jd by (cases "copy_data_payload d cap")
      (auto simp: try_decode_wire_packet_def Let_def fill_packet_from_header_def split: if_splits)
  have "payload_bytes p = d_payload d"
  proof -
    have "pl = (if d_payload d = [] then None else Some (d_payload d))"
      using pl by (auto simp: copy_data_payload_def split: if_splits option.splits)
    with p(3,4) show ?thesis by (simp add: payload_bytes_def)
  qed
  with try_decrypt_loop_sound [OF jd [unfolded try_decrypt_wire_hash_def]] p decrypt_known_port
  show ?thesis by (auto simp: channels_decrypt_for_hash_def)
qed

text \<open>
  the protobuf form of a packet, as handed to a phone or to MQTT, converts back to the
  same packet, apart from the signal measurements, which it does not carry back.
\<close>

theorem mesh_pb_roundtrip:
  assumes "packet_to_mesh_pb p = Inr m" and "payload_readable p" and "p_channel_index p < 8"
  shows "mesh_pb_to_packet pb psa t c m (Some 233) = Some (Inr (p\<lparr>
     p_payload := (if payload_bytes p = [] then None else Some (payload_bytes p)),
     p_payload_len := length (payload_bytes p),
     p_channel := channels_get_hash t (unat (p_channel_index p)), p_rssi := 0, p_snr := 0\<rparr>))"
proof -
  have na: "\<not> payload_args_bad p" using assms(1) by (auto simp: packet_to_mesh_pb_def split: if_splits)
  have le: "length (payload_bytes p) \<le> 233" using payload_bytes_length [OF assms(2) na] by simp
  have ci: "p_channel_index p \<noteq> CHANNEL_INDEX_INVALID" using assms(3) by auto
  have m: "m_variant m = Decoded (packet_data p)" "m_channel m = p_channel_index p" "m_from m = p_from p"
    "m_to m = p_to p" "m_id m = p_id p" "m_hop_limit m = p_hop_limit p" "m_hop_start m = p_hop_start p"
    "m_next_hop m = p_next_hop p" "m_relay_node m = p_relay_node p" "m_want_ack m = p_want_ack p"
    "m_via_mqtt m = p_via_mqtt p"
    using assms(1) na ci by (auto simp: packet_to_mesh_pb_def)
  show ?thesis
    using le assms(3)
    by (simp add: mesh_pb_to_packet_def m decoded_mesh_to_packet_def decoded_to_packet_def
        copy_data_payload_def packet_data_def)
qed

text \<open>
  on a live channel table building a wire packet always returns, and it fails only for
  one of four reasons: the payload arguments are inconsistent or too long, the protobuf does
  not fit the frame, the chosen slot has no key, or the cipher fails.
\<close>

theorem build_wire_packet_errors:
  assumes "channels_live t"
  shows "(\<exists>wire. build_wire_packet k pb psa db t p = Some (Inr wire)) \<or>
    (build_wire_packet k pb psa db t p = Some (Inl EINVAL) \<and> payload_args_bad p) \<or>
    (build_wire_packet k pb psa db t p = Some (Inl ENOMEM) \<and> pb_encode (enc_Data pb) 239 (packet_data p) = None) \<or>
    (build_wire_packet k pb psa db t p = Some (Inl ENOENT) \<and>
      channels_get_key t (channels_resolve_send_index k db t (p_to p) (p_channel_index p) (p_channel p))
        = Some (Inl ENOENT)) \<or>
    (build_wire_packet k pb psa db t p = Some (Inl EIO) \<and> (\<exists>key nonce bs. ctr_crypt psa key nonce bs = Inl EIO))"
proof -
  let ?i = "channels_resolve_send_index k db t (p_to p) (p_channel_index p) (p_channel p)"
  have i: "?i < MAX_CHANNELS" by (rule resolve_send_index_bound [OF channels_live_shape(3) [OF assms]])
  obtain q where q: "channels_get_key t ?i = Some q"
    using get_key_returns [OF assms, of ?i] by (auto simp: channels_get_key_def)
  have qe: "q = Inl ENOENT" if "q = Inl e" for e
    using q i that get_key_cases [OF channels_live_shape(3) [OF assms], of ?i]
    by (auto simp: channels_get_key_def own_key_def Let_def split: if_splits)
  show ?thesis
  proof (cases "encode_packet_data pb p PAYLOAD_MAX")
    case (Inl e)
    then show ?thesis
      by (auto simp: build_wire_packet_def encode_packet_data_def split: if_splits option.splits)
  next
    case (Inr bs)
    show ?thesis
    proof (cases q)
      case Inl': (Inl e)
      with Inr q qe show ?thesis by (simp add: build_wire_packet_def)
    next
      case Inr': (Inr key)
      let ?e = "ctr_crypt psa (take (k_len key) (k_bytes key)) (make_nonce (p_id p) (p_from p)) bs"
      have "?e = Inl EIO \<or> (\<exists>enc. ?e = Inr enc)"
        by (auto simp: ctr_crypt_def split: option.splits)
      with Inr q Inr' show ?thesis by (cases "k_len key = 0") (auto simp: build_wire_packet_def Let_def)
    qed
  qed
qed

end
