(* ===== verification/Airtime.thy ===== *)
theory Airtime
  imports Types
begin

text \<open>
  Airtime accounting, of \<^verbatim>\<open>src/meshtastic_airtime.c\<close>: milliseconds on the air are added to the
  bucket of the current period, and a one-second timer clears a bucket when its period comes
  round again. The theorem says what the two tables hold: exactly the airtime logged in the
  last six ten-second periods, and in the last sixty minutes. Counters are 32-bit and wrap.

  The division that turns a sum into a percentage is floating-point arithmetic; it is a
  parameter \<open>fdiv100\<close> of the two functions that return it.
\<close>

section \<open>State and operations\<close>

abbreviation (input) CHANNEL_UTILIZATION_PERIODS :: nat where "CHANNEL_UTILIZATION_PERIODS \<equiv> 6"
abbreviation (input) MINUTES_IN_HOUR :: nat where "MINUTES_IN_HOUR \<equiv> 60"
abbreviation (input) MS_IN_HOUR :: u32 where "MS_IN_HOUR \<equiv> 3600000"

datatype airtime_type = AIRTIME_TX | AIRTIME_RX | AIRTIME_RX_ALL

record airtime_state =
  at_channel_utilization :: "u32 list"
  at_utilization_tx :: "u32 list"
  at_sec_since_boot :: u32
  at_last_util_period :: nat
  at_last_util_period_tx :: nat
  at_first_tick :: bool

definition period_util_minute :: "airtime_state \<Rightarrow> nat" where
  "period_util_minute a = (unat (at_sec_since_boot a) div 10) mod CHANNEL_UTILIZATION_PERIODS"

definition period_util_hour :: "airtime_state \<Rightarrow> nat" where
  "period_util_hour a = (unat (at_sec_since_boot a) div 60) mod MINUTES_IN_HOUR"

definition channel_util_add :: "u32 \<Rightarrow> airtime_state \<Rightarrow> airtime_state" where
  "channel_util_add ms a =
     (let idx = period_util_minute a in
      a\<lparr>at_channel_utilization := (at_channel_utilization a)[idx := at_channel_utilization a ! idx + ms]\<rparr>)"

definition airtime_log :: "airtime_type \<Rightarrow> u32 \<Rightarrow> airtime_state \<Rightarrow> airtime_state" where
  "airtime_log ty ms a =
     (case ty of
        AIRTIME_TX \<Rightarrow>
          (let idx = period_util_hour a in
           channel_util_add ms
             (a\<lparr>at_utilization_tx := (at_utilization_tx a)[idx := at_utilization_tx a ! idx + ms]\<rparr>))
      | AIRTIME_RX \<Rightarrow> channel_util_add ms a
      | AIRTIME_RX_ALL \<Rightarrow> channel_util_add ms a)"

text \<open>\<open>lora_airtime\<close> is the driver's estimate for a frame of that many bytes.\<close>

definition airtime_packet_ms :: "bool \<Rightarrow> (nat \<Rightarrow> u32) \<Rightarrow> nat \<Rightarrow> u32" where
  "airtime_packet_ms ready lora_airtime wire_len = (if \<not> ready then 0 else lora_airtime wire_len)"

definition channel_util_sum :: "airtime_state \<Rightarrow> u32" where
  "channel_util_sum a = fold (\<lambda>v s. s + v) (at_channel_utilization a) 0"

definition tx_util_sum :: "airtime_state \<Rightarrow> u32" where
  "tx_util_sum a = fold (\<lambda>v s. s + v) (at_utilization_tx a) 0"

definition airtime_channel_util_percent :: "(u32 \<Rightarrow> u32 \<Rightarrow> f32) \<Rightarrow> airtime_state \<Rightarrow> f32" where
  "airtime_channel_util_percent fdiv100 a =
     fdiv100 (channel_util_sum a) (of_nat CHANNEL_UTILIZATION_PERIODS * 10 * 1000)"

definition airtime_tx_util_percent :: "(u32 \<Rightarrow> u32 \<Rightarrow> f32) \<Rightarrow> airtime_state \<Rightarrow> f32" where
  "airtime_tx_util_percent fdiv100 a = fdiv100 (tx_util_sum a) MS_IN_HOUR"

definition airtime_tick :: "airtime_state \<Rightarrow> airtime_state" where
  "airtime_tick a =
     (let a = a\<lparr>at_sec_since_boot := at_sec_since_boot a + 1\<rparr>;
          util_period = period_util_minute a;
          util_period_tx = period_util_hour a
      in if at_first_tick a
         then a\<lparr>at_first_tick := False, at_last_util_period := util_period,
                at_last_util_period_tx := util_period_tx\<rparr>
         else
           let a = (if at_last_util_period a \<noteq> util_period
                    then a\<lparr>at_last_util_period := util_period,
                           at_channel_utilization := (at_channel_utilization a)[util_period := 0]\<rparr>
                    else a)
           in if at_last_util_period_tx a \<noteq> util_period_tx
              then a\<lparr>at_last_util_period_tx := util_period_tx,
                     at_utilization_tx := (at_utilization_tx a)[util_period_tx := 0]\<rparr>
              else a)"

definition airtime_init :: airtime_state where
  "airtime_init = \<lparr>at_channel_utilization = replicate CHANNEL_UTILIZATION_PERIODS 0,
     at_utilization_tx = replicate MINUTES_IN_HOUR 0, at_sec_since_boot = 0, at_last_util_period = 0,
     at_last_util_period_tx = 0, at_first_tick = True\<rparr>"

section \<open>A rolling window of buckets\<close>

text \<open>
  \<open>N\<close> buckets of \<open>len\<close> seconds. The history is the list of what was logged, each with the
  second it was logged in; bucket \<open>b\<close> is to hold the part of the history that falls into the
  last \<open>N\<close> periods and into bucket \<open>b\<close>.
\<close>

locale rolling_window =
  fixes N len :: nat
  assumes N2: "2 \<le> N" and len_pos: "0 < len"
begin

definition in_bucket :: "nat \<Rightarrow> nat \<Rightarrow> nat \<times> u32 \<Rightarrow> bool" where
  "in_bucket now b e \<longleftrightarrow> (fst e div len) mod N = b \<and> now div len < fst e div len + N"

definition in_window :: "nat \<Rightarrow> nat \<times> u32 \<Rightarrow> bool" where
  "in_window now e \<longleftrightarrow> now div len < fst e div len + N"

definition total :: "(nat \<times> u32 \<Rightarrow> bool) \<Rightarrow> (nat \<times> u32) list \<Rightarrow> u32" where
  "total P h = sum_list (map snd (filter P h))"

definition holds :: "(nat \<times> u32) list \<Rightarrow> nat \<Rightarrow> u32 list \<Rightarrow> bool" where
  "holds h now bs \<longleftrightarrow> length bs = N \<and> (\<forall>e\<in>set h. fst e \<le> now) \<and>
     (\<forall>b<N. bs ! b = total (in_bucket now b) h)"

lemma holds_init: "holds [] 0 (replicate N 0)"
  by (simp add: holds_def total_def)

lemma holds_add:
  assumes "holds h now bs" "b = (now div len) mod N"
  shows "holds (h @ [(now, ms)]) now (bs[b := bs ! b + ms])"
  using assms N2 by (auto simp: holds_def total_def in_bucket_def nth_list_update)

text \<open>Within a period nothing changes; at the start of one, its bucket is cleared.\<close>

lemma holds_same_period:
  "holds h now bs \<Longrightarrow> now \<le> now' \<Longrightarrow> now' div len = now div len \<Longrightarrow> holds h now' bs"
  unfolding holds_def in_bucket_def total_def by (auto intro: order_trans)

lemma holds_next_period:
  assumes h: "holds h now bs" and nx: "now' div len = Suc (now div len)"
  shows "holds h now' (bs[(now' div len) mod N := 0])"
proof -
  let ?c = "now div len"
  have le: "fst e div len \<le> ?c" if "e \<in> set h" for e
    using h that by (auto simp: holds_def intro: div_le_mono)
  have "now \<le> now'" using nx div_le_mono [of now' now len] by linarith
  then have "fst e \<le> now'" if "e \<in> set h" for e
    using h that by (auto simp: holds_def intro: order_trans)
  moreover have "total (in_bucket now' b) h = (if b = Suc ?c mod N then 0 else total (in_bucket now b) h)"
    if b: "b < N" for b
  proof (cases "b = Suc ?c mod N")
    case True
    have "\<not> in_bucket now' b e" if "e \<in> set h" for e
    proof
      assume "in_bucket now' b e"
      then have m: "(fst e div len) mod N = Suc ?c mod N" and w: "Suc ?c < fst e div len + N"
        using nx True by (auto simp: in_bucket_def)
      have "N dvd Suc ?c - fst e div len"
        using m le [OF that] by (subst (asm) eq_commute) (simp add: mod_eq_dvd_iff_nat)
      with le [OF that] w show False by (auto dest: dvd_imp_le)
    qed
    then have "filter (in_bucket now' b) h = []" by (simp add: filter_empty_conv)
    with True show ?thesis by (simp add: total_def)
  next
    case False
    have "in_bucket now' b e = in_bucket now b e" if "e \<in> set h" for e
    proof (cases "fst e div len + N = Suc ?c")
      case True
      then have "(fst e div len) mod N = Suc ?c mod N" by (metis mod_add_self2)
      with False show ?thesis by (auto simp: in_bucket_def)
    qed (use nx in \<open>auto simp: in_bucket_def\<close>)
    with False show ?thesis by (simp add: total_def cong: filter_cong)
  qed
  ultimately show ?thesis
    using h N2 nx by (auto simp: holds_def nth_list_update)
qed

text \<open>The buckets together hold the window.\<close>

lemma total_partition:
  "sum_list (map (\<lambda>b. total (in_bucket now b) h) [0..<N]) = total (in_window now) h"
proof (induction h)
  case Nil
  then show ?case by (simp add: total_def)
next
  case (Cons e h)
  let ?b = "(fst e div len) mod N"
  have "(\<Sum>b\<leftarrow>[0..<N]. total (in_bucket now b) (e # h)) =
    (\<Sum>b\<leftarrow>[0..<N]. (if b = ?b \<and> in_window now e then snd e else 0) + total (in_bucket now b) h)"
    by (rule arg_cong [where f = sum_list], rule map_cong)
      (auto simp: total_def in_bucket_def in_window_def)
  also have "\<dots> = (\<Sum>b\<leftarrow>[0..<N]. if b = ?b \<and> in_window now e then snd e else 0)
      + total (in_window now) h"
    by (simp add: sum_list_addf Cons.IH)
  also have "(\<Sum>b\<leftarrow>[0..<N]. if b = ?b \<and> in_window now e then snd e else 0) = (if in_window now e then snd e else 0)"
    using N2 by (simp add: sum.distrib interv_sum_list_conv_sum_set_nat)
  finally show ?case by (simp add: total_def)
qed

lemma holds_sum:
  assumes "holds h now bs"
  shows "sum_list bs = total (in_window now) h"
proof -
  have "bs = map (\<lambda>b. total (in_bucket now b) h) [0..<N]"
    using assms by (intro nth_equalityI) (simp_all add: holds_def)
  then show ?thesis using total_partition [of now h] by simp
qed

end

interpretation minute: rolling_window 6 10
  by unfold_locales simp_all

interpretation hour: rolling_window 60 60
  by unfold_locales simp_all

section \<open>Histories of the accounting\<close>

datatype airtime_op = Log airtime_type u32 | Tick

fun airtime_step :: "airtime_op \<Rightarrow> airtime_state \<Rightarrow> airtime_state" where
  "airtime_step (Log ty ms) a = airtime_log ty ms a"
| "airtime_step Tick a = airtime_tick a"

fun seconds :: "airtime_op list \<Rightarrow> nat" where
  "seconds [] = 0"
| "seconds (Log ty ms # ops) = seconds ops"
| "seconds (Tick # ops) = Suc (seconds ops)"

text \<open>What was logged, and in which second; \<open>tx_only\<close> leaves out receptions.\<close>

fun history :: "bool \<Rightarrow> nat \<Rightarrow> airtime_op list \<Rightarrow> (nat \<times> u32) list" where
  "history tx_only now [] = []"
| "history tx_only now (Log ty ms # ops) =
     (if tx_only \<and> ty \<noteq> AIRTIME_TX then [] else [(now, ms)]) @ history tx_only now ops"
| "history tx_only now (Tick # ops) = history tx_only (Suc now) ops"

definition airtime_inv :: "airtime_state \<Rightarrow> nat \<Rightarrow> (nat \<times> u32) list \<Rightarrow> (nat \<times> u32) list \<Rightarrow> bool" where
  "airtime_inv a now h htx \<longleftrightarrow> unat (at_sec_since_boot a) = now \<and>
     minute.holds h now (at_channel_utilization a) \<and> hour.holds htx now (at_utilization_tx a) \<and>
     (if at_first_tick a then now = 0
      else at_last_util_period a = (now div 10) mod 6 \<and> at_last_util_period_tx a = (now div 60) mod 60)"

lemma airtime_inv_init: "airtime_inv airtime_init 0 [] []"
  using minute.holds_init hour.holds_init by (simp add: airtime_inv_def airtime_init_def)

lemma airtime_inv_log:
  assumes "airtime_inv a now h htx"
  shows "airtime_inv (airtime_log ty ms a) now (h @ [(now, ms)])
    (if ty = AIRTIME_TX then htx @ [(now, ms)] else htx)"
proof -
  have u: "period_util_minute a = (now div 10) mod 6" "period_util_hour a = (now div 60) mod 60"
    using assms by (simp_all add: airtime_inv_def period_util_minute_def period_util_hour_def)
  note m = minute.holds_add [OF _ refl, of h now "at_channel_utilization a" ms]
    and ho = hour.holds_add [OF _ refl, of htx now "at_utilization_tx a" ms]
  show ?thesis
    using assms m ho u
    by (cases ty)
      (simp_all add: airtime_inv_def airtime_log_def channel_util_add_def Let_def
        period_util_minute_def period_util_hour_def)
qed

lemma div_Suc_cases: "0 < (n::nat) \<Longrightarrow> Suc x div n = x div n \<or> Suc x div n = Suc (x div n)"
  by (simp add: div_Suc)

lemma minute_tick:
  assumes "minute.holds h now bs"
  shows "minute.holds h (Suc now)
    (if (now div 10) mod 6 \<noteq> (Suc now div 10) mod 6 then bs[(Suc now div 10) mod 6 := 0] else bs)"
proof (cases "Suc now div 10 = now div 10")
  case True
  with minute.holds_same_period [OF assms, of "Suc now"] show ?thesis by simp
next
  case False
  then have n: "Suc now div 10 = Suc (now div 10)" using div_Suc_cases [of 10 now] by simp
  have "(now div 10) mod 6 \<noteq> Suc (now div 10) mod 6" by (simp add: mod_Suc)
  with n minute.holds_next_period [OF assms n] show ?thesis by simp
qed

lemma hour_tick:
  assumes "hour.holds h now bs"
  shows "hour.holds h (Suc now)
    (if (now div 60) mod 60 \<noteq> (Suc now div 60) mod 60 then bs[(Suc now div 60) mod 60 := 0] else bs)"
proof (cases "Suc now div 60 = now div 60")
  case True
  with hour.holds_same_period [OF assms, of "Suc now"] show ?thesis by simp
next
  case False
  then have n: "Suc now div 60 = Suc (now div 60)" using div_Suc_cases [of 60 now] by simp
  have "(now div 60) mod 60 \<noteq> Suc (now div 60) mod 60" by (simp add: mod_Suc)
  with n hour.holds_next_period [OF assms n] show ?thesis by simp
qed

lemma airtime_tick_fields:
  fixes a :: airtime_state
  defines "p \<equiv> unat (at_sec_since_boot a + 1) div 10 mod 6"
    and "q \<equiv> unat (at_sec_since_boot a + 1) div 60 mod 60"
  shows "at_sec_since_boot (airtime_tick a) = at_sec_since_boot a + 1"
    "at_first_tick (airtime_tick a) = False"
    "at_last_util_period (airtime_tick a) = p"
    "at_last_util_period_tx (airtime_tick a) = q"
    "at_channel_utilization (airtime_tick a) = (if \<not> at_first_tick a \<and> at_last_util_period a \<noteq> p
       then (at_channel_utilization a)[p := 0] else at_channel_utilization a)"
    "at_utilization_tx (airtime_tick a) = (if \<not> at_first_tick a \<and> at_last_util_period_tx a \<noteq> q
       then (at_utilization_tx a)[q := 0] else at_utilization_tx a)"
  unfolding p_def q_def
  by (simp_all add: airtime_tick_def Let_def period_util_minute_def period_util_hour_def)

lemma airtime_inv_tick:
  assumes inv: "airtime_inv a now h htx" and le: "Suc now < 2 ^ 32"
  shows "airtime_inv (airtime_tick a) (Suc now) h htx"
proof -
  have "unat (at_sec_since_boot a + 1) = (unat (at_sec_since_boot a) + 1) mod 2 ^ 32"
    by (simp add: unat_word_ariths)
  then have s: "unat (at_sec_since_boot a + 1) = Suc now"
    using inv le by (simp add: airtime_inv_def)
  have hm: "minute.holds h now (at_channel_utilization a)" and hh: "hour.holds htx now (at_utilization_tx a)"
    using inv by (simp_all add: airtime_inv_def)
  have "at_channel_utilization (airtime_tick a) = (if now div 10 mod 6 \<noteq> Suc now div 10 mod 6
      then (at_channel_utilization a)[Suc now div 10 mod 6 := 0] else at_channel_utilization a)"
    using inv by (cases "at_first_tick a") (simp_all add: airtime_tick_fields s airtime_inv_def)
  then have "minute.holds h (Suc now) (at_channel_utilization (airtime_tick a))"
    using minute_tick [OF hm] by (simp only:)
  moreover have "at_utilization_tx (airtime_tick a) = (if now div 60 mod 60 \<noteq> Suc now div 60 mod 60
      then (at_utilization_tx a)[Suc now div 60 mod 60 := 0] else at_utilization_tx a)"
    using inv by (cases "at_first_tick a") (simp_all add: airtime_tick_fields s airtime_inv_def)
  then have "hour.holds htx (Suc now) (at_utilization_tx (airtime_tick a))"
    using hour_tick [OF hh] by (simp only:)
  ultimately show ?thesis
    by (simp add: airtime_inv_def airtime_tick_fields s)
qed

lemma airtime_inv_run:
  "airtime_inv a now h htx \<Longrightarrow> now + seconds ops < 2 ^ 32 \<Longrightarrow>
     airtime_inv (fold airtime_step ops a) (now + seconds ops)
       (h @ history False now ops) (htx @ history True now ops)"
proof (induction ops arbitrary: a now h htx rule: seconds.induct)
  case 1
  then show ?case by simp
next
  case (2 ty ms ops)
  from 2(1) [OF airtime_inv_log [OF 2(2)], of ty ms] 2(3) show ?case
    by (cases "ty = AIRTIME_TX") simp_all
next
  case (3 ops)
  have "Suc now < 2 ^ 32" using 3(3) by simp
  from 3(1) [OF airtime_inv_tick [OF 3(2) this]] 3(3) show ?case by simp
qed

lemma fold_add_sum_list: "fold (\<lambda>v s. s + v) xs (s :: u32) = s + sum_list xs"
  by (induction xs arbitrary: s) (simp_all add: add.assoc)

text \<open>
  C36: at every moment of the first \<open>2 ^ 32\<close> seconds the channel utilisation is the airtime logged
  in the current and the five preceding ten-second periods, and the transmit utilisation is
  the transmit airtime logged in the current and the 59 preceding minutes.
\<close>

theorem airtime_window:
  assumes "seconds ops < 2 ^ 32"
  shows "channel_util_sum (fold airtime_step ops airtime_init) =
      sum_list (map snd (filter (\<lambda>e. seconds ops div 10 < fst e div 10 + 6) (history False 0 ops))) \<and>
    tx_util_sum (fold airtime_step ops airtime_init) =
      sum_list (map snd (filter (\<lambda>e. seconds ops div 60 < fst e div 60 + 60) (history True 0 ops)))"
proof -
  have "airtime_inv (fold airtime_step ops airtime_init) (seconds ops) (history False 0 ops) (history True 0 ops)"
    using airtime_inv_run [OF airtime_inv_init, of ops] assms by simp
  then have "minute.holds (history False 0 ops) (seconds ops)
      (at_channel_utilization (fold airtime_step ops airtime_init))"
    "hour.holds (history True 0 ops) (seconds ops) (at_utilization_tx (fold airtime_step ops airtime_init))"
    by (simp_all add: airtime_inv_def)
  from minute.holds_sum [OF this(1)] hour.holds_sum [OF this(2)] show ?thesis
    by (simp add: channel_util_sum_def tx_util_sum_def fold_add_sum_list minute.total_def hour.total_def
        minute.in_window_def [abs_def] hour.in_window_def [abs_def])
qed

end
