(* ===== verification/Radio.thy ===== *)
theory Radio
  imports Airtime "HOL-Library.Sublist"
begin

text \<open>
  The radio: \<^verbatim>\<open>src/meshtastic_outbound.c\<close> (the transmit queue and its worker thread) and
  \<^verbatim>\<open>src/meshtastic_radio.c\<close> (one transmission with its busy-channel retries, the receive
  callback, re-arming of reception).

  The LoRa driver and the random number generator are outside the repository. Their answers
  are the fields of \<open>driver\<close>, functions of the number of driver calls made so far; \<open>r_calls\<close>
  counts the calls, and \<open>r_on_air\<close>, which the code does not have, records the frames
  \<^verbatim>\<open>lora_send\<close> accepted, oldest first.

  Threads: the transmit worker takes the queued frames in order. A caller that waits for its
  frame therefore sees every frame queued before it transmitted first; what other threads
  queue in the meantime comes after it and is left out.
\<close>

section \<open>State\<close>

record driver =
  lora_config :: "nat \<Rightarrow> errno option"
  lora_send :: "nat \<Rightarrow> bytes \<Rightarrow> errno option"
  lora_recv_async :: "nat \<Rightarrow> errno option"
  lora_airtime :: "nat \<Rightarrow> u32"
  sys_rand32_get :: "nat \<Rightarrow> u32"

record modem_config =
  lc_frequency :: u32
  lc_tx_power :: int
  lc_tx :: bool
  lc_cad_lbt :: bool

record rx_slot =
  rx_buf :: bytes
  rx_rssi :: int
  rx_snr :: int

record radio =
  r_calls :: nat
  r_cfg :: modem_config
  r_outbound :: "bytes list"
  r_rx :: "rx_slot list"
  r_on_air :: "bytes list"

text \<open>The part of the stack a transmission reads and writes.\<close>

record link =
  l_mt :: mt_context
  l_radio :: radio
  l_air :: airtime_state

definition radio_zero :: radio where
  "radio_zero = \<lparr>r_calls = 0, r_cfg = \<lparr>lc_frequency = 0, lc_tx_power = 0, lc_tx = False, lc_cad_lbt = False\<rparr>,
     r_outbound = [], r_rx = [], r_on_air = []\<rparr>"

abbreviation (input) upd_mt :: "(mt_context \<Rightarrow> mt_context) \<Rightarrow> link \<Rightarrow> link" where
  "upd_mt f l \<equiv> l\<lparr>l_mt := f (l_mt l)\<rparr>"

abbreviation (input) upd_status :: "(status \<Rightarrow> status) \<Rightarrow> mt_context \<Rightarrow> mt_context" where
  "upd_status f c \<equiv> c\<lparr>mt_status := f (mt_status c)\<rparr>"

definition call_driver :: "(nat \<Rightarrow> 'a) \<Rightarrow> radio \<Rightarrow> 'a \<times> radio" where
  "call_driver f r = (f (r_calls r), r\<lparr>r_calls := Suc (r_calls r)\<rparr>)"

section \<open>One transmission\<close>

definition radio_arm_rx :: "driver \<Rightarrow> link \<Rightarrow> unit res \<times> link" where
  "radio_arm_rx drv l =
     (let (ret, r) = call_driver (lora_recv_async drv) (l_radio l);
          l = l\<lparr>l_radio := r\<rparr>
      in case ret of
           Some e \<Rightarrow> (Inl e, upd_mt (\<lambda>c. upd_status (\<lambda>s. s\<lparr>s_rx_rearm_failures := s_rx_rearm_failures s + 1\<rparr>)
               (c\<lparr>mt_radio_rx_armed := False\<rparr>)) l)
         | None \<Rightarrow> (ok, upd_mt (\<lambda>c. c\<lparr>mt_radio_rx_armed := True\<rparr>) l))"

definition busy_backoff_ms :: "kconfig \<Rightarrow> u32 \<Rightarrow> nat" where
  "busy_backoff_ms k rnd =
     (let min_ms = TX_BUSY_BACKOFF_MIN_MS k; max_ms = TX_BUSY_BACKOFF_MAX_MS k
      in if max_ms \<le> min_ms then min_ms else min_ms + unat rnd mod (max_ms - min_ms + 1))"

text \<open>
  The \<^verbatim>\<open>for (;;)\<close> loop around \<^verbatim>\<open>lora_send\<close>, with the number of retries left. It returns the
  last answer and the back-off times slept, newest last.
\<close>

fun send_loop :: "kconfig \<Rightarrow> driver \<Rightarrow> bytes \<Rightarrow> nat \<Rightarrow> radio \<Rightarrow> errno option \<times> nat list \<times> radio" where
  "send_loop k drv pkt retries r =
     (let (ret, r) = call_driver (\<lambda>n. lora_send drv n pkt) r;
          r = (if ret = None then r\<lparr>r_on_air := r_on_air r @ [pkt]\<rparr> else r)
      in if ret \<noteq> Some EBUSY then (ret, [], r)
         else case retries of
             0 \<Rightarrow> (ret, [], r)
           | Suc retries' \<Rightarrow>
               (let (rnd, r) = call_driver (sys_rand32_get drv) r;
                    (ret, slept, r) = send_loop k drv pkt retries' r
                in (ret, busy_backoff_ms k rnd # slept, r)))"

declare send_loop.simps [simp del]

definition radio_send_wire_now :: "kconfig \<Rightarrow> driver \<Rightarrow> bytes \<Rightarrow> link \<Rightarrow> unit res \<times> link" where
  "radio_send_wire_now k drv pkt l =
     (let (_, r) = call_driver (lora_recv_async drv) (l_radio l);
          c = (l_mt l)\<lparr>mt_radio_rx_armed := False\<rparr>;
          r = r\<lparr>r_cfg := \<lparr>lc_frequency = mt_frequency c, lc_tx_power = mt_tx_power c, lc_tx = True, lc_cad_lbt = True\<rparr>\<rparr>;
          (ret, r) = call_driver (lora_config drv) r;
          (ret, r) = (case ret of
              Some e \<Rightarrow> (Some e, r)
            | None \<Rightarrow> (let (ret, _, r) = send_loop k drv pkt (TX_BUSY_RETRIES k) r in (ret, r)));
          r = r\<lparr>r_cfg := (r_cfg r)\<lparr>lc_tx := False, lc_cad_lbt := False\<rparr>\<rparr>;
          (_, r) = call_driver (lora_config drv) r;
          (_, l) = radio_arm_rx drv (l\<lparr>l_mt := c, l_radio := r\<rparr>)
      in case ret of
           Some e \<Rightarrow> (Inl e, upd_mt (\<lambda>c. emit_event EVENT_TX_FAILED (Some e) None
               (upd_status (\<lambda>s. s\<lparr>s_tx_failures := s_tx_failures s + 1\<rparr>) c)) l)
         | None \<Rightarrow>
             (let l = upd_mt (upd_status (\<lambda>s. s\<lparr>s_tx_packets := s_tx_packets s + 1\<rparr>)) l in
              (ok, if AIRTIME k
                   then l\<lparr>l_air := airtime_log AIRTIME_TX
                          (airtime_packet_ms (mt_lora_ready (l_mt l)) (lora_airtime drv) (length pkt)) (l_air l)\<rparr>
                   else l)))"

section \<open>The transmit queue\<close>

text \<open>
  The three kinds of timeout: do not wait, wait for ever, and a finite wait, of which the
  model is told whether the worker finished in time.
\<close>

datatype timeout = K_NO_WAIT | K_FOREVER | K_WITHIN bool

text \<open>The worker thread on a list of frames taken from the queue.\<close>

fun outbound_thread :: "kconfig \<Rightarrow> driver \<Rightarrow> bytes list \<Rightarrow> link \<Rightarrow> link" where
  "outbound_thread k drv [] l = l"
| "outbound_thread k drv (pkt # q) l = outbound_thread k drv q (snd (radio_send_wire_now k drv pkt l))"

definition outbound_run :: "kconfig \<Rightarrow> driver \<Rightarrow> link \<Rightarrow> link" where
  "outbound_run k drv l =
     outbound_thread k drv (r_outbound (l_radio l)) (l\<lparr>l_radio := (l_radio l)\<lparr>r_outbound := []\<rparr>\<rparr>)"

definition outbound_once :: "kconfig \<Rightarrow> driver \<Rightarrow> link \<Rightarrow> link" where
  "outbound_once k drv l =
     (case r_outbound (l_radio l) of
        [] \<Rightarrow> l
      | pkt # q \<Rightarrow> snd (radio_send_wire_now k drv pkt (l\<lparr>l_radio := (l_radio l)\<lparr>r_outbound := q\<rparr>\<rparr>)))"

definition radio_send_wire :: "kconfig \<Rightarrow> bytes \<Rightarrow> radio \<Rightarrow> unit res \<times> radio" where
  "radio_send_wire k pkt r =
     (if pkt = [] \<or> PKT_MAX < length pkt then (Inl EINVAL, r)
      else if OUTBOUND_QUEUE_DEPTH k \<le> length (r_outbound r) then (Inl ENOMSG, r)
      else (ok, r\<lparr>r_outbound := r_outbound r @ [pkt]\<rparr>))"

text \<open>
  A waiting caller queues its frame, blocking while the queue is full, and then blocks until
  the worker has transmitted it. The runs of the worker it waits for are part of its own step:
  while it is blocked the worker takes the frames queued before it in order and then its own, and
  no other thread gets a turn in between. When a finite wait runs out the frame stays queued.
\<close>

definition radio_send_wire_wait ::
  "kconfig \<Rightarrow> driver \<Rightarrow> bytes \<Rightarrow> timeout \<Rightarrow> link \<Rightarrow> unit res \<times> link" where
  "radio_send_wire_wait k drv pkt wait l =
     (if pkt = [] \<or> PKT_MAX < length pkt then (Inl EINVAL, l)
      else case wait of
          K_NO_WAIT \<Rightarrow> (let (ret, r) = radio_send_wire k pkt (l_radio l) in (ret, l\<lparr>l_radio := r\<rparr>))
        | K_FOREVER \<Rightarrow> radio_send_wire_now k drv pkt (outbound_run k drv l)
        | K_WITHIN True \<Rightarrow> radio_send_wire_now k drv pkt (outbound_run k drv l)
        | K_WITHIN False \<Rightarrow>
            (let l = (if OUTBOUND_QUEUE_DEPTH k \<le> length (r_outbound (l_radio l)) then outbound_once k drv l else l)
             in (Inl EAGAIN, l\<lparr>l_radio := (l_radio l)\<lparr>r_outbound := r_outbound (l_radio l) @ [pkt]\<rparr>\<rparr>)))"

section \<open>Reception\<close>

definition rx_cb :: "kconfig \<Rightarrow> bytes \<Rightarrow> int \<Rightarrow> int \<Rightarrow> link \<Rightarrow> link" where
  "rx_cb k dat rssi snr l =
     (if dat = [] \<or> PKT_MAX < length dat then l
      else if RX_QUEUE_DEPTH k \<le> length (r_rx (l_radio l))
      then upd_mt (upd_status (\<lambda>s. s\<lparr>s_rx_dropped := s_rx_dropped s + 1\<rparr>)) l
      else l\<lparr>l_radio := (l_radio l)\<lparr>r_rx := r_rx (l_radio l) @ [\<lparr>rx_buf = dat, rx_rssi = rssi, rx_snr = snr\<rparr>]\<rparr>\<rparr>)"

text \<open>The receive thread when no frame arrived within the re-arm interval.\<close>

definition rx_thread_idle :: "driver \<Rightarrow> link \<Rightarrow> link" where
  "rx_thread_idle drv l =
     (if \<not> mt_radio_rx_armed (l_mt l) then snd (radio_arm_rx drv l) else l)"

definition radio_init :: "driver \<Rightarrow> link \<Rightarrow> unit res \<times> link" where
  "radio_init drv l =
     (let r = (l_radio l)\<lparr>r_cfg := (r_cfg (l_radio l))\<lparr>lc_frequency := mt_frequency (l_mt l),
                lc_tx_power := mt_tx_power (l_mt l), lc_tx := False\<rparr>\<rparr>;
          (ret, r) = call_driver (lora_config drv) r;
          l = l\<lparr>l_radio := r\<rparr>
      in case ret of
           Some e \<Rightarrow> (Inl EIO, l)
         | None \<Rightarrow> (ok, snd (radio_arm_rx drv l)))"

section \<open>The retry loop\<close>

lemma send_loop_unfold:
  "send_loop k drv pkt retries r =
     (let ret = lora_send drv (r_calls r) pkt;
          r' = r\<lparr>r_calls := Suc (r_calls r), r_on_air := (if ret = None then r_on_air r @ [pkt] else r_on_air r)\<rparr>
      in if ret \<noteq> Some EBUSY then (ret, [], r')
         else case retries of
             0 \<Rightarrow> (ret, [], r')
           | Suc n \<Rightarrow> (let (ret, slept, r'') = send_loop k drv pkt n (r'\<lparr>r_calls := Suc (r_calls r')\<rparr>)
                in (ret, busy_backoff_ms k (sys_rand32_get drv (r_calls r')) # slept, r'')))"
  by (subst send_loop.simps) (auto simp: call_driver_def Let_def split: nat.splits)

text \<open>
  The loop ends with an answer other than busy, or after the last retry; a success puts the
  frame on the air once, a failure not at all; and it touches nothing else of the radio.
\<close>

lemma send_loop_spec:
  assumes "send_loop k drv pkt retries r = (ret, slept, r')"
  shows "length slept \<le> retries \<and> (ret = Some EBUSY \<longrightarrow> length slept = retries) \<and>
    (\<forall>i\<le>length slept. i < length slept \<or> ret = Some EBUSY \<longrightarrow> lora_send drv (r_calls r + 2 * i) pkt = Some EBUSY) \<and>
    lora_send drv (r_calls r + 2 * length slept) pkt = ret \<and>
    r' = r\<lparr>r_calls := Suc (r_calls r + 2 * length slept),
           r_on_air := (if ret = None then r_on_air r @ [pkt] else r_on_air r)\<rparr>"
  using assms
proof (induction retries arbitrary: r slept)
  case 0
  then show ?case
    by (subst (asm) send_loop_unfold) (auto simp: Let_def split: if_splits)
next
  case (Suc n)
  let ?a = "lora_send drv (r_calls r) pkt"
  show ?case
  proof (cases "?a = Some EBUSY")
    case False
    with Suc.prems show ?thesis by (subst (asm) send_loop_unfold) (auto simp: Let_def)
  next
    case True
    let ?r = "r\<lparr>r_calls := Suc (Suc (r_calls r))\<rparr>"
    obtain slept' where s: "send_loop k drv pkt n ?r = (ret, slept', r')" and
      sl: "slept = busy_backoff_ms k (sys_rand32_get drv (Suc (r_calls r))) # slept'"
      using Suc.prems True by (subst (asm) (1) send_loop_unfold) (auto simp: Let_def split: prod.splits)
    note IH = Suc.IH [OF s]
    have "lora_send drv (r_calls r + 2 * i) pkt = Some EBUSY"
      if "i \<le> length slept" "i < length slept \<or> ret = Some EBUSY" for i
    proof (cases i)
      case 0
      with True show ?thesis by simp
    next
      case (Suc j)
      with that sl IH show ?thesis by auto
    qed
    with IH sl show ?thesis by simp
  qed
qed

section \<open>What a transmission changes\<close>

text \<open>The part of the context that transmissions leave alone.\<close>

definition mt_same :: "mt_context \<Rightarrow> mt_context \<Rightarrow> bool" where
  "mt_same c c' \<longleftrightarrow> c' = c\<lparr>mt_status := mt_status c', mt_radio_rx_armed := mt_radio_rx_armed c', mt_log := mt_log c'\<rparr>"

lemma mt_same_refl [simp]: "mt_same c c"
  by (simp add: mt_same_def)

lemma mt_same_trans: "mt_same c c' \<Longrightarrow> mt_same c' c'' \<Longrightarrow> mt_same c c''"
  by (cases c; cases c'; cases c'') (simp add: mt_same_def)

lemma mt_same_updates [simp]:
  "mt_same c (c'\<lparr>mt_status := s\<rparr>) = mt_same c c'"
  "mt_same c (c'\<lparr>mt_radio_rx_armed := b\<rparr>) = mt_same c c'"
  "mt_same c (c'\<lparr>mt_log := l\<rparr>) = mt_same c c'"
  "mt_same c (emit_event ty err pkt c') = mt_same c c'"
  "mt_same (c\<lparr>mt_status := s\<rparr>) c' = mt_same c c'"
  "mt_same (c\<lparr>mt_radio_rx_armed := b\<rparr>) c' = mt_same c c'"
  "mt_same (c\<lparr>mt_log := l\<rparr>) c' = mt_same c c'"
  by (cases c; cases c'; simp add: mt_same_def emit_event_def)+

lemma mt_same_fields:
  assumes "mt_same c c'"
  shows "mt_node_id c' = mt_node_id c" "mt_ch_hash c' = mt_ch_hash c" "mt_hop_limit c' = mt_hop_limit c"
    "mt_event_cb c' = mt_event_cb c" "mt_recv_cb c' = mt_recv_cb c" "mt_dup_cache c' = mt_dup_cache c"
    "mt_dup_head c' = mt_dup_head c" "mt_initialized c' = mt_initialized c"
    "mt_next_pkt_id c' = mt_next_pkt_id c"
  using assms by (cases c; cases c'; simp add: mt_same_def)+

definition sent_ok :: "unit res \<Rightarrow> bytes \<Rightarrow> bytes list" where
  "sent_ok ret pkt = (if ret = ok then [pkt] else [])"

lemma radio_arm_rx_spec:
  "radio_arm_rx drv l = (ret, l') \<Longrightarrow>
     l_radio l' = (l_radio l)\<lparr>r_calls := Suc (r_calls (l_radio l))\<rparr> \<and> l_air l' = l_air l \<and>
     mt_same (l_mt l) (l_mt l') \<and> mt_log (l_mt l') = mt_log (l_mt l) \<and>
     mt_radio_rx_armed (l_mt l') = (ret = ok) \<and>
     mt_status (l_mt l') = (mt_status (l_mt l))\<lparr>s_rx_rearm_failures :=
       s_rx_rearm_failures (mt_status (l_mt l)) + (if ret = ok then 0 else 1)\<rparr>"
  by (auto simp: radio_arm_rx_def call_driver_def Let_def split: option.splits)

lemma send_now_spec:
  assumes "radio_send_wire_now k drv pkt l = (ret, l')"
  shows "r_on_air (l_radio l') = r_on_air (l_radio l) @ sent_ok ret pkt \<and>
    r_outbound (l_radio l') = r_outbound (l_radio l) \<and> r_rx (l_radio l') = r_rx (l_radio l) \<and>
    \<not> lc_tx (r_cfg (l_radio l')) \<and> \<not> lc_cad_lbt (r_cfg (l_radio l')) \<and>
    lc_frequency (r_cfg (l_radio l')) = mt_frequency (l_mt l) \<and>
    r_calls (l_radio l') \<le> r_calls (l_radio l) + 5 + 2 * TX_BUSY_RETRIES k \<and>
    mt_same (l_mt l) (l_mt l') \<and>
    mt_radio_rx_armed (l_mt l') = (lora_recv_async drv (r_calls (l_radio l') - 1) = None) \<and>
    s_tx_packets (mt_status (l_mt l')) = s_tx_packets (mt_status (l_mt l)) + (if ret = ok then 1 else 0) \<and>
    s_tx_failures (mt_status (l_mt l')) = s_tx_failures (mt_status (l_mt l)) + (if ret = ok then 0 else 1) \<and>
    mt_log (l_mt l') = mt_log (l_mt l) @
      (case ret of Inl e \<Rightarrow> if mt_event_cb (l_mt l) then [Event EVENT_TX_FAILED (Some e) None] else [] | Inr _ \<Rightarrow> [])"
proof -
  let ?n = "r_calls (l_radio l)"
  let ?cfg = "\<lparr>lc_frequency = mt_frequency (l_mt l), lc_tx_power = mt_tx_power (l_mt l), lc_tx = True, lc_cad_lbt = True\<rparr>"
  let ?r = "(l_radio l)\<lparr>r_cfg := ?cfg, r_calls := Suc (Suc ?n)\<rparr>"
  obtain tx slept r where
    tx: "(case lora_config drv (Suc ?n) of Some e \<Rightarrow> (Some e, [], ?r)
          | None \<Rightarrow> send_loop k drv pkt (TX_BUSY_RETRIES k) ?r) = (tx, slept, r)"
    by (metis prod_cases3)
  have r: "r_on_air r = r_on_air (l_radio l) @ (if tx = None then [pkt] else [])"
    "r_outbound r = r_outbound (l_radio l)" "r_rx r = r_rx (l_radio l)" "r_cfg r = ?cfg"
    "r_calls r \<le> ?n + 3 + 2 * TX_BUSY_RETRIES k"
    using tx send_loop_spec [of k drv pkt "TX_BUSY_RETRIES k" ?r tx slept r]
    by (auto split: option.splits)
  let ?l = "l\<lparr>l_mt := (l_mt l)\<lparr>mt_radio_rx_armed := False\<rparr>,
    l_radio := r\<lparr>r_cfg := (r_cfg r)\<lparr>lc_tx := False, lc_cad_lbt := False\<rparr>, r_calls := Suc (r_calls r)\<rparr>\<rparr>"
  obtain a m where am: "radio_arm_rx drv ?l = (a, m)" by force
  have a: "(a = ok) = (lora_recv_async drv (Suc (r_calls r)) = None)"
    using am by (auto simp: radio_arm_rx_def call_driver_def Let_def split: option.splits)
  note arm = radio_arm_rx_spec [OF am]
  have eq: "radio_send_wire_now k drv pkt l = (case tx of
      Some e \<Rightarrow> (Inl e, upd_mt (\<lambda>c. emit_event EVENT_TX_FAILED (Some e) None
          (upd_status (\<lambda>s. s\<lparr>s_tx_failures := s_tx_failures s + 1\<rparr>) c)) m)
    | None \<Rightarrow> (let l = upd_mt (upd_status (\<lambda>s. s\<lparr>s_tx_packets := s_tx_packets s + 1\<rparr>)) m in
         (ok, if AIRTIME k
              then l\<lparr>l_air := airtime_log AIRTIME_TX
                  (airtime_packet_ms (mt_lora_ready (l_mt l)) (lora_airtime drv) (length pkt)) (l_air l)\<rparr>
              else l)))"
    using tx am by (auto simp: radio_send_wire_now_def call_driver_def Let_def split: option.splits)
  show ?thesis
  proof (cases tx)
    case None
    with eq assms have "ret = ok" "l_radio l' = l_radio m"
      "l_mt l' = upd_status (\<lambda>s. s\<lparr>s_tx_packets := s_tx_packets s + 1\<rparr>) (l_mt m)"
      by (auto simp: Let_def split: if_splits)
    with None arm r a show ?thesis by (simp add: sent_ok_def)
  next
    case (Some e)
    with eq assms have "ret = Inl e" "l_radio l' = l_radio m"
      "l_mt l' = emit_event EVENT_TX_FAILED (Some e) None
          (upd_status (\<lambda>s. s\<lparr>s_tx_failures := s_tx_failures s + 1\<rparr>) (l_mt m))"
      by auto
    moreover have "mt_event_cb (l_mt m) = mt_event_cb (l_mt l)"
      using arm mt_same_fields(4) [of "l_mt l" "l_mt m"] by simp
    ultimately show ?thesis
      using Some arm r a by (simp add: sent_ok_def emit_event_def)
  qed
qed

section \<open>The worker\<close>

lemma outbound_thread_spec:
  "\<exists>oks. subseq oks q \<and> r_on_air (l_radio (outbound_thread k drv q l)) = r_on_air (l_radio l) @ oks \<and>
     r_outbound (l_radio (outbound_thread k drv q l)) = r_outbound (l_radio l) \<and>
     r_rx (l_radio (outbound_thread k drv q l)) = r_rx (l_radio l) \<and>
     mt_same (l_mt l) (l_mt (outbound_thread k drv q l)) \<and>
     s_tx_packets (mt_status (l_mt (outbound_thread k drv q l)))
       = s_tx_packets (mt_status (l_mt l)) + of_nat (length oks) \<and>
     s_tx_failures (mt_status (l_mt (outbound_thread k drv q l))) + of_nat (length oks)
       = s_tx_failures (mt_status (l_mt l)) + of_nat (length q)"
proof (induction q arbitrary: l)
  case Nil
  then show ?case by (intro exI [of _ "[]"]) simp
next
  case (Cons pkt q)
  obtain ret m where m: "radio_send_wire_now k drv pkt l = (ret, m)" by force
  note s = send_now_spec [OF m]
  obtain oks where oks: "subseq oks q"
    "r_on_air (l_radio (outbound_thread k drv q m)) = r_on_air (l_radio m) @ oks"
    "r_outbound (l_radio (outbound_thread k drv q m)) = r_outbound (l_radio m)"
    "r_rx (l_radio (outbound_thread k drv q m)) = r_rx (l_radio m)"
    "mt_same (l_mt m) (l_mt (outbound_thread k drv q m))"
    "s_tx_packets (mt_status (l_mt (outbound_thread k drv q m)))
       = s_tx_packets (mt_status (l_mt m)) + of_nat (length oks)"
    "s_tx_failures (mt_status (l_mt (outbound_thread k drv q m))) + of_nat (length oks)
       = s_tx_failures (mt_status (l_mt m)) + of_nat (length q)"
    using Cons.IH [of m] by blast
  have same: "mt_same (l_mt l) (l_mt (outbound_thread k drv q m))"
    using s oks(5) mt_same_trans by blast
  have sub: "subseq (sent_ok ret pkt @ oks) (pkt # q)" using oks(1) by (auto simp: sent_ok_def)
  show ?case
    by (rule exI [of _ "sent_ok ret pkt @ oks"])
      (use s oks same sub m in \<open>auto simp: sent_ok_def algebra_simps\<close>)
qed

lemma send_wire_wait_forever:
  assumes "radio_send_wire_wait k drv pkt K_FOREVER l = (ret, l')" and "pkt \<noteq> []" and "length pkt \<le> 255"
  shows "\<exists>oks. subseq oks (r_outbound (l_radio l)) \<and>
    r_on_air (l_radio l') = r_on_air (l_radio l) @ oks @ (if ret = ok then [pkt] else []) \<and>
    r_outbound (l_radio l') = [] \<and>
    s_tx_packets (mt_status (l_mt l')) + s_tx_failures (mt_status (l_mt l')) =
      s_tx_packets (mt_status (l_mt l)) + s_tx_failures (mt_status (l_mt l)) +
      of_nat (length (r_outbound (l_radio l))) + 1"
proof -
  let ?e = "l\<lparr>l_radio := (l_radio l)\<lparr>r_outbound := []\<rparr>\<rparr>"
  let ?m = "outbound_thread k drv (r_outbound (l_radio l)) ?e"
  have m: "radio_send_wire_now k drv pkt ?m = (ret, l')"
    using assms by (simp add: radio_send_wire_wait_def outbound_run_def)
  note s = send_now_spec [OF m]
  obtain oks where oks: "subseq oks (r_outbound (l_radio l))"
    "r_on_air (l_radio ?m) = r_on_air (l_radio l) @ oks" "r_outbound (l_radio ?m) = []"
    "s_tx_packets (mt_status (l_mt ?m)) = s_tx_packets (mt_status (l_mt l)) + of_nat (length oks)"
    "s_tx_failures (mt_status (l_mt ?m)) + of_nat (length oks)
       = s_tx_failures (mt_status (l_mt l)) + of_nat (length (r_outbound (l_radio l)))"
    using outbound_thread_spec [of "r_outbound (l_radio l)" k drv ?e] by auto
  have "s_tx_packets (mt_status (l_mt ?m)) + s_tx_failures (mt_status (l_mt ?m)) =
    s_tx_packets (mt_status (l_mt l)) + s_tx_failures (mt_status (l_mt l)) + of_nat (length (r_outbound (l_radio l)))"
    using oks(4,5) by (simp add: algebra_simps)
  with s oks(1-3) show ?thesis by (intro exI [of _ oks]) (auto simp: sent_ok_def algebra_simps)
qed

section \<open>Properties\<close>

text \<open>
  one transmission. The frame is on the air once if it succeeds and not at all if it
  fails; at most \<open>TX_BUSY_RETRIES + 1\<close> attempts are made (each with one driver call and at most one
  random number, plus four calls around them); the channel-busy error is returned only when
  every attempt found the channel busy; the modem is left in receive configuration on the
  node's frequency; and exactly one of the two transmit counters goes up by one.
\<close>

theorem radio_send_wire_now_once:
  assumes "radio_send_wire_now k drv pkt l = (ret, l')"
  shows "r_on_air (l_radio l') = r_on_air (l_radio l) @ (if ret = ok then [pkt] else []) \<and>
    r_calls (l_radio l') \<le> r_calls (l_radio l) + 5 + 2 * TX_BUSY_RETRIES k \<and>
    \<not> lc_tx (r_cfg (l_radio l')) \<and> lc_frequency (r_cfg (l_radio l')) = mt_frequency (l_mt l) \<and>
    s_tx_packets (mt_status (l_mt l')) = s_tx_packets (mt_status (l_mt l)) + (if ret = ok then 1 else 0) \<and>
    s_tx_failures (mt_status (l_mt l')) = s_tx_failures (mt_status (l_mt l)) + (if ret = ok then 0 else 1) \<and>
    (ret = Inl EBUSY \<and> lora_config drv (Suc (r_calls (l_radio l))) = None \<longrightarrow>
      (\<forall>i\<le>TX_BUSY_RETRIES k. lora_send drv (r_calls (l_radio l) + 2 + 2 * i) pkt = Some EBUSY))"
proof -
  note s = send_now_spec [OF assms]
  have "lora_send drv (r_calls (l_radio l) + 2 + 2 * i) pkt = Some EBUSY"
    if b: "ret = Inl EBUSY" "lora_config drv (Suc (r_calls (l_radio l))) = None" and i: "i \<le> TX_BUSY_RETRIES k" for i
  proof -
    let ?r = "(l_radio l)\<lparr>r_cfg := \<lparr>lc_frequency = mt_frequency (l_mt l), lc_tx_power = mt_tx_power (l_mt l),
      lc_tx = True, lc_cad_lbt = True\<rparr>, r_calls := Suc (Suc (r_calls (l_radio l)))\<rparr>"
    obtain tx slept r where tx: "send_loop k drv pkt (TX_BUSY_RETRIES k) ?r = (tx, slept, r)"
      by (metis prod_cases3)
    have "tx = Some EBUSY"
      using assms b tx
      by (auto simp: radio_send_wire_now_def call_driver_def Let_def split: option.splits prod.splits)
    with send_loop_spec [OF tx] i show ?thesis by simp
  qed
  with s show ?thesis by (simp add: sent_ok_def)
qed

text \<open>
  C33: a caller that waits for ever gets the result of its own frame, after every frame that
  was queued before it has been tried in queue order: the frames on the air are the earlier
  ones that succeeded, in order, and then its own if it succeeded. The queue is then empty, and
  every tried frame is counted once, as sent or as failed.
\<close>

theorem send_wire_wait_fifo:
  assumes "radio_send_wire_wait k drv pkt K_FOREVER l = (ret, l')" and "pkt \<noteq> []" and "length pkt \<le> 255"
  shows "\<exists>oks. subseq oks (r_outbound (l_radio l)) \<and>
    r_on_air (l_radio l') = r_on_air (l_radio l) @ oks @ (if ret = ok then [pkt] else []) \<and>
    r_outbound (l_radio l') = [] \<and>
    s_tx_packets (mt_status (l_mt l')) + s_tx_failures (mt_status (l_mt l')) =
      s_tx_packets (mt_status (l_mt l)) + s_tx_failures (mt_status (l_mt l)) +
      of_nat (length (r_outbound (l_radio l))) + 1"
  using assms by (rule send_wire_wait_forever)

definition queues_ok :: "kconfig \<Rightarrow> radio \<Rightarrow> bool" where
  "queues_ok k r \<longleftrightarrow> length (r_outbound r) \<le> OUTBOUND_QUEUE_DEPTH k \<and> length (r_rx r) \<le> RX_QUEUE_DEPTH k \<and>
     (\<forall>p\<in>set (r_outbound r). p \<noteq> [] \<and> length p \<le> 255) \<and>
     (\<forall>x\<in>set (r_rx r). rx_buf x \<noteq> [] \<and> length (rx_buf x) \<le> 255)"

text \<open>
  the transmit queue and the receive queue never exceed their depth and hold only frames
  of 1 to 255 bytes; a frame that finds the transmit queue full is refused with \<open>ENOMSG\<close>, and
  one that finds the receive queue full is dropped and counted.
\<close>

theorem radio_queues_bounded:
  assumes "queues_ok k (l_radio l)"
  shows "queues_ok k (snd (radio_send_wire k pkt (l_radio l))) \<and>
    queues_ok k (l_radio (rx_cb k dat rssi snr l)) \<and>
    (fst (radio_send_wire k pkt (l_radio l)) = Inl ENOMSG \<longleftrightarrow>
      pkt \<noteq> [] \<and> length pkt \<le> 255 \<and> length (r_outbound (l_radio l)) = OUTBOUND_QUEUE_DEPTH k) \<and>
    (r_rx (l_radio (rx_cb k dat rssi snr l)) = r_rx (l_radio l) @ [\<lparr>rx_buf = dat, rx_rssi = rssi, rx_snr = snr\<rparr>] \<or>
     r_rx (l_radio (rx_cb k dat rssi snr l)) = r_rx (l_radio l) \<and>
       (dat = [] \<or> 255 < length dat \<or>
        s_rx_dropped (mt_status (l_mt (rx_cb k dat rssi snr l))) = s_rx_dropped (mt_status (l_mt l)) + 1))"
  using assms by (auto simp: queues_ok_def radio_send_wire_def rx_cb_def)

end
