(* ===== verification/Reliable.thy ===== *)
theory Reliable
  imports Radio "HOL-Library.Multiset"
begin

text \<open>
  Acknowledged delivery, of \<^verbatim>\<open>src/meshtastic_reliable.c\<close>: a fixed table of packets that wait
  for an acknowledgement, the retry timer, and the three ways out of the table: an
  acknowledgement, a negative one, and running out of retransmissions.

  Times are milliseconds of uptime, passed in as \<open>now\<close>. The delayed work item is the time it
  is due, \<open>None\<close> when it is not scheduled.
\<close>

section \<open>State and operations\<close>

abbreviation (input) INT64_MAX :: int where "INT64_MAX \<equiv> 9223372036854775807"

record reliable_entry =
  e_id :: u32
  e_dest :: u32
  e_portnum :: u32
  e_due_ms :: int
  e_wire :: bytes
  e_attempts_left :: nat

record reliable_outcome =
  o_id :: u32
  o_dest :: u32
  o_portnum :: u32

record reliable =
  rel_entries :: "reliable_entry list"
  rel_work :: "int option"

definition reliable_entry_zero :: reliable_entry where
  "reliable_entry_zero = \<lparr>e_id = 0, e_dest = 0, e_portnum = 0, e_due_ms = 0, e_wire = [], e_attempts_left = 0\<rparr>"

abbreviation (input) outcome_of :: "reliable_entry \<Rightarrow> reliable_outcome" where
  "outcome_of e \<equiv> \<lparr>o_id = e_id e, o_dest = e_dest e, o_portnum = e_portnum e\<rparr>"

definition reliable_retry_delay_ms :: "kconfig \<Rightarrow> driver \<Rightarrow> radio \<Rightarrow> int \<times> radio" where
  "reliable_retry_delay_ms k drv r =
     (if 0 < RELIABLE_RETRY_JITTER_MS k
      then let (rnd, r) = call_driver (sys_rand32_get drv) r
           in (int (RELIABLE_RETRY_INTERVAL_MS k) + int (unat rnd mod (RELIABLE_RETRY_JITTER_MS k + 1)), r)
      else (int (RELIABLE_RETRY_INTERVAL_MS k), r))"

definition outcome_packet :: "u32 \<Rightarrow> reliable_outcome \<Rightarrow> packet" where
  "outcome_packet node_id out = packet_zero\<lparr>p_from := node_id, p_to := o_dest out, p_id := o_id out,
     p_portnum := o_portnum out, p_channel_index := CHANNEL_INDEX_INVALID, p_want_ack := True\<rparr>"

definition reliable_emit :: "event_type \<Rightarrow> errno option \<Rightarrow> reliable_outcome \<Rightarrow> mt_context \<Rightarrow> mt_context" where
  "reliable_emit ty err out c = emit_event ty err (Some (outcome_packet (mt_node_id c) out)) c"

definition reliable_reschedule :: "int \<Rightarrow> reliable \<Rightarrow> reliable" where
  "reliable_reschedule now rel =
     (let nxt = fold (\<lambda>e nxt. if e_id e \<noteq> 0 then min nxt (e_due_ms e) else nxt) (rel_entries rel) INT64_MAX
      in if nxt = INT64_MAX then rel else rel\<lparr>rel_work := Some (now + max (nxt - now) 0)\<rparr>)"

text \<open>The result pairs the verdict with \<open>*err\<close>.\<close>

definition reliable_routing_is_ack :: "nanopb \<Rightarrow> bytes option \<Rightarrow> nat \<Rightarrow> bool \<times> errno option" where
  "reliable_routing_is_ack pb payload payload_len =
     (case payload of
        None \<Rightarrow> (True, None)
      | Some bs \<Rightarrow>
          if payload_len = 0 then (True, None)
          else case dec_Routing pb (take payload_len bs) of
              None \<Rightarrow> (True, None)
            | Some (Routing_error_reason e) \<Rightarrow> if e = 0 then (True, None) else (False, Some EHOSTUNREACH)
            | Some (Routing_other _) \<Rightarrow> (True, None))"

definition reliable_reset :: "kconfig \<Rightarrow> reliable" where
  "reliable_reset k = \<lparr>rel_entries = replicate (RELIABLE_MAX_PENDING k) reliable_entry_zero, rel_work = None\<rparr>"

definition reliable_track ::
  "kconfig \<Rightarrow> driver \<Rightarrow> int \<Rightarrow> mt_context \<Rightarrow> packet \<Rightarrow> bytes \<Rightarrow> reliable \<times> radio \<Rightarrow> reliable \<times> radio" where
  "reliable_track k drv now c p wire st =
     (let (rel, r) = st in
      if \<not> RELIABLE k \<or> wire = [] \<or> PKT_MAX < length wire then (rel, r)
      else if \<not> p_want_ack p \<or> p_id p = 0 \<or> p_to p = NODE_BROADCAST \<or> p_to p = mt_node_id c
        \<or> p_portnum p = PORT_ROUTING then (rel, r)
      else case find_index (\<lambda>e. e_id e = 0) (rel_entries rel) of
          None \<Rightarrow> (rel, r)
        | Some i \<Rightarrow>
            (let (delay, r) = reliable_retry_delay_ms k drv r;
                 entry = \<lparr>e_id = p_id p, e_dest = p_to p, e_portnum = p_portnum p, e_due_ms = now + delay,
                          e_wire = wire, e_attempts_left = RELIABLE_RETRANSMISSIONS k\<rparr>
             in (reliable_reschedule now (rel\<lparr>rel_entries := (rel_entries rel)[i := entry]\<rparr>), r)))"

definition reliable_on_routing ::
  "kconfig \<Rightarrow> nanopb \<Rightarrow> packet \<Rightarrow> reliable \<times> mt_context \<Rightarrow> bool \<times> reliable \<times> mt_context" where
  "reliable_on_routing k pb p st =
     (let (rel, c) = st in
      if \<not> RELIABLE k \<or> p_portnum p \<noteq> PORT_ROUTING \<or> p_to p \<noteq> mt_node_id c \<or> p_request_id p = 0
      then (False, rel, c)
      else let (acked, err) = reliable_routing_is_ack pb (p_payload p) (p_payload_len p)
        in case find_index (\<lambda>e. e_id e = p_request_id p) (rel_entries rel) of
            None \<Rightarrow> (False, rel, c)
          | Some i \<Rightarrow>
              (let e = rel_entries rel ! i;
                   rel = rel\<lparr>rel_entries := (rel_entries rel)[i := e\<lparr>e_id := 0\<rparr>]\<rparr>
               in (True, rel,
                   if acked then reliable_emit EVENT_TX_ACKED None (outcome_of e) c
                   else reliable_emit EVENT_TX_NO_ACK err (outcome_of e) c)))"

definition reliable_pending :: "reliable \<Rightarrow> nat" where
  "reliable_pending rel = length (filter (\<lambda>e. e_id e \<noteq> 0) (rel_entries rel))"

text \<open>The loop of the retry handler over the table.\<close>

fun work_loop :: "kconfig \<Rightarrow> driver \<Rightarrow> int \<Rightarrow> reliable_entry list \<Rightarrow> radio
    \<Rightarrow> reliable_entry list \<times> reliable_outcome list \<times> radio" where
  "work_loop k drv now [] r = ([], [], r)"
| "work_loop k drv now (e # es) r =
     (if e_id e = 0 \<or> now < e_due_ms e
      then let (es, xs, r) = work_loop k drv now es r in (e # es, xs, r)
      else if e_attempts_left e = 0
      then let (es, xs, r) = work_loop k drv now es r in (e\<lparr>e_id := 0\<rparr> # es, outcome_of e # xs, r)
      else let (delay, r) = reliable_retry_delay_ms k drv r;
               e' = e\<lparr>e_attempts_left := e_attempts_left e - 1, e_due_ms := now + delay\<rparr>;
               (ret, r) = radio_send_wire k (e_wire e) r;
               (es, xs, r) = work_loop k drv now es r
           in (e' # es, xs, r))"

definition reliable_work_fn :: "kconfig \<Rightarrow> driver \<Rightarrow> int \<Rightarrow> reliable \<times> mt_context \<times> radio
    \<Rightarrow> reliable \<times> mt_context \<times> radio" where
  "reliable_work_fn k drv now st =
     (let (rel, c, r) = st;
          (es, expired, r) = work_loop k drv now (rel_entries rel) r;
          rel = reliable_reschedule now (rel\<lparr>rel_entries := es, rel_work := None\<rparr>);
          c = fold (reliable_emit EVENT_TX_NO_ACK (Some ETIMEDOUT)) expired c
      in (rel, c, r))"

section \<open>The retry loop\<close>

abbreviation live :: "reliable_entry \<Rightarrow> bool" where
  "live e \<equiv> e_id e \<noteq> 0"

definition outcomes :: "reliable_entry list \<Rightarrow> reliable_outcome list" where
  "outcomes es = map outcome_of (filter live es)"

lemma outcomes_simps [simp]:
  "outcomes [] = []" "outcomes (e # es) = (if live e then [outcome_of e] else []) @ outcomes es"
  by (simp_all add: outcomes_def)

lemma length_outcomes: "length (outcomes (rel_entries rel)) = reliable_pending rel"
  by (simp add: outcomes_def reliable_pending_def)

text \<open>Freeing a slot removes its outcome.\<close>

lemma outcomes_append: "outcomes (xs @ ys) = outcomes xs @ outcomes ys"
  by (simp add: outcomes_def)

lemma outcomes_free:
  assumes "i < length es" "live (es ! i)"
  shows "mset (outcomes es) = add_mset (outcome_of (es ! i)) (mset (outcomes (es[i := (es ! i)\<lparr>e_id := 0\<rparr>])))"
proof -
  have "outcomes es = outcomes (take i es @ es ! i # drop (Suc i) es)"
    using assms(1) by (simp add: id_take_nth_drop [symmetric])
  moreover have "es[i := (es ! i)\<lparr>e_id := 0\<rparr>] = take i es @ (es ! i)\<lparr>e_id := 0\<rparr> # drop (Suc i) es"
    using assms(1) by (simp add: upd_conv_take_nth_drop)
  ultimately show ?thesis using assms(2) by (simp add: outcomes_append)
qed

lemma retry_delay_ge:
  "reliable_retry_delay_ms k drv r = (d, r') \<Longrightarrow>
     int (RELIABLE_RETRY_INTERVAL_MS k) \<le> d \<and> d \<le> int (RELIABLE_RETRY_INTERVAL_MS k + RELIABLE_RETRY_JITTER_MS k) \<and>
     r_outbound r' = r_outbound r"
proof -
  have "unat rnd mod Suc j \<le> j" for rnd :: u32 and j by (simp add: less_Suc_eq_le [symmetric])
  then show "reliable_retry_delay_ms k drv r = (d, r') \<Longrightarrow> ?thesis"
    by (auto simp: reliable_retry_delay_ms_def call_driver_def Let_def split: if_splits)
qed

text \<open>What one run of the handler does to one entry.\<close>

definition entry_step :: "kconfig \<Rightarrow> int \<Rightarrow> reliable_entry \<Rightarrow> reliable_entry \<Rightarrow> bool" where
  "entry_step k now e e' \<longleftrightarrow>
     (if \<not> live e \<or> now < e_due_ms e then e' = e
      else if e_attempts_left e = 0 then e' = e\<lparr>e_id := 0\<rparr>
      else \<exists>d. int (RELIABLE_RETRY_INTERVAL_MS k) \<le> d \<and>
        d \<le> int (RELIABLE_RETRY_INTERVAL_MS k + RELIABLE_RETRY_JITTER_MS k) \<and>
        e' = e\<lparr>e_attempts_left := e_attempts_left e - 1, e_due_ms := now + d\<rparr>)"

definition retried :: "int \<Rightarrow> reliable_entry \<Rightarrow> bool" where
  "retried now e \<longleftrightarrow> live e \<and> e_due_ms e \<le> now \<and> 0 < e_attempts_left e"

lemma work_loop_spec:
  "work_loop k drv now es r = (es', xs, r') \<Longrightarrow>
     list_all2 (entry_step k now) es es' \<and>
     mset (outcomes es) = mset xs + mset (outcomes es') \<and>
     xs = map outcome_of (filter (\<lambda>e. live e \<and> e_due_ms e \<le> now \<and> e_attempts_left e = 0) es) \<and>
     (\<exists>ws. subseq ws (map e_wire (filter (retried now) es)) \<and> r_outbound r' = r_outbound r @ ws)"
proof (induction es arbitrary: r es' xs r')
  case Nil
  then show ?case by auto
next
  case (Cons e es)
  show ?case
  proof (cases "live e \<and> e_due_ms e \<le> now \<and> e_attempts_left e \<noteq> 0")
    case False
    obtain es1 xs1 r1 where w: "work_loop k drv now es r = (es1, xs1, r1)" by (metis prod_cases3)
    note IH = Cons.IH [OF w]
    have nr: "\<not> retried now e" using False by (auto simp: retried_def)
    show ?thesis
    proof (cases "e_id e = 0 \<or> now < e_due_ms e")
      case True
      then have "es' = e # es1" "xs = xs1" "r' = r1" "entry_step k now e e"
        using Cons.prems w by (simp_all add: entry_step_def)
      with IH True nr show ?thesis by auto
    next
      case due: False
      with False have a: "e_attempts_left e = 0" by simp
      have "es' = e\<lparr>e_id := 0\<rparr> # es1" "xs = outcome_of e # xs1" "r' = r1" "entry_step k now e (e\<lparr>e_id := 0\<rparr>)"
        using Cons.prems w due a by (simp_all add: entry_step_def)
      with IH due a nr show ?thesis by auto
    qed
  next
    case True
    obtain d r1 where d: "reliable_retry_delay_ms k drv r = (d, r1)" by force
    obtain ret r2 where s: "radio_send_wire k (e_wire e) r1 = (ret, r2)" by force
    obtain es1 xs1 r3 where w: "work_loop k drv now es r2 = (es1, xs1, r3)" by (metis prod_cases3)
    note IH = Cons.IH [OF w]
    let ?e = "e\<lparr>e_attempts_left := e_attempts_left e - 1, e_due_ms := now + d\<rparr>"
    have eq: "es' = ?e # es1" "xs = xs1" "r' = r3"
      using Cons.prems True d s w by (auto simp: Let_def)
    have r2: "r_outbound r2 = r_outbound r \<or> r_outbound r2 = r_outbound r @ [e_wire e]"
      using s retry_delay_ge [OF d] by (auto simp: radio_send_wire_def split: if_splits)
    obtain ws where ws: "subseq ws (map e_wire (filter (retried now) es))" "r_outbound r3 = r_outbound r2 @ ws"
      using IH by blast
    have "\<exists>ws. subseq ws (map e_wire (filter (retried now) (e # es))) \<and> r_outbound r3 = r_outbound r @ ws"
      using r2
    proof
      assume "r_outbound r2 = r_outbound r"
      with ws True show ?thesis by (intro exI [of _ ws]) (auto simp: retried_def)
    next
      assume "r_outbound r2 = r_outbound r @ [e_wire e]"
      with ws True show ?thesis by (intro exI [of _ "e_wire e # ws"]) (auto simp: retried_def)
    qed
    moreover have "entry_step k now e ?e"
      using True retry_delay_ge [OF d] by (auto simp: entry_step_def)
    ultimately show ?thesis using eq IH True by simp
  qed
qed

lemma emit_fold:
  assumes "mt_event_cb c"
  shows "mt_log (fold (reliable_emit ty err) xs c)
      = mt_log c @ map (\<lambda>x. Event ty err (Some (outcome_packet (mt_node_id c) x))) xs \<and>
    mt_event_cb (fold (reliable_emit ty err) xs c) \<and>
    mt_node_id (fold (reliable_emit ty err) xs c) = mt_node_id c"
  using assms
proof (induction xs arbitrary: c)
  case Nil
  then show ?case by simp
next
  case (Cons x xs)
  have "mt_event_cb (reliable_emit ty err x c)" using Cons.prems by (simp add: reliable_emit_def emit_event_def)
  from Cons.IH [OF this] Cons.prems show ?case by (simp add: reliable_emit_def emit_event_def)
qed

section \<open>Scheduling\<close>

lemma next_due:
  fixes m :: int
  defines "f \<equiv> \<lambda>e nxt. if live e then min nxt (e_due_ms e) else nxt"
  shows "fold f es m \<le> m \<and> (\<forall>e\<in>set es. live e \<longrightarrow> fold f es m \<le> e_due_ms e)"
proof (induction es arbitrary: m)
  case Nil
  then show ?case by simp
next
  case (Cons e es)
  have le: "f e m \<le> m" "live e \<Longrightarrow> f e m \<le> e_due_ms e" by (auto simp: f_def)
  have "fold f es (f e m) \<le> m" "live e \<Longrightarrow> fold f es (f e m) \<le> e_due_ms e"
    using Cons.IH [of "f e m"] le by (force intro: order_trans)+
  with Cons.IH [of "f e m"] show ?case by auto
qed

definition timer_ok :: "int \<Rightarrow> reliable \<Rightarrow> bool" where
  "timer_ok now rel \<longleftrightarrow> (\<forall>e\<in>set (rel_entries rel). live e \<longrightarrow>
     (\<exists>t. rel_work rel = Some t \<and> t \<le> max now (e_due_ms e)))"

lemma reschedule_ok:
  assumes "\<forall>e\<in>set (rel_entries rel). live e \<longrightarrow> e_due_ms e < INT64_MAX"
  shows "timer_ok now (reliable_reschedule now rel)"
proof -
  let ?n = "fold (\<lambda>e nxt. if live e then min nxt (e_due_ms e) else nxt) (rel_entries rel) INT64_MAX"
  have n: "?n \<le> e_due_ms e" if "e \<in> set (rel_entries rel)" "live e" for e
    using next_due [where es = "rel_entries rel" and m = INT64_MAX] that by blast
  have "?n \<noteq> INT64_MAX" if "e \<in> set (rel_entries rel)" "live e" for e
    using n [OF that] assms that by force
  with n show ?thesis by (fastforce simp: timer_ok_def reliable_reschedule_def Let_def)
qed

lemma reschedule_entries [simp]: "rel_entries (reliable_reschedule now rel) = rel_entries rel"
  by (simp add: reliable_reschedule_def Let_def)

section \<open>The table over time\<close>

definition reliable_inv :: "kconfig \<Rightarrow> int \<Rightarrow> reliable \<Rightarrow> bool" where
  "reliable_inv k now rel \<longleftrightarrow> length (rel_entries rel) = RELIABLE_MAX_PENDING k \<and> timer_ok now rel \<and>
     (\<forall>e\<in>set (rel_entries rel). live e \<longrightarrow> e_attempts_left e \<le> RELIABLE_RETRANSMISSIONS k \<and>
        e_due_ms e \<le> now + 150000 \<and> e_wire e \<noteq> [] \<and> length (e_wire e) \<le> 255)"

lemma reliable_inv_later: "reliable_inv k now rel \<Longrightarrow> now \<le> now' \<Longrightarrow> reliable_inv k now' rel"
  by (fastforce simp: reliable_inv_def timer_ok_def)

lemma reliable_inv_track:
  assumes inv: "reliable_inv k now rel" and k: "kconfig_ok k" and now: "now < 2 ^ 62"
    and st: "reliable_track k drv now c p wire (rel, r) = (rel', r')"
  shows "reliable_inv k now rel'"
proof (cases "rel' = rel")
  case True
  with inv show ?thesis by simp
next
  case False
  from st False obtain i d r1 where i: "find_index (\<lambda>e. e_id e = 0) (rel_entries rel) = Some i"
    and d: "reliable_retry_delay_ms k drv r = (d, r1)" and w: "wire \<noteq> []" "length wire \<le> 255"
    and rel': "rel' = reliable_reschedule now (rel\<lparr>rel_entries := (rel_entries rel)[i :=
      \<lparr>e_id = p_id p, e_dest = p_to p, e_portnum = p_portnum p, e_due_ms = now + d,
       e_wire = wire, e_attempts_left = RELIABLE_RETRANSMISSIONS k\<rparr>]\<rparr>)"
    by (auto simp: reliable_track_def Let_def split: if_splits option.splits prod.splits)
  let ?e = "\<lparr>e_id = p_id p, e_dest = p_to p, e_portnum = p_portnum p, e_due_ms = now + d,
       e_wire = wire, e_attempts_left = RELIABLE_RETRANSMISSIONS k\<rparr>"
  have dle: "d \<le> 150000"
    using retry_delay_ge [OF d] k by (auto simp: kconfig_ok_def)
  have mem: "e = ?e \<or> e \<in> set (rel_entries rel)" if "e \<in> set (rel_entries rel')" for e
    using that rel' set_update_subset_insert [of "rel_entries rel" i ?e] by auto
  have ent: "e_attempts_left e \<le> RELIABLE_RETRANSMISSIONS k \<and> e_due_ms e \<le> now + 150000 \<and>
      e_wire e \<noteq> [] \<and> length (e_wire e) \<le> 255"
    if "e \<in> set (rel_entries rel')" "live e" for e
    using mem [OF that(1)] that(2) inv w dle by (auto simp: reliable_inv_def)
  have "timer_ok now rel'"
    unfolding rel' by (rule reschedule_ok) (use ent now rel' in \<open>fastforce\<close>)
  with ent inv rel' show ?thesis by (simp add: reliable_inv_def)
qed

lemma reliable_inv_on_routing:
  assumes "reliable_inv k now rel" "reliable_on_routing k pb p (rel, c) = (b, rel', c')"
  shows "reliable_inv k now rel'"
proof (cases "rel' = rel")
  case True
  with assms show ?thesis by simp
next
  case False
  from assms(2) False obtain i where
    rel': "rel' = rel\<lparr>rel_entries := (rel_entries rel)[i := (rel_entries rel ! i)\<lparr>e_id := 0\<rparr>]\<rparr>"
    by (auto simp: reliable_on_routing_def Let_def split: if_splits option.splits prod.splits)
  have "e \<in> set (rel_entries rel)" if "e \<in> set (rel_entries rel')" "live e" for e
    using that rel' set_update_subset_insert [of "rel_entries rel" i "(rel_entries rel ! i)\<lparr>e_id := 0\<rparr>"] by auto
  with assms(1) show ?thesis by (auto simp: reliable_inv_def timer_ok_def rel')
qed

lemma reliable_inv_work:
  assumes inv: "reliable_inv k now rel" and k: "kconfig_ok k" and now: "now < 2 ^ 62"
    and st: "reliable_work_fn k drv now (rel, c, r) = (rel', c', r')"
  shows "reliable_inv k now rel'"
proof -
  obtain es xs r1 where w: "work_loop k drv now (rel_entries rel) r = (es, xs, r1)" by (metis prod_cases3)
  note sp = work_loop_spec [OF w]
  have rel': "rel' = reliable_reschedule now (rel\<lparr>rel_entries := es, rel_work := None\<rparr>)"
    using st w by (simp add: reliable_work_fn_def)
  have ent: "e_attempts_left e \<le> RELIABLE_RETRANSMISSIONS k \<and> e_due_ms e \<le> now + 150000 \<and>
      e_wire e \<noteq> [] \<and> length (e_wire e) \<le> 255"
    if "e \<in> set es" "live e" for e
  proof -
    from sp that(1) obtain e0 where e0: "e0 \<in> set (rel_entries rel)" "entry_step k now e0 e"
      by (metis in_set_conv_nth list_all2_conv_all_nth)
    then have "live e0" using that(2) by (auto simp: entry_step_def split: if_splits)
    with inv e0(1) have "e_attempts_left e0 \<le> RELIABLE_RETRANSMISSIONS k \<and> e_due_ms e0 \<le> now + 150000 \<and>
      e_wire e0 \<noteq> [] \<and> length (e_wire e0) \<le> 255" by (simp add: reliable_inv_def)
    with e0(2) k that(2) show ?thesis by (auto simp: entry_step_def kconfig_ok_def split: if_splits)
  qed
  have "timer_ok now rel'"
    unfolding rel' by (rule reschedule_ok) (use ent now in \<open>fastforce\<close>)
  moreover have "length es = length (rel_entries rel)" using sp list_all2_lengthD by fastforce
  ultimately show ?thesis using ent inv rel' by (simp add: reliable_inv_def)
qed

text \<open>
  The states the table goes through, with the time of the last event: packets are tracked,
  acknowledgements come in, the handler runs, and everything else leaves the table alone.
\<close>

inductive reliable_reach :: "kconfig \<Rightarrow> nanopb \<Rightarrow> driver \<Rightarrow> int \<Rightarrow> reliable \<Rightarrow> bool"
  for k pb drv where
  reset: "reliable_reach k pb drv now (reliable_reset k)"
| later: "reliable_reach k pb drv now rel \<Longrightarrow> now \<le> now' \<Longrightarrow> reliable_reach k pb drv now' rel"
| track: "reliable_reach k pb drv now rel \<Longrightarrow> now < 2 ^ 62 \<Longrightarrow>
    reliable_track k drv now c p wire (rel, r) = (rel', r') \<Longrightarrow> reliable_reach k pb drv now rel'"
| routing: "reliable_reach k pb drv now rel \<Longrightarrow>
    reliable_on_routing k pb p (rel, c) = (b, rel', c') \<Longrightarrow> reliable_reach k pb drv now rel'"
| work: "reliable_reach k pb drv now rel \<Longrightarrow> now < 2 ^ 62 \<Longrightarrow>
    reliable_work_fn k drv now (rel, c, r) = (rel', c', r') \<Longrightarrow> reliable_reach k pb drv now rel'"

lemma reliable_reach_inv:
  assumes "kconfig_ok k" "reliable_reach k pb drv now rel"
  shows "reliable_inv k now rel"
  using assms(2)
proof (induction rule: reliable_reach.induct)
  case (reset now)
  then show ?case by (simp add: reliable_inv_def reliable_reset_def timer_ok_def reliable_entry_zero_def)
next
  case (later now rel now')
  then show ?case using reliable_inv_later by blast
next
  case (track now rel c p wire r rel' r')
  then show ?case using reliable_inv_track assms(1) by blast
next
  case (routing now rel p c b rel' c')
  then show ?case using reliable_inv_on_routing by blast
next
  case (work now rel c r rel' c' r')
  then show ?case using reliable_inv_work assms(1) by blast
qed

section \<open>Running out of retransmissions\<close>

text \<open>
  The work queue of the kernel runs the handler again and again, each time once the scheduled moment
  has come: \<open>wake\<close> says when it gets round to a work item that may run from a moment on. Runs end
  when the handler is not scheduled any more, at the latest after \<open>n\<close> of them. The result starts with
  the time of the last run.
\<close>

fun retry_runs :: "kconfig \<Rightarrow> driver \<Rightarrow> (nat \<Rightarrow> int \<Rightarrow> int) \<Rightarrow> nat \<Rightarrow> int \<Rightarrow> reliable \<times> mt_context \<times> radio
    \<Rightarrow> int \<times> reliable \<times> mt_context \<times> radio" where
  "retry_runs k drv wake 0 now st = (now, st)"
| "retry_runs k drv wake (Suc n) now st =
     (case rel_work (fst st) of
        None \<Rightarrow> (now, st)
      | Some t \<Rightarrow> let run = wake n (max now t) in retry_runs k drv wake n run (reliable_work_fn k drv run st))"

definition wakes_within :: "int \<Rightarrow> (nat \<Rightarrow> int \<Rightarrow> int) \<Rightarrow> bool" where
  "wakes_within lag wake \<longleftrightarrow> (\<forall>n t. t \<le> wake n t \<and> wake n t \<le> t + lag)"

text \<open>The transmissions the waiting packets still have, the final report counted as one more.\<close>

definition retry_budget :: "reliable_entry list \<Rightarrow> nat" where
  "retry_budget es = sum_list (map (\<lambda>e. if live e then Suc (e_attempts_left e) else 0) es)"

text \<open>The run that is scheduled will find a packet that is due.\<close>

definition armed :: "int \<Rightarrow> reliable \<Rightarrow> bool" where
  "armed now rel \<longleftrightarrow> (\<forall>t. rel_work rel = Some t \<longrightarrow>
     (\<exists>e\<in>set (rel_entries rel). live e \<and> e_due_ms e \<le> max now t))"

text \<open>When each packet is settled at the latest if no run is more than \<open>lag\<close> late.\<close>

definition settled_by :: "int \<Rightarrow> int \<Rightarrow> int \<Rightarrow> reliable_entry list \<Rightarrow> bool" where
  "settled_by lag now deadline es \<longleftrightarrow> (\<forall>e\<in>set es. live e \<longrightarrow>
     max now (e_due_ms e) + lag + int (e_attempts_left e) * (150000 + lag) \<le> deadline)"

abbreviation no_ack_event :: "u32 \<Rightarrow> reliable_outcome \<Rightarrow> effect" where
  "no_ack_event node_id x \<equiv> Event EVENT_TX_NO_ACK (Some ETIMEDOUT) (Some (outcome_packet node_id x))"

lemma next_due_attained:
  fixes m :: int
  shows "fold (\<lambda>e nxt. if live e then min nxt (e_due_ms e) else nxt) es m = m \<or>
    (\<exists>e\<in>set es. live e \<and> e_due_ms e = fold (\<lambda>e nxt. if live e then min nxt (e_due_ms e) else nxt) es m)"
proof (induction es arbitrary: m)
  case Nil
  then show ?case by simp
next
  case (Cons e es)
  from Cons.IH [of "if live e then min m (e_due_ms e) else m"] show ?case
    by (auto simp: min_def split: if_splits)
qed

lemma reschedule_armed: "rel_work rel = None \<Longrightarrow> armed now (reliable_reschedule now rel)"
  using next_due_attained [of "rel_entries rel" INT64_MAX]
  by (auto simp: armed_def reliable_reschedule_def Let_def)

lemma retry_budget_step:
  assumes "list_all2 (entry_step k now) es es'"
  shows "retry_budget es' \<le> retry_budget es \<and>
    ((\<exists>e\<in>set es. live e \<and> e_due_ms e \<le> now) \<longrightarrow> retry_budget es' < retry_budget es)"
  using assms
proof (induction rule: list_all2_induct)
  case Nil
  then show ?case by simp
next
  case (Cons e es e' es')
  let ?w = "\<lambda>e. if live e then Suc (e_attempts_left e) else 0"
  have "?w e' \<le> ?w e" "live e \<and> e_due_ms e \<le> now \<Longrightarrow> ?w e' < ?w e"
    using Cons.hyps(1) by (auto simp: entry_step_def split: if_splits)
  with Cons.IH show ?case by (auto simp: retry_budget_def)
qed

lemma retry_budget_le:
  assumes "\<forall>e\<in>set es. live e \<longrightarrow> e_attempts_left e \<le> m"
  shows "retry_budget es \<le> length es * Suc m"
  using assms by (induction es) (auto simp: retry_budget_def)

lemma settled_by_step:
  assumes "list_all2 (entry_step k run) es es'" "settled_by lag now deadline es" "kconfig_ok k" "0 \<le> lag"
    and "now \<le> run" "\<forall>e\<in>set es. live e \<longrightarrow> run \<le> max now (e_due_ms e) + lag"
  shows "settled_by lag run deadline es'"
  unfolding settled_by_def
proof (intro ballI impI)
  fix e' assume e': "e' \<in> set es'" "live e'"
  from assms(1) e'(1) obtain e where e: "e \<in> set es" "entry_step k run e e'"
    by (metis in_set_conv_nth list_all2_conv_all_nth)
  then have l: "live e" using e'(2) by (auto simp: entry_step_def split: if_splits)
  with assms(2,6) e(1) have s: "max now (e_due_ms e) + lag + int (e_attempts_left e) * (150000 + lag) \<le> deadline"
    and r: "run \<le> max now (e_due_ms e) + lag" by (auto simp: settled_by_def)
  show "max run (e_due_ms e') + lag + int (e_attempts_left e') * (150000 + lag) \<le> deadline"
  proof (cases "run < e_due_ms e")
    case True
    with e(2) have "e' = e" by (simp add: entry_step_def)
    with True s show ?thesis by simp
  next
    case False
    with e(2) e'(2) l obtain d where d: "int (RELIABLE_RETRY_INTERVAL_MS k) \<le> d"
      "d \<le> int (RELIABLE_RETRY_INTERVAL_MS k + RELIABLE_RETRY_JITTER_MS k)" "0 < e_attempts_left e"
      and "e' = e\<lparr>e_attempts_left := e_attempts_left e - 1, e_due_ms := run + d\<rparr>"
      by (auto simp: entry_step_def split: if_splits)
    moreover have "0 \<le> d" "d \<le> 150000" using d(1,2) assms(3) by (auto simp: kconfig_ok_def)
    moreover have "int (e_attempts_left e) * (150000 + lag) = int (e_attempts_left e - 1) * (150000 + lag) + (150000 + lag)"
      using d(3) by (simp add: of_nat_diff algebra_simps)
    ultimately show ?thesis using s r by simp
  qed
qed

text \<open>One run of the handler that is at most \<open>lag\<close> late, while a packet waits.\<close>

lemma retry_step:
  assumes "kconfig_ok k" "0 \<le> lag" "deadline < 2 ^ 62"
    and "reliable_inv k now rel" "mt_event_cb c" "settled_by lag now deadline (rel_entries rel)"
    and "rel_work rel = Some t" "max now t \<le> run" "run \<le> max now t + lag" "e \<in> set (rel_entries rel)" "live e"
  obtains rel1 c1 r1 xs where "reliable_work_fn k drv run (rel, c, r) = (rel1, c1, r1)" "run \<le> deadline"
    "reliable_inv k run rel1" "armed run rel1" "settled_by lag run deadline (rel_entries rel1)"
    "retry_budget (rel_entries rel1) \<le> retry_budget (rel_entries rel)"
    "armed now rel \<Longrightarrow> retry_budget (rel_entries rel1) < retry_budget (rel_entries rel)"
    "mset (outcomes (rel_entries rel)) = mset xs + mset (outcomes (rel_entries rel1))"
    "mt_log c1 = mt_log c @ map (no_ack_event (mt_node_id c)) xs" "mt_event_cb c1" "mt_node_id c1 = mt_node_id c"
proof -
  have late: "\<forall>e\<in>set (rel_entries rel). live e \<longrightarrow> run \<le> max now (e_due_ms e) + lag"
    using assms(4,7,9) by (fastforce simp: reliable_inv_def timer_ok_def)
  have "0 \<le> int (e_attempts_left e) * (150000 + lag)" using assms(2) by simp
  moreover have "max now (e_due_ms e) + lag + int (e_attempts_left e) * (150000 + lag) \<le> deadline"
    using assms(6,10,11) by (auto simp: settled_by_def)
  ultimately have dl: "run \<le> deadline" using late assms(10,11) by fastforce
  obtain es xs r1 where wl: "work_loop k drv run (rel_entries rel) r = (es, xs, r1)" by (metis prod_cases3)
  note sp = work_loop_spec [OF wl]
  let ?rel = "reliable_reschedule run (rel\<lparr>rel_entries := es, rel_work := None\<rparr>)"
  let ?c = "fold (reliable_emit EVENT_TX_NO_ACK (Some ETIMEDOUT)) xs c"
  have st: "reliable_work_fn k drv run (rel, c, r) = (?rel, ?c, r1)" using wl by (simp add: reliable_work_fn_def)
  have "reliable_inv k run rel" using reliable_inv_later [OF assms(4)] assms(8) by simp
  then have inv: "reliable_inv k run ?rel" using reliable_inv_work [OF _ assms(1) _ st] dl assms(3) by simp
  have settled: "settled_by lag run deadline (rel_entries ?rel)"
    using settled_by_step [OF _ assms(6,1,2) _ late] sp assms(8) by simp
  note budget = retry_budget_step [of k run "rel_entries rel" es]
  have less: "retry_budget (rel_entries ?rel) < retry_budget (rel_entries rel)" if "armed now rel"
  proof -
    from that assms(7) obtain d where "d \<in> set (rel_entries rel)" "live d" "e_due_ms d \<le> max now t" by (auto simp: armed_def)
    then have "\<exists>e\<in>set (rel_entries rel). live e \<and> e_due_ms e \<le> run" using assms(8) by (intro bexI [of _ d]) auto
    with budget sp show ?thesis by simp
  qed
  have "mset (outcomes (rel_entries rel)) = mset xs + mset (outcomes (rel_entries ?rel))" using sp by simp
  moreover have "retry_budget (rel_entries ?rel) \<le> retry_budget (rel_entries rel)" using budget sp by simp
  ultimately show thesis
    using that [OF st dl inv reschedule_armed settled _ less] emit_fold [OF assms(5), of EVENT_TX_NO_ACK "Some ETIMEDOUT" xs]
    by simp
qed

lemma retry_runs_spec:
  assumes "kconfig_ok k" "wakes_within lag wake" "0 \<le> lag" "deadline < 2 ^ 62"
    and "reliable_inv k now rel" "armed now rel" "mt_event_cb c" "now \<le> deadline"
    and "settled_by lag now deadline (rel_entries rel)" "retry_budget (rel_entries rel) \<le> n"
  shows "\<exists>t rel' c' r' xs. retry_runs k drv wake n now (rel, c, r) = (t, rel', c', r') \<and>
    reliable_pending rel' = 0 \<and> t \<le> deadline \<and> mset xs = mset (outcomes (rel_entries rel)) \<and>
    mt_log c' = mt_log c @ map (no_ack_event (mt_node_id c)) xs"
  using assms(5-10)
proof (induction n arbitrary: now rel c r)
  case 0
  then have "filter live (rel_entries rel) = []" by (auto simp: filter_empty_conv retry_budget_def)
  with 0 show ?case by (simp add: reliable_pending_def outcomes_def)
next
  case (Suc n)
  show ?case
  proof (cases "rel_work rel")
    case None
    with Suc.prems(1) have "filter live (rel_entries rel) = []"
      by (auto simp: filter_empty_conv reliable_inv_def timer_ok_def)
    with None Suc.prems show ?thesis by (simp add: reliable_pending_def outcomes_def)
  next
    case (Some t)
    let ?run = "wake n (max now t)"
    have w: "max now t \<le> ?run" "?run \<le> max now t + lag" using assms(2) by (auto simp: wakes_within_def)
    from Suc.prems(2) Some obtain e where e: "e \<in> set (rel_entries rel)" "live e" by (auto simp: armed_def)
    obtain rel1 c1 r1 xs where st: "reliable_work_fn k drv ?run (rel, c, r) = (rel1, c1, r1)"
      and next_state: "?run \<le> deadline" "reliable_inv k ?run rel1" "armed ?run rel1" "settled_by lag ?run deadline (rel_entries rel1)"
      and less: "retry_budget (rel_entries rel1) < retry_budget (rel_entries rel)"
      and out: "mset (outcomes (rel_entries rel)) = mset xs + mset (outcomes (rel_entries rel1))"
        "mt_log c1 = mt_log c @ map (no_ack_event (mt_node_id c)) xs" "mt_event_cb c1" "mt_node_id c1 = mt_node_id c"
      using retry_step [OF assms(1,3,4) Suc.prems(1,3,5) Some w e, of drv r] Suc.prems(2) by metis
    have "retry_budget (rel_entries rel1) \<le> n" using less Suc.prems(6) by simp
    from Suc.IH [OF next_state(2,3) out(3) next_state(1,4) this, of r1]
    obtain t' rel' c' r' ys where "retry_runs k drv wake n ?run (rel1, c1, r1) = (t', rel', c', r')"
      "reliable_pending rel' = 0" "t' \<le> deadline" "mset ys = mset (outcomes (rel_entries rel1))"
      "mt_log c' = mt_log c1 @ map (no_ack_event (mt_node_id c1)) ys" by blast
    with Some st out show ?thesis
      by (intro exI [of _ t'] exI [of _ rel'] exI [of _ c'] exI [of _ r'] exI [of _ "xs @ ys"]) (simp add: Let_def)
  qed
qed

section \<open>Properties\<close>

text \<open>
  C16: no tracked packet is stranded. In every state the table can reach, a packet that waits
  for its acknowledgement has a scheduled run of the handler no later than the packet is due
  (or right now), no more retransmissions left than configured, and a valid frame.
\<close>

theorem reliable_never_stranded:
  assumes "kconfig_ok k" and "reliable_reach k pb drv now rel"
    and "e \<in> set (rel_entries rel)" and "e_id e \<noteq> 0"
  shows "(\<exists>t. rel_work rel = Some t \<and> t \<le> max now (e_due_ms e)) \<and>
    e_attempts_left e \<le> RELIABLE_RETRANSMISSIONS k \<and> e_due_ms e \<le> now + 150000 \<and>
    e_wire e \<noteq> [] \<and> length (e_wire e) \<le> 255"
  using reliable_reach_inv [OF assms(1,2)] assms(3,4) by (simp add: reliable_inv_def timer_ok_def)

text \<open>
  C15: without acknowledgements the stack gives up. From any state the table can reach, with packets
  waiting that became due at whatever times, the kernel runs the handler whenever it is scheduled,
  each time at most \<open>lag\<close> late. After at most one run more than the table has places times the
  transmissions of a packet, the table is empty and the application has been told exactly once, for
  each packet that was waiting, that it was not acknowledged in time. At least one packet is taken
  to be waiting, so that a run is scheduled; then the last run is no later than all transmissions
  of one packet take, each with the longest interval and delay.
\<close>

theorem reliable_gives_up:
  assumes "kconfig_ok k" and "reliable_reach k pb drv now rel" and "mt_event_cb c"
    and "wakes_within lag wake" and "0 \<le> lag" and "now + int (Suc (RELIABLE_RETRANSMISSIONS k)) * (150000 + lag) < 2 ^ 62"
    and "0 < reliable_pending rel"
  shows "\<exists>t rel' c' r' evs.
    retry_runs k drv wake (Suc (RELIABLE_MAX_PENDING k * Suc (RELIABLE_RETRANSMISSIONS k))) now (rel, c, r) = (t, rel', c', r') \<and>
    reliable_pending rel' = 0 \<and> t \<le> now + int (Suc (RELIABLE_RETRANSMISSIONS k)) * (150000 + lag) \<and>
    mt_log c' = mt_log c @ evs \<and>
    mset evs = image_mset (no_ack_event (mt_node_id c)) (mset (outcomes (rel_entries rel)))"
proof -
  let ?n = "RELIABLE_MAX_PENDING k * Suc (RELIABLE_RETRANSMISSIONS k)"
  let ?d = "now + int (Suc (RELIABLE_RETRANSMISSIONS k)) * (150000 + lag)"
  note inv = reliable_reach_inv [OF assms(1,2)]
  from assms(7) obtain e where e: "e \<in> set (rel_entries rel)" "live e" by (auto simp: reliable_pending_def filter_empty_conv)
  with inv obtain t where t: "rel_work rel = Some t" by (auto simp: reliable_inv_def timer_ok_def)
  have settled: "settled_by lag now ?d (rel_entries rel)"
    unfolding settled_by_def
  proof (intro ballI impI)
    fix e assume "e \<in> set (rel_entries rel)" "live e"
    with inv have "e_due_ms e \<le> now + 150000" "e_attempts_left e \<le> RELIABLE_RETRANSMISSIONS k" by (auto simp: reliable_inv_def)
    moreover from this(2) have "int (e_attempts_left e) * (150000 + lag) \<le> int (RELIABLE_RETRANSMISSIONS k) * (150000 + lag)"
      using assms(5) by (intro mult_right_mono) auto
    ultimately show "max now (e_due_ms e) + lag + int (e_attempts_left e) * (150000 + lag) \<le> ?d" by (simp add: algebra_simps)
  qed
  let ?run = "wake ?n (max now t)"
  have w: "max now t \<le> ?run" "?run \<le> max now t + lag" using assms(4) by (auto simp: wakes_within_def)
  obtain rel1 c1 r1 xs where st: "reliable_work_fn k drv ?run (rel, c, r) = (rel1, c1, r1)"
    and n: "?run \<le> ?d" "reliable_inv k ?run rel1" "armed ?run rel1" "settled_by lag ?run ?d (rel_entries rel1)"
      "retry_budget (rel_entries rel1) \<le> retry_budget (rel_entries rel)"
    and out: "mset (outcomes (rel_entries rel)) = mset xs + mset (outcomes (rel_entries rel1))"
      "mt_log c1 = mt_log c @ map (no_ack_event (mt_node_id c)) xs" "mt_event_cb c1" "mt_node_id c1 = mt_node_id c"
    using retry_step [OF assms(1,5,6) inv assms(3) settled t w e, of drv r] by metis
  have "retry_budget (rel_entries rel) \<le> ?n"
    using retry_budget_le [of "rel_entries rel" "RELIABLE_RETRANSMISSIONS k"] inv by (simp add: reliable_inv_def)
  with n(5) have "retry_budget (rel_entries rel1) \<le> ?n" by simp
  from retry_runs_spec [OF assms(1,4,5,6) n(2,3) out(3) n(1,4) this, of drv r1]
  obtain t' rel' c' r' ys where "retry_runs k drv wake ?n ?run (rel1, c1, r1) = (t', rel', c', r')"
    "reliable_pending rel' = 0" "t' \<le> ?d" "mset ys = mset (outcomes (rel_entries rel1))"
    "mt_log c' = mt_log c1 @ map (no_ack_event (mt_node_id c1)) ys" by blast
  with t st out show ?thesis
    by (intro exI [of _ t'] exI [of _ rel'] exI [of _ c'] exI [of _ r']
        exI [of _ "map (no_ack_event (mt_node_id c)) (xs @ ys)"]) (simp add: Let_def)
qed

text \<open>
  one run of the handler. A waiting packet that is not due is untouched; one that is due
  loses one retransmission and is put off by the configured interval; one that is due and has
  none left is dropped and reported. Only frames of packets that are due are queued, each at
  most once, and every packet that leaves the table is reported exactly once.
\<close>

theorem reliable_work_fn_step:
  assumes "reliable_work_fn k drv now (rel, c, r) = (rel', c', r')" and "mt_event_cb c"
  shows "list_all2 (entry_step k now) (rel_entries rel) (rel_entries rel') \<and>
    (\<exists>ws. subseq ws (map e_wire (filter (retried now) (rel_entries rel))) \<and> r_outbound r' = r_outbound r @ ws) \<and>
    (\<exists>xs. mt_log c' = mt_log c @ map (no_ack_event (mt_node_id c)) xs \<and>
      mset (outcomes (rel_entries rel)) = mset xs + mset (outcomes (rel_entries rel')))"
proof -
  obtain es xs r1 where w: "work_loop k drv now (rel_entries rel) r = (es, xs, r1)" by (metis prod_cases3)
  have "rel_entries rel' = es" "r' = r1" "c' = fold (reliable_emit EVENT_TX_NO_ACK (Some ETIMEDOUT)) xs c"
    using assms(1) w by (auto simp: reliable_work_fn_def)
  with work_loop_spec [OF w] emit_fold [OF assms(2), of EVENT_TX_NO_ACK "Some ETIMEDOUT" xs]
  show ?thesis by blast
qed

text \<open>
  an acknowledgement addressed to this node settles the packet it names. Exactly one
  entry is freed and exactly one event is emitted, positive or negative by the routing error;
  an acknowledgement of a packet that is not tracked changes nothing.
\<close>

theorem reliable_on_routing_settles:
  assumes "reliable_on_routing k pb p (rel, c) = (found, rel', c')" and "mt_event_cb c"
  shows "(found \<longrightarrow> p_portnum p = 5 \<and> p_to p = mt_node_id c \<and>
      (\<exists>e. mset (outcomes (rel_entries rel)) = add_mset (outcome_of e) (mset (outcomes (rel_entries rel'))) \<and>
        e_id e = p_request_id p \<and> Suc (reliable_pending rel') = reliable_pending rel \<and>
        mt_log c' = mt_log c @ [Event (if fst (reliable_routing_is_ack pb (p_payload p) (p_payload_len p))
           then EVENT_TX_ACKED else EVENT_TX_NO_ACK)
          (snd (reliable_routing_is_ack pb (p_payload p) (p_payload_len p)))
          (Some (outcome_packet (mt_node_id c) (outcome_of e)))])) \<and>
    (\<not> found \<longrightarrow> rel' = rel \<and> c' = c)"
proof (cases found)
  case False
  with assms(1) show ?thesis
    by (auto simp: reliable_on_routing_def Let_def split: if_splits option.splits prod.splits)
next
  case True
  let ?v = "reliable_routing_is_ack pb (p_payload p) (p_payload_len p)"
  from assms(1) True obtain i where g: "p_portnum p = 5" "p_to p = mt_node_id c" "p_request_id p \<noteq> 0"
    and i: "find_index (\<lambda>e. e_id e = p_request_id p) (rel_entries rel) = Some i"
    and rel': "rel' = rel\<lparr>rel_entries := (rel_entries rel)[i := (rel_entries rel ! i)\<lparr>e_id := 0\<rparr>]\<rparr>"
    and c': "c' = (if fst ?v then reliable_emit EVENT_TX_ACKED None (outcome_of (rel_entries rel ! i)) c
        else reliable_emit EVENT_TX_NO_ACK (snd ?v) (outcome_of (rel_entries rel ! i)) c)"
    by (auto simp: reliable_on_routing_def Let_def split: if_splits option.splits prod.splits)
  let ?e = "rel_entries rel ! i"
  have ie: "i < length (rel_entries rel)" "e_id ?e = p_request_id p" using find_index_SomeD [OF i] by auto
  have "fst ?v \<Longrightarrow> snd ?v = None"
    by (auto simp: reliable_routing_is_ack_def split: option.splits if_splits routing.splits)
  then have log: "mt_log c' = mt_log c @ [Event (if fst ?v then EVENT_TX_ACKED else EVENT_TX_NO_ACK) (snd ?v)
      (Some (outcome_packet (mt_node_id c) (outcome_of ?e)))]"
    using c' assms(2) by (simp add: reliable_emit_def emit_event_def)
  have ms: "mset (outcomes (rel_entries rel)) = add_mset (outcome_of ?e) (mset (outcomes (rel_entries rel')))"
    using outcomes_free [OF ie(1)] ie(2) g(3) rel' by simp
  then have "size (mset (outcomes (rel_entries rel))) = Suc (size (mset (outcomes (rel_entries rel'))))"
    by (simp only: size_add_mset)
  then have "Suc (reliable_pending rel') = reliable_pending rel"
    by (simp add: length_outcomes)
  with True g ie log ms show ?thesis by blast
qed

end
