(* ===== verification/Identity.thy ===== *)
theory Identity
  imports Channels
begin

text \<open>
  Who a node is, of \<^verbatim>\<open>src/meshtastic.c\<close>: the node number derived from the hardware identifier,
  the textual node id, and the user record that is broadcast and handed to phones. The
  textual id and the MAC address both determine the node number.
\<close>

section \<open>Operations\<close>

definition node_id_from_bytes :: "bytes \<Rightarrow> u32" where
  "node_id_from_bytes dat =
     (let len = length dat in
      if 6 \<le> len then get_be32 (drop 2 dat)
      else if 4 \<le> len then get_be32 (drop (len - 4) dat)
      else if len = 0 then 0
      else get_be32 (replicate (4 - len) 0 @ dat))"

text \<open>\<open>hwid\<close> is what \<^verbatim>\<open>hwinfo_get_device_id\<close> delivered, at most 16 bytes; \<open>None\<close> is a failure.\<close>

definition node_id_from_hwinfo :: "bytes option \<Rightarrow> u32 res" where
  "node_id_from_hwinfo hwid =
     (case hwid of
        None \<Rightarrow> Inl ENODEV
      | Some bs \<Rightarrow>
          if bs = [] then Inl ENODEV
          else let node_id = node_id_from_bytes (take 16 bs)
               in if node_id = 0 then Inl EINVAL else Inr node_id)"

definition hex_digit :: "nat \<Rightarrow> char" where
  "hex_digit n = (if n < 10 then char_of (48 + n) else char_of (87 + n))"

text \<open>\<^verbatim>\<open>snprintk(buf, len, "!%08x", node)\<close>.\<close>

definition node_id_str :: "u32 \<Rightarrow> string" where
  "node_id_str node = CHR ''!'' # map (\<lambda>i. hex_digit (unat (drop_bit (4 * (7 - i)) node AND 0xF))) [0..<8]"

definition user_zero :: user where
  "user_zero = \<lparr>u_id = [], u_long_name = [], u_short_name = [], u_macaddr = [0, 0, 0, 0, 0, 0], u_hw_model = 0,
     u_role = 0, u_is_licensed = False, u_has_is_unmessagable = False, u_is_unmessagable = False,
     u_public_key = []\<rparr>"

definition node_macaddr :: "u32 \<Rightarrow> bytes" where
  "node_macaddr node = [0x02, 0x00, ucast (drop_bit 24 node), ucast (drop_bit 16 node), ucast (drop_bit 8 node), ucast node]"

definition fill_user :: "nat \<Rightarrow> channels \<Rightarrow> mt_context \<Rightarrow> user" where
  "fill_user hw_model t c = user_zero\<lparr>u_id := strn 16 (node_id_str (mt_node_id c)),
     u_long_name := strn 40 (mt_long_name c), u_short_name := strn 5 (mt_short_name c),
     u_macaddr := node_macaddr (mt_node_id c), u_hw_model := hw_model, u_role := ct_device_role t\<rparr>"

section \<open>Properties\<close>

lemma get_be32_bytes:
  "get_be32 (ucast (drop_bit 24 w) # ucast (drop_bit 16 w) # ucast (drop_bit 8 w) # ucast w # rest) = (w :: u32)"
proof (rule bit_word_eqI)
  fix n assume n: "n < LENGTH(32)"
  then have "n < 8 \<or> (8 \<le> n \<and> n < 16) \<or> (16 \<le> n \<and> n < 24) \<or> (24 \<le> n \<and> n < 32)"
    by auto
  then show "bit (get_be32 (ucast (drop_bit 24 w) # ucast (drop_bit 16 w) # ucast (drop_bit 8 w) # ucast w # rest)) n = bit w n"
    unfolding get_be32_def
    by (auto simp: bit_or_iff bit_push_bit_iff bit_ucast_iff bit_drop_bit_eq)
qed

lemma hex_digit_inj: "n < 16 \<Longrightarrow> m < 16 \<Longrightarrow> hex_digit n = hex_digit m \<Longrightarrow> n = m"
  by (auto simp: hex_digit_def split: if_splits)

lemma node_id_str_inj:
  assumes "node_id_str a = node_id_str b"
  shows "a = b"
proof (rule bit_word_eqI)
  fix n assume n: "n < LENGTH(32)"
  let ?i = "7 - n div 4"
  have lt: "unat (w AND 0xF :: u32) < 16" for w
  proof -
    have "w AND 0xF \<le> 0xF" by (rule word_and_le1)
    then show ?thesis by (simp add: word_le_nat_alt)
  qed
  have "map (\<lambda>i. hex_digit (unat (drop_bit (4 * (7 - i)) a AND 0xF))) [0..<8] ! ?i
      = map (\<lambda>i. hex_digit (unat (drop_bit (4 * (7 - i)) b AND 0xF))) [0..<8] ! ?i"
    using assms by (simp add: node_id_str_def)
  then have "hex_digit (unat (drop_bit (4 * (7 - ?i)) a AND 0xF)) = hex_digit (unat (drop_bit (4 * (7 - ?i)) b AND 0xF))"
    using nth_upt [of 0 ?i 8] by simp
  then have "unat (drop_bit (4 * (7 - ?i)) a AND 0xF) = unat (drop_bit (4 * (7 - ?i)) b AND 0xF)"
    using lt hex_digit_inj by blast
  then have eq: "drop_bit (4 * (n div 4)) a AND 0xF = drop_bit (4 * (n div 4)) b AND 0xF"
    using n by (simp add: unsigned_word_eqI)
  have m: "(0xF :: u32) = mask 4" by (simp add: mask_eq_exp_minus_1)
  have "bit (drop_bit (4 * (n div 4)) w AND 0xF) (n mod 4) = bit w n" for w :: u32
    unfolding m using n mod_less_divisor [of 4 n]
    by (simp add: bit_and_iff bit_mask_iff bit_drop_bit_eq) linarith
  with eq show "bit a n = bit b n" by metis
qed

text \<open>
  the node number can be read back from the broadcast MAC address, by the rule a node uses
  to derive its own number from hardware, and the textual ids of two nodes differ when their
  numbers do.
\<close>

theorem node_identity:
  "node_id_from_bytes (u_macaddr (fill_user hw t c)) = mt_node_id c \<and>
   (node_id_str a = node_id_str b \<longleftrightarrow> a = b) \<and>
   u_id (fill_user hw t c) = node_id_str (mt_node_id c)"
  using node_id_str_inj [of a b]
  by (auto simp: fill_user_def node_macaddr_def node_id_from_bytes_def get_be32_bytes strn_def node_id_str_def)

end
