(* ===== verification/ConfigStore.thy ===== *)
theory ConfigStore
  imports Channels
begin

text \<open>
  The configuration store of \<^verbatim>\<open>src/meshtastic_config_store.c\<close> and the settings glue of
  \<^verbatim>\<open>src/meshtastic_settings.c\<close>: owner names, channel slots, configuration and module variants,
  their validation, their application to the running stack, and their persistence as
  versioned records under string keys.

  A configuration message is a variant of the protobuf union. The variants the code looks
  into are records of the fields it uses, with the rest of the message as opaque bytes; the
  others are opaque as a whole. Encoding and decoding is nanopb, a parameter. The conversion
  of the override frequency from a float is a parameter too. Strings hold no NUL.
\<close>

section \<open>Configuration messages\<close>

record device_config =
  dc_role :: nat
  dc_rebroadcast_mode :: nat
  dc_serial_enabled :: bool
  dc_rest :: bytes

record position_config =
  pc_gps_mode :: nat
  pc_rest :: bytes

record lora_config_msg =
  lo_use_preset :: bool
  lo_modem_preset :: nat
  lo_region :: nat
  lo_hop_limit :: nat
  lo_tx_enabled :: bool
  lo_tx_power :: int
  lo_override_frequency :: f32
  lo_rest :: bytes

record bluetooth_config =
  bt_enabled :: bool
  bt_mode :: nat
  bt_fixed_pin :: u32
  bt_rest :: bytes

datatype config =
    Config_device device_config
  | Config_position position_config
  | Config_lora lora_config_msg
  | Config_bluetooth bluetooth_config
  | Config_opaque nat bytes

record mqtt_config =
  mq_enabled :: bool
  mq_address :: string
  mq_username :: string
  mq_password :: string
  mq_root :: string
  mq_encryption_enabled :: bool
  mq_map_reporting_enabled :: bool
  mq_map_report_settings :: "(u32 \<times> u32 \<times> bool) option"
  mq_rest :: bytes

datatype module_config =
    Module_mqtt mqtt_config
  | Module_opaque nat bytes

abbreviation (input) device_tag :: nat where "device_tag \<equiv> 1"
abbreviation (input) position_tag :: nat where "position_tag \<equiv> 2"
abbreviation (input) lora_tag :: nat where "lora_tag \<equiv> 6"
abbreviation (input) bluetooth_tag :: nat where "bluetooth_tag \<equiv> 7"
abbreviation (input) device_ui_tag :: nat where "device_ui_tag \<equiv> 10"
abbreviation (input) mqtt_tag :: nat where "mqtt_tag \<equiv> 1"

text \<open>\<^verbatim>\<open>which_payload_variant\<close>.\<close>

fun config_tag :: "config \<Rightarrow> nat" where
  "config_tag (Config_device _) = device_tag"
| "config_tag (Config_position _) = position_tag"
| "config_tag (Config_lora _) = lora_tag"
| "config_tag (Config_bluetooth _) = bluetooth_tag"
| "config_tag (Config_opaque tag _) = tag"

fun module_tag :: "module_config \<Rightarrow> nat" where
  "module_tag (Module_mqtt _) = mqtt_tag"
| "module_tag (Module_opaque tag _) = tag"

definition config_names :: "(string \<times> nat) list" where
  "config_names = [(''device'', 1), (''position'', 2), (''power'', 3), (''network'', 4), (''display'', 5),
     (''lora'', 6), (''bluetooth'', 7), (''security'', 8), (''sessionkey'', 9), (''device_ui'', 10)]"

definition module_names :: "(string \<times> nat) list" where
  "module_names = [(''mqtt'', 1), (''serial'', 2), (''external_notification'', 3), (''store_forward'', 4),
     (''range_test'', 5), (''telemetry'', 6), (''canned_message'', 7), (''audio'', 8),
     (''remote_hardware'', 9), (''neighbor_info'', 10), (''ambient_lighting'', 11),
     (''detection_sensor'', 12), (''paxcounter'', 13), (''statusmessage'', 14),
     (''traffic_management'', 15), (''tak'', 16)]"

text \<open>A zeroed message of a variant.\<close>

definition device_config_zero :: device_config where
  "device_config_zero = \<lparr>dc_role = 0, dc_rebroadcast_mode = 0, dc_serial_enabled = False, dc_rest = []\<rparr>"

definition lora_config_zero :: lora_config_msg where
  "lora_config_zero = \<lparr>lo_use_preset = False, lo_modem_preset = 0, lo_region = 0, lo_hop_limit = 0,
     lo_tx_enabled = False, lo_tx_power = 0, lo_override_frequency = 0, lo_rest = []\<rparr>"

definition config_init :: "nat \<Rightarrow> config" where
  "config_init tag =
     (if tag = device_tag then Config_device device_config_zero
      else if tag = position_tag then Config_position \<lparr>pc_gps_mode = 0, pc_rest = []\<rparr>
      else if tag = lora_tag then Config_lora lora_config_zero
      else if tag = bluetooth_tag then Config_bluetooth \<lparr>bt_enabled = False, bt_mode = 0, bt_fixed_pin = 0, bt_rest = []\<rparr>
      else Config_opaque tag [])"

definition module_init :: "nat \<Rightarrow> module_config" where
  "module_init tag =
     (if tag = mqtt_tag then Module_mqtt \<lparr>mq_enabled = False, mq_address = [], mq_username = [], mq_password = [],
        mq_root = [], mq_encryption_enabled = False, mq_map_reporting_enabled = False,
        mq_map_report_settings = None, mq_rest = []\<rparr>
      else Module_opaque tag [])"

record store =
  so_long_name :: string
  so_short_name :: string
  so_channels :: "channel list"
  so_configs :: "config list"
  so_modules :: "module_config list"
  so_save_scheduled :: bool

section \<open>Helpers\<close>

definition copy_string :: "nat \<Rightarrow> string option \<Rightarrow> string" where
  "copy_string dst_len src = (case src of None \<Rightarrow> [] | Some s \<Rightarrow> strn dst_len s)"

text \<open>A fixed-size character array: the string, padded with NULs.\<close>

definition char_array :: "nat \<Rightarrow> string \<Rightarrow> bytes" where
  "char_array n s = cstr_bytes s @ replicate (n - length s) 0"

definition copy_fixed_string :: "nat \<Rightarrow> bytes \<Rightarrow> string" where
  "copy_fixed_string dst_len src =
     (let s = takeWhile (\<lambda>b. b \<noteq> 0) src in map (\<lambda>b. char_of (unat b)) (take (dst_len - 1) s))"

definition index_for_config_tag :: "nat \<Rightarrow> nat option" where
  "index_for_config_tag tag = find_index (\<lambda>p. snd p = tag) config_names"

definition index_for_module_tag :: "nat \<Rightarrow> nat option" where
  "index_for_module_tag tag = find_index (\<lambda>p. snd p = tag) module_names"

definition index_for_config_name :: "string \<Rightarrow> nat option" where
  "index_for_config_name name = find_index (\<lambda>p. fst p = name) config_names"

definition index_for_module_name :: "string \<Rightarrow> nat option" where
  "index_for_module_name name = find_index (\<lambda>p. fst p = name) module_names"

abbreviation (input) Region_UNSET :: nat where "Region_UNSET \<equiv> 0"
abbreviation (input) Region_US :: nat where "Region_US \<equiv> 1"
abbreviation (input) Region_EU_433 :: nat where "Region_EU_433 \<equiv> 2"
abbreviation (input) Region_EU_868 :: nat where "Region_EU_868 \<equiv> 3"

definition lora_region_from_frequency :: "u32 \<Rightarrow> nat" where
  "lora_region_from_frequency hz =
     (if 902000000 \<le> hz \<and> hz \<le> 928000000 then Region_US
      else if 869000000 \<le> hz \<and> hz \<le> 870000000 then Region_EU_868
      else if 433000000 \<le> hz \<and> hz \<le> 434000000 then Region_EU_433
      else Region_UNSET)"

definition frequency_from_region :: "nat \<Rightarrow> u32" where
  "frequency_from_region region =
     (if region = Region_US then FREQ_US
      else if region = Region_EU_868 then FREQ_EU
      else if region = Region_EU_433 then 433175000
      else 0)"

section \<open>Records\<close>

abbreviation (input) STORE_RECORD_VERSION :: u8 where "STORE_RECORD_VERSION \<equiv> 1"
abbreviation (input) STORE_RECORD_HEADER_LEN :: nat where "STORE_RECORD_HEADER_LEN \<equiv> 4"
abbreviation (input) OWNER_LONG_NAME_LEN :: nat where "OWNER_LONG_NAME_LEN \<equiv> 40"
abbreviation (input) OWNER_SHORT_NAME_LEN :: nat where "OWNER_SHORT_NAME_LEN \<equiv> 5"
abbreviation (input) STORE_VALUE_MAX :: nat where "STORE_VALUE_MAX \<equiv> 256"

definition encode_record :: "('m \<Rightarrow> bytes option) \<Rightarrow> 'm \<Rightarrow> nat \<Rightarrow> bytes res" where
  "encode_record enc msg buf_len =
     (if buf_len < STORE_RECORD_HEADER_LEN then Inl EINVAL
      else case pb_encode enc (buf_len - STORE_RECORD_HEADER_LEN) msg of
          None \<Rightarrow> Inl ENOMEM
        | Some bs \<Rightarrow> Inr ([STORE_RECORD_VERSION, 0] @ put_le16 (word_of_nat (length bs)) @ bs))"

definition decode_record :: "(bytes \<Rightarrow> 'm option) \<Rightarrow> bytes \<Rightarrow> 'm res" where
  "decode_record dec buf =
     (if length buf < STORE_RECORD_HEADER_LEN then Inl EINVAL
      else if buf ! 0 \<noteq> STORE_RECORD_VERSION then Inl EINVAL
      else let payload_len = unat (get_le16 (drop 2 buf)) in
        if payload_len \<noteq> length buf - STORE_RECORD_HEADER_LEN then Inl EINVAL
        else case dec (take payload_len (drop STORE_RECORD_HEADER_LEN buf)) of
            None \<Rightarrow> Inl EINVAL
          | Some m \<Rightarrow> Inr m)"

text \<open>
  \<^verbatim>\<open>strtoul\<close> in base ten with a 32-bit \<^verbatim>\<open>unsigned long\<close>: white space, a sign, digits. The result
  is the value and the unparsed rest; without digits nothing is parsed.
\<close>

definition isspace :: "char \<Rightarrow> bool" where
  "isspace c \<longleftrightarrow> (of_char c :: nat) = 32 \<or> 9 \<le> (of_char c :: nat) \<and> (of_char c :: nat) \<le> 13"

definition isdigit :: "char \<Rightarrow> bool" where
  "isdigit c \<longleftrightarrow> 48 \<le> (of_char c :: nat) \<and> (of_char c :: nat) \<le> 57"

definition digits_value :: "string \<Rightarrow> nat" where
  "digits_value ds = fold (\<lambda>c v. v * 10 + ((of_char c :: nat) - 48)) ds 0"

definition strtoul :: "string \<Rightarrow> nat \<times> string" where
  "strtoul s =
     (let s1 = dropWhile isspace s;
          (neg, s2) = (case s1 of
              [] \<Rightarrow> (False, s1)
            | c # r \<Rightarrow> if c = CHR ''-'' then (True, r) else if c = CHR ''+'' then (False, r) else (False, s1));
          ds = takeWhile isdigit s2
      in if ds = [] then (0, s)
         else let v = digits_value ds;
                  u = (if 2 ^ 32 \<le> v then 2 ^ 32 - 1 else if neg then (2 ^ 32 - v) mod 2 ^ 32 else v)
              in (u, dropWhile isdigit s2))"

definition parse_channel_index :: "string \<Rightarrow> nat res" where
  "parse_channel_index name =
     (if name = [] then Inl EINVAL
      else let (parsed, rest) = strtoul name
           in if rest \<noteq> [] \<or> MAX_CHANNELS \<le> parsed then Inl EINVAL else Inr parsed)"

section \<open>Validation\<close>

definition channel_is_valid :: "channel \<Rightarrow> bool" where
  "channel_is_valid ch \<longleftrightarrow> ch_role ch \<le> Role_SECONDARY \<and> length (cs_psk (ch_settings ch)) \<le> 32"

definition config_is_valid :: "config \<Rightarrow> bool" where
  "config_is_valid cfg \<longleftrightarrow> index_for_config_tag (config_tag cfg) \<noteq> None \<and>
     (case cfg of
        Config_device d \<Rightarrow> dc_role d \<le> DeviceRole_CLIENT_BASE \<and> dc_rebroadcast_mode d \<le> Rebroadcast_CORE_PORTNUMS_ONLY
      | Config_lora l \<Rightarrow> lo_hop_limit l \<le> 7
      | Config_bluetooth b \<Rightarrow> bt_mode b \<le> 2
      | _ \<Rightarrow> True)"

definition module_is_valid :: "module_config \<Rightarrow> bool" where
  "module_is_valid m \<longleftrightarrow> index_for_module_tag (module_tag m) \<noteq> None"

section \<open>Defaults\<close>

definition seed_config_defaults :: "kconfig \<Rightarrow> mconfig \<Rightarrow> channels \<Rightarrow> mt_context \<Rightarrow> config list" where
  "seed_config_defaults k cfg t c =
     (let cs = map (\<lambda>p. config_init (snd p)) config_names;
          cs = cs[the (index_for_config_tag device_tag) := Config_device (device_config_zero\<lparr>
                 dc_role := ct_device_role t, dc_rebroadcast_mode := ct_rebroadcast_mode t,
                 dc_serial_enabled := SERIAL k\<rparr>)];
          cs = cs[the (index_for_config_tag position_tag) := Config_position
                 \<lparr>pc_gps_mode = (if GNSS k then 1 else 2), pc_rest = []\<rparr>];
          cs = cs[the (index_for_config_tag lora_tag) := Config_lora (lora_config_zero\<lparr>
                 lo_use_preset := True, lo_modem_preset := 0,
                 lo_region := lora_region_from_frequency (cfg_frequency cfg),
                 lo_hop_limit := unat (mt_hop_limit c), lo_tx_enabled := True, lo_tx_power := mt_tx_power c\<rparr>)]
      in cs[the (index_for_config_tag bluetooth_tag) := Config_bluetooth
            (if BLE_FIXED_PASSKEY k
             then \<lparr>bt_enabled = BLE k, bt_mode = 1, bt_fixed_pin = BLE_PASSKEY k, bt_rest = []\<rparr>
             else \<lparr>bt_enabled = BLE k, bt_mode = 2, bt_fixed_pin = 0, bt_rest = []\<rparr>)])"

definition seed_module_defaults :: "kconfig \<Rightarrow> module_config list" where
  "seed_module_defaults k =
     (let ms = map (\<lambda>p. module_init (snd p)) module_names
      in ms[the (index_for_module_tag mqtt_tag) := Module_mqtt
           (if MQTT k
            then \<lparr>mq_enabled = True, mq_address = copy_string 64 (Some (MQTT_BROKER_HOST k)),
                  mq_username = copy_string 64 (Some (MQTT_USERNAME k)),
                  mq_password = copy_string 32 (Some (MQTT_PASSWORD k)),
                  mq_root = copy_string 32 (Some (MQTT_ROOT k)),
                  mq_encryption_enabled = MQTT_ENCRYPTION_ENABLED k,
                  mq_map_reporting_enabled = MQTT_MAP_REPORT k,
                  mq_map_report_settings = (if MQTT_MAP_REPORT k
                    then Some (MQTT_MAP_REPORT_INTERVAL_SEC k, MQTT_MAP_REPORT_POSITION_PRECISION k, True) else None),
                  mq_rest = []\<rparr>
            else \<lparr>mq_enabled = False, mq_address = [], mq_username = [], mq_password = [], mq_root = [],
                  mq_encryption_enabled = False, mq_map_reporting_enabled = False,
                  mq_map_report_settings = None, mq_rest = []\<rparr>)])"

definition config_store_seed :: "kconfig \<Rightarrow> mconfig \<Rightarrow> channels \<Rightarrow> mt_context \<Rightarrow> store \<Rightarrow> store" where
  "config_store_seed k cfg t c st = st\<lparr>
     so_long_name := copy_string OWNER_LONG_NAME_LEN
       (Some (case cfg_long_name cfg of None \<Rightarrow> NODE_LONG_NAME k | Some n \<Rightarrow> n)),
     so_short_name := copy_string OWNER_SHORT_NAME_LEN
       (Some (case cfg_short_name cfg of None \<Rightarrow> NODE_SHORT_NAME k | Some n \<Rightarrow> n)),
     so_channels := map (\<lambda>i. (case channels_get t i of None \<Rightarrow> channel_zero | Some ch \<Rightarrow> ch)\<lparr>ch_index := i\<rparr>) [0..<MAX_CHANNELS],
     so_configs := seed_config_defaults k cfg t c,
     so_modules := seed_module_defaults k\<rparr>"

section \<open>Applying the store to the stack\<close>

text \<open>The members the code reads from the two unions it applies.\<close>

definition as_device :: "config \<Rightarrow> device_config" where
  "as_device cfg = (case cfg of Config_device d \<Rightarrow> d | _ \<Rightarrow> device_config_zero)"

definition as_lora :: "config \<Rightarrow> lora_config_msg" where
  "as_lora cfg = (case cfg of Config_lora l \<Rightarrow> l | _ \<Rightarrow> lora_config_zero)"

text \<open>\<^verbatim>\<open>f > 0.0f\<close> on the bit pattern of a single: not zero, not negative, not a NaN.\<close>

definition f32_positive :: "f32 \<Rightarrow> bool" where
  "f32_positive f \<longleftrightarrow> f \<noteq> 0 \<and> f \<le> 0x7F800000"

fun apply_slots :: "(nat \<times> channel) list \<Rightarrow> channels \<times> mt_context \<Rightarrow> (unit res \<times> channels \<times> mt_context) option" where
  "apply_slots [] tc = Some (ok, tc)"
| "apply_slots ((i, ch) # is) tc = do {
     (r, tc) \<leftarrow> channels_set_slot i ch tc;
     case r of Inl e \<Rightarrow> Some (Inl e, tc) | Inr _ \<Rightarrow> apply_slots is tc
   }"

definition apply_lora :: "(f32 \<Rightarrow> u32) \<Rightarrow> lora_config_msg \<Rightarrow> mt_context \<Rightarrow> mt_context" where
  "apply_lora to_hz l c =
     (let c = (if 1 \<le> lo_hop_limit l \<and> lo_hop_limit l \<le> 7 then c\<lparr>mt_hop_limit := word_of_nat (lo_hop_limit l)\<rparr> else c);
          c = (if lo_tx_power l \<noteq> 0 then c\<lparr>mt_tx_power := lo_tx_power l\<rparr> else c)
      in if f32_positive (lo_override_frequency l)
         then c\<lparr>mt_frequency := to_hz (lo_override_frequency l)\<rparr>
         else let f = frequency_from_region (lo_region l)
              in if f \<noteq> 0 then c\<lparr>mt_frequency := f\<rparr> else c)"

definition config_store_apply_core ::
  "(f32 \<Rightarrow> u32) \<Rightarrow> store \<Rightarrow> channels \<times> mt_context \<Rightarrow> (unit res \<times> channels \<times> mt_context) option" where
  "config_store_apply_core to_hz st tc =
     (let (t, c) = tc;
          c = c\<lparr>mt_long_name := so_long_name st, mt_short_name := so_short_name st\<rparr>;
          device = as_device (so_configs st ! the (index_for_config_tag device_tag));
          lora = as_lora (so_configs st ! the (index_for_config_tag lora_tag))
      in do {
        (r, t, c) \<leftarrow> apply_slots (zip [0..<MAX_CHANNELS] (so_channels st)) (t, c);
        Some (case r of
           Inl e \<Rightarrow> (Inl e, t, c)
         | Inr _ \<Rightarrow> (ok, t\<lparr>ct_device_role := dc_role device, ct_rebroadcast_mode := dc_rebroadcast_mode device\<rparr>,
             apply_lora to_hz lora c))
      })"

section \<open>Reading and writing the store\<close>

definition schedule_save :: "kconfig \<Rightarrow> store \<Rightarrow> store" where
  "schedule_save k st = (if SETTINGS k then st\<lparr>so_save_scheduled := True\<rparr> else st)"

definition config_store_get_channel :: "store \<Rightarrow> nat \<Rightarrow> channel res" where
  "config_store_get_channel st index =
     (if MAX_CHANNELS \<le> index then Inl EINVAL else Inr (so_channels st ! index))"

definition config_store_set_channel ::
  "kconfig \<Rightarrow> nat \<Rightarrow> channel \<Rightarrow> store \<times> channels \<times> mt_context \<Rightarrow> (unit res \<times> store \<times> channels \<times> mt_context) option" where
  "config_store_set_channel k index ch s =
     (let (st, tc) = s in
      if MAX_CHANNELS \<le> index \<or> \<not> channel_is_valid ch then Some (Inl EINVAL, st, tc)
      else do {
        let st = st\<lparr>so_channels := (so_channels st)[index := ch\<lparr>ch_index := index\<rparr>]\<rparr>;
        (r, tc) \<leftarrow> channels_set_slot index ch tc;
        Some (case r of
           Inl e \<Rightarrow> (Inl e, st, tc)
         | Inr _ \<Rightarrow> (ok, schedule_save k st, tc))
      })"

definition config_store_get_config :: "store \<Rightarrow> nat \<Rightarrow> config res" where
  "config_store_get_config st tag =
     (case index_for_config_tag tag of None \<Rightarrow> Inl EINVAL | Some i \<Rightarrow> Inr (so_configs st ! i))"

definition config_store_set_config ::
  "kconfig \<Rightarrow> (f32 \<Rightarrow> u32) \<Rightarrow> config \<Rightarrow> store \<times> channels \<times> mt_context \<Rightarrow> (unit res \<times> store \<times> channels \<times> mt_context) option" where
  "config_store_set_config k to_hz cfg s =
     (let (st, tc) = s in
      if \<not> config_is_valid cfg then Some (Inl EINVAL, st, tc)
      else do {
        let st = st\<lparr>so_configs := (so_configs st)[the (index_for_config_tag (config_tag cfg)) := cfg]\<rparr>;
        (r, tc) \<leftarrow> config_store_apply_core to_hz st tc;
        Some (case r of
           Inl e \<Rightarrow> (Inl e, st, tc)
         | Inr _ \<Rightarrow> (ok, schedule_save k st, tc))
      })"

definition config_store_get_module :: "store \<Rightarrow> nat \<Rightarrow> module_config res" where
  "config_store_get_module st tag =
     (case index_for_module_tag tag of None \<Rightarrow> Inl EINVAL | Some i \<Rightarrow> Inr (so_modules st ! i))"

definition config_store_set_module :: "kconfig \<Rightarrow> module_config \<Rightarrow> store \<Rightarrow> unit res \<times> store" where
  "config_store_set_module k m st =
     (if \<not> module_is_valid m then (Inl EINVAL, st)
      else (ok, schedule_save k (st\<lparr>so_modules := (so_modules st)[the (index_for_module_tag (module_tag m)) := m]\<rparr>)))"

definition config_store_get_device_ui :: "store \<Rightarrow> bytes res" where
  "config_store_get_device_ui st =
     (case config_store_get_config st device_ui_tag of
        Inl e \<Rightarrow> Inl e
      | Inr (Config_opaque _ bs) \<Rightarrow> Inr bs
      | Inr _ \<Rightarrow> Inr [])"

definition config_store_set_device_role :: "kconfig \<Rightarrow> nat \<Rightarrow> store \<times> channels \<Rightarrow> unit res \<times> store \<times> channels" where
  "config_store_set_device_role k role s =
     (let (st, t) = s; i = the (index_for_config_tag device_tag) in
      if DeviceRole_CLIENT_BASE < role then (Inl EINVAL, st, t)
      else (ok, schedule_save k (st\<lparr>so_configs := (so_configs st)[i :=
              Config_device ((as_device (so_configs st ! i))\<lparr>dc_role := role\<rparr>)]\<rparr>),
            t\<lparr>ct_device_role := role\<rparr>))"

definition config_store_set_rebroadcast_mode :: "kconfig \<Rightarrow> nat \<Rightarrow> store \<times> channels \<Rightarrow> unit res \<times> store \<times> channels" where
  "config_store_set_rebroadcast_mode k mode s =
     (let (st, t) = s; i = the (index_for_config_tag device_tag) in
      if Rebroadcast_CORE_PORTNUMS_ONLY < mode then (Inl EINVAL, st, t)
      else (ok, schedule_save k (st\<lparr>so_configs := (so_configs st)[i :=
              Config_device ((as_device (so_configs st ! i))\<lparr>dc_rebroadcast_mode := mode\<rparr>)]\<rparr>),
            t\<lparr>ct_rebroadcast_mode := mode\<rparr>))"

section \<open>Persistence\<close>

record store_codec =
  enc_Channel :: "channel \<Rightarrow> bytes option"
  dec_Channel :: "bytes \<Rightarrow> channel option"
  enc_Config :: "config \<Rightarrow> bytes option"
  dec_Config :: "bytes \<Rightarrow> config option"
  enc_ModuleConfig :: "module_config \<Rightarrow> bytes option"
  dec_ModuleConfig :: "bytes \<Rightarrow> module_config option"

abbreviation (input) OWNER_RECORD_LEN :: nat where "OWNER_RECORD_LEN \<equiv> 46"

definition setting_get_owner :: "store \<Rightarrow> nat \<Rightarrow> bytes res" where
  "setting_get_owner st buf_len =
     (if buf_len < OWNER_RECORD_LEN then Inl ENOMEM
      else Inr (STORE_RECORD_VERSION # char_array OWNER_LONG_NAME_LEN (copy_string OWNER_LONG_NAME_LEN (Some (so_long_name st)))
        @ char_array OWNER_SHORT_NAME_LEN (copy_string OWNER_SHORT_NAME_LEN (Some (so_short_name st)))))"

definition setting_set_owner :: "bytes \<Rightarrow> store \<Rightarrow> unit res \<times> store" where
  "setting_set_owner buf st =
     (if length buf \<noteq> OWNER_RECORD_LEN \<or> buf ! 0 \<noteq> STORE_RECORD_VERSION then (Inl EINVAL, st)
      else (ok, st\<lparr>so_long_name := copy_fixed_string OWNER_LONG_NAME_LEN (take OWNER_LONG_NAME_LEN (drop 1 buf)),
                 so_short_name := copy_fixed_string OWNER_SHORT_NAME_LEN
                   (take OWNER_SHORT_NAME_LEN (drop (1 + OWNER_LONG_NAME_LEN) buf))\<rparr>))"

text \<open>\<^verbatim>\<open>strncmp(key, prefix, strlen(prefix)) == 0\<close> and the rest of the key.\<close>

definition strip :: "string \<Rightarrow> string \<Rightarrow> string option" where
  "strip pre key = (if take (length pre) key = pre then Some (drop (length pre) key) else None)"

definition setting_get :: "store_codec \<Rightarrow> store \<Rightarrow> string \<Rightarrow> nat \<Rightarrow> bytes res" where
  "setting_get sc st key buf_len =
     (if key = ''owner'' then setting_get_owner st buf_len
      else case strip ''channel/'' key of
          Some name \<Rightarrow> (case parse_channel_index name of
              Inl e \<Rightarrow> Inl e
            | Inr i \<Rightarrow> encode_record (enc_Channel sc) (so_channels st ! i) buf_len)
        | None \<Rightarrow> (case strip ''config/'' key of
              Some name \<Rightarrow> (case index_for_config_name name of
                  None \<Rightarrow> Inl ENOENT
                | Some i \<Rightarrow> encode_record (enc_Config sc) (so_configs st ! i) buf_len)
            | None \<Rightarrow> (case strip ''module/'' key of
                  Some name \<Rightarrow> (case index_for_module_name name of
                      None \<Rightarrow> Inl ENOENT
                    | Some i \<Rightarrow> encode_record (enc_ModuleConfig sc) (so_modules st ! i) buf_len)
                | None \<Rightarrow> Inl ENOENT)))"

definition setting_set_channel :: "store_codec \<Rightarrow> string \<Rightarrow> bytes \<Rightarrow> store \<Rightarrow> unit res \<times> store" where
  "setting_set_channel sc name buf st =
     (case parse_channel_index name of
        Inl e \<Rightarrow> (Inl e, st)
      | Inr i \<Rightarrow> (case decode_record (dec_Channel sc) buf of
            Inl e \<Rightarrow> (Inl EINVAL, st)
          | Inr ch \<Rightarrow> if \<not> channel_is_valid ch then (Inl EINVAL, st)
              else (ok, st\<lparr>so_channels := (so_channels st)[i := ch\<lparr>ch_index := i\<rparr>]\<rparr>)))"

definition setting_set_config :: "store_codec \<Rightarrow> string \<Rightarrow> bytes \<Rightarrow> store \<Rightarrow> unit res \<times> store" where
  "setting_set_config sc name buf st =
     (case index_for_config_name name of
        None \<Rightarrow> (Inl ENOENT, st)
      | Some i \<Rightarrow> (case decode_record (dec_Config sc) buf of
            Inl e \<Rightarrow> (Inl EINVAL, st)
          | Inr cfg \<Rightarrow> if config_tag cfg \<noteq> snd (config_names ! i) \<or> \<not> config_is_valid cfg then (Inl EINVAL, st)
              else (ok, st\<lparr>so_configs := (so_configs st)[i := cfg]\<rparr>)))"

definition setting_set_module :: "store_codec \<Rightarrow> string \<Rightarrow> bytes \<Rightarrow> store \<Rightarrow> unit res \<times> store" where
  "setting_set_module sc name buf st =
     (case index_for_module_name name of
        None \<Rightarrow> (Inl ENOENT, st)
      | Some i \<Rightarrow> (case decode_record (dec_ModuleConfig sc) buf of
            Inl e \<Rightarrow> (Inl EINVAL, st)
          | Inr m \<Rightarrow> if module_tag m \<noteq> snd (module_names ! i) \<or> \<not> module_is_valid m then (Inl EINVAL, st)
              else (ok, st\<lparr>so_modules := (so_modules st)[i := m]\<rparr>)))"

definition setting_set :: "store_codec \<Rightarrow> string \<Rightarrow> bytes \<Rightarrow> store \<Rightarrow> unit res \<times> store" where
  "setting_set sc key buf st =
     (if key = ''owner'' then setting_set_owner buf st
      else case strip ''channel/'' key of
          Some name \<Rightarrow> setting_set_channel sc name buf st
        | None \<Rightarrow> (case strip ''config/'' key of
              Some name \<Rightarrow> setting_set_config sc name buf st
            | None \<Rightarrow> (case strip ''module/'' key of
                  Some name \<Rightarrow> setting_set_module sc name buf st
                | None \<Rightarrow> (Inl ENOENT, st))))"

text \<open>The keys \<^verbatim>\<open>config_store_export\<close> visits, in order.\<close>

definition export_keys :: "string list" where
  "export_keys = ''owner'' #
     map (\<lambda>i. ''channel/'' @ [char_of (48 + i :: nat)]) [0..<MAX_CHANNELS] @
     map (\<lambda>p. ''config/'' @ fst p) config_names @ map (\<lambda>p. ''module/'' @ fst p) module_names"

text \<open>
  \<open>export_func\<close> is the backend's callback: it takes a name and a value and may fail. The
  result is the outcome and the pairs that were written.
\<close>

fun export_loop :: "store_codec \<Rightarrow> store \<Rightarrow> (string \<Rightarrow> bytes \<Rightarrow> errno option) \<Rightarrow> string list
    \<Rightarrow> unit res \<times> (string \<times> bytes) list" where
  "export_loop sc st export_func [] = (ok, [])"
| "export_loop sc st export_func (key # keys) =
     (case setting_get sc st key STORE_VALUE_MAX of
        Inl e \<Rightarrow> (Inl e, [])
      | Inr v \<Rightarrow> (case export_func key v of
            Some e \<Rightarrow> (Inl e, [])
          | None \<Rightarrow> (let (r, kvs) = export_loop sc st export_func keys in (r, (key, v) # kvs))))"

definition config_store_export ::
  "store_codec \<Rightarrow> store \<Rightarrow> (string \<Rightarrow> bytes \<Rightarrow> errno option) \<Rightarrow> unit res \<times> (string \<times> bytes) list" where
  "config_store_export sc st export_func = export_loop sc st export_func export_keys"

text \<open>
  \<^verbatim>\<open>settings_set_cb\<close>: \<open>read\<close> is what the backend's reader returned, the bytes or a failure. It
  always reports success to the backend.
\<close>

definition settings_set_cb :: "store_codec \<Rightarrow> string \<Rightarrow> nat \<Rightarrow> bytes option \<Rightarrow> store \<Rightarrow> unit res \<times> store" where
  "settings_set_cb sc key len read st =
     (if STORE_VALUE_MAX < len then (ok, st)
      else case read of
          None \<Rightarrow> (ok, st)
        | Some buf \<Rightarrow> if length buf \<noteq> len then (ok, st) else (ok, snd (setting_set sc key buf st)))"

definition settings_load :: "store_codec \<Rightarrow> (string \<times> bytes) list \<Rightarrow> store \<Rightarrow> store" where
  "settings_load sc kvs st =
     fold (\<lambda>(key, v) st. snd (settings_set_cb sc key (length v) (Some v) st)) kvs st"

section \<open>Records and keys read back\<close>

lemma decode_encode_record:
  assumes "pb_roundtrip enc dec" "encode_record enc m n = Inr bs" "n \<le> STORE_VALUE_MAX"
  shows "decode_record dec bs = Inr m \<and> length bs \<le> n"
proof -
  from assms(2) obtain e where e: "enc m = Some e" "length e + 4 \<le> n"
    and bs: "bs = [1, 0] @ put_le16 (word_of_nat (length e)) @ e"
    by (auto simp: encode_record_def pb_encode_def split: if_splits option.splits)
  have "unat (word_of_nat (length e) :: u16) = length e"
    using e(2) assms(3) by (simp add: unat_of_nat take_bit_nat_eq_self)
  with e assms(1) show ?thesis
    by (simp add: bs decode_record_def pb_roundtrip_def)
qed

lemma unat_of_char [simp]: "unat (of_char c :: u8) = of_char c"
proof -
  have "(of_char c :: u8) = word_of_nat (of_char c)" by (simp add: of_nat_of_char)
  moreover have "(of_char c :: nat) < 256" by (rule nat_of_char_less_256)
  ultimately show ?thesis by (simp add: unat_of_nat take_bit_nat_eq_self)
qed

lemma of_char_u8_zero [simp]: "(of_char c :: u8) = 0 \<longleftrightarrow> c = CHR 0x00"
proof -
  have "(of_char c :: u8) = 0 \<longleftrightarrow> (of_char c :: nat) = 0"
    by (simp add: unat_eq_0 [symmetric] del: unat_eq_0)
  also have "\<dots> \<longleftrightarrow> c = CHR 0x00" by (cases c) (auto split: if_splits)
  finally show ?thesis .
qed

lemma cstr_bytes_back: "map (\<lambda>b. char_of (unat b)) (cstr_bytes s) = s"
  by (induction s) (simp_all add: cstr_bytes_def)

lemma copy_fixed_char_array:
  assumes "length s < n" "CHR 0x00 \<notin> set s"
  shows "copy_fixed_string n (char_array n s) = s"
proof -
  have "takeWhile (\<lambda>b. b \<noteq> 0) (char_array n s) = cstr_bytes s"
    using assms by (auto simp: char_array_def cstr_bytes_def takeWhile_append takeWhile_eq_Nil_iff hd_replicate)
  then show ?thesis
    using assms(1) cstr_bytes_back [of s] by (simp add: copy_fixed_string_def cstr_bytes_def)
qed

lemma length_char_array: "length s \<le> n \<Longrightarrow> length (char_array n s) = n"
  by (simp add: char_array_def cstr_bytes_def)

definition name_ok :: "nat \<Rightarrow> string \<Rightarrow> bool" where
  "name_ok n s \<longleftrightarrow> length s < n \<and> CHR 0x00 \<notin> set s"

lemma owner_roundtrip:
  assumes "name_ok 40 (so_long_name st)" "name_ok 5 (so_short_name st)"
    and "setting_get_owner st n = Inr v"
  shows "setting_set_owner v st0 = (ok, st0\<lparr>so_long_name := so_long_name st, so_short_name := so_short_name st\<rparr>)"
proof -
  let ?l = "char_array 40 (so_long_name st)" and ?s = "char_array 5 (so_short_name st)"
  have v: "v = 1 # ?l @ ?s"
    using assms by (auto simp: setting_get_owner_def copy_string_def strn_id name_ok_def split: if_splits)
  have len: "length ?l = 40" "length ?s = 5" using assms(1,2) by (simp_all add: length_char_array name_ok_def)
  have "setting_set_owner v st0 = (ok, st0\<lparr>so_long_name := copy_fixed_string 40 ?l, so_short_name := copy_fixed_string 5 ?s\<rparr>)"
    using len by (simp add: v setting_set_owner_def)
  then show ?thesis using assms(1,2) by (simp add: copy_fixed_char_array name_ok_def)
qed

text \<open>The keys of the store, and the strings that name them.\<close>

datatype store_key = KOwner | KChannel nat | KConfig nat | KModule nat

fun key_name :: "store_key \<Rightarrow> string" where
  "key_name KOwner = ''owner''"
| "key_name (KChannel i) = ''channel/'' @ [char_of (48 + i :: nat)]"
| "key_name (KConfig i) = ''config/'' @ fst (config_names ! i)"
| "key_name (KModule i) = ''module/'' @ fst (module_names ! i)"

fun key_ok :: "store_key \<Rightarrow> bool" where
  "key_ok KOwner = True"
| "key_ok (KChannel i) = (i < 8)"
| "key_ok (KConfig i) = (i < 10)"
| "key_ok (KModule i) = (i < 16)"

definition all_keys :: "store_key list" where
  "all_keys = KOwner # map KChannel [0..<8] @ map KConfig [0..<10] @ map KModule [0..<16]"

lemma export_keys_names: "export_keys = map key_name all_keys"
  by code_simp

lemma all_keys_ok: "key \<in> set all_keys \<Longrightarrow> key_ok key"
  by (auto simp: all_keys_def)

lemma parse_digit: "i < 8 \<Longrightarrow> parse_channel_index [char_of (48 + i :: nat)] = Inr i"
proof -
  assume "i < 8"
  then have "i = 0 \<or> i = 1 \<or> i = 2 \<or> i = 3 \<or> i = 4 \<or> i = 5 \<or> i = 6 \<or> i = 7" by auto
  then show ?thesis
    by (elim disjE)
      (simp_all add: parse_channel_index_def strtoul_def isspace_def isdigit_def digits_value_def char_of_def bit_0)
qed

lemma config_name_index: "i < 10 \<Longrightarrow> index_for_config_name (fst (config_names ! i)) = Some i"
proof -
  have "list_all (\<lambda>i. index_for_config_name (fst (config_names ! i)) = Some i) [0..<10]" by code_simp
  then show "i < 10 \<Longrightarrow> ?thesis" by (simp add: list_all_iff)
qed

lemma module_name_index: "i < 16 \<Longrightarrow> index_for_module_name (fst (module_names ! i)) = Some i"
proof -
  have "list_all (\<lambda>i. index_for_module_name (fst (module_names ! i)) = Some i) [0..<16]" by code_simp
  then show "i < 16 \<Longrightarrow> ?thesis" by (simp add: list_all_iff)
qed

lemma setting_get_key:
  "setting_get sc st (key_name KOwner) n = setting_get_owner st n"
  "i < 8 \<Longrightarrow> setting_get sc st (key_name (KChannel i)) n = encode_record (enc_Channel sc) (so_channels st ! i) n"
  "i < 10 \<Longrightarrow> setting_get sc st (key_name (KConfig i)) n = encode_record (enc_Config sc) (so_configs st ! i) n"
  "i < 16 \<Longrightarrow> setting_get sc st (key_name (KModule i)) n = encode_record (enc_ModuleConfig sc) (so_modules st ! i) n"
  by (simp_all add: setting_get_def strip_def parse_digit config_name_index module_name_index)

lemma setting_set_key:
  "setting_set sc (key_name KOwner) v st = setting_set_owner v st"
  "setting_set sc (key_name (KChannel i)) v st = setting_set_channel sc [char_of (48 + i :: nat)] v st"
  "setting_set sc (key_name (KConfig i)) v st = setting_set_config sc (fst (config_names ! i)) v st"
  "setting_set sc (key_name (KModule i)) v st = setting_set_module sc (fst (module_names ! i)) v st"
  by (simp_all add: setting_set_def strip_def)

section \<open>The invariant of the store\<close>

definition store_inv :: "store \<Rightarrow> bool" where
  "store_inv st \<longleftrightarrow>
     name_ok 40 (so_long_name st) \<and> name_ok 5 (so_short_name st) \<and>
     length (so_channels st) = 8 \<and>
     (\<forall>i<8. channel_is_valid (so_channels st ! i) \<and> ch_index (so_channels st ! i) = i) \<and>
     length (so_configs st) = 10 \<and>
     (\<forall>i<10. config_tag (so_configs st ! i) = snd (config_names ! i) \<and> config_is_valid (so_configs st ! i)) \<and>
     length (so_modules st) = 16 \<and>
     (\<forall>i<16. module_tag (so_modules st ! i) = snd (module_names ! i))"

lemma config_tag_index: "i < 10 \<Longrightarrow> index_for_config_tag (snd (config_names ! i)) = Some i"
proof -
  have "list_all (\<lambda>i. index_for_config_tag (snd (config_names ! i)) = Some i) [0..<10]" by code_simp
  then show "i < 10 \<Longrightarrow> ?thesis" by (simp add: list_all_iff)
qed

lemma module_tag_index: "i < 16 \<Longrightarrow> index_for_module_tag (snd (module_names ! i)) = Some i"
proof -
  have "list_all (\<lambda>i. index_for_module_tag (snd (module_names ! i)) = Some i) [0..<16]" by code_simp
  then show "i < 16 \<Longrightarrow> ?thesis" by (simp add: list_all_iff)
qed

lemma index_for_config_tag_Some:
  "index_for_config_tag tag = Some i \<Longrightarrow> i < 10 \<and> snd (config_names ! i) = tag"
  unfolding index_for_config_tag_def by (drule find_index_SomeD) (simp add: config_names_def)

lemma index_for_module_tag_Some:
  "index_for_module_tag tag = Some i \<Longrightarrow> i < 16 \<and> snd (module_names ! i) = tag"
  unfolding index_for_module_tag_def by (drule find_index_SomeD) (simp add: module_names_def)

lemma tag_positions [simp]:
  "index_for_config_tag 1 = Some 0" "index_for_config_tag 2 = Some 1" "index_for_config_tag 6 = Some 5"
  "index_for_config_tag 7 = Some 6" "index_for_config_tag 10 = Some 9" "index_for_module_tag 1 = Some 0"
  "index_for_config_tag (Suc 0) = Some 0" "index_for_module_tag (Suc 0) = Some 0"
  by code_simp+

lemma store_inv_channel:
  "store_inv st \<Longrightarrow> channel_is_valid ch \<Longrightarrow> i < 8 \<Longrightarrow>
     store_inv (st\<lparr>so_channels := (so_channels st)[i := ch\<lparr>ch_index := i\<rparr>]\<rparr>)"
  by (auto simp: store_inv_def nth_list_update channel_is_valid_def)

lemma store_inv_config:
  "store_inv st \<Longrightarrow> config_is_valid cfg \<Longrightarrow> i < 10 \<Longrightarrow> config_tag cfg = snd (config_names ! i) \<Longrightarrow>
     store_inv (st\<lparr>so_configs := (so_configs st)[i := cfg]\<rparr>)"
  by (auto simp: store_inv_def nth_list_update)

lemma store_inv_module:
  "store_inv st \<Longrightarrow> i < 16 \<Longrightarrow> module_tag m = snd (module_names ! i) \<Longrightarrow>
     store_inv (st\<lparr>so_modules := (so_modules st)[i := m]\<rparr>)"
  by (auto simp: store_inv_def nth_list_update)

lemma store_inv_save [simp]:
  "store_inv (st\<lparr>so_save_scheduled := b\<rparr>) = store_inv st" "store_inv (schedule_save k st) = store_inv st"
  by (simp_all add: store_inv_def schedule_save_def)

section \<open>Saving and loading\<close>

text \<open>What loading one key does: it copies that part of the saved store.\<close>

fun copy_key :: "store \<Rightarrow> store_key \<Rightarrow> store \<Rightarrow> store" where
  "copy_key st KOwner st0 = st0\<lparr>so_long_name := so_long_name st, so_short_name := so_short_name st\<rparr>"
| "copy_key st (KChannel i) st0 = st0\<lparr>so_channels := (so_channels st0)[i := so_channels st ! i]\<rparr>"
| "copy_key st (KConfig i) st0 = st0\<lparr>so_configs := (so_configs st0)[i := so_configs st ! i]\<rparr>"
| "copy_key st (KModule i) st0 = st0\<lparr>so_modules := (so_modules st0)[i := so_modules st ! i]\<rparr>"

definition codec_ok :: "store_codec \<Rightarrow> bool" where
  "codec_ok sc \<longleftrightarrow> pb_roundtrip (enc_Channel sc) (dec_Channel sc) \<and>
     pb_roundtrip (enc_Config sc) (dec_Config sc) \<and>
     pb_roundtrip (enc_ModuleConfig sc) (dec_ModuleConfig sc)"

lemma setting_key_roundtrip:
  assumes sc: "codec_ok sc" and inv: "store_inv st" and key: "key_ok key"
    and get: "setting_get sc st (key_name key) STORE_VALUE_MAX = Inr v"
  shows "setting_set sc (key_name key) v st0 = (ok, copy_key st key st0) \<and> length v \<le> STORE_VALUE_MAX"
proof (cases key)
  case KOwner
  have g: "setting_get_owner st STORE_VALUE_MAX = Inr v" using get by (simp only: KOwner setting_get_key(1))
  have "length v = 46"
    using g by (auto simp: setting_get_owner_def copy_string_def length_char_array strn_def split: if_splits)
  moreover have "setting_set_owner v st0 = (ok, copy_key st key st0)"
    using owner_roundtrip [OF _ _ g] inv KOwner by (simp add: store_inv_def)
  ultimately show ?thesis by (simp only: KOwner setting_set_key(1)) simp
next
  case (KChannel i)
  then have i: "i < 8" using key by simp
  have g: "encode_record (enc_Channel sc) (so_channels st ! i) STORE_VALUE_MAX = Inr v"
    using get i by (simp only: KChannel setting_get_key(2))
  have d: "decode_record (dec_Channel sc) v = Inr (so_channels st ! i)" "length v \<le> STORE_VALUE_MAX"
    using decode_encode_record [where dec = "dec_Channel sc", OF _ g] sc by (simp_all add: codec_ok_def)
  have "channel_is_valid (so_channels st ! i)" "(so_channels st ! i)\<lparr>ch_index := i\<rparr> = so_channels st ! i"
    using inv i by (simp_all add: store_inv_def)
  with d i show ?thesis
    by (simp only: KChannel setting_set_key(2)) (simp add: setting_set_channel_def parse_digit)
next
  case (KConfig i)
  then have i: "i < 10" using key by simp
  have g: "encode_record (enc_Config sc) (so_configs st ! i) STORE_VALUE_MAX = Inr v"
    using get i by (simp only: KConfig setting_get_key(3))
  have d: "decode_record (dec_Config sc) v = Inr (so_configs st ! i)" "length v \<le> STORE_VALUE_MAX"
    using decode_encode_record [where dec = "dec_Config sc", OF _ g] sc by (simp_all add: codec_ok_def)
  with i inv show ?thesis
    by (simp only: KConfig setting_set_key(3))
      (simp add: setting_set_config_def config_name_index store_inv_def)
next
  case (KModule i)
  then have i: "i < 16" using key by simp
  have g: "encode_record (enc_ModuleConfig sc) (so_modules st ! i) STORE_VALUE_MAX = Inr v"
    using get i by (simp only: KModule setting_get_key(4))
  have d: "decode_record (dec_ModuleConfig sc) v = Inr (so_modules st ! i)" "length v \<le> STORE_VALUE_MAX"
    using decode_encode_record [where dec = "dec_ModuleConfig sc", OF _ g] sc by (simp_all add: codec_ok_def)
  with i inv show ?thesis
    by (simp only: KModule setting_set_key(4))
      (simp add: setting_set_module_def module_name_index module_is_valid_def module_tag_index store_inv_def)
qed

lemma load_exported:
  assumes "codec_ok sc" "store_inv st" "\<forall>key\<in>set keys. key_ok key"
    and "export_loop sc st ex (map key_name keys) = (ok, kvs)"
  shows "settings_load sc kvs st0 = fold (copy_key st) keys st0"
  using assms(3,4)
proof (induction keys arbitrary: kvs st0)
  case Nil
  then show ?case by (simp add: settings_load_def)
next
  case (Cons key keys)
  obtain v where v: "setting_get sc st (key_name key) STORE_VALUE_MAX = Inr v"
    using Cons.prems by (auto split: sum.splits)
  obtain kvs' where kvs': "export_loop sc st ex (map key_name keys) = (ok, kvs')" "kvs = (key_name key, v) # kvs'"
    using Cons.prems v by (auto split: option.splits prod.splits)
  have k: "setting_set sc (key_name key) v st0 = (ok, copy_key st key st0)" "length v \<le> STORE_VALUE_MAX"
    using setting_key_roundtrip [OF assms(1,2) _ v] Cons.prems by auto
  have "settings_load sc kvs' (copy_key st key st0) = fold (copy_key st) keys (copy_key st key st0)"
    using Cons.IH kvs'(1) Cons.prems by simp
  with k kvs'(2) show ?case by (simp add: settings_load_def settings_set_cb_def)
qed

lemma copy_prefix:
  "n \<le> length xs \<Longrightarrow> length ys = length xs \<Longrightarrow>
     fold (\<lambda>i zs. zs[i := ys ! i]) [0..<n] xs = take n ys @ drop n xs"
proof (induction n)
  case 0
  then show ?case by simp
next
  case (Suc n)
  then have "fold (\<lambda>i zs. zs[i := ys ! i]) [0..<Suc n] xs = (take n ys @ drop n xs)[n := ys ! n]" by simp
  also have "\<dots> = take (Suc n) ys @ drop (Suc n) xs"
    using Suc.prems Cons_nth_drop_Suc [of n xs]
    by (simp add: list_update_append take_Suc_conv_app_nth del: Cons_nth_drop_Suc) (metis list_update_code(2))
  finally show ?case .
qed

lemma copy_channels:
  "fold (copy_key st) (map KChannel is) st0 = st0\<lparr>so_channels := fold (\<lambda>i zs. zs[i := so_channels st ! i]) is (so_channels st0)\<rparr>"
  by (induction "is" arbitrary: st0) simp_all

lemma copy_configs:
  "fold (copy_key st) (map KConfig is) st0 = st0\<lparr>so_configs := fold (\<lambda>i zs. zs[i := so_configs st ! i]) is (so_configs st0)\<rparr>"
  by (induction "is" arbitrary: st0) simp_all

lemma copy_modules:
  "fold (copy_key st) (map KModule is) st0 = st0\<lparr>so_modules := fold (\<lambda>i zs. zs[i := so_modules st ! i]) is (so_modules st0)\<rparr>"
  by (induction "is" arbitrary: st0) simp_all

lemma copy_all_keys:
  assumes "store_inv st" "store_inv st0"
  shows "fold (copy_key st) all_keys st0 = st0\<lparr>so_long_name := so_long_name st, so_short_name := so_short_name st,
    so_channels := so_channels st, so_configs := so_configs st, so_modules := so_modules st\<rparr>"
proof -
  have l: "length (so_channels st) = 8" "length (so_channels st0) = 8" "length (so_configs st) = 10"
    "length (so_configs st0) = 10" "length (so_modules st) = 16" "length (so_modules st0) = 16"
    using assms by (simp_all add: store_inv_def)
  have "fold (\<lambda>i zs. zs[i := so_channels st ! i]) [0..<8] (so_channels st0) = so_channels st"
    "fold (\<lambda>i zs. zs[i := so_configs st ! i]) [0..<10] (so_configs st0) = so_configs st"
    "fold (\<lambda>i zs. zs[i := so_modules st ! i]) [0..<16] (so_modules st0) = so_modules st"
    using copy_prefix [of 8 "so_channels st0" "so_channels st"] copy_prefix [of 10 "so_configs st0" "so_configs st"]
      copy_prefix [of 16 "so_modules st0" "so_modules st"] l by simp_all
  then show ?thesis
    by (simp add: all_keys_def copy_channels copy_configs copy_modules del: upt_Suc map_map)
qed

section \<open>Every write keeps the store valid\<close>

lemma copy_fixed_string_ok:
  assumes "0 < n"
  shows "name_ok n (copy_fixed_string n bs)"
proof -
  let ?bs = "take (n - 1) (takeWhile (\<lambda>b. b \<noteq> 0) bs)"
  have nz: "b \<noteq> 0" if "b \<in> set ?bs" for b :: u8
    using that by (auto dest: in_set_takeD set_takeWhileD)
  have ch: "char_of (unat b) \<noteq> CHR 0x00" if "b \<noteq> 0" for b :: u8
  proof
    assume "char_of (unat b) = CHR 0x00"
    then have "of_char (char_of (unat b)) = (0 :: nat)" by simp
    moreover have "unat b < 256" using unsigned_less [of b] by simp
    ultimately show False using that by (simp add: unat_eq_0)
  qed
  have "CHR 0x00 \<notin> set (map (\<lambda>b. char_of (unat b)) ?bs)"
  proof
    assume "CHR 0x00 \<in> set (map (\<lambda>b. char_of (unat b)) ?bs)"
    then obtain b where "b \<in> set ?bs" "char_of (unat b) = CHR 0x00" by (metis (no_types, lifting) in_set_conv_nth length_map nth_map)
    with nz ch show False by blast
  qed
  moreover have "length ?bs < n" using assms by (simp add: min_less_iff_disj)
  ultimately show ?thesis by (simp add: name_ok_def copy_fixed_string_def)
qed

lemma setting_set_inv:
  assumes "store_inv st" "setting_set sc key buf st = (r, st')"
  shows "store_inv st'"
proof -
  have o: "store_inv (snd (setting_set_owner buf st))"
    using assms(1) copy_fixed_string_ok [of 40] copy_fixed_string_ok [of 5]
    by (simp add: setting_set_owner_def store_inv_def)
  have pc: "parse_channel_index name = Inr i \<Longrightarrow> i < 8" for name i
    by (auto simp: parse_channel_index_def split: if_splits prod.splits)
  have ic: "index_for_config_name name = Some i \<Longrightarrow> i < 10" for name i
    unfolding index_for_config_name_def by (drule find_index_SomeD) (simp add: config_names_def)
  have im: "index_for_module_name name = Some i \<Longrightarrow> i < 16" for name i
    unfolding index_for_module_name_def by (drule find_index_SomeD) (simp add: module_names_def)
  have c: "store_inv (snd (setting_set_channel sc name buf st))" for name
    using assms(1) store_inv_channel [OF assms(1)] pc
    by (auto simp: setting_set_channel_def split: sum.splits)
  have g: "store_inv (snd (setting_set_config sc name buf st))" for name
    using assms(1) store_inv_config [OF assms(1)] ic
    by (auto simp: setting_set_config_def split: sum.splits option.splits)
  have m: "store_inv (snd (setting_set_module sc name buf st))" for name
    using assms(1) store_inv_module [OF assms(1)] im
    by (auto simp: setting_set_module_def split: sum.splits option.splits)
  have "store_inv (snd (setting_set sc key buf st))"
    using o c g m assms(1) by (auto simp: setting_set_def split: option.splits)
  with assms(2) show ?thesis by simp
qed

lemma config_set_index:
  "config_is_valid cfg \<Longrightarrow> \<exists>i. index_for_config_tag (config_tag cfg) = Some i \<and> i < 10 \<and> snd (config_names ! i) = config_tag cfg"
  using index_for_config_tag_Some by (fastforce simp: config_is_valid_def)

lemma module_set_index:
  "module_is_valid m \<Longrightarrow> \<exists>i. index_for_module_tag (module_tag m) = Some i \<and> i < 16 \<and> snd (module_names ! i) = module_tag m"
  using index_for_module_tag_Some by (fastforce simp: module_is_valid_def)

section \<open>Applying a valid store\<close>

lemma apply_lora_hop_limit:
  "1 \<le> mt_hop_limit c \<and> mt_hop_limit c \<le> 7 \<Longrightarrow>
     1 \<le> mt_hop_limit (apply_lora to_hz l c) \<and> mt_hop_limit (apply_lora to_hz l c) \<le> 7"
proof -
  have "1 \<le> (word_of_nat n :: u8) \<and> (word_of_nat n :: u8) \<le> 7" if "1 \<le> n" "n \<le> 7" for n :: nat
  proof -
    have "n = 1 \<or> n = 2 \<or> n = 3 \<or> n = 4 \<or> n = 5 \<or> n = 6 \<or> n = 7" using that by auto
    then show ?thesis by (elim disjE) simp_all
  qed
  then show "1 \<le> mt_hop_limit c \<and> mt_hop_limit c \<le> 7 \<Longrightarrow> ?thesis"
    by (auto simp: apply_lora_def Let_def)
qed

lemma apply_lora_ch_hash [simp]: "mt_ch_hash (apply_lora to_hz l c) = mt_ch_hash c"
  by (simp add: apply_lora_def Let_def)

lemma set_slot_ctx:
  assumes "channels_set_slot i ch (t, c) = Some (r, t', c')"
  shows "c' = c \<or> c' = refresh_mt t' c"
  using assms
  by (auto simp: channels_set_slot_def Let_def bind_eq_Some_conv split: if_splits)

lemma apply_slots_live:
  assumes "channels_live t" "mt_ch_hash c = channels_primary_hash t"
    and "\<forall>p\<in>set ps. length (cs_psk (ch_settings (snd p))) \<le> 32"
    and "apply_slots ps (t, c) = Some (r, t', c')"
  shows "channels_live t' \<and> mt_ch_hash c' = channels_primary_hash t' \<and> mt_hop_limit c' = mt_hop_limit c"
  using assms
proof (induction ps arbitrary: t c)
  case Nil
  then show ?case by simp
next
  case (Cons p ps)
  obtain i ch where p: "p = (i, ch)" by force
  from Cons.prems(4) p obtain q t1 c1 where s: "channels_set_slot i ch (t, c) = Some (q, t1, c1)"
    and rest: "(case q of Inl e \<Rightarrow> Some (Inl e, t1, c1) | Inr _ \<Rightarrow> apply_slots ps (t1, c1)) = Some (r, t', c')"
    by (auto simp: bind_eq_Some_conv)
  have l: "channels_live t1 \<and> mt_ch_hash c1 = channels_primary_hash t1"
    using set_slot_live [OF Cons.prems(1) _ Cons.prems(2) s] Cons.prems(3) p by simp
  have h: "mt_hop_limit c1 = mt_hop_limit c" using set_slot_ctx [OF s] by (auto simp: refresh_mt_def)
  show ?case
  proof (cases q)
    case (Inl e)
    with rest l h show ?thesis by simp
  next
    case (Inr u)
    with rest have "apply_slots ps (t1, c1) = Some (r, t', c')" by simp
    with Cons.IH [of t1 c1] l h Cons.prems(3) show ?thesis by simp
  qed
qed

lemma apply_core_live:
  assumes st: "store_inv st" and live: "channels_live t" and h: "mt_ch_hash c = channels_primary_hash t"
    and hop: "1 \<le> mt_hop_limit c \<and> mt_hop_limit c \<le> 7"
    and res: "config_store_apply_core to_hz st (t, c) = Some (r, t', c')"
  shows "channels_live t' \<and> mt_ch_hash c' = channels_primary_hash t' \<and>
    1 \<le> mt_hop_limit c' \<and> mt_hop_limit c' \<le> 7"
proof -
  let ?c = "c\<lparr>mt_long_name := so_long_name st, mt_short_name := so_short_name st\<rparr>"
  let ?ps = "zip [0..<8] (so_channels st)"
  from res obtain q t1 c1 where s: "apply_slots ?ps (t, ?c) = Some (q, t1, c1)"
    and out: "(r, t', c') = (case q of Inl e \<Rightarrow> (Inl e, t1, c1)
      | Inr _ \<Rightarrow> (ok, t1\<lparr>ct_device_role := dc_role (as_device (so_configs st ! 0)),
          ct_rebroadcast_mode := dc_rebroadcast_mode (as_device (so_configs st ! 0))\<rparr>,
          apply_lora to_hz (as_lora (so_configs st ! 5)) c1))"
    by (auto simp: config_store_apply_core_def Let_def bind_eq_Some_conv)
  have "\<forall>p\<in>set ?ps. length (cs_psk (ch_settings (snd p))) \<le> 32"
    using st by (auto simp: store_inv_def channel_is_valid_def set_zip)
  from apply_slots_live [OF live _ this s] h
  have "channels_live t1 \<and> mt_ch_hash c1 = channels_primary_hash t1 \<and> mt_hop_limit c1 = mt_hop_limit c" by simp
  with out apply_lora_hop_limit [of c1 to_hz] hop show ?thesis
    by (auto simp: channels_primary_hash_def split: sum.splits)
qed

text \<open>The slot that ends up primary is the last one stored as primary.\<close>

lemma apply_slots_primary:
  assumes "channels_inv t" "\<forall>p\<in>set ps. fst p < 8 \<and> length (cs_psk (ch_settings (snd p))) \<le> 32"
    and "apply_slots ps (t, c) = Some (r, t', c')"
  shows "r = ok \<and> channels_inv t' \<and>
    ct_primary_index t' = fold (\<lambda>p i. if ch_role (snd p) = Role_PRIMARY then fst p else i) ps (ct_primary_index t)"
  using assms
proof (induction ps arbitrary: t c)
  case Nil
  then show ?case by simp
next
  case (Cons p ps)
  obtain i ch where p: "p = (i, ch)" by force
  from Cons.prems(3) p obtain q t1 c1 where s: "channels_set_slot i ch (t, c) = Some (q, t1, c1)"
    and rest: "(case q of Inl e \<Rightarrow> Some (Inl e, t1, c1) | Inr _ \<Rightarrow> apply_slots ps (t1, c1)) = Some (r, t', c')"
    by (auto simp: bind_eq_Some_conv)
  have i: "i < 8" and psk: "length (cs_psk (ch_settings ch)) \<le> 32" using Cons.prems(2) p by auto
  note sr = set_slot_result [OF Cons.prems(1) i psk s] and inv = set_slot_inv [OF Cons.prems(1) psk s]
  with rest have "apply_slots ps (t1, c1) = Some (r, t', c')" by simp
  from Cons.IH [OF inv _ this] Cons.prems(2) sr p show ?case by simp
qed

text \<open>What it means that a stored configuration is in force, on a table and a context that were \<open>t\<close> and \<open>c\<close>.\<close>

abbreviation last_primary :: "store \<Rightarrow> nat \<Rightarrow> nat" where
  "last_primary st i \<equiv> fold (\<lambda>p i. if ch_role (snd p) = Role_PRIMARY then fst p else i) (zip [0..<MAX_CHANNELS] (so_channels st)) i"

definition in_force :: "(f32 \<Rightarrow> u32) \<Rightarrow> store \<Rightarrow> channels \<times> mt_context \<Rightarrow> channels \<times> mt_context \<Rightarrow> bool" where
  "in_force to_hz st tc tc' \<longleftrightarrow> (let (t, c) = tc; (t', c') = tc';
       d = as_device (so_configs st ! the (index_for_config_tag device_tag));
       l = as_lora (so_configs st ! the (index_for_config_tag lora_tag)) in
     mt_long_name c' = so_long_name st \<and> mt_short_name c' = so_short_name st \<and>
     ct_device_role t' = dc_role d \<and> ct_rebroadcast_mode t' = dc_rebroadcast_mode d \<and>
     ct_primary_index t' = last_primary st (ct_primary_index t) \<and>
     mt_hop_limit c' = (if lo_hop_limit l \<in> {1..7} then word_of_nat (lo_hop_limit l) else mt_hop_limit c) \<and>
     mt_tx_power c' = (if lo_tx_power l \<noteq> 0 then lo_tx_power l else mt_tx_power c) \<and>
     mt_frequency c' = (if f32_positive (lo_override_frequency l) then to_hz (lo_override_frequency l)
       else if frequency_from_region (lo_region l) \<noteq> 0 then frequency_from_region (lo_region l) else mt_frequency c))"

lemma apply_slots_ctx: "apply_slots ps (t, c) = Some (r, t', c') \<Longrightarrow> \<exists>h n. c' = c\<lparr>mt_ch_hash := h, mt_channel_name := n\<rparr>"
proof (induction ps arbitrary: t c)
  case Nil
  then have "c' = c\<lparr>mt_ch_hash := mt_ch_hash c, mt_channel_name := mt_channel_name c\<rparr>" by simp
  then show ?case by blast
next
  case (Cons p ps)
  obtain i ch where p: "p = (i, ch)" by force
  from Cons.prems p obtain q t1 c1 where s: "channels_set_slot i ch (t, c) = Some (q, t1, c1)"
    and rest: "(case q of Inl e \<Rightarrow> Some (Inl e, t1, c1) | Inr _ \<Rightarrow> apply_slots ps (t1, c1)) = Some (r, t', c')"
    by (auto simp: bind_eq_Some_conv)
  obtain h n where c1: "c1 = c\<lparr>mt_ch_hash := h, mt_channel_name := n\<rparr>"
  proof (cases "c1 = c")
    case True
    then show thesis by (intro that [of "mt_channel_name c" "mt_ch_hash c"]) simp
  next
    case False
    with set_slot_ctx [OF s] that show thesis by (auto simp: refresh_mt_def)
  qed
  show ?case
  proof (cases q)
    case (Inl e)
    with rest c1 show ?thesis by auto
  next
    case (Inr u)
    with rest Cons.IH [of t1 c1] c1 show ?thesis by auto
  qed
qed

lemma apply_core_in_force:
  assumes "store_inv st" "channels_inv t" "config_store_apply_core to_hz st (t, c) = Some (r, t', c')"
  shows "r = ok \<and> in_force to_hz st (t, c) (t', c')"
proof -
  let ?c = "c\<lparr>mt_long_name := so_long_name st, mt_short_name := so_short_name st\<rparr>"
  let ?ps = "zip [0..<8] (so_channels st)"
  from assms(3) obtain q t1 c1 where s: "apply_slots ?ps (t, ?c) = Some (q, t1, c1)"
    and out: "(r, t', c') = (case q of Inl e \<Rightarrow> (Inl e, t1, c1)
      | Inr _ \<Rightarrow> (ok, t1\<lparr>ct_device_role := dc_role (as_device (so_configs st ! the (index_for_config_tag device_tag))),
          ct_rebroadcast_mode := dc_rebroadcast_mode (as_device (so_configs st ! the (index_for_config_tag device_tag)))\<rparr>,
          apply_lora to_hz (as_lora (so_configs st ! the (index_for_config_tag lora_tag))) c1))"
    unfolding config_store_apply_core_def Let_def by (auto simp: bind_eq_Some_conv)
  have "\<forall>p\<in>set ?ps. fst p < 8 \<and> length (cs_psk (ch_settings (snd p))) \<le> 32"
    using assms(1) by (auto simp: store_inv_def channel_is_valid_def set_zip)
  note p = apply_slots_primary [OF assms(2) this s]
  obtain h n where c1: "c1 = ?c\<lparr>mt_ch_hash := h, mt_channel_name := n\<rparr>" using apply_slots_ctx [OF s] by blast
  from p out show ?thesis
    unfolding in_force_def Let_def c1 by (simp add: apply_lora_def Let_def split: if_splits)
qed

lemma last_primary_ge:
  assumes "sorted (map fst ps)" "p \<in> set ps" "ch_role (snd p) = Role_PRIMARY"
  shows "fst p \<le> fold (\<lambda>p i. if ch_role (snd p) = Role_PRIMARY then fst p else i) ps i0"
  using assms
proof (induction ps arbitrary: i0 rule: rev_induct)
  case Nil
  then show ?case by simp
next
  case (snoc q ps)
  show ?case
  proof (cases "ch_role (snd q) = Role_PRIMARY")
    case True
    with snoc.prems show ?thesis by (auto simp: sorted_append)
  next
    case False
    with snoc.prems have "p \<in> set ps" by auto
    with snoc.IH snoc.prems False show ?thesis by (simp add: sorted_append)
  qed
qed

section \<open>Properties\<close>

text \<open>
  the configuration survives a reboot. When the export of a valid store went through,
  loading what it wrote, in the order it wrote it, into any valid store restores owner names,
  channels, configurations and modules exactly.
\<close>

theorem config_survives_reboot:
  assumes "codec_ok sc" and "store_inv st" and "store_inv st0"
    and "config_store_export sc st export_func = (ok, kvs)"
  shows "settings_load sc kvs st0 = st0\<lparr>so_long_name := so_long_name st, so_short_name := so_short_name st,
    so_channels := so_channels st, so_configs := so_configs st, so_modules := so_modules st\<rparr>"
proof -
  have "export_loop sc st export_func (map key_name all_keys) = (ok, kvs)"
    using assms(4) by (simp add: config_store_export_def export_keys_names)
  from load_exported [OF assms(1,2) _ this] all_keys_ok copy_all_keys [OF assms(2,3)]
  show ?thesis by simp
qed

text \<open>
  nothing that is read from flash can make the store invalid. Whatever key and bytes the
  settings backend delivers, and whatever the message decoder makes of them, the store keeps
  eight valid channel slots, one valid message of the right kind per configuration and module
  slot, and terminated owner names; and what is rejected leaves the store unchanged.
\<close>

theorem setting_set_robust:
  assumes "store_inv st" and "setting_set sc key buf st = (r, st')"
  shows "store_inv st' \<and> (r \<noteq> ok \<longrightarrow> st' = st)"
proof -
  have "r \<noteq> ok \<longrightarrow> st' = st"
    using assms(2)
    by (auto simp: setting_set_def setting_set_owner_def setting_set_channel_def setting_set_config_def
        setting_set_module_def split: if_splits option.splits sum.splits)
  with setting_set_inv [OF assms] show ?thesis by simp
qed

text \<open>
  C34: a configuration message that is accepted reads back, is scheduled to be saved and is in force:
  the names, the role and the way of rebroadcasting, the hop limit, the transmit power and the
  frequency of the running stack are those of the store as it is now, where the store names one,
  and the primary slot is the last one stored as primary. Store, channel table, the mirrored primary
  hash and the range of the hop limit stay valid. An invalid message is refused and changes nothing.
\<close>

theorem set_config_applies:
  assumes "store_inv st" and "channels_live t" and "mt_ch_hash c = channels_primary_hash t"
    and "1 \<le> mt_hop_limit c \<and> mt_hop_limit c \<le> 7"
    and "config_store_set_config k to_hz cfg (st, t, c) = Some (r, st', t', c')"
  shows "(config_is_valid cfg \<longrightarrow> r = ok \<and> config_store_get_config st' (config_tag cfg) = Inr cfg \<and>
      in_force to_hz st' (t, c) (t', c') \<and> so_save_scheduled st' = (SETTINGS k \<or> so_save_scheduled st)) \<and>
    (\<not> config_is_valid cfg \<longrightarrow> r = Inl EINVAL \<and> st' = st \<and> t' = t \<and> c' = c) \<and>
    store_inv st' \<and> channels_live t' \<and> mt_ch_hash c' = channels_primary_hash t' \<and>
    1 \<le> mt_hop_limit c' \<and> mt_hop_limit c' \<le> 7"
proof (cases "config_is_valid cfg")
  case False
  with assms show ?thesis by (simp add: config_store_set_config_def)
next
  case True
  then obtain i where i: "index_for_config_tag (config_tag cfg) = Some i" "i < 10"
    "snd (config_names ! i) = config_tag cfg" using config_set_index by blast
  let ?st = "st\<lparr>so_configs := (so_configs st)[i := cfg]\<rparr>"
  have inv: "store_inv ?st" using store_inv_config [OF assms(1) True i(2)] i(3) by simp
  obtain q t1 c1 where a: "config_store_apply_core to_hz ?st (t, c) = Some (q, t1, c1)"
    and out: "(r, st', t', c') = (case q of Inl e \<Rightarrow> (Inl e, ?st, t1, c1) | Inr _ \<Rightarrow> (ok, schedule_save k ?st, t1, c1))"
    using assms(5) True i(1) by (auto simp: config_store_set_config_def Let_def bind_eq_Some_conv)
  have cinv: "channels_inv t" using assms(2) by (simp add: channels_live_def)
  note f = apply_core_in_force [OF inv cinv a] and l = apply_core_live [OF inv assms(2-4) a]
  then have o': "r = ok" "st' = schedule_save k ?st" "t' = t1" "c' = c1" using out by simp_all
  have "in_force to_hz st' (t, c) (t', c')" using f o' by (simp add: in_force_def schedule_save_def)
  moreover have "length (so_configs st) = 10" using assms(1) by (simp add: store_inv_def)
  ultimately show ?thesis
    using o' l inv i True by (auto simp: config_store_get_config_def schedule_save_def)
qed

text \<open>
  the primary channel does not survive the next configuration change. Making slot \<open>i\<close> the
  primary channel demotes the old primary slot in the channel table but not in the store; if
  the store still has a later slot \<open>j\<close> marked primary, the next configuration message, whatever it
  is, re-applies the store and makes a later slot primary again.
\<close>

theorem primary_channel_reverts:
  assumes "store_inv st" and "channels_inv t"
    and "i < j" and "j < 8" and "ch_role (so_channels st ! j) = Role_PRIMARY" and "ch_role ch = Role_PRIMARY"
    and "config_store_set_channel k i ch (st, t, c) = Some (ok, st1, t1, c1)"
    and "config_store_set_config k to_hz cfg (st1, t1, c1) = Some (ok, st2, t2, c2)"
  shows "ct_primary_index t1 = i \<and> i < ct_primary_index t2"
proof -
  have v: "channel_is_valid ch" and i8: "i < 8"
    using assms(3,4,7) by (auto simp: config_store_set_channel_def split: if_splits)
  let ?st = "st\<lparr>so_channels := (so_channels st)[i := ch\<lparr>ch_index := i\<rparr>]\<rparr>"
  from assms(7) v i8 obtain q tc where q: "channels_set_slot i ch (t, c) = Some (q, tc)"
    and out: "(case q of Inl e \<Rightarrow> (Inl e, ?st, tc) | Inr _ \<Rightarrow> (ok, schedule_save k ?st, tc)) = (ok, st1, t1, c1)"
    by (auto simp: config_store_set_channel_def Let_def bind_eq_Some_conv)
  have s: "channels_set_slot i ch (t, c) = Some (q, t1, c1)"
    and so: "so_channels st1 = (so_channels st)[i := ch\<lparr>ch_index := i\<rparr>]"
    using q out by (cases q; auto simp: schedule_save_def)+
  have psk: "length (cs_psk (ch_settings ch)) \<le> 32" using v by (simp add: channel_is_valid_def)
  note sr = set_slot_result [OF assms(2) i8 psk s] and inv1 = set_slot_inv [OF assms(2) psk s]
  have valid: "config_is_valid cfg"
    using assms(8) by (auto simp: config_store_set_config_def split: if_splits)
  let ?ps = "zip [0..<8] (so_channels st1)"
  let ?cs = "(so_configs st1)[the (index_for_config_tag (config_tag cfg)) := cfg]"
  let ?st' = "st1\<lparr>so_configs := ?cs\<rparr>"
  from assms(8) valid obtain q' tc' where q': "config_store_apply_core to_hz ?st' (t1, c1) = Some (q', tc')"
    and out': "(case q' of Inl e \<Rightarrow> (Inl e, ?st', tc') | Inr _ \<Rightarrow> (ok, schedule_save k ?st', tc')) = (ok, st2, t2, c2)"
    by (auto simp: config_store_set_config_def Let_def bind_eq_Some_conv)
  have tc': "tc' = (t2, c2)" using out' by (cases q') auto
  let ?c = "c1\<lparr>mt_long_name := so_long_name st1, mt_short_name := so_short_name st1\<rparr>"
  from q' tc' obtain r3 t3 c3 where a: "apply_slots ?ps (t1, ?c) = Some (r3, t3, c3)"
    and o3: "(case r3 of Inl e \<Rightarrow> (Inl e, t3, c3)
      | Inr _ \<Rightarrow> (ok, t3\<lparr>ct_device_role := dc_role (as_device (?cs ! 0)),
          ct_rebroadcast_mode := dc_rebroadcast_mode (as_device (?cs ! 0))\<rparr>,
          apply_lora to_hz (as_lora (?cs ! 5)) c3)) = (q', t2, c2)"
    by (auto simp: config_store_apply_core_def Let_def bind_eq_Some_conv)
  have p3: "ct_primary_index t2 = ct_primary_index t3" using o3 by (cases r3) auto
  have ok: "\<forall>p\<in>set ?ps. fst p < 8 \<and> length (cs_psk (ch_settings (snd p))) \<le> 32"
    using assms(1) psk i8 by (auto simp: so set_zip store_inv_def channel_is_valid_def nth_list_update)
  note ap = apply_slots_primary [OF inv1 ok a]
  have len: "length (so_channels st1) = 8" using assms(1) by (simp add: so store_inv_def)
  have mem: "(j, so_channels st ! j) \<in> set ?ps"
    unfolding set_zip using assms(3,4) len by (auto simp: so intro!: exI [of _ j])
  have "sorted (map fst ?ps)" using len by simp
  from last_primary_ge [OF this mem, of "ct_primary_index t1"] assms(5) ap p3 sr assms(3,6)
  show ?thesis by simp
qed

end
