(* ===== verification/Ring.thy ===== *)
theory Ring
  imports Prelude
begin

text \<open>
  Circular buffers. The PhoneAPI frame queue (\<^verbatim>\<open>meshtastic_phoneapi.c\<close>) and the MQTT publish
  queue (\<^verbatim>\<open>meshtastic_mqtt.c\<close>) are both an array with a read index, a write index and a
  count, and both drop the oldest element when a push finds the array full.
  \<open>ring_list\<close> reads such an array as the list of its live elements; the locale
  \<open>bounded_fifo\<close> is the contract the two queues offer to their clients.
\<close>

section \<open>The list a ring holds\<close>

definition ring_list :: "'a list \<Rightarrow> nat \<Rightarrow> nat \<Rightarrow> 'a list" where
  "ring_list buf first n = map (\<lambda>i. buf ! ((first + i) mod length buf)) [0..<n]"

lemma length_ring_list [simp]: "length (ring_list buf first n) = n"
  by (simp add: ring_list_def)

lemma ring_list_0 [simp]: "ring_list buf first 0 = []"
  by (simp add: ring_list_def)

lemma nth_ring_list: "i < n \<Longrightarrow> ring_list buf first n ! i = buf ! ((first + i) mod length buf)"
  by (simp add: ring_list_def)

lemma mod_shift_less_neq:
  fixes N a i j :: nat
  assumes "i < j" "j < N"
  shows "(a + j) mod N \<noteq> (a + i) mod N"
proof
  assume "(a + j) mod N = (a + i) mod N"
  then have "N dvd (a + j) - (a + i)"
    using assms by (subst (asm) mod_eq_dvd_iff_nat) auto
  then have "N dvd j - i" by simp
  with assms show False by (auto dest: dvd_imp_le)
qed

lemma mod_shift_neq:
  fixes N a i j :: nat
  assumes "i < N" "j < N" "i \<noteq> j"
  shows "(a + i) mod N \<noteq> (a + j) mod N"
  using mod_shift_less_neq [of i j N a] mod_shift_less_neq [of j i N a] assms
  by (cases i j rule: linorder_cases) auto

text \<open>Writing at the position after the last live element appends.\<close>

lemma ring_list_snoc:
  assumes "n < length buf"
  shows "ring_list (buf[(first + n) mod length buf := x]) first (Suc n) = ring_list buf first n @ [x]"
proof (rule nth_equalityI)
  fix i assume "i < length (ring_list (buf[(first + n) mod length buf := x]) first (Suc n))"
  then have i: "i < Suc n" by simp
  have pos: "0 < length buf" using assms by auto
  show "ring_list (buf[(first + n) mod length buf := x]) first (Suc n) ! i
      = (ring_list buf first n @ [x]) ! i"
  proof (cases "i = n")
    case True
    then show ?thesis using pos by (simp add: nth_ring_list nth_append)
  next
    case False
    with i assms have "(first + n) mod length buf \<noteq> (first + i) mod length buf"
      by (intro mod_shift_neq) auto
    with i False show ?thesis by (simp add: nth_ring_list nth_append)
  qed
qed simp

text \<open>Advancing the read index drops the first live element.\<close>

lemma ring_list_tl:
  "ring_list buf ((first + 1) mod length buf) (n - 1) = tl (ring_list buf first n)"
proof (rule nth_equalityI)
  fix i assume "i < length (ring_list buf ((first + 1) mod length buf) (n - 1))"
  then have i: "i < n - 1" by simp
  have "((first + 1) mod length buf + i) mod length buf = (first + Suc i) mod length buf"
    by (simp add: mod_add_left_eq)
  with i show "ring_list buf ((first + 1) mod length buf) (n - 1) ! i = tl (ring_list buf first n) ! i"
    by (simp add: nth_ring_list nth_tl)
qed simp

lemma ring_list_hd: "0 < n \<Longrightarrow> first < length buf \<Longrightarrow> hd (ring_list buf first n) = buf ! first"
  by (simp add: hd_conv_nth nth_ring_list flip: length_greater_0_conv)

text \<open>Shortening the count drops the last live element.\<close>

lemma ring_list_butlast: "ring_list buf first (n - 1) = butlast (ring_list buf first n)"
  by (rule nth_equalityI) (auto simp: nth_ring_list nth_butlast)

text \<open>Writing at the position before the first live element prepends.\<close>

lemma ring_list_cons:
  assumes "n < length buf" "first < length buf"
  shows "ring_list (buf[(first + length buf - 1) mod length buf := x])
           ((first + length buf - 1) mod length buf) (Suc n) = x # ring_list buf first n"
proof (rule nth_equalityI)
  let ?N = "length buf"
  let ?p = "(first + ?N - 1) mod ?N"
  have p: "?p < ?N" using assms by (intro mod_less_divisor) auto
  fix i assume "i < length (ring_list (buf[?p := x]) ?p (Suc n))"
  then have i: "i < Suc n" by simp
  show "ring_list (buf[?p := x]) ?p (Suc n) ! i = (x # ring_list buf first n) ! i"
  proof (cases i)
    case 0
    then show ?thesis using p by (simp add: nth_ring_list)
  next
    case (Suc j)
    have eq: "(?p + Suc j) mod ?N = (first + j) mod ?N"
    proof -
      have "(?p + Suc j) mod ?N = (first + ?N - 1 + Suc j) mod ?N"
        by (rule mod_add_left_eq)
      also have "first + ?N - 1 + Suc j = first + j + ?N" using assms by simp
      finally show ?thesis by simp
    qed
    have "(?p + 0) mod ?N \<noteq> (?p + Suc j) mod ?N"
      using i Suc assms by (intro mod_shift_neq) auto
    with p eq have "?p \<noteq> (first + j) mod ?N" by simp
    with i Suc eq show ?thesis by (simp add: nth_ring_list)
  qed
qed simp

lemma mod_step_back:
  fixes t m n :: nat
  assumes "0 < m"
  shows "((t + 1) mod n + (m - 1)) mod n = (t + m) mod n"
proof -
  have "((t + 1) mod n + (m - 1)) mod n = (t + 1 + (m - 1)) mod n" by (rule mod_add_left_eq)
  also have "t + 1 + (m - 1) = t + m" using assms by simp
  finally show ?thesis .
qed

text \<open>
  The write of both queues: when the ring is full its first element is given up, then the new
  element goes after the last one. The write index stays the read index plus the count.
\<close>

lemma ring_append_dropping:
  fixes first m :: nat
  assumes "0 < length buf" and "m \<le> length buf"
  defines "full \<equiv> m = length buf"
  defines "first' \<equiv> if full then (first + 1) mod length buf else first"
  defines "m' \<equiv> if full then m - 1 else m"
  shows "ring_list (buf[(first + m) mod length buf := x]) first' (Suc m')
      = (if full then tl (ring_list buf first m) else ring_list buf first m) @ [x]"
    and "(first' + Suc m') mod length buf = ((first + m) mod length buf + 1) mod length buf"
proof -
  have at: "(first' + m') mod length buf = (first + m) mod length buf"
  proof (cases full)
    case True
    then have "0 < m" using assms(1) by (simp add: full_def)
    from mod_step_back [OF this, of first "length buf"] True show ?thesis unfolding first'_def m'_def by simp
  qed (simp add: first'_def m'_def)
  have lt: "m' < length buf" using assms(1,2) by (auto simp: m'_def full_def)
  have "ring_list buf first' m' = (if full then tl (ring_list buf first m) else ring_list buf first m)"
    using ring_list_tl [of buf first m] by (simp add: first'_def m'_def)
  with ring_list_snoc [OF lt, of first' x] at
  show "ring_list (buf[(first + m) mod length buf := x]) first' (Suc m')
      = (if full then tl (ring_list buf first m) else ring_list buf first m) @ [x]" by simp
  show "(first' + Suc m') mod length buf = ((first + m) mod length buf + 1) mod length buf"
    using at by (metis Suc_eq_plus1 add_Suc_right mod_Suc_eq)
qed

section \<open>The contract: a bounded first-in first-out queue that drops its oldest element\<close>

locale bounded_fifo =
  fixes inv :: "'q \<Rightarrow> bool"
    and contents :: "'q \<Rightarrow> 'a list"
    and capacity :: "'q \<Rightarrow> nat"
    and push :: "'a \<Rightarrow> 'q \<Rightarrow> 'q"
    and pop :: "'q \<Rightarrow> ('a \<times> 'q) option"
  assumes capacity_pos: "inv q \<Longrightarrow> 0 < capacity q"
    and bounded: "inv q \<Longrightarrow> length (contents q) \<le> capacity q"
    and inv_push: "inv q \<Longrightarrow> inv (push x q)"
    and capacity_push: "inv q \<Longrightarrow> capacity (push x q) = capacity q"
    and contents_push: "inv q \<Longrightarrow>
      contents (push x q) = (if length (contents q) = capacity q then tl (contents q) else contents q) @ [x]"
    and pop_empty: "inv q \<Longrightarrow> contents q = [] \<Longrightarrow> pop q = None"
    and pop_some: "inv q \<Longrightarrow> contents q = x # xs \<Longrightarrow>
      \<exists>q'. pop q = Some (x, q') \<and> inv q' \<and> contents q' = xs \<and> capacity q' = capacity q"
begin

fun drain :: "nat \<Rightarrow> 'q \<Rightarrow> 'a list \<times> 'q" where
  "drain 0 q = ([], q)"
| "drain (Suc n) q =
     (case pop q of None \<Rightarrow> ([], q) | Some (x, q') \<Rightarrow> (let (xs, q'') = drain n q' in (x # xs, q'')))"

lemma inv_fold_push: "inv q \<Longrightarrow> inv (fold push xs q)"
  by (induction xs arbitrary: q) (auto intro: inv_push)

lemma capacity_fold_push: "inv q \<Longrightarrow> capacity (fold push xs q) = capacity q"
  by (induction xs arbitrary: q) (auto simp: capacity_push inv_push)

text \<open>After any number of pushes the queue holds the most recent elements, oldest first.\<close>

lemma contents_fold_push:
  assumes "inv q"
  shows "contents (fold push xs q)
    = drop (length (contents q) + length xs - capacity q) (contents q @ xs)"
  using assms
proof (induction xs arbitrary: q)
  case Nil
  then show ?case using bounded by simp
next
  case (Cons x xs)
  let ?c = "contents q" and ?N = "capacity q"
  have IH: "contents (fold push xs (push x q))
      = drop (length (contents (push x q)) + length xs - ?N) (contents (push x q) @ xs)"
    using Cons.IH [OF inv_push [OF Cons.prems]] capacity_push [OF Cons.prems] by simp
  show ?case
  proof (cases "length ?c = ?N")
    case True
    then have ne: "?c \<noteq> []" using capacity_pos [OF Cons.prems] by auto
    then obtain y ys where c: "?c = y # ys" by (cases ?c) auto
    with True IH show ?thesis
      by (simp add: contents_push [OF Cons.prems])
  next
    case False
    with IH show ?thesis by (simp add: contents_push [OF Cons.prems])
  qed
qed

lemma contents_fold_push_room:
  assumes "inv q" "length (contents q) + length xs \<le> capacity q"
  shows "contents (fold push xs q) = contents q @ xs"
  using contents_fold_push [OF assms(1), of xs] assms(2) by simp

text \<open>Popping until empty returns the contents in order.\<close>

lemma drain_contents:
  "inv q \<Longrightarrow> length (contents q) \<le> n \<Longrightarrow>
     fst (drain n q) = contents q \<and> contents (snd (drain n q)) = [] \<and> inv (snd (drain n q))"
proof (induction n arbitrary: q)
  case 0
  then show ?case by simp
next
  case (Suc n)
  show ?case
  proof (cases "contents q")
    case Nil
    with Suc.prems show ?thesis by (simp add: pop_empty)
  next
    case (Cons x xs)
    from pop_some [OF Suc.prems(1) Cons] obtain q' where
      q': "pop q = Some (x, q')" "inv q'" "contents q' = xs" by blast
    from Suc.IH [OF q'(2)] q' Suc.prems(2) Cons show ?thesis
      by (simp add: split_beta)
  qed
qed

end

end
