(* ===== verification/PhoneApi.thy ===== *)
theory PhoneApi
  imports Ring Identity ConfigStore Packet
begin

text \<open>
  The phone interface, of \<^verbatim>\<open>src/meshtastic_phoneapi.c\<close> and \<^verbatim>\<open>src/meshtastic_phoneapi_config.c\<close>:
  the ring of encoded \<^verbatim>\<open>FromRadio\<close> frames each transport keeps, the frame being delivered, and
  the state machine that produces the configuration download a phone asks for. The part of
  \<^verbatim>\<open>meshtastic_phoneapi_handle_toradio\<close> that sends packets is in the theory of the send path.

  A frame is its bytes. The callbacks into a transport are counted, not run.
\<close>

section \<open>Messages\<close>

record my_info =
  mi_my_node_num :: u32
  mi_min_app_version :: u32
  mi_nodedb_count :: nat
  mi_device_id :: bytes
  mi_pio_env :: string

record metadata =
  md_firmware_version :: string
  md_has_bluetooth :: bool
  md_role :: nat
  md_hw_model :: nat

record queue_status =
  qs_res :: int
  qs_free :: nat
  qs_maxlen :: nat
  qs_mesh_packet_id :: u32

datatype fromradio_variant =
    FR_packet mesh_packet
  | FR_my_info my_info
  | FR_node_info u32 user
  | FR_config config
  | FR_config_complete_id u32
  | FR_rebooted bool
  | FR_moduleConfig module_config
  | FR_channel channel
  | FR_queueStatus queue_status
  | FR_metadata metadata
  | FR_deviceuiConfig bytes

record fromradio =
  fr_id :: u32
  fr_variant :: fromradio_variant

datatype toradio =
    TR_packet mesh_packet
  | TR_want_config_id u32
  | TR_disconnect
  | TR_heartbeat
  | TR_other nat

record phone_codec =
  enc_FromRadio :: "fromradio \<Rightarrow> bytes option"
  dec_ToRadio :: "bytes \<Rightarrow> toradio option"

datatype config_state =
    CONFIG_IDLE | CONFIG_MY_INFO | CONFIG_DEVICE_UI | CONFIG_NODE_INFO | CONFIG_METADATA
  | CONFIG_CHANNELS | CONFIG_CONFIGS | CONFIG_MODULES | CONFIG_QUEUE_STATUS | CONFIG_COMPLETE

record phoneapi =
  pa_queue :: "bytes list"
  pa_current :: bytes
  pa_queue_size :: nat
  pa_head :: nat
  pa_tail :: nat
  pa_count :: nat
  pa_current_valid :: bool
  pa_from_num :: u32
  pa_config_state :: config_state
  pa_config_index :: nat
  pa_config_request_id :: u32
  pa_notified :: nat
  pa_disconnected :: nat
  pa_invalidated :: nat

section \<open>The frame queue\<close>

definition encode_fromradio_frame :: "phone_codec \<Rightarrow> fromradio \<Rightarrow> bytes res" where
  "encode_fromradio_frame pc from =
     (case pb_encode (enc_FromRadio pc) API_FRAME_MAX from of None \<Rightarrow> Inl ENOMEM | Some bs \<Rightarrow> Inr bs)"

definition config_active :: "phoneapi \<Rightarrow> bool" where
  "config_active api \<longleftrightarrow> pa_config_state api \<noteq> CONFIG_IDLE"

definition notify_data_ready :: "phoneapi \<Rightarrow> phoneapi" where
  "notify_data_ready api = api\<lparr>pa_notified := Suc (pa_notified api)\<rparr>"

definition phoneapi_init :: "nat \<Rightarrow> phoneapi" where
  "phoneapi_init queue_size = \<lparr>pa_queue = replicate queue_size [], pa_current = [], pa_queue_size = queue_size,
     pa_head = 0, pa_tail = 0, pa_count = 0, pa_current_valid = False, pa_from_num = 0,
     pa_config_state = CONFIG_IDLE, pa_config_index = 0, pa_config_request_id = 0, pa_notified = 0,
     pa_disconnected = 0, pa_invalidated = 0\<rparr>"

text \<open>The registry holds at most two transports, each once; a transport is named by a number.\<close>

definition phoneapi_register :: "nat \<Rightarrow> nat list \<Rightarrow> nat list" where
  "phoneapi_register api transports =
     (if api \<in> set transports then transports
      else if length transports < 2 then transports @ [api]
      else transports)"

definition phoneapi_reset :: "phoneapi \<Rightarrow> phoneapi" where
  "phoneapi_reset api = api\<lparr>pa_head := 0, pa_tail := 0, pa_count := 0, pa_current_valid := False,
     pa_config_state := CONFIG_IDLE, pa_config_index := 0, pa_config_request_id := 0, pa_from_num := 0\<rparr>"

definition phoneapi_pending_count :: "phoneapi \<Rightarrow> nat" where
  "phoneapi_pending_count api =
     pa_count api + (if pa_current_valid api then 1 else 0) + (if config_active api then 1 else 0)"

text \<open>Appending to the ring, dropping the oldest frame when it is full.\<close>

definition ring_push :: "bytes \<Rightarrow> phoneapi \<Rightarrow> phoneapi" where
  "ring_push frame api =
     (let n = pa_queue_size api;
          api = (if pa_count api = n
                 then api\<lparr>pa_tail := u8_cast ((pa_tail api + 1) mod n), pa_count := pa_count api - 1\<rparr>
                 else api)
      in api\<lparr>pa_queue := (pa_queue api)[pa_head api := frame],
             pa_head := u8_cast ((pa_head api + 1) mod n), pa_count := pa_count api + 1\<rparr>)"

text \<open>Taking the oldest frame from a ring that is not empty.\<close>

definition ring_pop :: "phoneapi \<Rightarrow> (bytes \<times> phoneapi) option" where
  "ring_pop api =
     (if pa_count api = 0 then None
      else Some (pa_queue api ! pa_tail api,
        api\<lparr>pa_tail := u8_cast ((pa_tail api + 1) mod pa_queue_size api), pa_count := pa_count api - 1\<rparr>))"

definition push_frame :: "bytes \<Rightarrow> phoneapi \<Rightarrow> phoneapi" where
  "push_frame frame api = notify_data_ready (ring_push frame api)"

definition enqueue_fromradio :: "phone_codec \<Rightarrow> fromradio \<Rightarrow> phoneapi \<Rightarrow> unit res \<times> phoneapi" where
  "enqueue_fromradio pc from api =
     (case encode_fromradio_frame pc from of
        Inl e \<Rightarrow> (Inl e, api)
      | Inr frame \<Rightarrow> (ok, push_frame frame api))"

definition push_frame_front :: "bytes \<Rightarrow> phoneapi \<Rightarrow> phoneapi" where
  "push_frame_front frame api =
     (let n = pa_queue_size api;
          api = (if pa_count api = n
                 then api\<lparr>pa_head := u8_cast ((pa_head api + n - 1) mod n), pa_count := pa_count api - 1\<rparr>
                 else api);
          tail = u8_cast ((pa_tail api + n - 1) mod n)
      in api\<lparr>pa_tail := tail, pa_queue := (pa_queue api)[tail := frame], pa_count := pa_count api + 1\<rparr>)"

definition release_current_frame :: "phoneapi \<Rightarrow> phoneapi" where
  "release_current_frame api = api\<lparr>pa_current_valid := False\<rparr>"

definition clamp_i8 :: "int \<Rightarrow> int" where
  "clamp_i8 n = max (- 128) (min n 127)"

definition enqueue_queue_status :: "phone_codec \<Rightarrow> int \<Rightarrow> u32 \<Rightarrow> phoneapi \<times> mt_context \<Rightarrow> phoneapi \<times> mt_context" where
  "enqueue_queue_status pc res mesh_packet_id ac =
     (let (api, c) = ac;
          pending = phoneapi_pending_count api;
          (fid, c) = next_fromradio_id c;
          from = \<lparr>fr_id = fid, fr_variant = FR_queueStatus \<lparr>qs_res = clamp_i8 res,
                   qs_free = (if pa_queue_size api \<le> pending then 0 else pa_queue_size api - pending),
                   qs_maxlen = pa_queue_size api, qs_mesh_packet_id = mesh_packet_id\<rparr>\<rparr>
      in (snd (enqueue_fromradio pc from api), c))"

definition make_my_info :: "u32 \<Rightarrow> my_info" where
  "make_my_info node = \<lparr>mi_my_node_num = node, mi_min_app_version = 0, mi_nodedb_count = 1,
     mi_device_id = put_le32 node, mi_pio_env = strn 40 ''zephyr''\<rparr>"

definition enqueue_my_info :: "phone_codec \<Rightarrow> phoneapi \<times> mt_context \<Rightarrow> phoneapi \<times> mt_context" where
  "enqueue_my_info pc ac =
     (let (api, c) = ac; (fid, c) = next_fromradio_id c
      in (snd (enqueue_fromradio pc \<lparr>fr_id = fid, fr_variant = FR_my_info (make_my_info (mt_node_id c))\<rparr> api), c))"

definition enqueue_rebooted :: "phone_codec \<Rightarrow> phoneapi \<Rightarrow> phoneapi" where
  "enqueue_rebooted pc api = snd (enqueue_fromradio pc \<lparr>fr_id = 0, fr_variant = FR_rebooted True\<rparr> api)"

text \<open>
  The fan-out of a received packet to every registered transport; the transports are the
  elements of the list.
\<close>

definition phoneapi_on_packet ::
  "phone_codec \<Rightarrow> packet \<Rightarrow> phoneapi list \<times> mt_context \<Rightarrow> phoneapi list \<times> mt_context" where
  "phoneapi_on_packet pc p ac =
     (let (apis, c) = ac; (fid, c) = next_fromradio_id c
      in case packet_to_mesh_pb p of
           Inl e \<Rightarrow> (apis, c)
         | Inr mesh \<Rightarrow> (map (\<lambda>api. snd (enqueue_fromradio pc \<lparr>fr_id = fid, fr_variant = FR_packet mesh\<rparr> api)) apis, c))"

section \<open>The configuration download\<close>

text \<open>What the download reads: build options, hardware model, the store and the channel table.\<close>

record phone_env =
  pe_k :: kconfig
  pe_hw_model :: nat
  pe_store :: store
  pe_channels :: channels

definition config_tags :: "nat list" where
  "config_tags = [1, 2, 3, 4, 5, 6, 7, 8, 9, 10]"

definition module_tags :: "nat list" where
  "module_tags = [1, 2, 3, 4, 5, 6, 7, 8, 9, 10, 11, 12, 13, 14, 15, 16]"

definition fill_channel :: "store \<Rightarrow> nat \<Rightarrow> channel" where
  "fill_channel st index =
     (case config_store_get_channel st index of
        Inr ch \<Rightarrow>
          if ch_role ch \<noteq> Role_DISABLED then ch\<lparr>ch_index := index\<rparr>
          else channel_zero\<lparr>ch_index := index, ch_role := Role_DISABLED, ch_has_settings := True\<rparr>
      | Inl _ \<Rightarrow> channel_zero\<lparr>ch_index := index, ch_role := Role_DISABLED, ch_has_settings := True\<rparr>)"

definition emit_frame ::
  "phone_codec \<Rightarrow> fromradio \<Rightarrow> config_state \<Rightarrow> nat \<Rightarrow> phoneapi \<Rightarrow> bytes res \<times> phoneapi" where
  "emit_frame pc from next_state next_index api =
     (case encode_fromradio_frame pc from of
        Inl e \<Rightarrow> (Inl e, api)
      | Inr frame \<Rightarrow> (Inr frame, api\<lparr>pa_config_state := next_state, pa_config_index := next_index\<rparr>))"

definition emit_variant ::
  "phone_codec \<Rightarrow> fromradio_variant \<Rightarrow> config_state \<Rightarrow> nat \<Rightarrow> phoneapi \<times> mt_context
     \<Rightarrow> bytes res \<times> phoneapi \<times> mt_context" where
  "emit_variant pc v next_state next_index ac =
     (let (api, c) = ac; (fid, c) = next_fromradio_id c;
          (r, api) = emit_frame pc \<lparr>fr_id = fid, fr_variant = v\<rparr> next_state next_index api
      in (r, api, c))"

text \<open>
  The inner loops over the configuration and module tags, from the current index on. A tag
  the store does not know is skipped, after a frame number has been spent on it. The result
  is the index and the content of the first tag found, if any.
\<close>

fun scan_tags :: "(nat \<Rightarrow> 'm res) \<Rightarrow> nat list \<Rightarrow> nat \<Rightarrow> mt_context \<Rightarrow> (nat \<times> u32 \<times> 'm) option \<times> mt_context" where
  "scan_tags get [] i c = (None, c)"
| "scan_tags get (tag # tags) i c =
     (let (fid, c) = next_fromradio_id c
      in case get tag of
           Inr m \<Rightarrow> (Some (i, fid, m), c)
         | Inl e \<Rightarrow> scan_tags get tags (Suc i) c)"

definition queue_status_step ::
  "phone_codec \<Rightarrow> phoneapi \<times> mt_context \<Rightarrow> bytes res \<times> phoneapi \<times> mt_context" where
  "queue_status_step pc ac =
     (let (api, c) = ac
      in emit_variant pc (FR_queueStatus \<lparr>qs_res = 0,
           qs_free = (if pa_queue_size api \<le> pa_count api then 0 else pa_queue_size api - pa_count api),
           qs_maxlen = pa_queue_size api, qs_mesh_packet_id = 0\<rparr>) CONFIG_COMPLETE 0 (api, c))"

definition modules_step ::
  "phone_codec \<Rightarrow> phone_env \<Rightarrow> phoneapi \<times> mt_context \<Rightarrow> bytes res \<times> phoneapi \<times> mt_context" where
  "modules_step pc env ac =
     (let (api, c) = ac;
          (found, c) = scan_tags (config_store_get_module (pe_store env)) (drop (pa_config_index api) module_tags)
            (pa_config_index api) c
      in case found of
           Some (i, fid, m) \<Rightarrow>
             (let api = api\<lparr>pa_config_index := i\<rparr>; fin = length module_tags \<le> i + 1;
                  (r, api) = emit_frame pc \<lparr>fr_id = fid, fr_variant = FR_moduleConfig m\<rparr>
                    (if fin then CONFIG_QUEUE_STATUS else CONFIG_MODULES) (if fin then 0 else i + 1) api
              in (r, api, c))
         | None \<Rightarrow> queue_status_step pc (api\<lparr>pa_config_state := CONFIG_QUEUE_STATUS, pa_config_index := 0\<rparr>, c))"

definition configs_step ::
  "phone_codec \<Rightarrow> phone_env \<Rightarrow> phoneapi \<times> mt_context \<Rightarrow> bytes res \<times> phoneapi \<times> mt_context" where
  "configs_step pc env ac =
     (let (api, c) = ac;
          (found, c) = scan_tags (config_store_get_config (pe_store env)) (drop (pa_config_index api) config_tags)
            (pa_config_index api) c
      in case found of
           Some (i, fid, cfg) \<Rightarrow>
             (let api = api\<lparr>pa_config_index := i\<rparr>; fin = length config_tags \<le> i + 1;
                  (r, api) = emit_frame pc \<lparr>fr_id = fid, fr_variant = FR_config cfg\<rparr>
                    (if fin then CONFIG_MODULES else CONFIG_CONFIGS) (if fin then 0 else i + 1) api
              in (r, api, c))
         | None \<Rightarrow> modules_step pc env (api\<lparr>pa_config_state := CONFIG_MODULES, pa_config_index := 0\<rparr>, c))"

definition next_config_frame ::
  "phone_codec \<Rightarrow> phone_env \<Rightarrow> phoneapi \<times> mt_context \<Rightarrow> bytes res \<times> phoneapi \<times> mt_context" where
  "next_config_frame pc env ac =
     (let (api, c) = ac in
      case pa_config_state api of
        CONFIG_IDLE \<Rightarrow> (Inl ENOENT, api, c)
      | CONFIG_MY_INFO \<Rightarrow>
          emit_variant pc (FR_my_info (make_my_info (mt_node_id c))) CONFIG_DEVICE_UI 0 (api, c)
      | CONFIG_DEVICE_UI \<Rightarrow>
          emit_variant pc (FR_deviceuiConfig (case config_store_get_device_ui (pe_store env) of Inl _ \<Rightarrow> [] | Inr bs \<Rightarrow> bs))
            CONFIG_NODE_INFO 0 (api, c)
      | CONFIG_NODE_INFO \<Rightarrow>
          emit_variant pc (FR_node_info (mt_node_id c) (fill_user (pe_hw_model env) (pe_channels env) c))
            CONFIG_METADATA 0 (api, c)
      | CONFIG_METADATA \<Rightarrow>
          emit_variant pc (FR_metadata \<lparr>md_firmware_version = ''zephyr.123'', md_has_bluetooth = BLE (pe_k env),
            md_role = ct_device_role (pe_channels env), md_hw_model = pe_hw_model env\<rparr>) CONFIG_CHANNELS 0 (api, c)
      | CONFIG_CHANNELS \<Rightarrow>
          (let i = pa_config_index api; fin = MAX_CHANNELS \<le> i + 1
           in emit_variant pc (FR_channel (fill_channel (pe_store env) i))
                (if fin then CONFIG_CONFIGS else CONFIG_CHANNELS) (if fin then 0 else i + 1) (api, c))
      | CONFIG_CONFIGS \<Rightarrow> configs_step pc env (api, c)
      | CONFIG_MODULES \<Rightarrow> modules_step pc env (api, c)
      | CONFIG_QUEUE_STATUS \<Rightarrow> queue_status_step pc (api, c)
      | CONFIG_COMPLETE \<Rightarrow>
          emit_variant pc (FR_config_complete_id (pa_config_request_id api)) CONFIG_IDLE 0 (api, c))"

definition enqueue_phone_config :: "u32 \<Rightarrow> phoneapi \<Rightarrow> phoneapi" where
  "enqueue_phone_config request_id api =
     (let api = api\<lparr>pa_head := 0, pa_tail := 0, pa_count := 0, pa_current_valid := False,
            pa_config_state := CONFIG_MY_INFO, pa_config_index := 0, pa_config_request_id := request_id\<rparr>
      in notify_data_ready (api\<lparr>pa_invalidated := Suc (pa_invalidated api)\<rparr>))"

definition phoneapi_set_channel ::
  "kconfig \<Rightarrow> nat \<Rightarrow> channel \<Rightarrow> store \<times> channels \<times> mt_context \<Rightarrow> (unit res \<times> store \<times> channels \<times> mt_context) option" where
  "phoneapi_set_channel k index ch s = config_store_set_channel k index ch s"

section \<open>Delivery\<close>

definition pop_frame ::
  "phone_codec \<Rightarrow> phone_env \<Rightarrow> phoneapi \<times> mt_context \<Rightarrow> bytes option \<times> phoneapi \<times> mt_context" where
  "pop_frame pc env ac =
     (let (api, c) = ac in
      case ring_pop api of
        Some (frame, api) \<Rightarrow> (Some frame, api, c)
      | None \<Rightarrow>
          if config_active api
          then (case next_config_frame pc env (api, c) of
              (Inr frame, api, c) \<Rightarrow> (Some frame, api, c)
            | (Inl _, api, c) \<Rightarrow> (None, api, c))
          else (None, api, c))"

definition current_frame ::
  "phone_codec \<Rightarrow> phone_env \<Rightarrow> phoneapi \<times> mt_context \<Rightarrow> bytes option \<times> phoneapi \<times> mt_context" where
  "current_frame pc env ac =
     (let (api, c) = ac in
      if pa_current_valid api then (Some (pa_current api), api, c)
      else case ring_pop api of
          Some (frame, api) \<Rightarrow> (Some frame, api\<lparr>pa_current := frame, pa_current_valid := True\<rparr>, c)
        | None \<Rightarrow>
            if config_active api
            then (case next_config_frame pc env (api, c) of
                (Inr frame, api, c) \<Rightarrow> (Some frame, api\<lparr>pa_current := frame, pa_current_valid := True\<rparr>, c)
              | (Inl _, api, c) \<Rightarrow> (None, api, c))
            else (None, api, c))"

section \<open>The ring is a bounded queue\<close>

definition phone_ring_ok :: "phoneapi \<Rightarrow> bool" where
  "phone_ring_ok api \<longleftrightarrow> length (pa_queue api) = pa_queue_size api \<and> 0 < pa_queue_size api \<and>
     pa_queue_size api \<le> 255 \<and> pa_count api \<le> pa_queue_size api \<and> pa_tail api < pa_queue_size api \<and>
     pa_head api = (pa_tail api + pa_count api) mod pa_queue_size api"

definition phone_frames :: "phoneapi \<Rightarrow> bytes list" where
  "phone_frames api = ring_list (pa_queue api) (pa_tail api) (pa_count api)"

lemma length_phone_frames [simp]: "length (phone_frames api) = pa_count api"
  by (simp add: phone_frames_def)

lemma ring_push_spec:
  assumes "phone_ring_ok api"
  shows "phone_ring_ok (ring_push x api) \<and> pa_queue_size (ring_push x api) = pa_queue_size api \<and>
    phone_frames (ring_push x api) =
      (if pa_count api = pa_queue_size api then tl (phone_frames api) else phone_frames api) @ [x]"
proof -
  let ?n = "pa_queue_size api" and ?t = "pa_tail api" and ?m = "pa_count api"
  have h: "pa_head api = (?t + ?m) mod ?n" "length (pa_queue api) = ?n" "0 < ?n" "?n \<le> 255" "?t < ?n" "?m \<le> ?n"
    using assms by (simp_all add: phone_ring_ok_def)
  show ?thesis
    using ring_append_dropping(1) [of "pa_queue api" ?m ?t x] ring_append_dropping(2) [of "pa_queue api" ?m ?t] h
    by (auto simp: ring_push_def phone_ring_ok_def phone_frames_def Let_def)
qed

lemma ring_pop_spec:
  assumes "phone_ring_ok api"
  shows "(phone_frames api = [] \<longrightarrow> ring_pop api = None) \<and>
    (\<forall>x xs. phone_frames api = x # xs \<longrightarrow>
      (\<exists>api'. ring_pop api = Some (x, api') \<and> phone_ring_ok api' \<and> phone_frames api' = xs \<and>
        pa_queue_size api' = pa_queue_size api))"
proof -
  let ?n = "pa_queue_size api" and ?t = "pa_tail api" and ?m = "pa_count api"
  have h: "pa_head api = (?t + ?m) mod ?n" "length (pa_queue api) = ?n" "0 < ?n" "?n \<le> 255" "?t < ?n" "?m \<le> ?n"
    using assms by (simp_all add: phone_ring_ok_def)
  have "\<exists>api'. ring_pop api = Some (x, api') \<and> phone_ring_ok api' \<and> phone_frames api' = xs \<and> pa_queue_size api' = ?n"
    if f: "phone_frames api = x # xs" for x xs
  proof -
    have m: "0 < ?m" using f length_phone_frames [of api] by (metis length_greater_0_conv list.discI)
    have x: "pa_queue api ! ?t = x"
      using ring_list_hd [OF m, of ?t "pa_queue api"] f h by (simp add: phone_frames_def)
    have xs: "ring_list (pa_queue api) ((?t + 1) mod ?n) (?m - 1) = xs"
      using ring_list_tl [of "pa_queue api" ?t ?m] f h by (simp add: phone_frames_def)
    have "((?t + 1) mod ?n + (?m - 1)) mod ?n = (?t + ?m) mod ?n" using m by (intro mod_step_back)
    with m x xs h show ?thesis
      by (simp add: ring_pop_def phone_ring_ok_def phone_frames_def)
  qed
  moreover have "ring_pop api = None" if "phone_frames api = []"
    using that length_phone_frames [of api] by (simp add: ring_pop_def)
  ultimately show ?thesis by blast
qed

lemma push_frame_ring [simp]:
  "phone_ring_ok (push_frame x api) = phone_ring_ok (ring_push x api)"
  "phone_frames (push_frame x api) = phone_frames (ring_push x api)"
  "pa_queue_size (push_frame x api) = pa_queue_size (ring_push x api)"
  by (simp_all add: push_frame_def notify_data_ready_def phone_ring_ok_def phone_frames_def)

interpretation phone: bounded_fifo phone_ring_ok phone_frames pa_queue_size push_frame ring_pop
proof unfold_locales
  show "phone_ring_ok q \<Longrightarrow> 0 < pa_queue_size q" for q by (simp add: phone_ring_ok_def)
  show "phone_ring_ok q \<Longrightarrow> length (phone_frames q) \<le> pa_queue_size q" for q by (simp add: phone_ring_ok_def)
  show "phone_ring_ok q \<Longrightarrow> phone_ring_ok (push_frame x q)" for q x by (simp add: ring_push_spec)
  show "phone_ring_ok q \<Longrightarrow> pa_queue_size (push_frame x q) = pa_queue_size q" for q x by (simp add: ring_push_spec)
  show "phone_ring_ok q \<Longrightarrow> phone_frames (push_frame x q) =
      (if length (phone_frames q) = pa_queue_size q then tl (phone_frames q) else phone_frames q) @ [x]" for q x
    using ring_push_spec by simp
  show "phone_ring_ok q \<Longrightarrow> phone_frames q = [] \<Longrightarrow> ring_pop q = None" for q using ring_pop_spec by blast
  show "\<exists>q'. ring_pop q = Some (x, q') \<and> phone_ring_ok q' \<and> phone_frames q' = xs \<and> pa_queue_size q' = pa_queue_size q"
    if "phone_ring_ok q" "phone_frames q = x # xs" for q x xs
    using ring_pop_spec [OF that(1)] that(2) by blast
qed

lemma push_frame_front_spec:
  assumes "phone_ring_ok api"
  shows "phone_ring_ok (push_frame_front x api) \<and> phone_frames (push_frame_front x api) =
    x # (if pa_count api = pa_queue_size api then butlast (phone_frames api) else phone_frames api)"
proof -
  let ?n = "pa_queue_size api" and ?t = "pa_tail api"
  let ?m = "if pa_count api = ?n then pa_count api - 1 else pa_count api"
  let ?p = "(?t + ?n - 1) mod ?n"
  have h: "pa_head api = (?t + pa_count api) mod ?n" "length (pa_queue api) = ?n" "0 < ?n" "?n \<le> 255"
    "?t < ?n" "pa_count api \<le> ?n" using assms by (simp_all add: phone_ring_ok_def)
  have m: "?m < ?n" using h by auto
  have p: "?p < ?n" using h(3) by simp
  have list: "ring_list ((pa_queue api)[?p := x]) ?p (Suc ?m) = x # ring_list (pa_queue api) ?t ?m"
    using ring_list_cons [of ?m "pa_queue api" ?t x] m h by simp
  have head: "(?p + Suc ?m) mod ?n = (?t + ?m) mod ?n"
  proof -
    have "(?p + Suc ?m) mod ?n = (?t + ?n - 1 + Suc ?m) mod ?n" by (rule mod_add_left_eq)
    also have "?t + ?n - 1 + Suc ?m = ?t + ?m + ?n" using h(3) by simp
    finally show ?thesis by simp
  qed
  have hb: "((?t + ?n) mod ?n + ?n - 1) mod ?n = (?t + (?n - 1)) mod ?n"
    using h(3,5) by simp
  show ?thesis
  proof (cases "pa_count api = ?n")
    case True
    with list head hb p h ring_list_butlast [of "pa_queue api" ?t ?n] show ?thesis
      by (simp add: push_frame_front_def phone_ring_ok_def phone_frames_def Let_def)
  next
    case False
    with list head p m h show ?thesis
      by (simp add: push_frame_front_def phone_ring_ok_def phone_frames_def Let_def)
  qed
qed

section \<open>The download script\<close>

text \<open>What a phone that asks for the configuration is meant to receive, in order.\<close>

definition config_script :: "phone_env \<Rightarrow> nat \<Rightarrow> u32 \<Rightarrow> mt_context \<Rightarrow> fromradio_variant list" where
  "config_script env queue_size request_id c =
     [FR_my_info (make_my_info (mt_node_id c)),
      FR_deviceuiConfig (case config_store_get_device_ui (pe_store env) of Inl _ \<Rightarrow> [] | Inr bs \<Rightarrow> bs),
      FR_node_info (mt_node_id c) (fill_user (pe_hw_model env) (pe_channels env) c),
      FR_metadata \<lparr>md_firmware_version = ''zephyr.123'', md_has_bluetooth = BLE (pe_k env),
        md_role = ct_device_role (pe_channels env), md_hw_model = pe_hw_model env\<rparr>]
     @ map (\<lambda>i. FR_channel (fill_channel (pe_store env) i)) [0..<8]
     @ map FR_config (so_configs (pe_store env))
     @ map FR_moduleConfig (so_modules (pe_store env))
     @ [FR_queueStatus \<lparr>qs_res = 0, qs_free = queue_size, qs_maxlen = queue_size, qs_mesh_packet_id = 0\<rparr>,
        FR_config_complete_id request_id]"

text \<open>The state of the machine before the frame at a position of the script.\<close>

definition script_state :: "nat \<Rightarrow> config_state \<times> nat" where
  "script_state k =
     (if k = 0 then (CONFIG_MY_INFO, 0) else if k = 1 then (CONFIG_DEVICE_UI, 0)
      else if k = 2 then (CONFIG_NODE_INFO, 0) else if k = 3 then (CONFIG_METADATA, 0)
      else if k < 12 then (CONFIG_CHANNELS, k - 4) else if k < 22 then (CONFIG_CONFIGS, k - 12)
      else if k < 38 then (CONFIG_MODULES, k - 22) else if k = 38 then (CONFIG_QUEUE_STATUS, 0)
      else if k = 39 then (CONFIG_COMPLETE, 0) else (CONFIG_IDLE, 0))"

definition at_script :: "nat \<Rightarrow> phoneapi \<Rightarrow> phoneapi" where
  "at_script k api = api\<lparr>pa_config_state := fst (script_state k), pa_config_index := snd (script_state k)\<rparr>"

lemma scan_tags_found:
  assumes "i < length tags" and "get (tags ! i) = Inr m"
  shows "scan_tags get (drop i tags) i c = (Some (i, fst (next_fromradio_id c), m), snd (next_fromradio_id c))"
  using assms by (simp add: Cons_nth_drop_Suc [symmetric] split_beta)

lemma next_fromradio_id_same [simp]:
  "mt_node_id (snd (next_fromradio_id c)) = mt_node_id c"
  "mt_long_name (snd (next_fromradio_id c)) = mt_long_name c"
  "mt_short_name (snd (next_fromradio_id c)) = mt_short_name c"
  by (simp_all add: next_fromradio_id_def Let_def)

lemma config_script_next_id [simp]:
  "config_script env q n (snd (next_fromradio_id c)) = config_script env q n c"
  by (simp add: config_script_def fill_user_def)

definition script_encodes :: "phone_codec \<Rightarrow> fromradio_variant list \<Rightarrow> bool" where
  "script_encodes pc vs \<longleftrightarrow>
     (\<forall>v\<in>set vs. \<forall>fid. pb_encode (enc_FromRadio pc) API_FRAME_MAX \<lparr>fr_id = fid, fr_variant = v\<rparr> \<noteq> None)"

lemma emit_variant_encodes:
  assumes "pb_encode (enc_FromRadio pc) API_FRAME_MAX \<lparr>fr_id = fst (next_fromradio_id c), fr_variant = v\<rparr> = Some bs"
  shows "emit_variant pc v s i (api, c) =
    (Inr bs, api\<lparr>pa_config_state := s, pa_config_index := i\<rparr>, snd (next_fromradio_id c))"
  using assms by (simp add: emit_variant_def emit_frame_def encode_fromradio_frame_def split_beta)

lemma length_config_script: "store_inv (pe_store env) \<Longrightarrow> length (config_script env q n c) = 40"
  by (simp add: config_script_def store_inv_def)

lemma tag_lists: "config_tags = map snd config_names" "module_tags = map snd module_names"
  "length config_names = 10" "length module_names = 16"
  by (simp_all add: config_tags_def module_tags_def config_names_def module_names_def)

lemma get_config_nth:
  "i < 10 \<Longrightarrow> config_store_get_config st (config_tags ! i) = Inr (so_configs st ! i)"
  using config_tag_index [of i] by (simp add: config_store_get_config_def tag_lists)

lemma get_module_nth:
  "i < 16 \<Longrightarrow> config_store_get_module st (module_tags ! i) = Inr (so_modules st ! i)"
  using module_tag_index [of i] by (simp add: config_store_get_module_def tag_lists)

lemma config_script_nth:
  assumes "store_inv (pe_store env)"
  shows "i < 8 \<Longrightarrow> config_script env q n c ! (i + 4) = FR_channel (fill_channel (pe_store env) i)"
    and "i < 10 \<Longrightarrow> config_script env q n c ! (i + 12) = FR_config (so_configs (pe_store env) ! i)"
    and "i < 16 \<Longrightarrow> config_script env q n c ! (i + 22) = FR_moduleConfig (so_modules (pe_store env) ! i)"
  using assms by (simp_all add: config_script_def store_inv_def nth_append)

lemma next_config_frame_configs:
  assumes "i < 10" and "pa_config_state api = CONFIG_CONFIGS" and "pa_config_index api = i"
  shows "next_config_frame pc env (api, c) = emit_variant pc (FR_config (so_configs (pe_store env) ! i))
    (if i = 9 then CONFIG_MODULES else CONFIG_CONFIGS) (if i = 9 then 0 else i + 1) (api, c)"
proof -
  have "scan_tags (config_store_get_config (pe_store env)) (drop i config_tags) i c =
      (Some (i, fst (next_fromradio_id c), so_configs (pe_store env) ! i), snd (next_fromradio_id c))"
    using scan_tags_found [of i config_tags "config_store_get_config (pe_store env)"] get_config_nth assms(1)
    by (simp add: tag_lists)
  moreover have "10 \<le> i + 1 \<longleftrightarrow> i = 9" using assms(1) by auto
  ultimately show ?thesis
    using assms by (cases api) (simp add: next_config_frame_def configs_step_def emit_variant_def tag_lists split_beta Let_def)
qed

lemma next_config_frame_modules:
  assumes "i < 16" and "pa_config_state api = CONFIG_MODULES" and "pa_config_index api = i"
  shows "next_config_frame pc env (api, c) = emit_variant pc (FR_moduleConfig (so_modules (pe_store env) ! i))
    (if i = 15 then CONFIG_QUEUE_STATUS else CONFIG_MODULES) (if i = 15 then 0 else i + 1) (api, c)"
proof -
  have "scan_tags (config_store_get_module (pe_store env)) (drop i module_tags) i c =
      (Some (i, fst (next_fromradio_id c), so_modules (pe_store env) ! i), snd (next_fromradio_id c))"
    using scan_tags_found [of i module_tags "config_store_get_module (pe_store env)"] get_module_nth assms(1)
    by (simp add: tag_lists)
  moreover have "16 \<le> i + 1 \<longleftrightarrow> i = 15" using assms(1) by auto
  ultimately show ?thesis
    using assms by (cases api) (simp add: next_config_frame_def modules_step_def emit_variant_def tag_lists split_beta Let_def)
qed

text \<open>At position \<open>k\<close> of the script the machine emits the frame there and moves to position \<open>k + 1\<close>.\<close>

lemma next_config_frame_step:
  assumes "store_inv (pe_store env)" and "k < 40" and "pa_count api = 0"
  shows "next_config_frame pc env (at_script k api, c) =
    emit_variant pc (config_script env (pa_queue_size api) (pa_config_request_id api) c ! k)
      (fst (script_state (k + 1))) (snd (script_state (k + 1))) (at_script k api, c)"
proof -
  let ?V = "config_script env (pa_queue_size api) (pa_config_request_id api) c ! k"
  let ?goal = "next_config_frame pc env (at_script k api, c) =
    emit_variant pc ?V (fst (script_state (k + 1))) (snd (script_state (k + 1))) (at_script k api, c)"
  consider "k = 0 \<or> k = 1 \<or> k = 2 \<or> k = 3" | "4 \<le> k" "k < 12" | "12 \<le> k" "k < 22"
    | "22 \<le> k" "k < 38" | "k = 38 \<or> k = 39"
    using assms(2) by linarith
  then show ?goal
  proof cases
    case 1
    then show ?thesis
      by (auto simp: at_script_def script_state_def next_config_frame_def config_script_def)
  next
    case 2
    then have "k = (k - 4) + 4" "k - 4 < 8" by simp_all
    then obtain i where i: "k = i + 4" "i < 8" by blast
    show ?thesis
      unfolding i config_script_nth(1) [OF assms(1) i(2)] using i(2)
      by (auto simp: at_script_def script_state_def next_config_frame_def Let_def)
  next
    case 3
    then have "k = (k - 12) + 12" "k - 12 < 10" by simp_all
    then obtain i where i: "k = i + 12" "i < 10" by blast
    have "pa_config_state (at_script k api) = CONFIG_CONFIGS" "pa_config_index (at_script k api) = i"
      using i by (simp_all add: at_script_def script_state_def)
    from next_config_frame_configs [OF i(2) this] i(2) show ?thesis
      unfolding i config_script_nth(2) [OF assms(1) i(2)] by (simp add: script_state_def)
  next
    case 4
    then have "k = (k - 22) + 22" "k - 22 < 16" by simp_all
    then obtain i where i: "k = i + 22" "i < 16" by blast
    have "pa_config_state (at_script k api) = CONFIG_MODULES" "pa_config_index (at_script k api) = i"
      using i by (simp_all add: at_script_def script_state_def)
    from next_config_frame_modules [OF i(2) this] i(2) show ?thesis
      unfolding i config_script_nth(3) [OF assms(1) i(2)] by (simp add: script_state_def)
  next
    case 5
    then show ?thesis
      using assms(1,3) by (auto simp: at_script_def script_state_def next_config_frame_def config_script_def
          queue_status_step_def store_inv_def nth_append)
  qed
qed

text \<open>Popping a number of frames, and the numbers the frames of a download get.\<close>

fun pop_frames ::
  "phone_codec \<Rightarrow> phone_env \<Rightarrow> nat \<Rightarrow> phoneapi \<times> mt_context \<Rightarrow> bytes option list \<times> phoneapi \<times> mt_context" where
  "pop_frames pc env 0 ac = ([], ac)"
| "pop_frames pc env (Suc n) ac =
     (let (f, ac) = pop_frame pc env ac; (fs, ac) = pop_frames pc env n ac in (f # fs, ac))"

fun numbered_frames :: "phone_codec \<Rightarrow> fromradio_variant list \<Rightarrow> mt_context \<Rightarrow> bytes option list" where
  "numbered_frames pc [] c = []"
| "numbered_frames pc (v # vs) c =
     enc_FromRadio pc \<lparr>fr_id = fst (next_fromradio_id c), fr_variant = v\<rparr>
       # numbered_frames pc vs (snd (next_fromradio_id c))"

lemma config_active_at_script: "k < 40 \<Longrightarrow> config_active (at_script k api)" "\<not> config_active (at_script 40 api)"
  by (simp_all add: config_active_def at_script_def script_state_def)

lemma pop_frame_at_script:
  assumes "store_inv (pe_store env)" and "k < 40" and "pa_count api = 0"
    and "script_encodes pc (config_script env (pa_queue_size api) (pa_config_request_id api) c)"
  shows "pop_frame pc env (at_script k api, c) =
    (enc_FromRadio pc \<lparr>fr_id = fst (next_fromradio_id c),
       fr_variant = config_script env (pa_queue_size api) (pa_config_request_id api) c ! k\<rparr>,
     at_script (k + 1) api, snd (next_fromradio_id c))"
proof -
  let ?v = "config_script env (pa_queue_size api) (pa_config_request_id api) c ! k"
  have "?v \<in> set (config_script env (pa_queue_size api) (pa_config_request_id api) c)"
    using assms(2) length_config_script [OF assms(1)] by (intro nth_mem) simp
  then obtain bs where bs:
    "pb_encode (enc_FromRadio pc) API_FRAME_MAX \<lparr>fr_id = fst (next_fromradio_id c), fr_variant = ?v\<rparr> = Some bs"
    using assms(4) unfolding script_encodes_def by blast
  have "ring_pop (at_script k api) = None" using assms(3) by (simp add: ring_pop_def at_script_def)
  moreover have "next_config_frame pc env (at_script k api, c) = (Inr bs, at_script (k + 1) api, snd (next_fromradio_id c))"
    unfolding next_config_frame_step [OF assms(1-3)] emit_variant_encodes [OF bs] by (simp add: at_script_def)
  ultimately show ?thesis
    using bs by (simp add: pop_frame_def config_active_at_script assms(2) pb_encode_Some)
qed

lemma pop_frames_script:
  assumes "store_inv (pe_store env)" and "pa_count api = 0"
    and "script_encodes pc (config_script env (pa_queue_size api) (pa_config_request_id api) c)"
    and "k + n = 40"
  shows "fst (pop_frames pc env n (at_script k api, c)) =
      numbered_frames pc (drop k (config_script env (pa_queue_size api) (pa_config_request_id api) c)) c \<and>
    fst (snd (pop_frames pc env n (at_script k api, c))) = at_script 40 api"
  using assms
proof (induction n arbitrary: k c)
  case 0
  then show ?case by (simp add: length_config_script)
next
  case (Suc n)
  let ?vs = "config_script env (pa_queue_size api) (pa_config_request_id api) c"
  have k: "k < 40" "k < length ?vs" using Suc.prems(4) length_config_script [OF Suc.prems(1)] by simp_all
  note p = pop_frame_at_script [OF Suc.prems(1) k(1) Suc.prems(2,3)]
  have "fst (pop_frames pc env n (at_script (k + 1) api, snd (next_fromradio_id c))) =
      numbered_frames pc (drop (k + 1) ?vs) (snd (next_fromradio_id c)) \<and>
    fst (snd (pop_frames pc env n (at_script (k + 1) api, snd (next_fromradio_id c)))) = at_script 40 api"
    using Suc.IH [of "snd (next_fromradio_id c)" "k + 1"] Suc.prems by simp
  with k(2) show ?case
    by (simp add: p split_beta Cons_nth_drop_Suc [symmetric])
qed

section \<open>Properties\<close>

lemma pop_frames_ring:
  "phone_ring_ok api \<Longrightarrow> fst (pop_frames pc env (length (phone_frames api)) (api, c)) = map Some (phone_frames api)"
proof (induction "phone_frames api" arbitrary: api)
  case Nil
  then show ?case by simp
next
  case (Cons x xs)
  from phone.pop_some [OF Cons.prems Cons.hyps(2) [symmetric]] obtain q where
    q: "ring_pop api = Some (x, q)" "phone_ring_ok q" "phone_frames q = xs" by blast
  from Cons.hyps(1) [of q] q show ?case
    by (simp add: Cons.hyps(2) [symmetric] pop_frame_def split_beta del: length_phone_frames)
qed

lemma fold_enqueue_fromradio:
  "fold (\<lambda>from api. snd (enqueue_fromradio pc from api)) froms api =
     fold push_frame (List.map_filter (pb_encode (enc_FromRadio pc) API_FRAME_MAX) froms) api"
  by (induction froms arbitrary: api)
    (simp_all add: enqueue_fromradio_def encode_fromradio_frame_def List.map_filter_simps split: option.splits)

text \<open>
  C35: the frame queue of a transport is first-in first-out and, when it is full, gives up its
  oldest frames. After any messages have been enqueued, the frames popped from the ring are those
  that were already there and those of the messages that encode, in order, less the oldest ones
  that the ring has no room for.
\<close>

theorem phone_queue_fifo:
  assumes "phone_ring_ok api"
  shows "let api' = fold (\<lambda>from api. snd (enqueue_fromradio pc from api)) froms api;
             sent = phone_frames api @ List.map_filter (pb_encode (enc_FromRadio pc) API_FRAME_MAX) froms
    in phone_ring_ok api' \<and> fst (pop_frames pc env (pa_count api') (api', c)) =
         map Some (drop (length sent - pa_queue_size api) sent)"
  using phone.inv_fold_push [OF assms] pop_frames_ring [OF phone.inv_fold_push [OF assms]]
  by (simp add: fold_enqueue_fromradio phone.contents_fold_push [OF assms] del: length_phone_frames
      flip: length_phone_frames)

text \<open>
  putting a frame back. A frame a transport could not deliver is returned to the head of the
  queue: it is the next frame popped, and the others follow in order, the newest of them given up
  when the queue was full.
\<close>

theorem phone_push_front_next:
  assumes "phone_ring_ok api"
  shows "\<exists>api'. pop_frame pc env (push_frame_front frame api, c) = (Some frame, api', c) \<and> phone_ring_ok api' \<and>
    phone_frames api' = (if pa_count api = pa_queue_size api then butlast (phone_frames api) else phone_frames api)"
  using push_frame_front_spec [OF assms, of frame] ring_pop_spec [of "push_frame_front frame api"]
  by (fastforce simp: pop_frame_def)

text \<open>
  C14: the configuration download. Once a phone has asked for the configuration, the next forty
  frames it pops are exactly the script: node information, the eight channels, every configuration
  and module message of the store, the queue status and the completion message that carries the
  phone's request number, numbered in sequence; then the machine is idle and there is nothing to
  pop. The frames of the script are assumed to encode within the frame size.
\<close>

theorem config_download:
  assumes "store_inv (pe_store env)"
    and "script_encodes pc (config_script env (pa_queue_size api) request_id c)"
  shows "let (frames, api', c') = pop_frames pc env 40 (enqueue_phone_config request_id api, c)
    in frames = numbered_frames pc (config_script env (pa_queue_size api) request_id c) c \<and>
       length frames = 40 \<and> \<not> config_active api' \<and> fst (pop_frame pc env (api', c')) = None"
proof -
  let ?api = "enqueue_phone_config request_id api"
  have a: "at_script 0 ?api = ?api" "pa_count ?api = 0" "pa_queue_size ?api = pa_queue_size api"
    "pa_config_request_id ?api = request_id"
    by (simp_all add: at_script_def script_state_def enqueue_phone_config_def notify_data_ready_def Let_def)
  have len: "length (numbered_frames pc vs c) = length vs" for vs c
    by (induction vs arbitrary: c) simp_all
  have p: "pop_frame pc env (at_script 40 ?api, c') = (None, at_script 40 ?api, c')" for c'
    using a(2) by (simp add: pop_frame_def ring_pop_def config_active_at_script) (simp add: at_script_def)
  show ?thesis
    using pop_frames_script [of env ?api pc c 0 40] assms a len length_config_script [OF assms(1)] p
    by (cases "pop_frames pc env 40 (?api, c)") (auto simp: config_active_at_script)
qed

end
