(* ===== verification/Mqtt.thy ===== *)
theory Mqtt
  imports Ring Identity Packet
begin

text \<open>
  The MQTT gateway of \<^verbatim>\<open>src/meshtastic_mqtt.c\<close>: the publish queue, the uplink of packets heard or
  sent on the radio, the filters on packets arriving from the broker, the map report with its
  reduced precision, and the connection flags. What the broker client (Zephyr's MQTT library)
  answers is a parameter; the publishes handed to it are logged. The step from an accepted
  downlink envelope into the router is in the theory of the router.
\<close>

section \<open>State\<close>

record mqtt_pub_entry =
  pub_topic :: string
  pub_payload :: bytes

record mqtt_ctx =
  mq_queue :: "mqtt_pub_entry list"
  mq_head :: nat
  mq_tail :: nat
  mq_count :: nat
  mq_client_id :: string
  mq_sub_topic :: string
  mq_crypt_prefix :: string
  mq_map_topic :: string
  mq_last_map_report_ms :: int
  mq_last_map_no_position_ms :: int
  mq_connected :: bool
  mq_started :: bool
  mq_disconnect_pending :: bool
  mq_net_has_ipv4 :: bool
  mq_polling :: bool
  mq_work_sem :: bool
  mq_calls :: nat
  mq_sent :: "(string \<times> bytes) list"

record service_envelope =
  se_packet :: "mesh_packet option"
  se_channel_id :: "string option"
  se_gateway_id :: "string option"

record map_report =
  mr_long_name :: string
  mr_short_name :: string
  mr_role :: nat
  mr_hw_model :: nat
  mr_firmware_version :: string
  mr_region :: nat
  mr_modem_preset :: nat
  mr_has_default_channel :: bool
  mr_latitude_i :: "32 word"
  mr_longitude_i :: "32 word"
  mr_altitude :: int
  mr_position_precision :: u32
  mr_num_online_local_nodes :: nat
  mr_has_opted_report_location :: bool

record mqtt_codec =
  enc_ServiceEnvelope :: "service_envelope \<Rightarrow> bytes option"
  dec_ServiceEnvelope :: "bytes \<Rightarrow> service_envelope option"
  enc_MapReport :: "map_report \<Rightarrow> bytes option"

text \<open>
  The client's answer to its \<open>n\<close>-th publish: the return code, and whether the failed write made
  it deliver a disconnect event before returning.
\<close>

type_synonym mqtt_client = "nat \<Rightarrow> unit res \<times> bool"

section \<open>Connection flags\<close>

definition mqtt_work_notify :: "mqtt_ctx \<Rightarrow> mqtt_ctx" where
  "mqtt_work_notify q = q\<lparr>mq_work_sem := True\<rparr>"

datatype net_event = NET_EVENT_IPV4_ADDR_ADD | NET_EVENT_IPV4_ADDR_DEL

fun mqtt_net_event_handler :: "net_event \<Rightarrow> mqtt_ctx \<Rightarrow> mqtt_ctx" where
  "mqtt_net_event_handler NET_EVENT_IPV4_ADDR_ADD q = q\<lparr>mq_net_has_ipv4 := True\<rparr>"
| "mqtt_net_event_handler NET_EVENT_IPV4_ADDR_DEL q = q\<lparr>mq_net_has_ipv4 := False, mq_disconnect_pending := True\<rparr>"

definition mqtt_network_is_ready :: "bool \<Rightarrow> mqtt_ctx \<Rightarrow> bool" where
  "mqtt_network_is_ready iface_has_global_ipv4 q \<longleftrightarrow> mq_net_has_ipv4 q \<and> iface_has_global_ipv4"

definition mqtt_handle_disconnect_pending :: "mqtt_ctx \<Rightarrow> mqtt_ctx" where
  "mqtt_handle_disconnect_pending q =
     (if \<not> mq_disconnect_pending q then q
      else let q = q\<lparr>mq_disconnect_pending := False\<rparr>
        in if \<not> mq_connected q then q else q\<lparr>mq_connected := False, mq_polling := False\<rparr>)"

definition mqtt_on_disconnect :: "mqtt_ctx \<Rightarrow> mqtt_ctx" where
  "mqtt_on_disconnect q = q\<lparr>mq_connected := False, mq_polling := False\<rparr>"

section \<open>Topics and filters\<close>

abbreviation (input) CRYPT_TOPIC_SUFFIX :: string where "CRYPT_TOPIC_SUFFIX \<equiv> ''/2/e/''"
abbreviation (input) MAP_TOPIC_SUFFIX :: string where "MAP_TOPIC_SUFFIX \<equiv> ''/2/map/''"
abbreviation (input) MQTT_DEFAULT_BROKER :: string where "MQTT_DEFAULT_BROKER \<equiv> ''mqtt.meshtastic.org''"
abbreviation (input) PORT_MAP_REPORT :: u32 where "PORT_MAP_REPORT \<equiv> 73"
abbreviation (input) MQTT_MAP_WARN_MS :: int where "MQTT_MAP_WARN_MS \<equiv> 15000"
abbreviation (input) MQTT_PUBLISH_BUDGET_PER_LOOP :: nat where "MQTT_PUBLISH_BUDGET_PER_LOOP \<equiv> 2"
abbreviation (input) MQTT_PUBLISH_BUDGET_ON_CONNECT :: nat where "MQTT_PUBLISH_BUDGET_ON_CONNECT \<equiv> 8"

definition mqtt_is_default_broker :: "kconfig \<Rightarrow> bool" where
  "mqtt_is_default_broker k \<longleftrightarrow> MQTT_BROKER_HOST k = MQTT_DEFAULT_BROKER"

definition mqtt_should_skip_portnum :: "kconfig \<Rightarrow> u32 \<Rightarrow> bool \<Rightarrow> bool" where
  "mqtt_should_skip_portnum k portnum from_us \<longleftrightarrow>
     \<not> (from_us \<or> \<not> mqtt_is_default_broker k) \<and> (portnum = PORT_RANGE_TEST \<or> portnum = PORT_DETECTION_SENSOR)"

text \<open>The text \<^verbatim>\<open>snprintk\<close> prints; the caller's buffer keeps one character less than its size.\<close>

definition mqtt_build_publish_topic :: "channels \<Rightarrow> mt_context \<Rightarrow> mqtt_ctx \<Rightarrow> string" where
  "mqtt_build_publish_topic t c q =
     mq_crypt_prefix q @ CRYPT_TOPIC_SUFFIX @ channels_primary_name t @ ''/'' @ node_id_str (mt_node_id c)"

definition mqtt_build_map_topic :: "mqtt_ctx \<Rightarrow> string" where
  "mqtt_build_map_topic q = mq_crypt_prefix q @ MAP_TOPIC_SUFFIX"

definition mqtt_build_subscribe_topic :: "channels \<Rightarrow> mqtt_ctx \<Rightarrow> string" where
  "mqtt_build_subscribe_topic t q = mq_crypt_prefix q @ CRYPT_TOPIC_SUFFIX @ channels_primary_name t @ ''/+''"

definition mqtt_mesh_from_wire :: "bytes \<Rightarrow> mesh_packet res" where
  "mqtt_mesh_from_wire wire =
     (if length wire < HDR_LEN then Inl EINVAL
      else let hdr = get_header wire; enc = drop HDR_LEN wire
        in if 256 < length enc then Inl ENOMEM
           else Inr (mesh_zero\<lparr>m_from := h_src hdr, m_to := h_dest hdr, m_id := h_id hdr,
             m_hop_limit := h_flags hdr AND 0x07, m_hop_start := drop_bit 5 (h_flags hdr) AND 0x07,
             m_want_ack := (h_flags hdr AND 0x08 \<noteq> 0), m_via_mqtt := (h_flags hdr AND 0x10 \<noteq> 0),
             m_channel := h_channel hdr, m_next_hop := h_next_hop hdr, m_relay_node := h_relay_node hdr,
             m_transport := TRANSPORT_LORA, m_variant := Encrypted enc\<rparr>))"

definition mqtt_encode_envelope ::
  "mqtt_codec \<Rightarrow> mesh_packet \<Rightarrow> string \<Rightarrow> string \<Rightarrow> nat \<Rightarrow> bytes res" where
  "mqtt_encode_envelope mc mesh channel_id gateway_id out_len =
     (case pb_encode (enc_ServiceEnvelope mc) out_len
        \<lparr>se_packet = Some mesh, se_channel_id = Some channel_id, se_gateway_id = Some gateway_id\<rparr> of
        None \<Rightarrow> Inl ENOMEM
      | Some bs \<Rightarrow> Inr bs)"

section \<open>The publish queue\<close>

definition mqtt_drop_oldest_if_full :: "kconfig \<Rightarrow> mqtt_ctx \<Rightarrow> mqtt_ctx" where
  "mqtt_drop_oldest_if_full k q =
     (if MQTT_PUBLISH_QUEUE_SIZE k \<le> mq_count q
      then q\<lparr>mq_head := (mq_head q + 1) mod MQTT_PUBLISH_QUEUE_SIZE k, mq_count := mq_count q - 1\<rparr>
      else q)"

definition mqtt_put :: "kconfig \<Rightarrow> mqtt_pub_entry \<Rightarrow> mqtt_ctx \<Rightarrow> mqtt_ctx" where
  "mqtt_put k entry q = q\<lparr>mq_queue := (mq_queue q)[mq_tail q := entry],
     mq_tail := (mq_tail q + 1) mod MQTT_PUBLISH_QUEUE_SIZE k, mq_count := mq_count q + 1\<rparr>"

definition mqtt_take :: "kconfig \<Rightarrow> mqtt_ctx \<Rightarrow> (mqtt_pub_entry \<times> mqtt_ctx) option" where
  "mqtt_take k q =
     (if mq_count q = 0 then None
      else Some (mq_queue q ! mq_head q,
        q\<lparr>mq_head := (mq_head q + 1) mod MQTT_PUBLISH_QUEUE_SIZE k, mq_count := mq_count q - 1\<rparr>))"

definition mqtt_queue_publish :: "kconfig \<Rightarrow> string \<Rightarrow> bytes \<Rightarrow> mqtt_ctx \<Rightarrow> mqtt_ctx" where
  "mqtt_queue_publish k topic payload q =
     (if MQTT_TX_BUFFER_SIZE k < length payload then q
      else mqtt_work_notify (mqtt_put k \<lparr>pub_topic = strn 128 topic, pub_payload = payload\<rparr>
        (mqtt_drop_oldest_if_full k q)))"

definition mqtt_do_publish :: "mqtt_client \<Rightarrow> string \<Rightarrow> bytes \<Rightarrow> mqtt_ctx \<Rightarrow> unit res \<times> mqtt_ctx" where
  "mqtt_do_publish cl topic payload q =
     (if \<not> mq_connected q then (Inl ENOTCONN, q)
      else let (r, lost) = cl (mq_calls q);
               q = q\<lparr>mq_calls := Suc (mq_calls q), mq_sent := mq_sent q @ [(topic, payload)]\<rparr>
        in (r, if lost then mqtt_on_disconnect q else q))"

text \<open>\<open>n\<close> is how many publishes the budget still allows.\<close>

fun mqtt_drain_queue :: "kconfig \<Rightarrow> mqtt_client \<Rightarrow> nat \<Rightarrow> mqtt_ctx \<Rightarrow> mqtt_ctx" where
  "mqtt_drain_queue k cl 0 q = q"
| "mqtt_drain_queue k cl (Suc n) q =
     (if \<not> mq_connected q then q
      else case mqtt_take k q of
          None \<Rightarrow> q
        | Some (entry, q) \<Rightarrow>
            mqtt_drain_queue k cl n (snd (mqtt_do_publish cl (pub_topic entry) (pub_payload entry) q)))"

section \<open>Uplink\<close>

definition mqtt_queue_uplink ::
  "kconfig \<Rightarrow> mqtt_codec \<Rightarrow> channels \<Rightarrow> mt_context \<Rightarrow> packet \<Rightarrow> bytes \<Rightarrow> mqtt_ctx \<Rightarrow> mqtt_ctx" where
  "mqtt_queue_uplink k mc t c p wire q =
     (if wire = [] then q
      else let ch_index = (if p_channel_index p \<noteq> CHANNEL_INDEX_INVALID then unat (p_channel_index p)
                           else ct_primary_index t);
               from_us = (p_from p = mt_node_id c);
               topic = mqtt_build_publish_topic t c q
        in if \<not> channels_uplink_enabled t ch_index then q
        else if p_via_mqtt p then q
        else if mqtt_should_skip_portnum k (p_portnum p) from_us then q
        else if 128 \<le> length topic then q
        else case (if MQTT_ENCRYPTION_ENABLED k then mqtt_mesh_from_wire wire else packet_to_mesh_pb p) of
            Inl _ \<Rightarrow> q
          | Inr mesh \<Rightarrow>
              (let q = mqtt_drop_oldest_if_full k q
               in case mqtt_encode_envelope mc mesh (channels_primary_name t) (node_id_str (mt_node_id c))
                         (MQTT_TX_BUFFER_SIZE k) of
                    Inl _ \<Rightarrow> q\<lparr>mq_queue := (mq_queue q)[mq_tail q :=
                                (mq_queue q ! mq_tail q)\<lparr>pub_topic := strn 128 topic\<rparr>]\<rparr>
                  | Inr env \<Rightarrow>
                      mqtt_work_notify (mqtt_put k \<lparr>pub_topic = strn 128 topic, pub_payload = env\<rparr> q)))"

definition mqtt_on_tx ::
  "kconfig \<Rightarrow> mqtt_codec \<Rightarrow> channels \<Rightarrow> mt_context \<Rightarrow> packet \<Rightarrow> bytes \<Rightarrow> mqtt_ctx \<Rightarrow> mqtt_ctx" where
  "mqtt_on_tx k mc t c p wire q =
     (if \<not> MQTT_UPLINK_ENABLED k then q
      else if p_from p \<noteq> mt_node_id c then q
      else mqtt_queue_uplink k mc t c p wire q)"

definition mqtt_on_rx ::
  "kconfig \<Rightarrow> mqtt_codec \<Rightarrow> channels \<Rightarrow> mt_context \<Rightarrow> packet \<Rightarrow> bytes \<Rightarrow> mqtt_ctx \<Rightarrow> mqtt_ctx" where
  "mqtt_on_rx k mc t c p wire q =
     (if \<not> MQTT_UPLINK_ENABLED k then q
      else if p_from p = mt_node_id c then q
      else mqtt_queue_uplink k mc t c p wire q)"

section \<open>Downlink\<close>

text \<open>
  What \<^verbatim>\<open>mqtt_handle_publish\<close> does before it calls the router: the packet it injects, or \<open>None\<close>
  when one of its checks drops the message.
\<close>

definition mqtt_downlink_packet ::
  "kconfig \<Rightarrow> mqtt_codec \<Rightarrow> channels \<Rightarrow> mt_context \<Rightarrow> bytes \<Rightarrow> mesh_packet option" where
  "mqtt_downlink_packet k mc t c payload =
     (if \<not> MQTT_DOWNLINK_ENABLED k then None
      else case dec_ServiceEnvelope mc payload of
          None \<Rightarrow> None
        | Some env \<Rightarrow>
            (case (se_channel_id env, se_gateway_id env, se_packet env) of
               (Some channel_id, Some gateway_id, Some mesh) \<Rightarrow>
                 if \<not> channels_matches_mqtt_name t channel_id then None
                 else if \<not> channels_downlink_enabled t (ct_primary_index t) then None
                 else if gateway_id = node_id_str (mt_node_id c) then None
                 else if m_from mesh = mt_node_id c then None
                 else if MQTT_ENCRYPTION_ENABLED k \<and> (case m_variant mesh of Decoded _ \<Rightarrow> True | _ \<Rightarrow> False) then None
                 else let inject = (mesh_packet_copy mesh)\<lparr>m_via_mqtt := True, m_transport := TRANSPORT_MQTT\<rparr>
                   in Some (case m_variant inject of
                        Decoded _ \<Rightarrow> inject\<lparr>m_channel := word_of_nat (ct_primary_index t)\<rparr>
                      | _ \<Rightarrow> inject)
             | _ \<Rightarrow> None))"

section \<open>The map report\<close>

definition mqtt_lora_region :: "mt_context \<Rightarrow> nat" where
  "mqtt_lora_region c =
     (let hz = mt_frequency c in
      if 902000000 \<le> hz \<and> hz \<le> 928000000 then 1
      else if 869000000 \<le> hz \<and> hz \<le> 870000000 then 3
      else if 433000000 \<le> hz \<and> hz \<le> 434000000 then 2
      else 0)"

definition mqtt_has_default_channel :: "channels \<Rightarrow> bool option" where
  "mqtt_has_default_channel t =
     (case channels_get t (ct_primary_index t) of
        None \<Rightarrow> Some False
      | Some ch \<Rightarrow>
          if ch_role ch = Role_DISABLED then Some False
          else if channels_get_name t (ct_primary_index t) \<noteq> CHANNEL_LONGFAST then Some False
          else do {
            r \<leftarrow> channels_primary_key t;
            Some (case r of
               Inl _ \<Rightarrow> False
             | Inr key \<Rightarrow> k_len key = length default_psk \<and> take (k_len key) (k_bytes key) = default_psk)
          })"

definition mqtt_map_position_precision :: "kconfig \<Rightarrow> u32" where
  "mqtt_map_position_precision k =
     (let precision = MQTT_MAP_REPORT_POSITION_PRECISION k
      in if precision < 12 \<or> 15 < precision then 14 else precision)"

definition mqtt_apply_map_position_precision :: "32 word \<Rightarrow> u32 \<Rightarrow> 32 word" where
  "mqtt_apply_map_position_precision coord precision =
     (if 32 \<le> precision then coord
      else (coord AND push_bit (32 - unat precision) (- 1)) + push_bit (31 - unat precision) 1)"

definition mqtt_build_map_report ::
  "kconfig \<Rightarrow> string \<Rightarrow> nat \<Rightarrow> channels \<Rightarrow> mt_context \<Rightarrow> position \<Rightarrow> map_report option" where
  "mqtt_build_map_report k version hw_model t c pos = do {
     has_default \<leftarrow> mqtt_has_default_channel t;
     let precision = mqtt_map_position_precision k;
     let located = fst (pos_latitude_i pos) \<and> fst (pos_longitude_i pos);
     Some \<lparr>mr_long_name = strn 40 (mt_long_name c), mr_short_name = strn 5 (mt_short_name c),
       mr_role = ct_device_role t, mr_hw_model = hw_model, mr_firmware_version = strn 18 version,
       mr_region = mqtt_lora_region c, mr_modem_preset = 0, mr_has_default_channel = has_default,
       mr_latitude_i = (if located then mqtt_apply_map_position_precision (word_of_int (snd (pos_latitude_i pos))) precision else 0),
       mr_longitude_i = (if located then mqtt_apply_map_position_precision (word_of_int (snd (pos_longitude_i pos))) precision else 0),
       mr_altitude = (if located \<and> fst (pos_altitude pos) then snd (pos_altitude pos) else 0),
       mr_position_precision = precision, mr_num_online_local_nodes = 0, mr_has_opted_report_location = True\<rparr>
   }"

definition mqtt_no_position :: "int \<Rightarrow> mqtt_ctx \<Rightarrow> mqtt_ctx" where
  "mqtt_no_position now q =
     (if mq_last_map_no_position_ms q = 0 \<or> MQTT_MAP_WARN_MS \<le> now - mq_last_map_no_position_ms q
      then q\<lparr>mq_last_map_no_position_ms := now\<rparr> else q)"

text \<open>\<open>gnss\<close> is what \<^verbatim>\<open>meshtastic_gnss_get_last_position\<close> answers, in a build with GNSS support.\<close>

definition mqtt_perhaps_report_to_map ::
  "kconfig \<Rightarrow> mqtt_codec \<Rightarrow> mqtt_client \<Rightarrow> string \<Rightarrow> nat \<Rightarrow> int \<Rightarrow> position res \<Rightarrow> channels \<Rightarrow> mt_context \<Rightarrow> mqtt_ctx
     \<Rightarrow> mqtt_ctx option" where
  "mqtt_perhaps_report_to_map k mc cl version hw_model now gnss t c q =
     (if \<not> MQTT_MAP_REPORT k then Some q
      else if \<not> mq_connected q then Some q
      else if mq_last_map_report_ms q \<noteq> 0 \<and>
              now - mq_last_map_report_ms q < int (unat (MQTT_MAP_REPORT_INTERVAL_SEC k)) * 1000 then Some q
      else if \<not> GNSS k then Some (mqtt_no_position now q)
      else case gnss of
          Inl _ \<Rightarrow> Some (mqtt_no_position now q)
        | Inr pos \<Rightarrow>
            if \<not> fst (pos_latitude_i pos) \<or> \<not> fst (pos_longitude_i pos) \<or>
               (snd (pos_latitude_i pos) = 0 \<and> snd (pos_longitude_i pos) = 0)
            then Some (mqtt_no_position now q)
            else do {
              report \<leftarrow> mqtt_build_map_report k version hw_model t c pos;
              Some (case pb_encode (enc_MapReport mc) MAX_PAYLOAD_LEN report of
                 None \<Rightarrow> q
               | Some bs \<Rightarrow>
                   (let mesh = mesh_zero\<lparr>m_from := mt_node_id c, m_to := NODE_BROADCAST, m_id := word_of_int now,
                          m_want_ack := False, m_hop_limit := mt_hop_limit c, m_hop_start := mt_hop_limit c,
                          m_channel := 0, m_variant := Decoded (data_zero\<lparr>d_portnum := PORT_MAP_REPORT, d_payload := bs\<rparr>)\<rparr>
                    in case mqtt_encode_envelope mc mesh (channels_primary_name t) (node_id_str (mt_node_id c))
                              (MQTT_TX_BUFFER_SIZE k) of
                         Inl _ \<Rightarrow> q
                       | Inr env \<Rightarrow>
                           (let (r, q) = mqtt_do_publish cl (mq_map_topic q) env q;
                                q = (case r of Inl _ \<Rightarrow> mqtt_queue_publish k (mq_map_topic q) env q | Inr _ \<Rightarrow> q)
                            in q\<lparr>mq_last_map_report_ms := now\<rparr>)))
            })"

section \<open>Start-up\<close>

definition mqtt_ctx_zero :: "kconfig \<Rightarrow> mqtt_ctx" where
  "mqtt_ctx_zero k = \<lparr>mq_queue = replicate (MQTT_PUBLISH_QUEUE_SIZE k) \<lparr>pub_topic = [], pub_payload = []\<rparr>,
     mq_head = 0, mq_tail = 0, mq_count = 0, mq_client_id = [], mq_sub_topic = [], mq_crypt_prefix = [],
     mq_map_topic = [], mq_last_map_report_ms = 0, mq_last_map_no_position_ms = 0, mq_connected = False,
     mq_started = False, mq_disconnect_pending = False, mq_net_has_ipv4 = False, mq_polling = False,
     mq_work_sem = False, mq_calls = 0, mq_sent = []\<rparr>"

definition mqtt_init :: "kconfig \<Rightarrow> bool \<Rightarrow> channels \<Rightarrow> mt_context \<Rightarrow> mqtt_ctx \<Rightarrow> unit res \<times> mqtt_ctx" where
  "mqtt_init k iface_has_global_ipv4 t c q =
     (if mq_started q then (ok, q)
      else let q = q\<lparr>mq_net_has_ipv4 := iface_has_global_ipv4, mq_crypt_prefix := strn 64 (MQTT_ROOT k),
                 mq_client_id := strn 16 (node_id_str (mt_node_id c))\<rparr>;
               q = q\<lparr>mq_sub_topic := strn 128 (mqtt_build_subscribe_topic t q)\<rparr>
        in if MQTT_MAP_REPORT k
           then let topic = mqtt_build_map_topic q; q = q\<lparr>mq_map_topic := strn 80 topic\<rparr>
             in if 80 \<le> length topic then (Inl EINVAL, q) else (ok, q\<lparr>mq_started := True\<rparr>)
           else (ok, q\<lparr>mq_started := True\<rparr>))"

section \<open>The publish queue is a bounded queue\<close>

definition mqtt_ring_ok :: "kconfig \<Rightarrow> mqtt_ctx \<Rightarrow> bool" where
  "mqtt_ring_ok k q \<longleftrightarrow> 0 < MQTT_PUBLISH_QUEUE_SIZE k \<and> length (mq_queue q) = MQTT_PUBLISH_QUEUE_SIZE k \<and>
     mq_count q \<le> MQTT_PUBLISH_QUEUE_SIZE k \<and> mq_head q < MQTT_PUBLISH_QUEUE_SIZE k \<and>
     mq_tail q = (mq_head q + mq_count q) mod MQTT_PUBLISH_QUEUE_SIZE k"

definition mqtt_pending :: "mqtt_ctx \<Rightarrow> mqtt_pub_entry list" where
  "mqtt_pending q = ring_list (mq_queue q) (mq_head q) (mq_count q)"

definition mqtt_push :: "kconfig \<Rightarrow> mqtt_pub_entry \<Rightarrow> mqtt_ctx \<Rightarrow> mqtt_ctx" where
  "mqtt_push k entry q = mqtt_put k entry (mqtt_drop_oldest_if_full k q)"

lemma length_mqtt_pending [simp]: "length (mqtt_pending q) = mq_count q"
  by (simp add: mqtt_pending_def)

lemma mqtt_drop_spec:
  assumes "mqtt_ring_ok k q"
  shows "mqtt_ring_ok k (mqtt_drop_oldest_if_full k q) \<and> mq_count (mqtt_drop_oldest_if_full k q) < MQTT_PUBLISH_QUEUE_SIZE k \<and>
    mqtt_pending (mqtt_drop_oldest_if_full k q) =
      (if mq_count q = MQTT_PUBLISH_QUEUE_SIZE k then tl (mqtt_pending q) else mqtt_pending q)"
proof (cases "mq_count q = MQTT_PUBLISH_QUEUE_SIZE k")
  case True
  then have "0 < mq_count q" using assms by (simp add: mqtt_ring_ok_def)
  from mod_step_back [OF this, of "mq_head q" "MQTT_PUBLISH_QUEUE_SIZE k"] True assms
    ring_list_tl [of "mq_queue q" "mq_head q" "mq_count q"]
  show ?thesis by (simp add: mqtt_ring_ok_def mqtt_drop_oldest_if_full_def mqtt_pending_def)
next
  case False
  with assms show ?thesis by (auto simp: mqtt_ring_ok_def mqtt_drop_oldest_if_full_def)
qed

lemma mqtt_put_spec:
  assumes "mqtt_ring_ok k q" and "mq_count q < MQTT_PUBLISH_QUEUE_SIZE k"
  shows "mqtt_ring_ok k (mqtt_put k e q) \<and> mqtt_pending (mqtt_put k e q) = mqtt_pending q @ [e]"
  using assms ring_append_dropping(1) [of "mq_queue q" "mq_count q" "mq_head q" e]
    ring_append_dropping(2) [of "mq_queue q" "mq_count q" "mq_head q"]
  by (auto simp: mqtt_ring_ok_def mqtt_put_def mqtt_pending_def)

lemma mqtt_take_spec:
  assumes "mqtt_ring_ok k q" and "mqtt_pending q = x # xs"
  shows "\<exists>q'. mqtt_take k q = Some (x, q') \<and> mqtt_ring_ok k q' \<and> mqtt_pending q' = xs"
proof -
  let ?n = "MQTT_PUBLISH_QUEUE_SIZE k"
  have m: "0 < mq_count q" using assms(2) length_mqtt_pending [of q] by (metis length_greater_0_conv list.discI)
  have "mq_queue q ! mq_head q = x"
    using ring_list_hd [OF m, of "mq_head q" "mq_queue q"] assms by (simp add: mqtt_pending_def mqtt_ring_ok_def)
  moreover have "ring_list (mq_queue q) ((mq_head q + 1) mod ?n) (mq_count q - 1) = xs"
    using ring_list_tl [of "mq_queue q" "mq_head q" "mq_count q"] assms by (simp add: mqtt_pending_def mqtt_ring_ok_def)
  ultimately show ?thesis
    using m assms(1) mod_step_back [OF m, of "mq_head q" ?n]
    by (auto simp: mqtt_take_def mqtt_ring_ok_def mqtt_pending_def)
qed

lemma mqtt_push_spec:
  assumes "mqtt_ring_ok k q"
  shows "mqtt_ring_ok k (mqtt_push k e q) \<and> mqtt_pending (mqtt_push k e q) =
    (if mq_count q = MQTT_PUBLISH_QUEUE_SIZE k then tl (mqtt_pending q) else mqtt_pending q) @ [e]"
  using mqtt_drop_spec [OF assms] mqtt_put_spec [of k "mqtt_drop_oldest_if_full k q" e] by (simp add: mqtt_push_def)

interpretation publish: bounded_fifo "mqtt_ring_ok k" mqtt_pending "\<lambda>_. MQTT_PUBLISH_QUEUE_SIZE k" "mqtt_push k" "mqtt_take k"
  for k :: kconfig
proof unfold_locales
  show "mqtt_ring_ok k q \<Longrightarrow> 0 < MQTT_PUBLISH_QUEUE_SIZE k" for q by (simp add: mqtt_ring_ok_def)
  show "mqtt_ring_ok k q \<Longrightarrow> length (mqtt_pending q) \<le> MQTT_PUBLISH_QUEUE_SIZE k" for q by (simp add: mqtt_ring_ok_def)
  show "mqtt_ring_ok k q \<Longrightarrow> mqtt_ring_ok k (mqtt_push k x q)" for q x using mqtt_push_spec by blast
  show "mqtt_ring_ok k q \<Longrightarrow> mqtt_pending (mqtt_push k x q) =
      (if length (mqtt_pending q) = MQTT_PUBLISH_QUEUE_SIZE k then tl (mqtt_pending q) else mqtt_pending q) @ [x]" for q x
    using mqtt_push_spec by simp
  show "mqtt_ring_ok k q \<Longrightarrow> mqtt_pending q = [] \<Longrightarrow> mqtt_take k q = None" for q
    using length_mqtt_pending [of q] by (simp add: mqtt_take_def)
  show "\<exists>q'. mqtt_take k q = Some (x, q') \<and> mqtt_ring_ok k q' \<and> mqtt_pending q' = xs \<and>
      MQTT_PUBLISH_QUEUE_SIZE k = MQTT_PUBLISH_QUEUE_SIZE k"
    if "mqtt_ring_ok k q" "mqtt_pending q = x # xs" for q x xs
    using mqtt_take_spec [OF that] by blast
qed simp

text \<open>Writes to fields other than the ring do not matter to it.\<close>

lemma mqtt_ring_frame [simp]:
  "mqtt_ring_ok k (mqtt_work_notify q) = mqtt_ring_ok k q" "mqtt_pending (mqtt_work_notify q) = mqtt_pending q"
  "mqtt_ring_ok k (snd (mqtt_do_publish cl topic payload q)) = mqtt_ring_ok k q"
  "mqtt_pending (snd (mqtt_do_publish cl topic payload q)) = mqtt_pending q"
  by (simp_all add: mqtt_work_notify_def mqtt_do_publish_def mqtt_on_disconnect_def mqtt_ring_ok_def mqtt_pending_def
      split_beta Let_def)

text \<open>A write at the index after the last pending entry of a ring that is not full.\<close>

lemma mqtt_scribble:
  assumes "mqtt_ring_ok k q" and "mq_count q < MQTT_PUBLISH_QUEUE_SIZE k"
  shows "mqtt_ring_ok k (q\<lparr>mq_queue := (mq_queue q)[mq_tail q := e]\<rparr>) \<and>
    mqtt_pending (q\<lparr>mq_queue := (mq_queue q)[mq_tail q := e]\<rparr>) = mqtt_pending q"
proof -
  have "ring_list ((mq_queue q)[mq_tail q := e]) (mq_head q) (mq_count q) = ring_list (mq_queue q) (mq_head q) (mq_count q)"
  proof (rule nth_equalityI)
    fix i assume "i < length (ring_list ((mq_queue q)[mq_tail q := e]) (mq_head q) (mq_count q))"
    then have i: "i < mq_count q" by simp
    with assms mod_shift_neq [of i "MQTT_PUBLISH_QUEUE_SIZE k" "mq_count q" "mq_head q"]
    show "ring_list ((mq_queue q)[mq_tail q := e]) (mq_head q) (mq_count q) ! i = ring_list (mq_queue q) (mq_head q) (mq_count q) ! i"
      by (simp add: nth_ring_list mqtt_ring_ok_def)
  qed simp
  with assms show ?thesis by (simp add: mqtt_ring_ok_def mqtt_pending_def)
qed

section \<open>Properties\<close>

text \<open>The packets the uplink filters let through.\<close>

definition uplink_wanted :: "kconfig \<Rightarrow> channels \<Rightarrow> mt_context \<Rightarrow> packet \<Rightarrow> bool" where
  "uplink_wanted k t c p \<longleftrightarrow>
     channels_uplink_enabled t
       (if p_channel_index p \<noteq> CHANNEL_INDEX_INVALID then unat (p_channel_index p) else ct_primary_index t) \<and>
     \<not> p_via_mqtt p \<and> \<not> mqtt_should_skip_portnum k (p_portnum p) (p_from p = mt_node_id c)"

lemma mqtt_queue_uplink_spec:
  assumes "mqtt_ring_ok k q" and "wire \<noteq> []" and "length (mqtt_build_publish_topic t c q) < 128"
    and "(if MQTT_ENCRYPTION_ENABLED k then mqtt_mesh_from_wire wire else packet_to_mesh_pb p) = Inr mesh"
    and "mqtt_encode_envelope mc mesh (channels_primary_name t) (node_id_str (mt_node_id c)) (MQTT_TX_BUFFER_SIZE k) = Inr env"
  shows "mqtt_ring_ok k (mqtt_queue_uplink k mc t c p wire q) \<and>
    mqtt_pending (mqtt_queue_uplink k mc t c p wire q) =
      (if uplink_wanted k t c p
       then (if mq_count q = MQTT_PUBLISH_QUEUE_SIZE k then tl (mqtt_pending q) else mqtt_pending q)
              @ [\<lparr>pub_topic = mqtt_build_publish_topic t c q, pub_payload = env\<rparr>]
       else mqtt_pending q)"
proof (cases "uplink_wanted k t c p")
  case True
  then have "mqtt_queue_uplink k mc t c p wire q =
      mqtt_work_notify (mqtt_push k \<lparr>pub_topic = mqtt_build_publish_topic t c q, pub_payload = env\<rparr> q)"
    using assms(2-5) by (auto simp: mqtt_queue_uplink_def uplink_wanted_def mqtt_push_def strn_id Let_def)
  with True mqtt_push_spec [OF assms(1)] show ?thesis by simp
next
  case False
  then have "mqtt_queue_uplink k mc t c p wire q = q"
    using assms(2) by (auto simp: mqtt_queue_uplink_def uplink_wanted_def Let_def)
  with False assms(1) show ?thesis by simp
qed

text \<open>
  what the gateway publishes. A packet heard from another node, and likewise a packet this
  node originates, is appended to the publish queue exactly when uplink is enabled on its channel,
  it did not itself come from MQTT, and its port is not one the public broker is spared; the
  entry is the envelope of the packet under the gateway's topic, and a full queue gives up its
  oldest entry. A packet heard back from ourselves is never published.
\<close>

theorem mqtt_uplink_policy:
  assumes "mqtt_ring_ok k q" and "MQTT_UPLINK_ENABLED k" and "wire \<noteq> []"
    and "length (mqtt_build_publish_topic t c q) < 128"
    and "(if MQTT_ENCRYPTION_ENABLED k then mqtt_mesh_from_wire wire else packet_to_mesh_pb p) = Inr mesh"
    and "mqtt_encode_envelope mc mesh (channels_primary_name t) (node_id_str (mt_node_id c)) (MQTT_TX_BUFFER_SIZE k) = Inr env"
  shows "let entry = \<lparr>pub_topic = mqtt_build_publish_topic t c q, pub_payload = env\<rparr>;
             room = (if mq_count q = MQTT_PUBLISH_QUEUE_SIZE k then tl (mqtt_pending q) else mqtt_pending q);
             ours = (p_from p = mt_node_id c)
    in mqtt_pending (mqtt_on_rx k mc t c p wire q) =
         (if \<not> ours \<and> uplink_wanted k t c p then room @ [entry] else mqtt_pending q) \<and>
       mqtt_pending (mqtt_on_tx k mc t c p wire q) =
         (if ours \<and> uplink_wanted k t c p then room @ [entry] else mqtt_pending q)"
  using mqtt_queue_uplink_spec [OF assms(1,3-6)] assms(2)
  by (simp add: mqtt_on_rx_def mqtt_on_tx_def Let_def)

text \<open>
  the queue stays well formed whatever is uplinked, and an envelope that does not fit the
  buffer is not published; but with a full queue the attempt still costs the oldest entry.
\<close>

theorem mqtt_uplink_encode_failure:
  assumes "mqtt_ring_ok k q" and "wire \<noteq> []" and "length (mqtt_build_publish_topic t c q) < 128"
    and "uplink_wanted k t c p"
    and "(if MQTT_ENCRYPTION_ENABLED k then mqtt_mesh_from_wire wire else packet_to_mesh_pb p) = Inr mesh"
    and "mqtt_encode_envelope mc mesh (channels_primary_name t) (node_id_str (mt_node_id c)) (MQTT_TX_BUFFER_SIZE k) = Inl e"
  shows "mqtt_ring_ok k (mqtt_queue_uplink k mc t c p wire q) \<and>
    mqtt_pending (mqtt_queue_uplink k mc t c p wire q) =
      (if mq_count q = MQTT_PUBLISH_QUEUE_SIZE k then tl (mqtt_pending q) else mqtt_pending q)"
proof -
  let ?q = "mqtt_drop_oldest_if_full k q"
  obtain x where "mqtt_queue_uplink k mc t c p wire q = ?q\<lparr>mq_queue := (mq_queue ?q)[mq_tail ?q := x]\<rparr>"
    using assms(2-6) by (auto simp: mqtt_queue_uplink_def uplink_wanted_def Let_def)
  with mqtt_drop_spec [OF assms(1)] mqtt_scribble [of k ?q x] show ?thesis by simp
qed

lemma mqtt_drain_spec:
  assumes "mqtt_ring_ok k q"
  shows "\<exists>m\<le>n. mqtt_ring_ok k (mqtt_drain_queue k cl n q) \<and>
    mqtt_pending (mqtt_drain_queue k cl n q) = drop m (mqtt_pending q) \<and>
    mq_sent (mqtt_drain_queue k cl n q) =
      mq_sent q @ map (\<lambda>e. (pub_topic e, pub_payload e)) (take m (mqtt_pending q)) \<and>
    (mq_connected (mqtt_drain_queue k cl n q) \<longrightarrow> m = min n (length (mqtt_pending q)))"
  using assms
proof (induction n arbitrary: q)
  case 0
  then show ?case by simp
next
  case (Suc n)
  show ?case
  proof (cases "mq_connected q \<and> mqtt_pending q \<noteq> []")
    case False
    then have "mqtt_drain_queue k cl (Suc n) q = q"
      using publish.pop_empty [OF Suc.prems] by auto
    with Suc.prems False show ?thesis by (auto intro!: exI [of _ 0])
  next
    case True
    then obtain x xs where xs: "mqtt_pending q = x # xs" by (cases "mqtt_pending q") auto
    from mqtt_take_spec [OF Suc.prems xs] obtain q1 where q1: "mqtt_take k q = Some (x, q1)"
      "mqtt_ring_ok k q1" "mqtt_pending q1 = xs" by blast
    have same: "mq_sent q1 = mq_sent q" "mq_connected q1 = mq_connected q"
      using q1(1) by (auto simp: mqtt_take_def split: if_splits)
    let ?q2 = "snd (mqtt_do_publish cl (pub_topic x) (pub_payload x) q1)"
    have sent: "mq_sent ?q2 = mq_sent q @ [(pub_topic x, pub_payload x)]"
      using True same by (simp add: mqtt_do_publish_def mqtt_on_disconnect_def split_beta Let_def)
    have q2: "mqtt_ring_ok k ?q2" "mqtt_pending ?q2 = xs" using q1 by simp_all
    have step: "mqtt_drain_queue k cl (Suc n) q = mqtt_drain_queue k cl n ?q2" using True q1(1) by simp
    from Suc.IH [OF q2(1)] obtain m where "m \<le> n" "mqtt_ring_ok k (mqtt_drain_queue k cl n ?q2)"
      "mqtt_pending (mqtt_drain_queue k cl n ?q2) = drop m xs"
      "mq_sent (mqtt_drain_queue k cl n ?q2) = mq_sent ?q2 @ map (\<lambda>e. (pub_topic e, pub_payload e)) (take m xs)"
      "mq_connected (mqtt_drain_queue k cl n ?q2) \<longrightarrow> m = min n (length xs)"
      unfolding q2(2) by blast
    then show ?thesis
      unfolding step sent xs by (intro exI [of _ "Suc m"]) simp
  qed
qed

text \<open>
  draining publishes the pending entries in order, never more than the budget allows, and
  forgets no entry it has not handed to the client; while the connection lasts it uses the budget
  as far as there is something to send.
\<close>

theorem mqtt_drain_in_order:
  assumes "mqtt_ring_ok k q"
  shows "\<exists>m\<le>n. mqtt_pending (mqtt_drain_queue k cl n q) = drop m (mqtt_pending q) \<and>
    mq_sent (mqtt_drain_queue k cl n q) =
      mq_sent q @ map (\<lambda>e. (pub_topic e, pub_payload e)) (take m (mqtt_pending q)) \<and>
    (mq_connected (mqtt_drain_queue k cl n q) \<longrightarrow> m = min n (length (mqtt_pending q)))"
  using mqtt_drain_spec [OF assms, of n cl] by blast

lemma sint_mask_low:
  assumes "n < 32"
  shows "sint (c AND push_bit n (- 1) :: 32 word) = sint c div 2 ^ n * 2 ^ n"
proof -
  have "sint (c AND push_bit n (- 1) :: 32 word) = push_bit n (drop_bit n (sint c))"
    using assms by (intro bit_eqI)
      (auto simp: bit_sint_iff bit_and_iff bit_push_bit_iff bit_drop_bit_eq bit_not_iff bit_mask_iff min_def
        dest: bit_imp_le_length)
  then show ?thesis by (simp add: push_bit_eq_mult drop_bit_eq_div)
qed

lemma mask_low_range:
  assumes "0 < n" and "n < 32"
  shows "- 2147483648 \<le> sint (c :: 32 word) div 2 ^ n * 2 ^ n"
    and "sint (c :: 32 word) div 2 ^ n * 2 ^ n + 2 ^ (n - 1) < 2147483648"
proof -
  let ?x = "sint c" and ?k = "2 ^ n :: int" and ?y = "2 ^ (31 - n) :: int"
  have e: "(2147483648 :: int) = ?y * ?k" using assms by (simp flip: power_add)
  have x: "?x div ?k * ?k + ?x mod ?k = ?x" "0 \<le> ?x mod ?k" "?x mod ?k < ?k" by (rule div_mult_mod_eq) simp_all
  have r: "- (?y * ?k) \<le> ?x" "?x < ?y * ?k"
    unfolding e [symmetric] using sint_ge [of c] sint_lt [of c] by simp_all
  have "- (?y * ?k) < ?x div ?k * ?k + ?k" using x r by linarith
  then have "- ?y * ?k < (?x div ?k + 1) * ?k" by (simp add: distrib_right)
  then have "- ?y \<le> ?x div ?k" by (simp only: mult_less_cancel_right) auto
  then have "- ?y * ?k \<le> ?x div ?k * ?k" by (intro mult_right_mono) auto
  then show "- 2147483648 \<le> ?x div ?k * ?k" unfolding e by simp
  have "?x div ?k * ?k < ?y * ?k" using x r by linarith
  then have "?x div ?k < ?y" by (simp only: mult_less_cancel_right) auto
  then have "(?x div ?k + 1) * ?k \<le> ?y * ?k" by (intro mult_right_mono) auto
  moreover have "(2 :: int) ^ (n - 1) < 2 ^ n" using assms by (intro power_strict_increasing) auto
  ultimately show "?x div ?k * ?k + 2 ^ (n - 1) < 2147483648" unfolding e distrib_right by linarith
qed

text \<open>
  C40: the map report hides the exact position. A reported coordinate is the centre of the cell
  of \<open>2 ^ (32 - p)\<close> units that holds the true one, where \<open>p\<close>, the precision, is between 12 and 15
  bits whatever the build says, so it tells two positions of one cell apart in no way and is off by
  at most half a cell; and the addition never leaves the range of a 32-bit coordinate.
\<close>

theorem map_precision_cell:
  "let p = unat (mqtt_map_position_precision k);
       r = sint (mqtt_apply_map_position_precision coord (mqtt_map_position_precision k))
   in 12 \<le> p \<and> p \<le> 15 \<and> r = sint coord div 2 ^ (32 - p) * 2 ^ (32 - p) + 2 ^ (31 - p) \<and>
      \<bar>r - sint coord\<bar> \<le> 2 ^ (31 - p)"
proof -
  define w where "w = mqtt_map_position_precision k"
  define p where "p = unat w"
  have wr: "12 \<le> w" "w \<le> 15"
    by (auto simp: w_def mqtt_map_position_precision_def Let_def not_less)
  then have pr: "12 \<le> p" "p \<le> 15" by (auto simp: p_def word_le_nat_alt)
  define n where "n = 32 - p"
  have n: "0 < n" "n < 32" "31 - p = n - 1" using pr by (auto simp: n_def)
  let ?a = "coord AND push_bit n (- 1)"
  have pow: "(2 :: int) ^ n = 2 * 2 ^ (n - 1)" using n(1) by (simp flip: power_Suc)
  have half: "sint (push_bit (n - 1) 1 :: 32 word) = 2 ^ (n - 1)"
  proof -
    have "n - 1 \<in> {16, 17, 18, 19}" using pr n by (auto simp: n_def)
    then show ?thesis by (auto simp: push_bit_eq_mult)
  qed
  have "sint (?a + push_bit (n - 1) 1) = sint ?a + 2 ^ (n - 1)"
  proof -
    have "0 \<le> (2 :: int) ^ (n - 1)" by simp
    then have "signed_take_bit 31 (sint ?a + 2 ^ (n - 1)) = sint ?a + 2 ^ (n - 1)"
      using mask_low_range [OF n(1,2), of coord] sint_mask_low [OF n(2), of coord]
      by (intro signed_take_bit_int_eq_self) (simp_all add: add_increasing2 del: push_bit_minus_one_eq_not_mask)
    then show ?thesis unfolding sint_word_add half by simp
  qed
  moreover have "mqtt_apply_map_position_precision coord w = ?a + push_bit (n - 1) 1"
    using wr n by (simp add: mqtt_apply_map_position_precision_def p_def n_def word_le_nat_alt)
  ultimately have r: "sint (mqtt_apply_map_position_precision coord w) = sint coord div 2 ^ n * 2 ^ n + 2 ^ (n - 1)"
    using sint_mask_low [OF n(2), of coord] by simp
  have "sint coord div 2 ^ n * 2 ^ n + sint coord mod 2 ^ n = sint coord" by (rule div_mult_mod_eq)
  moreover have "0 \<le> sint coord mod 2 ^ n" "sint coord mod 2 ^ n < 2 ^ n" by simp_all
  ultimately have "\<bar>sint coord div 2 ^ n * 2 ^ n + 2 ^ (n - 1) - sint coord\<bar> \<le> 2 ^ (n - 1)" using pow by linarith
  then show ?thesis
    unfolding Let_def w_def [symmetric] p_def [symmetric] n(3) n_def [symmetric] r using pr by blast
qed

lemma make_flags_hop_start': "drop_bit 5 (make_flags hl hs a v) AND 7 = hs AND 7"
  by (rule bit_word_eqI) (auto simp: flag_masks(1) bit_make_flags bit_and_iff bit_drop_bit_eq dest: bit_imp_le_length)

lemma mqtt_downlink_SomeD:
  assumes "mqtt_downlink_packet k mc t c payload = Some m"
  shows "m_via_mqtt m \<and> m_transport m = TRANSPORT_MQTT \<and> m_from m \<noteq> mt_node_id c"
  using assms
  by (auto simp: mqtt_downlink_packet_def mesh_packet_copy_def Let_def split: if_splits option.splits payload_variant.splits)

text \<open>
  C18: two gateways bridge two parts of a mesh. A packet on the air, published by one gateway in
  encrypted form and taken from the broker by another one that shares its channel and has downlink
  enabled, comes out as the packet that was sent, every field included, marked as having come
  through MQTT. Envelopes decode to what was encoded.
\<close>

theorem mqtt_bridge_roundtrip:
  assumes "pb_Data_ok pb" and "psa_ctr_ok psa" and "channels_inv ts"
    and "build_wire_packet k pb psa db ts p = Some (Inr wire)"
    and "p_portnum p \<noteq> 0" and "payload_readable p"
    and "s = channels_resolve_send_index k db ts (p_to p) (p_channel_index p) (p_channel p)"
    and "shares_channel ts s tr j" and "channels_get_hash ts s \<noteq> 0"
    and "pb_roundtrip (enc_ServiceEnvelope mc) (dec_ServiceEnvelope mc)"
    and "mqtt_mesh_from_wire wire = Inr mesh"
    and "mqtt_encode_envelope mc mesh (channels_primary_name ts) (node_id_str (mt_node_id cs)) n = Inr payload"
    and "MQTT_DOWNLINK_ENABLED kr" and "channels_matches_mqtt_name tr (channels_primary_name ts)"
    and "channels_downlink_enabled tr (ct_primary_index tr)"
    and "mt_node_id cs \<noteq> mt_node_id cr" and "p_from p \<noteq> mt_node_id cr"
  shows "\<exists>m. mqtt_downlink_packet kr mc tr cr payload = Some m \<and>
    mesh_pb_to_packet pb psa tr cr m (Some 233) =
      Some (Inr (received (p\<lparr>p_via_mqtt := True\<rparr>) (channels_get_hash ts s) j 0 0))"
proof (rule built_wire_decrypts [OF assms(1-8)])
  fix enc assume w: "wire = put_header (wire_header_of p (channels_get_hash ts s)) @ enc" "enc \<noteq> []" "length enc \<le> 239"
    and hit: "try_decrypt_wire_hash pb psa tr (channels_get_hash ts s) (p_from p) (p_id p) enc = Some (Inr (j, packet_data p))"
    and len: "length (payload_bytes p) = p_payload_len p" "p_payload_len p \<le> 233"
  have j: "j < 8" "channels_get_hash tr j = channels_get_hash ts s" "unat (word_of_nat j :: u8) = j"
    using assms(8) by (auto simp: shares_channel_def slot_enabled_def channels_get_hash_def unat_of_nat)
  have j8: "(word_of_nat j :: u8) < 8" using j by (simp add: word_less_nat_alt)
  let ?env = "\<lparr>se_packet = Some mesh, se_channel_id = Some (channels_primary_name ts),
      se_gateway_id = Some (node_id_str (mt_node_id cs))\<rparr>"
  let ?m = "mesh\<lparr>m_via_mqtt := True, m_transport := TRANSPORT_MQTT\<rparr>"
  have mesh: "m_from mesh = p_from p" "m_variant mesh = Encrypted enc" "m_channel mesh = channels_get_hash ts s"
    "m_id mesh = p_id p" "m_to mesh = p_to p" "m_next_hop mesh = p_next_hop p" "m_relay_node mesh = p_relay_node p"
    "m_hop_limit mesh = p_hop_limit p AND 7" "m_hop_start mesh = p_hop_start p AND 7" "m_want_ack mesh = p_want_ack p"
    using assms(11) w by (auto simp: mqtt_mesh_from_wire_def Let_def wire_header_of_def make_flags_read make_flags_hop_start')
  have "dec_ServiceEnvelope mc payload = Some ?env"
    using assms(10,12) by (auto simp: mqtt_encode_envelope_def pb_roundtrip_def pb_encode_Some split: option.splits)
  then have "mqtt_downlink_packet kr mc tr cr payload = Some ?m"
    using assms(13-17) mesh node_id_str_inj [of "mt_node_id cs" "mt_node_id cr"]
    by (auto simp: mqtt_downlink_packet_def mesh_packet_copy_def Let_def)
  moreover have "mesh_pb_to_packet pb psa tr cr ?m (Some 233) =
      Some (Inr (received (p\<lparr>p_via_mqtt := True\<rparr>) (channels_get_hash ts s) j 0 0))"
  proof -
    have "mesh_pb_to_packet pb psa tr cr ?m (Some 233) =
        Some (decoded_mesh_to_packet tr cr (?m\<lparr>m_variant := Decoded (packet_data p), m_channel := word_of_nat j\<rparr>) (packet_data p) (Some 233))"
      using hit w(2) assms(9) by (simp add: mesh_pb_to_packet_def mesh_pb_try_decode_def mesh encrypted_view_def)
    moreover have "payload_bytes (p\<lparr>p_via_mqtt := True\<rparr>) = payload_bytes p" by (simp add: payload_bytes_def split: option.split)
    ultimately show ?thesis
      using copy_packet_payload [of p 233] len j j8
      by (simp add: mesh decoded_mesh_to_packet_def decoded_to_packet_def received_def packet_data_def)
  qed
  ultimately show ?thesis by blast
qed

end
