(* ===== verification/Examples.thy ===== *)
theory Examples
  imports NodeDB Channels Packet Airtime Radio Reliable Identity ConfigStore PhoneApi Mqtt
begin

text \<open>
  A small node, and the theorems applied to it: a channel table with the default primary channel
  and a keyless secondary one, a node database of two entries, a toy protobuf codec that knows a
  handful of messages, a counter mode that masks with a constant byte, and radio drivers that
  always answer the same. Each theorem of the components that has hypotheses is used here on
  concrete inputs that satisfy them.
\<close>

section \<open>The sample node\<close>

definition ex_data :: data where
  "ex_data = data_zero\<lparr>d_portnum := 1, d_payload := [104, 105]\<rparr>"

definition ex_nanopb :: nanopb where
  "ex_nanopb = \<lparr>enc_Data = (\<lambda>d. if d = ex_data then Some [8, 1, 18, 2, 104, 105] else None),
     dec_Data = (\<lambda>bs. if bs = [8, 1, 18, 2, 104, 105] then Some ex_data
                      else if bs = [] then Some data_zero else None),
     enc_Routing = (\<lambda>r. if r = Routing_error_reason 0 then Some [24, 0]
                        else if r = Routing_error_reason 1 then Some [24, 1] else None),
     dec_Routing = (\<lambda>bs. if bs = [24, 0] then Some (Routing_error_reason 0)
                      else if bs = [24, 1] then Some (Routing_error_reason 1) else None),
     enc_User = (\<lambda>u. None), dec_User = (\<lambda>bs. None), dec_Position = (\<lambda>bs. None), dec_Telemetry = (\<lambda>bs. None),
     dec_StatusMessage = (\<lambda>bs. None)\<rparr>"

definition ex_psa :: psa where
  "ex_psa = \<lparr>psa_import_key = (\<lambda>key. True), psa_encrypt_setup = (\<lambda>key. True), psa_set_iv = (\<lambda>key iv. True),
     psa_update = (\<lambda>key iv xs. Some (map (\<lambda>b. b XOR 0x5A) xs)), psa_finish = (\<lambda>key iv xs. Some [])\<rparr>"

definition ex_mt :: mt_context where
  "ex_mt = \<lparr>mt_lora_ready = True, mt_node_id = 0x11223344, mt_ch_hash = 8, mt_hop_limit = 3, mt_tx_power = 17,
     mt_frequency = FREQ_EU, mt_channel_name = ''LongFast'', mt_long_name = ''Zephyr'', mt_short_name = ''ZEPH'',
     mt_recv_cb = True, mt_event_cb = True, mt_next_pkt_id = 7, mt_next_fromradio_id = 1,
     mt_dup_cache = replicate 16 (0, 0), mt_dup_head = 0, mt_status = status_zero, mt_initialized = True,
     mt_radio_rx_armed = True, mt_log = []\<rparr>"

definition ex_packet :: packet where
  "ex_packet = packet_zero\<lparr>p_from := 0x11223344, p_to := NODE_BROADCAST, p_id := 7, p_portnum := 1,
     p_payload := Some [104, 105], p_payload_len := 2, p_hop_limit := 3, p_hop_start := 3\<rparr>"

definition ex_db :: nodedb where
  "ex_db = \<lparr>nd_entries = [fresh_entry 0x11223344, fresh_entry 0x55667788], nd_count = 2\<rparr>"

definition ex_config :: mconfig where
  "ex_config = \<lparr>cfg_lora_dev = True, cfg_node_id = 0x11223344, cfg_psk = Some default_psk, cfg_psk_len = 16,
     cfg_channel_name = Some ''LongFast'', cfg_frequency = FREQ_EU, cfg_hop_limit = 3, cfg_tx_power = 17,
     cfg_long_name = None, cfg_short_name = None\<rparr>"

definition ex_driver :: driver where
  "ex_driver = \<lparr>lora_config = (\<lambda>n. None), lora_send = (\<lambda>n pkt. None), lora_recv_async = (\<lambda>n. None),
     lora_airtime = (\<lambda>n. 100), sys_rand32_get = (\<lambda>n. 0)\<rparr>"

section \<open>What the parameters satisfy\<close>

lemma ex_nanopb_ok: "pb_Data_ok ex_nanopb"
  by (auto simp: pb_Data_ok_def pb_roundtrip_def ex_nanopb_def ex_data_def data_zero_def)

lemma ex_ctr_crypt: "ctr_crypt ex_psa key nonce xs = Inr (map (\<lambda>b. b XOR 0x5A) xs)"
  by (simp add: ctr_crypt_def ex_psa_def)

lemma ex_psa_ok: "psa_ctr_ok ex_psa"
proof -
  have "map ((\<lambda>b. b XOR 0x5A) \<circ> (\<lambda>b. b XOR 0x5A)) xs = xs" for xs :: bytes
    by (rule map_idI) (simp add: xor.assoc)
  then show ?thesis by (auto simp: psa_ctr_ok_def ex_ctr_crypt)
qed

lemma ex_table_live: "channels_live stale_table"
  by code_simp

lemma ex_db_inv: "nodedb_inv ex_db"
  by code_simp

section \<open>Node database\<close>

theorem nodedb_records_sender_witness:
  "\<exists>n. nodedb_get (module_nodedb_on_packet ex_nanopb 0x11223344 5000 (packet_zero\<lparr>p_from := 0x99\<rparr>) ex_db) 0x99 = Inr n \<and>
    nn_num n = 0x99 \<and> nn_last_heard_uptime_sec n = uptime_seconds 5000 \<and> nn_channel n = 0"
proof -
  have "oldest_evictable_index 0x11223344 ex_db \<noteq> None" by code_simp
  then show ?thesis
    using nodedb_records_sender [OF ex_db_inv, where p = "packet_zero\<lparr>p_from := 0x99\<rparr>" and local = "0x11223344"
      and pb = ex_nanopb and now = 5000]
    by (simp add: packet_zero_def)
qed

theorem nodedb_eviction_policy_witness:
  "\<exists>n. nodedb_get ex_db 0x11223344 = Inr n \<and>
    nodedb_get (module_nodedb_on_packet ex_nanopb 0x11223344 5000 (packet_zero\<lparr>p_from := 0x99\<rparr>) ex_db) 0x11223344 = Inr n"
proof -
  have "\<not> (case nodedb_get ex_db 0x11223344 of Inl _ \<Rightarrow> True | Inr _ \<Rightarrow> False)" by code_simp
  then obtain n where n: "nodedb_get ex_db 0x11223344 = Inr n" by (auto split: sum.splits)
  with nodedb_eviction_policy [OF ex_db_inv n, where p = "packet_zero\<lparr>p_from := 0x99\<rparr>" and local = "0x11223344"
      and pb = ex_nanopb and now = 5000]
  show ?thesis by (simp add: packet_zero_def)
qed

theorem nodedb_local_node_stays_witness:
  "\<exists>n. nodedb_get (fold (\<lambda>(now, p). module_nodedb_on_packet ex_nanopb 0x11223344 now p)
      [(1000, packet_zero\<lparr>p_from := 0x99\<rparr>), (2000, ex_packet)]
      (snd (nodedb_init default_kconfig 0x11223344 user_zero 0))) 0x11223344 = Inr n"
  by (rule nodedb_local_node_stays [OF kconfig_ok_default]) simp

section \<open>Channels\<close>

lemma ex_table_inv: "channels_inv stale_table"
  using ex_table_live by (simp add: channels_live_def)

theorem channels_get_key_aes_sized_witness:
  "\<exists>key. channels_get_key stale_table 0 = Some (Inr key) \<and> k_len key \<in> {0, 16, 32} \<and>
    length (take (k_len key) (k_bytes key)) = k_len key"
proof -
  have "\<not> (case channels_get_key stale_table 0 of Some (Inr _) \<Rightarrow> False | _ \<Rightarrow> True)" by code_simp
  then obtain key where key: "channels_get_key stale_table 0 = Some (Inr key)" by (auto split: option.splits sum.splits)
  from channels_get_key_aes_sized [OF ex_table_inv key] key show ?thesis by blast
qed

theorem channels_set_slot_consistent_witness:
  "\<exists>t' c'. channels_set_slot 0 stale_update (stale_table, ex_mt) = Some (ok, t', c') \<and> channels_inv t' \<and>
    channels_get t' 0 = Some (fixup_slot 0 (stale_update\<lparr>ch_index := 0\<rparr>))"
proof -
  obtain r t' c' where s: "channels_set_slot 0 stale_update (stale_table, ex_mt) = Some (r, t', c')"
    using stale_set_slot [of ex_mt] by (auto simp: map_option_case split: option.splits)
  have "length (cs_psk (ch_settings stale_update)) \<le> 32" by code_simp
  from channels_set_slot_consistent [OF ex_table_inv _ this s] s show ?thesis by simp
qed

theorem channels_set_slot_diverges_iff_witness:
  "channels_set_slot 0 (channel_zero\<lparr>ch_role := Role_SECONDARY, ch_has_settings := True\<rparr>) (stale_table, ex_mt) = None"
proof -
  have "length (cs_psk (ch_settings (channel_zero\<lparr>ch_role := Role_SECONDARY, ch_has_settings := True\<rparr>))) \<le> 32" by code_simp
  moreover have "keyless (channel_zero\<lparr>ch_role := Role_SECONDARY, ch_has_settings := True\<rparr>)" by code_simp
  moreover have "ct_primary_index stale_table = 0" by (simp add: stale_table_def)
  ultimately show ?thesis using channels_set_slot_diverges_iff [OF ex_table_inv, of 0] by simp
qed

theorem channels_reach_total_witness:
  "\<exists>t c. channels_init_from_config ex_config (stale_table, ex_mt) = Some (t, c) \<and>
    (\<exists>r. channels_get_key t 5 = Some r) \<and> channels_inv t \<and> mt_ch_hash c = channels_primary_hash t"
proof -
  have len: "cfg_psk_len ex_config \<le> 32" by (simp add: ex_config_def)
  obtain t where t: "channels_init_from_config ex_config (stale_table, ex_mt) = Some (t, refresh_mt t ex_mt)"
    using init_from_config_spec [OF len, of stale_table ex_mt] by blast
  from channels_reach_total [OF channels_reach.init [OF t len], of 5] t show ?thesis by blast
qed

theorem channels_resolve_send_index_order_witness:
  "channels_resolve_send_index default_kconfig ex_db stale_table NODE_BROADCAST 0xFF 8 = 0 \<and> ct_hashes stale_table ! 0 = 8"
proof -
  have "\<not> slot_enabled stale_table (unat (0xFF :: u8)) \<and> (8 :: u8) \<in> set (ct_hashes stale_table)" by code_simp
  with channels_resolve_send_index_order [OF ex_table_inv refl, where k = default_kconfig and db = ex_db
      and dest = NODE_BROADCAST and idx = "0xFF" and h = 8]
  have "\<forall>j < channels_resolve_send_index default_kconfig ex_db stale_table NODE_BROADCAST 0xFF 8. ct_hashes stale_table ! j \<noteq> 8"
    by simp
  then show ?thesis by (auto simp: stale_table_def)
qed

section \<open>Packets\<close>

lemma ex_build:
  "build_wire_packet default_kconfig ex_nanopb ex_psa ex_db stale_table ex_packet =
     Some (Inr ([255, 255, 255, 255, 0x44, 0x33, 0x22, 0x11, 7, 0, 0, 0, 0x63, 8, 0, 0] @ map (\<lambda>b. b XOR 0x5A) [8, 1, 18, 2, 104, 105]))"
  by code_simp

lemma ex_resolve:
  "channels_resolve_send_index default_kconfig ex_db stale_table (p_to ex_packet) (p_channel_index ex_packet)
     (p_channel ex_packet) = 0"
  by code_simp

lemma ex_shares: "shares_channel stale_table 0 stale_table 0"
  by (simp add: shares_channel_def) code_simp

lemma ex_packet_simps: "p_portnum ex_packet = 1" "p_payload_len ex_packet = 2" "payload_readable ex_packet"
  "p_from ex_packet = 0x11223344"
  by (simp_all add: ex_packet_def packet_zero_def payload_readable_def)

lemma ex_known: "decode_known_only default_kconfig ex_db stale_table from"
  by (simp add: decode_known_only_def stale_table_def)

theorem wire_roundtrip_witness:
  "\<exists>wire. build_wire_packet default_kconfig ex_nanopb ex_psa ex_db stale_table ex_packet = Some (Inr wire) \<and>
    try_decode_wire_packet default_kconfig ex_nanopb ex_psa ex_db stale_table wire (- 90) 5 packet_zero (Some 233)
      = Some (Inr True, received ex_packet (channels_get_hash stale_table 0) 0 (- 90) 5)"
  using wire_roundtrip [OF ex_nanopb_ok ex_psa_ok ex_table_inv ex_build _ ex_packet_simps(3) ex_resolve [symmetric] ex_shares
      ex_known, where n = 233] ex_build
  by (auto simp: ex_packet_simps)

theorem build_wire_packet_fits_witness:
  "\<exists>wire. build_wire_packet default_kconfig ex_nanopb ex_psa ex_db stale_table ex_packet = Some (Inr wire) \<and>
    16 \<le> length wire \<and> length wire \<le> 255"
  using build_wire_packet_fits [OF ex_psa_ok ex_build] ex_build by blast

lemma ex_decode:
  "map_option fst (try_decode_wire_packet default_kconfig ex_nanopb ex_psa ex_db stale_table
     [255, 255, 255, 255, 0x44, 0x33, 0x22, 0x11, 7, 0, 0, 0, 0x63, 8, 0, 0, 0x52, 0x5B, 0x48, 0x58, 0x32, 0x33]
     (- 90) 5 packet_zero (Some 233)) = Some (Inr True)"
  by code_simp

theorem try_decode_sound_witness:
  "\<exists>j key d. slot_enabled stale_table j \<and> channels_get_key stale_table j = Some (Inr key) \<and>
    decrypt_mesh_encrypted_key ex_nanopb ex_psa 0x11223344 7 [0x52, 0x5B, 0x48, 0x58, 0x32, 0x33] key = Inr d"
proof -
  let ?w = "[255, 255, 255, 255, 0x44, 0x33, 0x22, 0x11, 7, 0, 0, 0, 0x63, 8, 0, 0, 0x52, 0x5B, 0x48, 0x58, 0x32, 0x33] :: bytes"
  obtain p where p: "try_decode_wire_packet default_kconfig ex_nanopb ex_psa ex_db stale_table ?w (- 90) 5 packet_zero (Some 233)
      = Some (Inr True, p)"
    using ex_decode by (auto simp: map_option_case split: option.splits)
  have "h_src (get_header ?w) = 0x11223344 \<and> h_id (get_header ?w) = 7" by code_simp
  then show ?thesis using try_decode_sound [OF p] by auto
qed

theorem mesh_pb_roundtrip_witness:
  "\<exists>m. packet_to_mesh_pb ex_packet = Inr m \<and>
    mesh_pb_to_packet ex_nanopb ex_psa stale_table ex_mt m (Some 233) =
      Some (Inr (ex_packet\<lparr>p_payload := Some [104, 105], p_payload_len := 2,
        p_channel := channels_get_hash stale_table 0, p_rssi := 0, p_snr := 0\<rparr>))"
proof -
  have "\<not> payload_args_bad ex_packet" by (simp add: payload_args_bad_def ex_packet_def packet_zero_def)
  then obtain m where m: "packet_to_mesh_pb ex_packet = Inr m" by (simp add: packet_to_mesh_pb_def)
  have "p_channel_index ex_packet = 0" "payload_bytes ex_packet = [104, 105]"
    by (simp_all add: ex_packet_def packet_zero_def payload_bytes_def)
  with mesh_pb_roundtrip [OF m ex_packet_simps(3)] m show ?thesis by simp
qed

theorem build_wire_packet_errors_witness:
  "\<exists>r. build_wire_packet default_kconfig ex_nanopb ex_psa ex_db stale_table (ex_packet\<lparr>p_payload_len := 300\<rparr>) = Some r"
  using build_wire_packet_errors [OF ex_table_live, where k = default_kconfig and pb = ex_nanopb and psa = ex_psa and db = ex_db
      and p = "ex_packet\<lparr>p_payload_len := 300\<rparr>"] by blast

section \<open>Air time\<close>

theorem airtime_window_witness:
  "channel_util_sum (fold airtime_step [Log AIRTIME_TX 120, Tick, Log AIRTIME_RX 80] airtime_init) = 200 \<and>
    tx_util_sum (fold airtime_step [Log AIRTIME_TX 120, Tick, Log AIRTIME_RX 80] airtime_init) = 120"
  using airtime_window [of "[Log AIRTIME_TX 120, Tick, Log AIRTIME_RX 80]"] by simp

section \<open>Radio\<close>

definition ex_link :: link where
  "ex_link = \<lparr>l_mt = ex_mt, l_radio = radio_zero\<lparr>r_outbound := [[1, 2], [3]]\<rparr>, l_air = airtime_init\<rparr>"

theorem radio_send_wire_now_once_witness:
  "\<exists>ret l'. radio_send_wire_now default_kconfig ex_driver [9, 9] ex_link = (ret, l') \<and>
    r_on_air (l_radio l') = (if ret = ok then [[9, 9]] else []) \<and> \<not> lc_tx (r_cfg (l_radio l'))"
proof -
  obtain ret l' where l: "radio_send_wire_now default_kconfig ex_driver [9, 9] ex_link = (ret, l')" by force
  from radio_send_wire_now_once [OF l] l show ?thesis by (simp add: ex_link_def radio_zero_def)
qed

theorem send_wire_wait_fifo_witness:
  "\<exists>ret l' oks. radio_send_wire_wait default_kconfig ex_driver [9, 9] K_FOREVER ex_link = (ret, l') \<and>
    subseq oks [[1, 2], [3]] \<and> r_on_air (l_radio l') = oks @ (if ret = ok then [[9, 9]] else [])"
proof -
  obtain ret l' where l: "radio_send_wire_wait default_kconfig ex_driver [9, 9] K_FOREVER ex_link = (ret, l')" by force
  from send_wire_wait_fifo [OF l] l show ?thesis by (auto simp: ex_link_def radio_zero_def)
qed

theorem radio_queues_bounded_witness:
  "queues_ok default_kconfig (snd (radio_send_wire default_kconfig [7] (l_radio ex_link))) \<and>
    queues_ok default_kconfig (l_radio (rx_cb default_kconfig [1] (- 80) 3 ex_link))"
proof -
  have "queues_ok default_kconfig (l_radio ex_link)"
    by (simp add: queues_ok_def ex_link_def radio_zero_def default_kconfig_def)
  from radio_queues_bounded [OF this] show ?thesis by blast
qed

section \<open>Acknowledged delivery\<close>

definition ex_acked :: packet where
  "ex_acked = ex_packet\<lparr>p_to := 0x55667788, p_want_ack := True\<rparr>"

definition ex_tracked :: reliable where
  "ex_tracked = fst (reliable_track default_kconfig ex_driver 0 ex_mt ex_acked [1, 2, 3] (reliable_reset default_kconfig, radio_zero))"

lemma ex_tracked_entries:
  "rel_entries ex_tracked = [\<lparr>e_id = 7, e_dest = 0x55667788, e_portnum = 1, e_due_ms = 12000, e_wire = [1, 2, 3],
     e_attempts_left = 3\<rparr>, reliable_entry_zero, reliable_entry_zero]"
  by code_simp

lemma ex_tracked_reach: "reliable_reach default_kconfig ex_nanopb ex_driver 0 ex_tracked"
proof (rule reliable_reach.track [OF reliable_reach.reset])
  show "reliable_track default_kconfig ex_driver 0 ex_mt ex_acked [1, 2, 3] (reliable_reset default_kconfig, radio_zero)
    = (ex_tracked, snd (reliable_track default_kconfig ex_driver 0 ex_mt ex_acked [1, 2, 3] (reliable_reset default_kconfig, radio_zero)))"
    by (simp add: ex_tracked_def)
qed simp

theorem reliable_never_stranded_witness:
  "\<exists>e\<in>set (rel_entries ex_tracked). e_id e = 7 \<and> (\<exists>t. rel_work ex_tracked = Some t \<and> t \<le> max 0 (e_due_ms e))"
proof -
  let ?e = "\<lparr>e_id = 7, e_dest = 0x55667788, e_portnum = 1, e_due_ms = 12000, e_wire = [1, 2, 3], e_attempts_left = 3\<rparr>"
  have e: "?e \<in> set (rel_entries ex_tracked)" by (simp add: ex_tracked_entries)
  from reliable_never_stranded [OF kconfig_ok_default ex_tracked_reach e] e show ?thesis by force
qed

text \<open>A second packet, tracked five seconds after the first one.\<close>

definition ex_staggered :: "reliable \<times> radio" where
  "ex_staggered = reliable_track default_kconfig ex_driver 5000 ex_mt (ex_acked\<lparr>p_id := 8\<rparr>) [4, 5, 6] (ex_tracked, radio_zero)"

theorem reliable_gives_up_witness:
  "\<exists>t rel' c' r'. retry_runs default_kconfig ex_driver (\<lambda>n t. t + 20) 13 5000 (fst ex_staggered, ex_mt, radio_zero) = (t, rel', c', r') \<and>
    reliable_pending (fst ex_staggered) = 2 \<and> reliable_pending rel' = 0 \<and> t \<le> 605080"
proof -
  have "reliable_reach default_kconfig ex_nanopb ex_driver 5000 ex_tracked"
    by (rule reliable_reach.later [OF ex_tracked_reach]) simp
  moreover have "reliable_track default_kconfig ex_driver 5000 ex_mt (ex_acked\<lparr>p_id := 8\<rparr>) [4, 5, 6] (ex_tracked, radio_zero)
      = (fst ex_staggered, snd ex_staggered)" by (simp add: ex_staggered_def)
  ultimately have r: "reliable_reach default_kconfig ex_nanopb ex_driver 5000 (fst ex_staggered)"
    using reliable_reach.track by fastforce
  have p: "reliable_pending (fst ex_staggered) = 2" by code_simp
  have k: "RELIABLE_MAX_PENDING default_kconfig = 3" "RELIABLE_RETRANSMISSIONS default_kconfig = 3" by (simp_all add: default_kconfig_def)
  have cb: "mt_event_cb ex_mt" by (simp add: ex_mt_def)
  have w: "wakes_within 20 (\<lambda>n t. t + 20)" by (simp add: wakes_within_def)
  from reliable_gives_up [OF kconfig_ok_default r cb w, of radio_zero] p show ?thesis by (auto simp: k)
qed

theorem reliable_work_fn_step_witness:
  "\<exists>rel' c' r'. reliable_work_fn default_kconfig ex_driver 12000 (ex_tracked, ex_mt, radio_zero) = (rel', c', r') \<and>
    list_all2 (entry_step default_kconfig 12000) (rel_entries ex_tracked) (rel_entries rel')"
proof -
  obtain rel' c' r' where w: "reliable_work_fn default_kconfig ex_driver 12000 (ex_tracked, ex_mt, radio_zero) = (rel', c', r')"
    using prod_cases3 by blast
  have cb: "mt_event_cb ex_mt" by (simp add: ex_mt_def)
  from reliable_work_fn_step [OF w cb] w show ?thesis by blast
qed

definition ex_ack :: packet where
  "ex_ack = packet_zero\<lparr>p_from := 0x55667788, p_to := 0x11223344, p_portnum := 5, p_request_id := 7\<rparr>"

theorem reliable_on_routing_settles_witness:
  "\<exists>rel' c'. reliable_on_routing default_kconfig ex_nanopb ex_ack (ex_tracked, ex_mt) = (True, rel', c') \<and>
    Suc (reliable_pending rel') = reliable_pending ex_tracked"
proof -
  obtain f rel' c' where w: "reliable_on_routing default_kconfig ex_nanopb ex_ack (ex_tracked, ex_mt) = (f, rel', c')"
    using prod_cases3 by blast
  have "fst (reliable_on_routing default_kconfig ex_nanopb ex_ack (ex_tracked, ex_mt)) = True" by code_simp
  then have f: "f" using w by simp
  have cb: "mt_event_cb ex_mt" by (simp add: ex_mt_def)
  from reliable_on_routing_settles [OF w cb] w f show ?thesis by auto
qed

section \<open>The configuration store\<close>

definition ex_store :: store where
  "ex_store = \<lparr>so_long_name = ''Zephyr'', so_short_name = ''ZEPH'',
     so_channels = map (\<lambda>i. channel_zero\<lparr>ch_index := i\<rparr>) [0..<8],
     so_configs = map (\<lambda>p. config_init (snd p)) config_names, so_modules = map (\<lambda>p. module_init (snd p)) module_names,
     so_save_scheduled = False\<rparr>"

text \<open>A codec of the messages with default content, by index or tag.\<close>

definition ex_codec :: store_codec where
  "ex_codec = \<lparr>
     enc_Channel = (\<lambda>ch. if ch = channel_zero\<lparr>ch_index := ch_index ch\<rparr> \<and> ch_index ch < 256 then Some [word_of_nat (ch_index ch)] else None),
     dec_Channel = (\<lambda>bs. Some (channel_zero\<lparr>ch_index := unat (hd bs)\<rparr>)),
     enc_Config = (\<lambda>cfg. if cfg = config_init (config_tag cfg) \<and> config_tag cfg < 256 then Some [word_of_nat (config_tag cfg)] else None),
     dec_Config = (\<lambda>bs. Some (config_init (unat (hd bs)))),
     enc_ModuleConfig = (\<lambda>m. if m = module_init (module_tag m) \<and> module_tag m < 256 then Some [word_of_nat (module_tag m)] else None),
     dec_ModuleConfig = (\<lambda>bs. Some (module_init (unat (hd bs))))\<rparr>"

lemma ex_codec_ok: "codec_ok ex_codec"
proof -
  have u: "unat (word_of_nat n :: u8) = n" if "n < 256" for n using that by (simp add: unat_of_nat)
  show ?thesis
    unfolding codec_ok_def pb_roundtrip_def ex_codec_def by (auto simp: u split: if_splits)
qed

lemma ex_store_inv: "store_inv ex_store"
  by code_simp

lemma export_loop_ok:
  "\<forall>key\<in>set keys. \<exists>v. setting_get sc st key STORE_VALUE_MAX = Inr v \<Longrightarrow>
     \<exists>kvs. export_loop sc st (\<lambda>_ _. None) keys = (ok, kvs)"
  by (induction keys) auto

lemma config_tag_init: "config_tag (config_init tag) = tag" and module_tag_init: "module_tag (module_init tag) = tag"
  by (simp_all add: config_init_def module_init_def)

lemma tags_small: "\<forall>i<10. snd (config_names ! i) < 256" "\<forall>i<16. snd (module_names ! i) < 256"
  by code_simp+

lemma ex_encodes:
  assumes "key_ok key"
  shows "\<exists>v. setting_get ex_codec ex_store (key_name key) STORE_VALUE_MAX = Inr v"
  using assms tags_small
  by (cases key)
    (simp_all add: setting_get_key setting_get_owner_def encode_record_def pb_encode_def ex_codec_def ex_store_def
      config_tag_init module_tag_init tag_lists channel_zero_def del: key_name.simps)

theorem config_survives_reboot_witness:
  "\<exists>kvs. config_store_export ex_codec ex_store (\<lambda>_ _. None) = (ok, kvs) \<and>
    so_channels (settings_load ex_codec kvs (ex_store\<lparr>so_long_name := ''x''\<rparr>)) = so_channels ex_store \<and>
    so_long_name (settings_load ex_codec kvs (ex_store\<lparr>so_long_name := ''x''\<rparr>)) = ''Zephyr''"
proof -
  have "\<forall>key\<in>set export_keys. \<exists>v. setting_get ex_codec ex_store key STORE_VALUE_MAX = Inr v"
    using ex_encodes all_keys_ok by (auto simp: export_keys_names)
  from export_loop_ok [OF this] obtain kvs where kvs: "config_store_export ex_codec ex_store (\<lambda>_ _. None) = (ok, kvs)"
    unfolding config_store_export_def by blast
  have inv: "store_inv (ex_store\<lparr>so_long_name := ''x''\<rparr>)" by code_simp
  have n: "so_long_name ex_store = ''Zephyr''" by (simp add: ex_store_def)
  from config_survives_reboot [OF ex_codec_ok ex_store_inv inv kvs] kvs n show ?thesis by simp
qed

theorem setting_set_robust_witness:
  "store_inv (snd (setting_set ex_codec ''config/lora'' [1, 0] ex_store))"
  using setting_set_robust [OF ex_store_inv, of ex_codec "''config/lora''" "[1, 0]"]
  by (cases "setting_set ex_codec ''config/lora'' [1, 0] ex_store") simp

definition ex_other_primary :: store where
  "ex_other_primary = ex_store\<lparr>so_channels := (so_channels ex_store)[1 := channel_zero\<lparr>ch_index := 1, ch_role := Role_PRIMARY,
     ch_has_settings := True, ch_settings := settings_zero\<lparr>cs_name := ''b'', cs_psk := [1]\<rparr>\<rparr>]\<rparr>"

theorem set_config_applies_witness:
  "\<exists>r st' t' c'. config_store_set_config default_kconfig (\<lambda>_. 0) (Config_lora (lora_config_zero\<lparr>lo_hop_limit := 5\<rparr>))
      (ex_other_primary, stale_table, ex_mt) = Some (r, st', t', c') \<and>
    config_store_get_config st' lora_tag = Inr (Config_lora (lora_config_zero\<lparr>lo_hop_limit := 5\<rparr>)) \<and> channels_live t'"
proof -
  let ?cfg = "Config_lora (lora_config_zero\<lparr>lo_hop_limit := 5\<rparr>)"
  have "config_store_set_config default_kconfig (\<lambda>_. 0) ?cfg (ex_other_primary, stale_table, ex_mt) \<noteq> None" by code_simp
  then obtain r st' t' c' where s:
    "config_store_set_config default_kconfig (\<lambda>_. 0) ?cfg (ex_other_primary, stale_table, ex_mt) = Some (r, st', t', c')"
    by (metis not_None_eq prod_cases4)
  have inv: "store_inv ex_other_primary" "mt_ch_hash ex_mt = channels_primary_hash stale_table"
    "1 \<le> mt_hop_limit ex_mt \<and> mt_hop_limit ex_mt \<le> 7" "config_is_valid ?cfg" by code_simp+
  from set_config_applies [OF inv(1) ex_table_live inv(2,3) s] inv(4) s show ?thesis by simp
qed

theorem primary_channel_reverts_witness:
  "\<exists>st1 t1 c1 st2 t2 c2.
    config_store_set_channel default_kconfig 0 stale_update (ex_other_primary, stale_table, ex_mt) = Some (ok, st1, t1, c1) \<and>
    config_store_set_config default_kconfig (\<lambda>_. 0) (Config_opaque 3 []) (st1, t1, c1) = Some (ok, st2, t2, c2) \<and>
    ct_primary_index t1 = 0 \<and> 0 < ct_primary_index t2"
proof -
  let ?s = "config_store_set_channel default_kconfig 0 stale_update (ex_other_primary, stale_table, ex_mt)"
  have ok: "map_option fst ?s = Some ok" "map_option fst (?s \<bind> (\<lambda>(r, s). config_store_set_config default_kconfig (\<lambda>_. 0) (Config_opaque 3 []) s)) = Some ok"
    by code_simp+
  from ok(1) obtain st1 t1 c1 where s1: "?s = Some (ok, st1, t1, c1)"
    by (auto simp: map_option_case split: option.splits)
  with ok(2) obtain st2 t2 c2 where s2:
    "config_store_set_config default_kconfig (\<lambda>_. 0) (Config_opaque 3 []) (st1, t1, c1) = Some (ok, st2, t2, c2)"
    by (auto simp: map_option_case split: option.splits)
  have inv: "store_inv ex_other_primary" "ch_role (so_channels ex_other_primary ! 1) = Role_PRIMARY"
    "ch_role stale_update = Role_PRIMARY" by code_simp+
  from primary_channel_reverts [OF inv(1) ex_table_inv _ _ inv(2,3) s1 s2] s1 s2 show ?thesis by auto
qed

section \<open>Phones\<close>

definition ex_phone_codec :: phone_codec where
  "ex_phone_codec = \<lparr>enc_FromRadio = (\<lambda>fr. Some (put_le32 (fr_id fr))), dec_ToRadio = (\<lambda>bs. None)\<rparr>"

definition ex_phone_env :: phone_env where
  "ex_phone_env = \<lparr>pe_k = default_kconfig, pe_hw_model = 255, pe_store = ex_store, pe_channels = stale_table\<rparr>"

lemma ex_phone_ring: "phone_ring_ok (phoneapi_init 4)"
  by (simp add: phone_ring_ok_def phoneapi_init_def)

theorem phone_queue_fifo_witness:
  "phone_ring_ok (snd (enqueue_fromradio ex_phone_codec \<lparr>fr_id = 9, fr_variant = FR_rebooted True\<rparr> (phoneapi_init 4))) \<and>
    fst (pop_frames ex_phone_codec ex_phone_env
      (pa_count (snd (enqueue_fromradio ex_phone_codec \<lparr>fr_id = 9, fr_variant = FR_rebooted True\<rparr> (phoneapi_init 4))))
      (snd (enqueue_fromradio ex_phone_codec \<lparr>fr_id = 9, fr_variant = FR_rebooted True\<rparr> (phoneapi_init 4)), ex_mt))
    = [Some [9, 0, 0, 0]]"
  using phone_queue_fifo [OF ex_phone_ring, of ex_phone_codec "[\<lparr>fr_id = 9, fr_variant = FR_rebooted True\<rparr>]" ex_phone_env ex_mt]
  by (simp add: List.map_filter_simps pb_encode_def ex_phone_codec_def put_le32_def phone_frames_def phoneapi_init_def Let_def)

theorem phone_push_front_next_witness:
  "\<exists>api'. pop_frame ex_phone_codec ex_phone_env (push_frame_front [1, 2] (phoneapi_init 4), ex_mt) = (Some [1, 2], api', ex_mt)"
  using phone_push_front_next [OF ex_phone_ring, of ex_phone_codec ex_phone_env "[1, 2]" ex_mt] by blast

theorem config_download_witness:
  "length (fst (pop_frames ex_phone_codec ex_phone_env 40 (enqueue_phone_config 77 (phoneapi_init 4), ex_mt))) = 40 \<and>
    fst (pop_frames ex_phone_codec ex_phone_env 40 (enqueue_phone_config 77 (phoneapi_init 4), ex_mt)) =
      numbered_frames ex_phone_codec (config_script ex_phone_env 4 77 ex_mt) ex_mt"
proof -
  have "store_inv (pe_store ex_phone_env)" using ex_store_inv by (simp add: ex_phone_env_def)
  moreover have "script_encodes ex_phone_codec (config_script ex_phone_env (pa_queue_size (phoneapi_init 4)) 77 ex_mt)"
    by (simp add: script_encodes_def ex_phone_codec_def pb_encode_def)
  moreover have q: "pa_queue_size (phoneapi_init 4) = 4" by (simp add: phoneapi_init_def)
  ultimately show ?thesis
    using config_download [of ex_phone_env ex_phone_codec "phoneapi_init 4" 77 ex_mt] unfolding q split_beta Let_def by blast
qed

section \<open>The MQTT gateway\<close>

definition ex_wire :: bytes where
  "ex_wire = [255, 255, 255, 255, 0x44, 0x33, 0x22, 0x11, 7, 0, 0, 0, 0x63, 8, 0, 0] @ map (\<lambda>b. b XOR 0x5A) [8, 1, 18, 2, 104, 105]"

definition ex_mesh :: mesh_packet where
  "ex_mesh = (case mqtt_mesh_from_wire ex_wire of Inr m \<Rightarrow> m | Inl _ \<Rightarrow> mesh_zero)"

definition ex_env :: service_envelope where
  "ex_env = \<lparr>se_packet = Some ex_mesh, se_channel_id = Some ''LongFast'', se_gateway_id = Some (node_id_str 0x11223344)\<rparr>"

definition ex_mqtt_codec :: mqtt_codec where
  "ex_mqtt_codec = \<lparr>enc_ServiceEnvelope = (\<lambda>e. if e = ex_env then Some [10] else None),
     dec_ServiceEnvelope = (\<lambda>bs. if bs = [10] then Some ex_env else None), enc_MapReport = (\<lambda>r. None)\<rparr>"

definition ex_mqtt :: mqtt_ctx where
  "ex_mqtt = snd (mqtt_init default_kconfig True stale_table ex_mt (mqtt_ctx_zero default_kconfig))"

lemma ex_mqtt_ring: "mqtt_ring_ok default_kconfig ex_mqtt"
  by (simp add: mqtt_ring_ok_def ex_mqtt_def mqtt_init_def mqtt_ctx_zero_def default_kconfig_def Let_def)

lemma ex_mqtt_topic: "length (mqtt_build_publish_topic stale_table ex_mt ex_mqtt) < 128"
  by code_simp

lemma ex_mesh_from_wire: "mqtt_mesh_from_wire ex_wire = Inr ex_mesh"
proof -
  have "\<not> (case mqtt_mesh_from_wire ex_wire of Inl _ \<Rightarrow> True | Inr _ \<Rightarrow> False)" by code_simp
  then show ?thesis by (auto simp: ex_mesh_def split: sum.splits)
qed

lemma ex_encode_envelope:
  "mqtt_encode_envelope ex_mqtt_codec ex_mesh (channels_primary_name stale_table) (node_id_str (mt_node_id ex_mt)) 1024 = Inr [10]"
proof -
  have "channels_primary_name stale_table = ''LongFast''" by code_simp
  then show ?thesis by (simp add: mqtt_encode_envelope_def pb_encode_def ex_mqtt_codec_def ex_env_def ex_mt_def)
qed

lemma ex_kconfig: "MQTT_ENCRYPTION_ENABLED default_kconfig" "MQTT_UPLINK_ENABLED default_kconfig"
  "MQTT_DOWNLINK_ENABLED default_kconfig" "MQTT_TX_BUFFER_SIZE default_kconfig = 1024" "MQTT_PUBLISH_QUEUE_SIZE default_kconfig = 32"
  by (simp_all add: default_kconfig_def)

lemma ex_wire_nonempty: "ex_wire \<noteq> []"
  by (simp add: ex_wire_def)

theorem mqtt_uplink_policy_witness:
  "mqtt_pending (mqtt_on_tx default_kconfig ex_mqtt_codec stale_table ex_mt ex_packet ex_wire ex_mqtt) =
     [\<lparr>pub_topic = mqtt_build_publish_topic stale_table ex_mt ex_mqtt, pub_payload = [10]\<rparr>]"
proof -
  have "uplink_wanted default_kconfig stale_table ex_mt ex_packet" by code_simp
  moreover have "mq_count ex_mqtt = 0"
    by (simp add: ex_mqtt_def mqtt_init_def mqtt_ctx_zero_def default_kconfig_def Let_def)
  moreover have "mqtt_pending ex_mqtt = []" using \<open>mq_count ex_mqtt = 0\<close> by (simp add: mqtt_pending_def)
  moreover have "p_from ex_packet = mt_node_id ex_mt" by (simp add: ex_packet_def ex_mt_def)
  ultimately show ?thesis
    using mqtt_uplink_policy [OF ex_mqtt_ring ex_kconfig(2) ex_wire_nonempty ex_mqtt_topic, where p = ex_packet and mesh = ex_mesh
        and mc = ex_mqtt_codec and env = "[10]"] ex_mesh_from_wire ex_encode_envelope
    by (simp add: ex_kconfig Let_def)
qed

theorem mqtt_uplink_encode_failure_witness:
  "mqtt_ring_ok default_kconfig (mqtt_queue_uplink default_kconfig (ex_mqtt_codec\<lparr>enc_ServiceEnvelope := \<lambda>e. None\<rparr>)
     stale_table ex_mt ex_packet ex_wire ex_mqtt)"
proof -
  have "uplink_wanted default_kconfig stale_table ex_mt ex_packet" by code_simp
  moreover have "mqtt_encode_envelope (ex_mqtt_codec\<lparr>enc_ServiceEnvelope := \<lambda>e. None\<rparr>) ex_mesh
      (channels_primary_name stale_table) (node_id_str (mt_node_id ex_mt)) 1024 = Inl ENOMEM"
    by (simp add: mqtt_encode_envelope_def pb_encode_def)
  ultimately show ?thesis
    using mqtt_uplink_encode_failure [OF ex_mqtt_ring ex_wire_nonempty ex_mqtt_topic, where p = ex_packet and mesh = ex_mesh
        and mc = "ex_mqtt_codec\<lparr>enc_ServiceEnvelope := \<lambda>e. None\<rparr>" and e = ENOMEM] ex_mesh_from_wire
    by (simp add: ex_kconfig)
qed

theorem mqtt_drain_in_order_witness:
  "\<exists>m\<le>2. mqtt_pending (mqtt_drain_queue default_kconfig (\<lambda>n. (ok, False)) 2 ex_mqtt) = drop m (mqtt_pending ex_mqtt)"
  using mqtt_drain_in_order [OF ex_mqtt_ring, of 2 "\<lambda>n. (ok, False)"] by blast

definition ex_mt2 :: mt_context where
  "ex_mt2 = ex_mt\<lparr>mt_node_id := 0x55667788\<rparr>"

theorem mqtt_bridge_roundtrip_witness:
  "\<exists>m. mqtt_downlink_packet default_kconfig ex_mqtt_codec stale_table ex_mt2 [10] = Some m \<and>
    mesh_pb_to_packet ex_nanopb ex_psa stale_table ex_mt2 m (Some 233) =
      Some (Inr (received (ex_packet\<lparr>p_via_mqtt := True\<rparr>) (channels_get_hash stale_table 0) 0 0 0))"
proof -
  have rt: "pb_roundtrip (enc_ServiceEnvelope ex_mqtt_codec) (dec_ServiceEnvelope ex_mqtt_codec)"
    by (simp add: pb_roundtrip_def ex_mqtt_codec_def)
  have c: "channels_get_hash stale_table 0 \<noteq> 0" "channels_matches_mqtt_name stale_table (channels_primary_name stale_table)"
    "channels_downlink_enabled stale_table (ct_primary_index stale_table)" by code_simp+
  have n: "mt_node_id ex_mt \<noteq> mt_node_id ex_mt2" "p_from ex_packet \<noteq> mt_node_id ex_mt2" "p_portnum ex_packet \<noteq> 0"
    by (simp_all add: ex_mt2_def ex_mt_def ex_packet_def packet_zero_def)
  show ?thesis
    by (rule mqtt_bridge_roundtrip [OF ex_nanopb_ok ex_psa_ok ex_table_inv ex_build [folded ex_wire_def] n(3) ex_packet_simps(3)
          ex_resolve [symmetric] ex_shares c(1) rt ex_mesh_from_wire ex_encode_envelope ex_kconfig(3) c(2,3) n(1,2)])
qed

end
