(* ===== verification/Node.thy ===== *)
theory Node
  imports PhoneApi Mqtt Reliable
begin

text \<open>
  One running node: the state of every component in one record, and the surroundings the
  components call, in another. The peer tables of \<^verbatim>\<open>src/meshtastic_nodeinfo.c\<close>,
  \<^verbatim>\<open>src/meshtastic_metrics.c\<close> and \<^verbatim>\<open>src/meshtastic_environment.c\<close> and the position state of
  \<^verbatim>\<open>src/meshtastic_gnss.c\<close> are declared here because they are part of the node; their operations
  are in the theory of the modules.

  A handler of the node is a function on this state. Handlers that look up channel keys have an
  option as their result, \<open>None\<close> when the lookup never returns. Uptime is passed in as \<open>now\<close>
  and does not advance inside one handler.
\<close>

section \<open>Module state\<close>

record nodeinfo_peer =
  np_node :: u32
  np_last_seen_ms :: int
  np_last_request_ms :: int
  np_last_reply_ms :: int
  np_has_user :: bool
  np_request_time_valid :: bool
  np_reply_time_valid :: bool

record telemetry_peer =
  tp_from :: u32
  tp_last_reply_ms :: int
  tp_reply_time_valid :: bool

text \<open>The navigation data of the GNSS driver that the code reads.\<close>

datatype fix_status = FIX_NO_FIX | FIX_GNSS_FIX | FIX_DGNSS_FIX | FIX_ESTIMATED_FIX

record gnss_data =
  gd_latitude :: int
  gd_longitude :: int
  gd_altitude :: int
  gd_speed :: nat
  gd_bearing :: nat
  gd_hdop :: nat
  gd_fix_quality :: nat
  gd_fix_status :: fix_status
  gd_satellites_cnt :: nat
  gd_geoid_separation :: int

record gnss_state =
  gs_data :: gnss_data
  gs_has_fix :: bool
  gs_seq :: u32
  gs_last_sent_ms :: int
  gs_last_attempt_ms :: int
  gs_last_reply_ms :: int
  gs_reply_time_valid :: bool
  gs_work_submitted :: bool

text \<open>The fields of the protobuf \<^verbatim>\<open>Position\<close> that only the sender of one sets.\<close>

record sent_position = position +
  pos_altitude_source :: nat
  pos_altitude_geoidal_separation :: "int opt_field"
  pos_HDOP :: nat
  pos_ground_speed :: "nat opt_field"
  pos_ground_track :: "nat opt_field"
  pos_fix_quality :: nat
  pos_fix_type :: nat
  pos_sats_in_view :: nat
  pos_next_update :: nat
  pos_seq_number :: u32

section \<open>The surroundings\<close>

text \<open>The Kconfig symbols of the port modules.\<close>

record module_kconfig =
  MESSAGE :: bool
  NODEINFO :: bool
  NODEINFO_PEER_CACHE_SIZE :: nat
  NODEINFO_UNKNOWN_SUPPRESS_SEC :: nat
  NODEINFO_REPLY_SUPPRESS_SEC :: nat
  DEVICE_METRICS :: bool
  ENVIRONMENT_METRICS :: bool
  TELEMETRY_WANT_RESPONSE :: bool
  TELEMETRY_REPLY_SUPPRESS_SEC :: nat
  GNSS_ALIAS :: bool
  GNSS_AUTO_SEND :: bool
  GNSS_SEND_INTERVAL_SEC :: nat
  GNSS_RETRY_INTERVAL_SEC :: nat
  GNSS_REPLY_SUPPRESS_SEC :: nat

record module_codec =
  enc_Telemetry :: "telemetry \<Rightarrow> bytes option"
  enc_Position :: "sent_position \<Rightarrow> bytes option"

text \<open>
  What the sensor drivers answer: the fuel gauge, and for each environment quantity the reading
  in the unit of the protobuf field, \<open>None\<close> when the device is missing, not ready or fails.
\<close>

record sensors =
  fg_ready :: bool
  fg_relative_pct :: "nat option"
  fg_absolute_pct :: "nat option"
  fg_voltage :: "f32 option"
  sn_ambient_temp :: "f32 option"
  sn_die_temp :: "f32 option"
  sn_humidity :: "f32 option"
  sn_pressure :: "f32 option"
  sn_gas :: "f32 option"
  sn_light :: "f32 option"

record env =
  ev_k :: kconfig
  ev_m :: module_kconfig
  ev_pb :: nanopb
  ev_mpb :: module_codec
  ev_pc :: phone_codec
  ev_mc :: mqtt_codec
  ev_psa :: psa
  ev_drv :: driver
  ev_errno :: "errno \<Rightarrow> int" \<comment> \<open>the C library's number of an error\<close>
  ev_hw_model :: nat
  ev_percent :: "u32 \<Rightarrow> u32 \<Rightarrow> f32"
  ev_sensors :: "int \<Rightarrow> sensors"

section \<open>The node\<close>

record node =
  st_link :: link
  st_ch :: channels
  st_db :: nodedb
  st_rel :: reliable
  st_phones :: "phoneapi list"
  st_mqtt :: mqtt_ctx
  st_store :: store
  st_peers :: "nodeinfo_peer list"
  st_dev_peers :: "telemetry_peer list"
  st_env_peers :: "telemetry_peer list"
  st_gnss :: gnss_state

abbreviation mt :: "node \<Rightarrow> mt_context" where
  "mt st \<equiv> l_mt (st_link st)"

abbreviation set_mt :: "mt_context \<Rightarrow> node \<Rightarrow> node" where
  "set_mt c st \<equiv> st\<lparr>st_link := (st_link st)\<lparr>l_mt := c\<rparr>\<rparr>"

abbreviation st_radio :: "node \<Rightarrow> radio" where
  "st_radio st \<equiv> l_radio (st_link st)"

abbreviation set_radio :: "radio \<Rightarrow> node \<Rightarrow> node" where
  "set_radio r st \<equiv> st\<lparr>st_link := (st_link st)\<lparr>l_radio := r\<rparr>\<rparr>"

abbreviation upd_st_status :: "(status \<Rightarrow> status) \<Rightarrow> node \<Rightarrow> node" where
  "upd_st_status f st \<equiv> set_mt ((mt st)\<lparr>mt_status := f (mt_status (mt st))\<rparr>) st"

text \<open>Frames queued for the air and frames already on it, in the order they were handed over.\<close>

definition frames :: "node \<Rightarrow> bytes list" where
  "frames st = r_on_air (st_radio st) @ r_outbound (st_radio st)"

text \<open>
  What no handler of the data path touches: channels, configuration, identity, callbacks and the
  duplicate cache; what the application has been told and what has been on the air only grows.
\<close>

definition keeps :: "node \<Rightarrow> node \<Rightarrow> bool" where
  "keeps st st' \<longleftrightarrow> st_ch st' = st_ch st \<and> st_store st' = st_store st \<and>
     mt_node_id (mt st') = mt_node_id (mt st) \<and> mt_ch_hash (mt st') = mt_ch_hash (mt st) \<and>
     mt_hop_limit (mt st') = mt_hop_limit (mt st) \<and> mt_recv_cb (mt st') = mt_recv_cb (mt st) \<and>
     mt_event_cb (mt st') = mt_event_cb (mt st) \<and> mt_dup_cache (mt st') = mt_dup_cache (mt st) \<and>
     mt_dup_head (mt st') = mt_dup_head (mt st) \<and> mt_initialized (mt st') = mt_initialized (mt st) \<and>
     prefix (mt_log (mt st)) (mt_log (mt st')) \<and> prefix (r_on_air (st_radio st)) (r_on_air (st_radio st'))"

lemma keeps_refl [simp, intro]: "keeps st st"
  by (simp add: keeps_def)

lemma keeps_trans [trans]: "keeps st st' \<Longrightarrow> keeps st' st'' \<Longrightarrow> keeps st st''"
  unfolding keeps_def by (metis prefix_order.trans)

lemma keepsD:
  assumes "keeps st st'"
  shows "st_ch st' = st_ch st" "mt_node_id (mt st') = mt_node_id (mt st)" "mt_ch_hash (mt st') = mt_ch_hash (mt st)"
    "mt_hop_limit (mt st') = mt_hop_limit (mt st)" "mt_recv_cb (mt st') = mt_recv_cb (mt st)"
    "mt_event_cb (mt st') = mt_event_cb (mt st)" "mt_dup_cache (mt st') = mt_dup_cache (mt st)"
    "mt_dup_head (mt st') = mt_dup_head (mt st)" "mt_initialized (mt st') = mt_initialized (mt st)"
    "prefix (mt_log (mt st)) (mt_log (mt st'))" "prefix (r_on_air (st_radio st)) (r_on_air (st_radio st'))"
  using assms by (simp_all add: keeps_def)

end
