(* ===== verification/Send.thy ===== *)
theory Send
  imports Node
begin

text \<open>
  The send path: \<^verbatim>\<open>meshtastic_send_packet\<close> and its wrappers, of \<^verbatim>\<open>src/meshtastic.c\<close>,
  \<^verbatim>\<open>meshtastic_send_mesh_pb\<close>, of \<^verbatim>\<open>src/meshtastic_packet.c\<close>, and what a transport does with a
  \<^verbatim>\<open>ToRadio\<close> message of a phone, of \<^verbatim>\<open>src/meshtastic_phoneapi.c\<close>. The lemmas say when a send
  succeeds, what it puts on the air, and what it leaves alone.
\<close>

section \<open>Sending a packet\<close>

text \<open>The packet that goes out for a request: every field left at zero takes its default.\<close>

definition defaulted :: "node \<Rightarrow> u32 \<Rightarrow> packet \<Rightarrow> packet" where
  "defaulted st pid p =
     (let hl = (if p_hop_limit p = 0 then mt_hop_limit (mt st) else p_hop_limit p)
      in p\<lparr>p_from := (if p_from p = 0 then mt_node_id (mt st) else p_from p), p_id := pid, p_hop_limit := hl,
           p_hop_start := (if p_hop_start p = 0 then hl else p_hop_start p),
           p_channel_index := (if p_channel_index p = CHANNEL_INDEX_INVALID
              then word_of_nat (ct_primary_index (st_ch st)) else p_channel_index p)\<rparr>)"

definition fill_defaults :: "packet \<Rightarrow> node \<Rightarrow> packet \<times> node" where
  "fill_defaults p st =
     (let (pid, c) = (if p_id p = 0 then allocate_packet_id (mt st) else (p_id p, mt st))
      in (defaulted st pid p, set_mt c st))"

definition send_packet_prepare :: "env \<Rightarrow> packet \<Rightarrow> node \<Rightarrow> ((packet \<times> bytes) res \<times> node) option" where
  "send_packet_prepare ev p st =
     (if \<not> mt_initialized (mt st) then Some (Inl EINVAL, st)
      else if p_to p = 0 \<or> payload_args_bad p then Some (Inl EINVAL, st)
      else let (local, st) = fill_defaults p st in do {
        r \<leftarrow> build_wire_packet (ev_k ev) (ev_pb ev) (ev_psa ev) (st_db st) (st_ch st) local;
        Some (case r of Inl e \<Rightarrow> (Inl e, st) | Inr wire \<Rightarrow> (Inr (local, wire), st))
      })"

definition send_packet_complete :: "env \<Rightarrow> packet \<Rightarrow> bytes \<Rightarrow> unit res \<Rightarrow> bool \<Rightarrow> node \<Rightarrow> unit res \<times> node" where
  "send_packet_complete ev local wire tx_ret emit_done st =
     (case tx_ret of
        Inl e \<Rightarrow> (Inl e, st)
      | Inr _ \<Rightarrow>
          if \<not> emit_done then (ok, st)
          else let st = set_mt (emit_event EVENT_TX_DONE None (Some local) (mt st)) st
            in (ok, if MQTT (ev_k ev)
                    then st\<lparr>st_mqtt := mqtt_on_tx (ev_k ev) (ev_mc ev) (st_ch st) (mt st) local wire (st_mqtt st)\<rparr>
                    else st))"

definition radio_send :: "env \<Rightarrow> bytes \<Rightarrow> timeout \<Rightarrow> node \<Rightarrow> unit res \<times> node" where
  "radio_send ev wire wait st =
     (case wait of
        K_NO_WAIT \<Rightarrow> (let (ret, r) = radio_send_wire (ev_k ev) wire (st_radio st) in (ret, set_radio r st))
      | _ \<Rightarrow> (let (ret, l) = radio_send_wire_wait (ev_k ev) (ev_drv ev) wire wait (st_link st)
              in (ret, st\<lparr>st_link := l\<rparr>)))"

definition track_packet :: "env \<Rightarrow> int \<Rightarrow> packet \<Rightarrow> bytes \<Rightarrow> node \<Rightarrow> node" where
  "track_packet ev now local wire st =
     (let (rel, r) = reliable_track (ev_k ev) (ev_drv ev) now (mt st) local wire (st_rel st, st_radio st)
      in (set_radio r st)\<lparr>st_rel := rel\<rparr>)"

definition send_packet :: "env \<Rightarrow> int \<Rightarrow> packet \<Rightarrow> timeout \<Rightarrow> node \<Rightarrow> (unit res \<times> node) option" where
  "send_packet ev now p wait st = do {
     (r, st) \<leftarrow> send_packet_prepare ev p st;
     Some (case r of
        Inl e \<Rightarrow> (Inl e, st)
      | Inr (local, wire) \<Rightarrow>
          (let (ret, st) = radio_send ev wire wait st;
               (ret, st) = send_packet_complete ev local wire ret (wait = K_FOREVER) st
           in (ret, if ret = ok then track_packet ev now local wire st else st)))
   }"

definition send_data :: "env \<Rightarrow> int \<Rightarrow> u32 \<Rightarrow> u32 \<Rightarrow> bytes option \<Rightarrow> nat \<Rightarrow> timeout \<Rightarrow> node \<Rightarrow> (unit res \<times> node) option" where
  "send_data ev now dest portnum payload payload_len wait st =
     send_packet ev now (packet_zero\<lparr>p_to := dest, p_portnum := portnum, p_payload := payload,
       p_payload_len := payload_len\<rparr>) wait st"

definition send_text :: "env \<Rightarrow> int \<Rightarrow> u32 \<Rightarrow> string \<Rightarrow> node \<Rightarrow> (unit res \<times> node) option" where
  "send_text ev now dest txt st =
     (if length txt = 0 \<or> MAX_TEXT_LEN < length txt then Some (Inl EINVAL, st)
      else send_data ev now dest PORT_TEXT_MESSAGE (Some (cstr_bytes txt)) (length txt) K_FOREVER st)"

section \<open>Sending a protobuf packet\<close>

definition mesh_hash :: "channels \<Rightarrow> mt_context \<Rightarrow> mesh_packet \<Rightarrow> u8" where
  "mesh_hash t c mesh =
     (if m_channel mesh < 8 then channels_get_hash t (unat (m_channel mesh))
      else if m_channel mesh \<noteq> 0 then m_channel mesh else mt_ch_hash c)"

definition mesh_decoded_packet :: "mesh_packet \<Rightarrow> data \<Rightarrow> packet" where
  "mesh_decoded_packet mesh d = packet_zero\<lparr>
     p_from := m_from mesh, p_to := (if m_to mesh \<noteq> 0 then m_to mesh else NODE_BROADCAST), p_id := m_id mesh,
     p_portnum := d_portnum d, p_payload := Some (d_payload d), p_payload_len := length (d_payload d),
     p_data_dest := d_dest d, p_data_source := d_source d, p_request_id := d_request_id d,
     p_reply_id := d_reply_id d, p_hop_limit := m_hop_limit mesh, p_hop_start := m_hop_start mesh,
     p_channel := 0, p_channel_index := (if m_channel mesh < 8 then m_channel mesh else CHANNEL_INDEX_INVALID),
     p_want_ack := m_want_ack mesh, p_via_mqtt := m_via_mqtt mesh, p_want_response := d_want_response d,
     p_next_hop := m_next_hop mesh, p_relay_node := m_relay_node mesh\<rparr>"

text \<open>
  An encrypted packet of a phone or of the broker goes out as it is under a new header, without
  the check that the stack is initialised.
\<close>

definition send_mesh_encrypted :: "env \<Rightarrow> mesh_packet \<Rightarrow> bytes \<Rightarrow> node \<Rightarrow> unit res \<times> node" where
  "send_mesh_encrypted ev mesh enc st =
     (if PAYLOAD_MAX < length enc then (Inl EINVAL, st)
      else let hop_limit = (if m_hop_limit mesh = 0 then mt_hop_limit (mt st) else m_hop_limit mesh);
               hop_start = (if m_hop_start mesh = 0 then hop_limit else m_hop_start mesh);
               dest = (if m_to mesh \<noteq> 0 then m_to mesh else NODE_BROADCAST);
               src = (if m_from mesh \<noteq> 0 then m_from mesh else mt_node_id (mt st));
               (pid, st) = (if m_id mesh \<noteq> 0 then (m_id mesh, st)
                  else let (pid, c) = allocate_packet_id (mt st) in (pid, set_mt c st));
               hdr = \<lparr>h_dest = dest, h_src = src, h_id = pid,
                 h_flags = make_flags hop_limit hop_start (m_want_ack mesh) (m_via_mqtt mesh),
                 h_channel = mesh_hash (st_ch st) (mt st) mesh, h_next_hop = m_next_hop mesh,
                 h_relay_node = m_relay_node mesh\<rparr>;
               wire = put_header hdr @ enc;
               (ret, st) = radio_send ev wire K_FOREVER st;
               tx_packet = packet_zero\<lparr>p_from := src, p_to := dest, p_id := h_id hdr, p_hop_limit := hop_limit,
                 p_hop_start := hop_start, p_channel := h_channel hdr, p_want_ack := m_want_ack mesh,
                 p_via_mqtt := m_via_mqtt mesh, p_next_hop := m_next_hop mesh, p_relay_node := m_relay_node mesh\<rparr>
        in (ret, if ret = ok \<and> MQTT (ev_k ev)
                 then st\<lparr>st_mqtt := mqtt_on_tx (ev_k ev) (ev_mc ev) (st_ch st) (mt st) tx_packet wire (st_mqtt st)\<rparr>
                 else st))"

definition send_mesh_pb :: "env \<Rightarrow> int \<Rightarrow> mesh_packet \<Rightarrow> node \<Rightarrow> (unit res \<times> node) option" where
  "send_mesh_pb ev now mesh st =
     (case m_variant mesh of
        Decoded d \<Rightarrow> send_packet ev now (mesh_decoded_packet mesh d) K_FOREVER st
      | Encrypted enc \<Rightarrow> Some (send_mesh_encrypted ev mesh enc st)
      | Untagged _ \<Rightarrow> Some (Inl ENOTSUP, st))"

section \<open>Messages of a phone\<close>

definition res_code :: "env \<Rightarrow> unit res \<Rightarrow> int" where
  "res_code ev r = (case r of Inl e \<Rightarrow> - ev_errno ev e | Inr _ \<Rightarrow> 0)"

definition upd_phone :: "nat \<Rightarrow> (phoneapi \<times> mt_context \<Rightarrow> phoneapi \<times> mt_context) \<Rightarrow> node \<Rightarrow> node" where
  "upd_phone i f st =
     (let (api, c) = f (st_phones st ! i, mt st)
      in set_mt c st\<lparr>st_phones := (st_phones st)[i := api]\<rparr>)"

definition decode_toradio :: "env \<Rightarrow> bytes \<Rightarrow> toradio option" where
  "decode_toradio ev buf =
     (case dec_ToRadio (ev_pc ev) buf of
        Some to \<Rightarrow> Some to
      | None \<Rightarrow> if 1 < length buf \<and> last buf = 0x94 then dec_ToRadio (ev_pc ev) (butlast buf) else None)"

definition handle_toradio :: "env \<Rightarrow> int \<Rightarrow> nat \<Rightarrow> bytes \<Rightarrow> node \<Rightarrow> node option" where
  "handle_toradio ev now i buf st =
     (case decode_toradio ev buf of
        None \<Rightarrow> Some st
      | Some (TR_packet mesh) \<Rightarrow> do {
          (ret, st) \<leftarrow> send_mesh_pb ev now mesh st;
          Some (upd_phone i (enqueue_queue_status (ev_pc ev) (res_code ev ret) (m_id mesh)) st)
        }
      | Some (TR_want_config_id n) \<Rightarrow> Some (upd_phone i (\<lambda>(api, c). (enqueue_phone_config n api, c)) st)
      | Some TR_disconnect \<Rightarrow>
          Some (upd_phone i (\<lambda>(api, c). (api\<lparr>pa_disconnected := Suc (pa_disconnected api)\<rparr>, c)) st)
      | Some TR_heartbeat \<Rightarrow> Some (upd_phone i (enqueue_queue_status (ev_pc ev) 0 0) st)
      | Some (TR_other _) \<Rightarrow> Some st)"

section \<open>Callbacks and status\<close>

definition set_recv_cb :: "bool \<Rightarrow> node \<Rightarrow> node" where
  "set_recv_cb cb st = set_mt ((mt st)\<lparr>mt_recv_cb := cb\<rparr>) st"

definition set_event_cb :: "bool \<Rightarrow> node \<Rightarrow> node" where
  "set_event_cb cb st = set_mt ((mt st)\<lparr>mt_event_cb := cb\<rparr>) st"

definition get_status :: "node \<Rightarrow> status" where
  "get_status st = (mt_status (mt st))\<lparr>s_initialized := mt_initialized (mt st), s_node_id := mt_node_id (mt st)\<rparr>"

section \<open>What the radio changes\<close>

definition tx_failed_events :: "effect set" where
  "tx_failed_events = range (\<lambda>e. Event EVENT_TX_FAILED (Some e) None)"

lemma outbound_thread_log:
  "\<exists>es. mt_log (l_mt (outbound_thread k drv q l)) = mt_log (l_mt l) @ es \<and> set es \<subseteq> tx_failed_events"
proof (induction q arbitrary: l)
  case Nil
  then show ?case by simp
next
  case (Cons pkt q)
  obtain ret m where m: "radio_send_wire_now k drv pkt l = (ret, m)" by force
  obtain es where "mt_log (l_mt (outbound_thread k drv q m)) = mt_log (l_mt m) @ es" "set es \<subseteq> tx_failed_events"
    using Cons.IH [of m] by blast
  with m send_now_spec [OF m] show ?case
    by (cases ret) (auto simp: tx_failed_events_def)
qed

lemma send_wire_wait_frame:
  assumes "radio_send_wire_wait k drv pkt wait l = (ret, l')"
  shows "mt_same (l_mt l) (l_mt l') \<and> prefix (r_on_air (l_radio l)) (r_on_air (l_radio l')) \<and>
    (\<exists>es. mt_log (l_mt l') = mt_log (l_mt l) @ es \<and> set es \<subseteq> tx_failed_events)"
proof -
  have now: "mt_same (l_mt m) (l_mt l') \<and> prefix (r_on_air (l_radio m)) (r_on_air (l_radio l')) \<and>
      (\<exists>es. mt_log (l_mt l') = mt_log (l_mt m) @ es \<and> set es \<subseteq> tx_failed_events)"
    if "radio_send_wire_now k drv q m = (ret', l')" for q m ret' l'
    using send_now_spec [OF that] by (cases ret') (auto simp: tx_failed_events_def)
  have run: "mt_same (l_mt l) (l_mt (outbound_run k drv l)) \<and>
      prefix (r_on_air (l_radio l)) (r_on_air (l_radio (outbound_run k drv l))) \<and>
      (\<exists>es. mt_log (l_mt (outbound_run k drv l)) = mt_log (l_mt l) @ es \<and> set es \<subseteq> tx_failed_events)"
    using outbound_thread_spec [of "r_outbound (l_radio l)" k drv "l\<lparr>l_radio := (l_radio l)\<lparr>r_outbound := []\<rparr>\<rparr>"]
      outbound_thread_log [of k drv "r_outbound (l_radio l)" "l\<lparr>l_radio := (l_radio l)\<lparr>r_outbound := []\<rparr>\<rparr>"]
    by (auto simp: outbound_run_def prefix_def)
  have step: ?thesis if "radio_send_wire_now k drv pkt (outbound_run k drv l) = (ret, l')"
    using now [OF that] run mt_same_trans by (fastforce simp: prefix_def)
  show ?thesis
  proof (cases "pkt = [] \<or> PKT_MAX < length pkt")
    case True
    with assms show ?thesis by (auto simp: radio_send_wire_wait_def)
  next
    case len: False
    show ?thesis
    proof (cases wait)
      case K_NO_WAIT
      with assms len show ?thesis
        by (auto simp: radio_send_wire_wait_def radio_send_wire_def split: if_splits)
    next
      case K_FOREVER
      with assms len step show ?thesis by (auto simp: radio_send_wire_wait_def)
    next
      case (K_WITHIN b)
      show ?thesis
      proof (cases b)
        case True
        with assms len step K_WITHIN show ?thesis by (auto simp: radio_send_wire_wait_def)
      next
        case False
        obtain m where m: "m = (if OUTBOUND_QUEUE_DEPTH k \<le> length (r_outbound (l_radio l)) then outbound_once k drv l else l)"
          "l' = m\<lparr>l_radio := (l_radio m)\<lparr>r_outbound := r_outbound (l_radio m) @ [pkt]\<rparr>\<rparr>"
          using assms len K_WITHIN False by (auto simp: radio_send_wire_wait_def Let_def)
        have "mt_same (l_mt l) (l_mt (outbound_once k drv l)) \<and>
            prefix (r_on_air (l_radio l)) (r_on_air (l_radio (outbound_once k drv l))) \<and>
            (\<exists>es. mt_log (l_mt (outbound_once k drv l)) = mt_log (l_mt l) @ es \<and> set es \<subseteq> tx_failed_events)"
        proof (cases "r_outbound (l_radio l)")
          case Nil
          then show ?thesis by (simp add: outbound_once_def)
        next
          case (Cons q qs)
          let ?l = "l\<lparr>l_radio := (l_radio l)\<lparr>r_outbound := qs\<rparr>\<rparr>"
          obtain r m where rm: "radio_send_wire_now k drv q ?l = (r, m)" by force
          show ?thesis using now [OF rm] Cons rm by (simp add: outbound_once_def)
        qed
        with m show ?thesis by auto
      qed
    qed
  qed
qed

lemma radio_send_link:
  assumes "radio_send ev wire wait st = (ret, st')"
  obtains l where "st' = st\<lparr>st_link := l\<rparr>" "mt_same (mt st) (l_mt l)"
    "prefix (r_on_air (st_radio st)) (r_on_air (l_radio l))"
    "\<exists>es. mt_log (l_mt l) = mt_log (mt st) @ es \<and> set es \<subseteq> tx_failed_events"
proof (cases "wait = K_NO_WAIT")
  case True
  obtain r where "radio_send_wire (ev_k ev) wire (st_radio st) = (ret, r)" "st' = set_radio r st"
    using assms True by (auto simp: radio_send_def split: prod.splits)
  moreover from this have "r_on_air r = r_on_air (st_radio st)"
    by (auto simp: radio_send_wire_def split: if_splits)
  ultimately show ?thesis by (intro that [of "(st_link st)\<lparr>l_radio := r\<rparr>"]) auto
next
  case False
  then obtain l where l: "radio_send_wire_wait (ev_k ev) (ev_drv ev) wire wait (st_link st) = (ret, l)" "st' = st\<lparr>st_link := l\<rparr>"
    using assms by (cases wait) (auto simp: radio_send_def split: prod.splits)
  with send_wire_wait_frame [OF l(1)] show ?thesis by (intro that [of l]) blast+
qed

lemma keeps_link:
  assumes "mt_same (mt st) (l_mt l)" "prefix (r_on_air (st_radio st)) (r_on_air (l_radio l))"
    "\<exists>es. mt_log (l_mt l) = mt_log (mt st) @ es \<and> set es \<subseteq> tx_failed_events"
  shows "keeps st (st\<lparr>st_link := l\<rparr>)"
  using assms mt_same_fields [OF assms(1)] by (auto simp: keeps_def prefix_def)

lemma keeps_radio_send: "radio_send ev wire wait st = (ret, st') \<Longrightarrow> keeps st st'"
  by (erule radio_send_link) (simp add: keeps_link)

section \<open>What a send does\<close>

lemma allocate_same:
  "allocate_packet_id c = (pid, c') \<Longrightarrow> c' = c\<lparr>mt_next_pkt_id := mt_next_pkt_id c'\<rparr> \<and> pid \<noteq> 0"
  using allocate_packet_id_nonzero [of c] by (auto simp: allocate_packet_id_def Let_def split: if_splits)

lemma keeps_allocate [simp]: "keeps st (set_mt ((mt st)\<lparr>mt_next_pkt_id := n\<rparr>) st)"
  by (simp add: keeps_def)

lemma keeps_allocated:
  assumes "allocate_packet_id (mt st) = (pid, c)"
  shows "keeps st (set_mt c st)"
proof -
  from allocate_same [OF assms] have c: "c = (mt st)\<lparr>mt_next_pkt_id := mt_next_pkt_id c\<rparr>" by blast
  show ?thesis by (subst c) (rule keeps_allocate)
qed

lemma fill_defaults_spec:
  assumes "fill_defaults p st = (q, st')"
  obtains pid n where "q = defaulted st pid p" "st' = set_mt ((mt st)\<lparr>mt_next_pkt_id := n\<rparr>) st" "pid \<noteq> 0"
    "p_id p \<noteq> 0 \<Longrightarrow> pid = p_id p"
proof (cases "p_id p = 0")
  case True
  obtain pid c where a: "allocate_packet_id (mt st) = (pid, c)" by force
  from allocate_same [OF a] have c: "c = (mt st)\<lparr>mt_next_pkt_id := mt_next_pkt_id c\<rparr>" "pid \<noteq> 0" by blast+
  from assms True a have "q = defaulted st pid p" "st' = set_mt c st" by (auto simp: fill_defaults_def)
  with c True show ?thesis by (intro that [of pid "mt_next_pkt_id c"]) auto
next
  case False
  with assms show ?thesis
    by (intro that [of "p_id p" "mt_next_pkt_id (mt st)"]) (auto simp: fill_defaults_def)
qed

lemma defaulted_data [simp]:
  "payload_args_bad (defaulted st pid p) = payload_args_bad p" "p_to (defaulted st pid p) = p_to p"
  "p_id (defaulted st pid p) = pid" "p_want_ack (defaulted st pid p) = p_want_ack p"
  "p_portnum (defaulted st pid p) = p_portnum p"
  by (simp_all add: defaulted_def payload_args_bad_def Let_def)

text \<open>The inner structure of a send whose arguments pass the checks.\<close>

lemma send_packet_unfold:
  assumes "mt_initialized (mt st)" "p_to p \<noteq> 0" "\<not> payload_args_bad p"
    and "send_packet ev now p wait st = Some (ret, st')"
  obtains (Failed) pid n e where "pid \<noteq> 0" "p_id p \<noteq> 0 \<Longrightarrow> pid = p_id p"
      "build_wire_packet (ev_k ev) (ev_pb ev) (ev_psa ev) (st_db st) (st_ch st) (defaulted st pid p) = Some (Inl e)"
      "ret = Inl e" "st' = set_mt ((mt st)\<lparr>mt_next_pkt_id := n\<rparr>) st"
  | (Built) pid n wire tx_ret st1 where "pid \<noteq> 0" "p_id p \<noteq> 0 \<Longrightarrow> pid = p_id p"
      "build_wire_packet (ev_k ev) (ev_pb ev) (ev_psa ev) (st_db st) (st_ch st) (defaulted st pid p) = Some (Inr wire)"
      "radio_send ev wire wait (set_mt ((mt st)\<lparr>mt_next_pkt_id := n\<rparr>) st) = (tx_ret, st1)" "ret = tx_ret"
      "st' = (case tx_ret of Inl _ \<Rightarrow> st1
        | Inr _ \<Rightarrow> track_packet ev now (defaulted st pid p) wire
            (snd (send_packet_complete ev (defaulted st pid p) wire tx_ret (wait = K_FOREVER) st1)))"
proof -
  obtain q st0 where fd: "fill_defaults p st = (q, st0)" by force
  then obtain pid n where q: "q = defaulted st pid p" and st0: "st0 = set_mt ((mt st)\<lparr>mt_next_pkt_id := n\<rparr>) st"
    and pid: "pid \<noteq> 0" "p_id p \<noteq> 0 \<Longrightarrow> pid = p_id p"
    by (rule fill_defaults_spec) blast
  let ?B = "build_wire_packet (ev_k ev) (ev_pb ev) (ev_psa ev) (st_db st) (st_ch st) q"
  have B: "build_wire_packet (ev_k ev) (ev_pb ev) (ev_psa ev) (st_db st0) (st_ch st0) q = ?B" by (simp add: st0)
  obtain r where r: "?B = Some r"
    using assms fd B by (cases ?B) (simp_all add: send_packet_def send_packet_prepare_def)
  show ?thesis
  proof (cases r)
    case (Inl e)
    with assms fd B r have "ret = Inl e" "st' = st0" by (auto simp: send_packet_def send_packet_prepare_def)
    with Failed pid q r Inl st0 show ?thesis by blast
  next
    case (Inr wire)
    obtain tx_ret st1 where tx: "radio_send ev wire wait st0 = (tx_ret, st1)" by force
    have prep: "send_packet_prepare ev p st = Some (Inr (q, wire), st0)"
      using assms fd B r Inr by (simp add: send_packet_prepare_def)
    have "ret = tx_ret \<and> st' = (case tx_ret of Inl _ \<Rightarrow> st1
        | Inr _ \<Rightarrow> track_packet ev now q wire
            (snd (send_packet_complete ev q wire tx_ret (wait = K_FOREVER) st1)))"
      using assms(4) prep tx by (cases tx_ret) (auto simp: send_packet_def send_packet_complete_def Let_def)
    with Built [OF pid] q r Inr tx st0 show ?thesis by blast
  qed
qed

lemma send_packet_refused:
  "\<not> mt_initialized (mt st) \<or> p_to p = 0 \<or> payload_args_bad p \<Longrightarrow> send_packet ev now p wait st = Some (Inl EINVAL, st)"
  by (auto simp: send_packet_def send_packet_prepare_def)

lemma reliable_track_radio:
  "reliable_track k drv now c p wire (rel, r) = (rel', r') \<Longrightarrow> \<exists>n. r' = r\<lparr>r_calls := n\<rparr>"
  by (auto simp: reliable_track_def reliable_retry_delay_ms_def call_driver_def Let_def split: if_splits option.splits
    intro: exI [of _ "r_calls r"])

lemma track_packet_frame:
  obtains n rel where "track_packet ev now p wire st = (set_radio ((st_radio st)\<lparr>r_calls := n\<rparr>) st)\<lparr>st_rel := rel\<rparr>"
proof -
  obtain rel r where t: "reliable_track (ev_k ev) (ev_drv ev) now (mt st) p wire (st_rel st, st_radio st) = (rel, r)" by force
  with reliable_track_radio [OF t] that show ?thesis by (auto simp: track_packet_def)
qed

lemma keeps_track_packet: "keeps st (track_packet ev now p wire st)"
  by (rule track_packet_frame [of ev now p wire st]) (simp add: keeps_def)

lemma keeps_emit: "keeps st (set_mt (emit_event ty err pkt (mt st)) st)"
  by (simp add: keeps_def emit_event_def)

lemma keeps_mqtt: "keeps st st' \<Longrightarrow> keeps st (st'\<lparr>st_mqtt := q\<rparr>)"
  by (simp add: keeps_def)

lemma keeps_complete: "keeps st (snd (send_packet_complete ev p wire tx b st))"
  using keeps_emit [of st EVENT_TX_DONE None "Some p"]
  by (cases tx) (auto simp: send_packet_complete_def Let_def intro: keeps_mqtt)

lemma keeps_send_packet:
  assumes "send_packet ev now p wait st = Some (ret, st')"
  shows "keeps st st'"
proof (cases "mt_initialized (mt st) \<and> p_to p \<noteq> 0 \<and> \<not> payload_args_bad p")
  case False
  with assms send_packet_refused [of st p ev now wait] show ?thesis by auto
next
  case True
  then have ok: "mt_initialized (mt st)" "p_to p \<noteq> 0" "\<not> payload_args_bad p" by simp_all
  from ok assms show ?thesis
  proof (cases rule: send_packet_unfold)
    case (Failed pid n e)
    then show ?thesis by simp
  next
    case (Built pid n wire tx_ret st1)
    have st1: "keeps st st1"
      using keeps_radio_send [OF Built(4)] keeps_trans [OF keeps_allocate] by blast
    show ?thesis
    proof (cases tx_ret)
      case (Inl e)
      with Built st1 show ?thesis by simp
    next
      case (Inr u)
      with Built keeps_trans [OF st1 keeps_trans [OF keeps_complete keeps_track_packet]] show ?thesis by simp
    qed
  qed
qed

lemma send_packet_returns:
  assumes "channels_live (st_ch st)"
  shows "\<exists>ret st'. send_packet ev now p wait st = Some (ret, st')"
proof (cases "mt_initialized (mt st) \<and> p_to p \<noteq> 0 \<and> \<not> payload_args_bad p")
  case False
  then show ?thesis using send_packet_refused by blast
next
  case True
  obtain q st0 where fd: "fill_defaults p st = (q, st0)" by force
  then have "st_ch st0 = st_ch st" by (auto simp: fill_defaults_def split: prod.splits)
  then obtain r where "build_wire_packet (ev_k ev) (ev_pb ev) (ev_psa ev) (st_db st0) (st_ch st0) q = Some r"
    using build_wire_returns [OF assms] by metis
  with True fd show ?thesis by (cases r) (auto simp: send_packet_def send_packet_prepare_def split: prod.splits)
qed

lemma keeps_send_mesh_encrypted:
  assumes "send_mesh_encrypted ev mesh enc st = (ret, st')"
  shows "keeps st st'"
proof (cases "PAYLOAD_MAX < length enc")
  case True
  with assms show ?thesis by (auto simp: send_mesh_encrypted_def)
next
  case False
  obtain pid st0 where p: "(if m_id mesh \<noteq> 0 then (m_id mesh, st)
      else let (pid, c) = allocate_packet_id (mt st) in (pid, set_mt c st)) = (pid, st0)" by force
  have st0: "keeps st st0"
    using p keeps_allocated by (auto split: if_splits prod.splits)
  obtain wire tx st1 where "radio_send ev wire K_FOREVER st0 = (tx, st1)" "st' = st1 \<or> (\<exists>q. st' = st1\<lparr>st_mqtt := q\<rparr>)"
    using assms False p by (auto simp: send_mesh_encrypted_def Let_def split: prod.splits if_splits)
  with keeps_trans [OF st0 keeps_radio_send] keeps_mqtt show ?thesis by blast
qed

lemma keeps_send_mesh_pb: "send_mesh_pb ev now mesh st = Some (ret, st') \<Longrightarrow> keeps st st'"
  by (cases "m_variant mesh") (auto simp: send_mesh_pb_def intro: keeps_send_packet keeps_send_mesh_encrypted)

lemma send_mesh_pb_returns:
  "channels_live (st_ch st) \<Longrightarrow> \<exists>ret st'. send_mesh_pb ev now mesh st = Some (ret, st')"
  by (cases "m_variant mesh") (auto simp: send_mesh_pb_def intro: send_packet_returns surj_pair)

text \<open>A send that waits for ever and succeeds.\<close>

lemma radio_send_forever_ok:
  assumes "radio_send ev wire K_FOREVER st = (ok, st')"
  obtains l oks where "st' = st\<lparr>st_link := l\<rparr>" "subseq oks (r_outbound (st_radio st))"
    "r_on_air (l_radio l) = r_on_air (st_radio st) @ oks @ [wire]" "r_outbound (l_radio l) = []"
    "mt_same (mt st) (l_mt l)"
proof -
  obtain l where l: "radio_send_wire_wait (ev_k ev) (ev_drv ev) wire K_FOREVER (st_link st) = (ok, l)" "st' = st\<lparr>st_link := l\<rparr>"
    using assms by (auto simp: radio_send_def split: prod.splits)
  moreover from l(1) have "wire \<noteq> []" "length wire \<le> 255"
    by (auto simp: radio_send_wire_wait_def split: if_splits)
  ultimately show ?thesis
    using send_wire_wait_forever [of "ev_k ev" "ev_drv ev" wire "st_link st" ok l] send_wire_wait_frame [OF l(1)] that
    by auto
qed

lemma track_packet_simps [simp]:
  "mt (track_packet ev now p wire st) = mt st"
  "r_on_air (st_radio (track_packet ev now p wire st)) = r_on_air (st_radio st)"
  "r_outbound (st_radio (track_packet ev now p wire st)) = r_outbound (st_radio st)"
  "st_mqtt (track_packet ev now p wire st) = st_mqtt st"
  by (rule track_packet_frame [of ev now p wire st]; simp)+

lemma track_packet_rel:
  "st_rel (track_packet ev now p wire st) =
     fst (reliable_track (ev_k ev) (ev_drv ev) now (mt st) p wire (st_rel st, st_radio st))"
  by (simp add: track_packet_def split_beta)

lemma complete_ok:
  obtains q where "send_packet_complete ev p wire ok True st =
    (ok, set_mt (emit_event EVENT_TX_DONE None (Some p) (mt st)) st\<lparr>st_mqtt := q\<rparr>)"
proof (cases "MQTT (ev_k ev)")
  case True
  then show ?thesis by (intro that) (simp add: send_packet_complete_def Let_def)
next
  case False
  then show ?thesis by (intro that [of "st_mqtt st"]) (simp add: send_packet_complete_def Let_def)
qed

lemma send_forever_ok:
  assumes "mt_initialized (mt st)" "p_to p \<noteq> 0" "\<not> payload_args_bad p"
    and "send_packet ev now p K_FOREVER st = Some (ok, st')"
  obtains pid wire oks r where "pid \<noteq> 0" "p_id p \<noteq> 0 \<Longrightarrow> pid = p_id p"
    "build_wire_packet (ev_k ev) (ev_pb ev) (ev_psa ev) (st_db st) (st_ch st) (defaulted st pid p) = Some (Inr wire)"
    "r_on_air (st_radio st') = r_on_air (st_radio st) @ oks @ [wire]" "subseq oks (r_outbound (st_radio st))"
    "r_outbound (st_radio st') = []"
    "mt_event_cb (mt st) \<Longrightarrow> last (mt_log (mt st')) = Event EVENT_TX_DONE None (Some (defaulted st pid p))"
    "st_rel st' = fst (reliable_track (ev_k ev) (ev_drv ev) now (mt st') (defaulted st pid p) wire (st_rel st, r))"
  using assms
proof (cases rule: send_packet_unfold)
  case (Built pid n wire tx_ret st1)
  let ?st0 = "set_mt ((mt st)\<lparr>mt_next_pkt_id := n\<rparr>) st"
  let ?q = "defaulted st pid p"
  have tx: "radio_send ev wire K_FOREVER ?st0 = (ok, st1)" using Built by simp
  then obtain l oks where l: "st1 = ?st0\<lparr>st_link := l\<rparr>" "subseq oks (r_outbound (st_radio ?st0))"
    "r_on_air (l_radio l) = r_on_air (st_radio ?st0) @ oks @ [wire]" "r_outbound (l_radio l) = []"
    "mt_same (mt ?st0) (l_mt l)"
    by (rule radio_send_forever_ok)
  obtain q where q: "send_packet_complete ev ?q wire ok True st1 =
    (ok, set_mt (emit_event EVENT_TX_DONE None (Some ?q) (mt st1)) st1\<lparr>st_mqtt := q\<rparr>)"
    by (rule complete_ok)
  have st': "st' = track_packet ev now ?q wire (set_mt (emit_event EVENT_TX_DONE None (Some ?q) (mt st1)) st1\<lparr>st_mqtt := q\<rparr>)"
    using Built(6) q by (simp add: Built(5) [symmetric])
  have cb: "mt_event_cb (l_mt l) = mt_event_cb (mt st)" using mt_same_fields(4) [OF l(5)] by simp
  show ?thesis
    by (rule that [of pid wire oks "st_radio st1"])
      (use Built(1-3) l cb in \<open>simp_all add: st' track_packet_rel emit_event_def\<close>)
qed simp

text \<open>A send that does not wait hands at most one frame over, and no frame gets lost.\<close>

lemma frames_radio_send_no_wait:
  assumes "radio_send ev wire K_NO_WAIT st = (ret, st')"
  shows "frames st' = frames st @ (if ret = ok then [wire] else [])"
  using assms by (auto simp: radio_send_def radio_send_wire_def frames_def split: if_splits)

lemma frames_send_no_wait:
  assumes "send_packet ev now p K_NO_WAIT st = Some (ret, st')"
  obtains ws where "frames st' = frames st @ ws" "length ws \<le> 1"
proof (cases "mt_initialized (mt st) \<and> p_to p \<noteq> 0 \<and> \<not> payload_args_bad p")
  case False
  with assms send_packet_refused [of st p ev now K_NO_WAIT] that [of "[]"] show ?thesis by auto
next
  case True
  then have c: "mt_initialized (mt st)" "p_to p \<noteq> 0" "\<not> payload_args_bad p" by simp_all
  from c assms show ?thesis
  proof (cases rule: send_packet_unfold)
    case (Failed pid n e)
    with that [of "[]"] show ?thesis by (simp add: frames_def)
  next
    case (Built pid n wire tx_ret st1)
    have "frames st1 = frames st @ (if tx_ret = ok then [wire] else [])"
      using frames_radio_send_no_wait [OF Built(4)] by (simp add: frames_def)
    moreover have "frames st' = frames st1"
      by (cases tx_ret) (simp_all add: Built(6) frames_def send_packet_complete_def)
    ultimately show ?thesis using that [of "if tx_ret = ok then [wire] else []"] by simp
  qed
qed

section \<open>Properties\<close>

text \<open>
  C10: a packet sent with an unlimited wait. On a live channel table the call returns. When
  it reports success, the frame built from the packet, with every field left at zero filled in,
  is the newest frame on the air: the frames queued before it have been tried in order, the
  queue is empty, the application was told \<open>TX_DONE\<close>, and the packet has been handed to the
  retry table.
\<close>

theorem send_packet_on_air:
  assumes "channels_live (st_ch st)" and "mt_initialized (mt st)" and "p_to p \<noteq> 0" and "\<not> payload_args_bad p"
    and "mt_event_cb (mt st)"
  shows "\<exists>ret st' pid. send_packet ev now p K_FOREVER st = Some (ret, st') \<and>
    pid \<noteq> 0 \<and> (p_id p \<noteq> 0 \<longrightarrow> pid = p_id p) \<and>
    (ret = ok \<longrightarrow> (\<exists>wire oks.
      build_wire_packet (ev_k ev) (ev_pb ev) (ev_psa ev) (st_db st) (st_ch st) (defaulted st pid p) = Some (Inr wire) \<and>
      r_on_air (st_radio st') = r_on_air (st_radio st) @ oks @ [wire] \<and> subseq oks (r_outbound (st_radio st)) \<and>
      r_outbound (st_radio st') = [] \<and>
      last (mt_log (mt st')) = Event EVENT_TX_DONE None (Some (defaulted st pid p)) \<and>
      (\<exists>r. st_rel st' = fst (reliable_track (ev_k ev) (ev_drv ev) now (mt st') (defaulted st pid p) wire (st_rel st, r)))))"
proof -
  obtain ret st' where s: "send_packet ev now p K_FOREVER st = Some (ret, st')"
    using send_packet_returns [OF assms(1)] by blast
  show ?thesis
  proof (cases "ret = ok")
    case False
    with s show ?thesis by (intro exI [of _ ret] exI [of _ st'] exI [of _ "if p_id p = 0 then 1 else p_id p"]) simp
  next
    case True
    with s have "send_packet ev now p K_FOREVER st = Some (ok, st')" by simp
    from assms(2-4) this obtain pid wire oks r where w: "pid \<noteq> 0" "p_id p \<noteq> 0 \<Longrightarrow> pid = p_id p"
      "build_wire_packet (ev_k ev) (ev_pb ev) (ev_psa ev) (st_db st) (st_ch st) (defaulted st pid p) = Some (Inr wire)"
      "r_on_air (st_radio st') = r_on_air (st_radio st) @ oks @ [wire]" "subseq oks (r_outbound (st_radio st))"
      "r_outbound (st_radio st') = []"
      "mt_event_cb (mt st) \<Longrightarrow> last (mt_log (mt st')) = Event EVENT_TX_DONE None (Some (defaulted st pid p))"
      "st_rel st' = fst (reliable_track (ev_k ev) (ev_drv ev) now (mt st') (defaulted st pid p) wire (st_rel st, r))"
      by (rule send_forever_ok) blast
    with s True assms(5) show ?thesis
      by (intro exI [of _ ret] exI [of _ st'] exI [of _ pid] conjI impI exI [of _ wire] exI [of _ oks] exI [of _ r]) auto
  qed
qed

text \<open>
  C11: a packet that could not be sent leaves no trace of having been sent. The retry table and
  the publish queue are as before and the application hears of nothing but frames the radio
  refused. A sender that does not wait leaves queue and air unchanged. A call the argument checks
  refuse changes nothing at all.
\<close>

theorem send_packet_failure:
  assumes "send_packet ev now p wait st = Some (Inl e, st')"
  shows "st_rel st' = st_rel st \<and> st_mqtt st' = st_mqtt st \<and> st_db st' = st_db st \<and> st_phones st' = st_phones st \<and>
    (\<exists>es. mt_log (mt st') = mt_log (mt st) @ es \<and> set es \<subseteq> range (\<lambda>e. Event EVENT_TX_FAILED (Some e) None)) \<and>
    (wait = K_NO_WAIT \<longrightarrow> frames st' = frames st) \<and>
    (\<not> mt_initialized (mt st) \<or> p_to p = 0 \<or> payload_args_bad p \<longrightarrow> e = EINVAL \<and> st' = st)"
proof (cases "mt_initialized (mt st) \<and> p_to p \<noteq> 0 \<and> \<not> payload_args_bad p")
  case False
  with send_packet_refused [of st p ev now wait] assms show ?thesis by auto
next
  case True
  then have c: "mt_initialized (mt st)" "p_to p \<noteq> 0" "\<not> payload_args_bad p" by simp_all
  from c assms show ?thesis
  proof (cases rule: send_packet_unfold)
    case (Failed pid n e)
    with c show ?thesis by (simp add: frames_def)
  next
    case (Built pid n wire tx_ret st1)
    let ?st0 = "set_mt ((mt st)\<lparr>mt_next_pkt_id := n\<rparr>) st"
    have tx: "radio_send ev wire wait ?st0 = (Inl e, st')" using Built(4,6) by (simp add: Built(5) [symmetric])
    have "frames st' = frames ?st0" if "wait = K_NO_WAIT"
      using tx that by (auto simp: frames_def radio_send_def radio_send_wire_def split: if_splits)
    then have nw: "wait = K_NO_WAIT \<longrightarrow> frames st' = frames st" by (simp add: frames_def)
    from tx obtain l where "st' = ?st0\<lparr>st_link := l\<rparr>"
      "\<exists>es. mt_log (l_mt l) = mt_log (mt ?st0) @ es \<and> set es \<subseteq> tx_failed_events"
      by (rule radio_send_link) blast
    with nw c show ?thesis by (simp add: tx_failed_events_def)
  qed
qed

end
