(* ===== verification/Modules.thy ===== *)
theory Modules
  imports Send "HOL-Library.Signed_Division"
begin

text \<open>
  The port modules and their dispatcher: \<^verbatim>\<open>src/meshtastic_modules.c\<close>, \<^verbatim>\<open>src/meshtastic_message.c\<close>,
  \<^verbatim>\<open>src/meshtastic_nodeinfo.c\<close>, \<^verbatim>\<open>src/meshtastic_metrics.c\<close>, \<^verbatim>\<open>src/meshtastic_environment.c\<close>,
  \<^verbatim>\<open>src/meshtastic_telemetry_common.c\<close> and \<^verbatim>\<open>src/meshtastic_gnss.c\<close>. A module has a handler for
  incoming packets, a function that builds the reply to a request, or both; the linker sorts the
  module table by name.

  Sensor and GNSS drivers are parameters: their answers are fields of the surroundings.
\<close>

abbreviation (input) ENODATA :: errno where "ENODATA \<equiv> EOTHER 61"

section \<open>Rate limits and peer tables\<close>

definition interval_elapsed :: "bool \<Rightarrow> int \<Rightarrow> int \<Rightarrow> int \<Rightarrow> bool" where
  "interval_elapsed valid last_ms now_ms interval_ms \<longleftrightarrow> \<not> valid \<or> now_ms - last_ms \<ge> interval_ms"

text \<open>The slot of a node: its own, else the first free one, else the one seen longest ago.\<close>

fun peer_find :: "u32 \<Rightarrow> nat \<Rightarrow> nodeinfo_peer list \<Rightarrow> nat \<Rightarrow> int \<Rightarrow> bool \<times> nat" where
  "peer_find node i [] oldest oldest_ms = (False, oldest)"
| "peer_find node i (p # ps) oldest oldest_ms =
     (if np_node p = node then (True, i)
      else if np_node p = 0 then (False, i)
      else if np_last_seen_ms p < oldest_ms then peer_find node (Suc i) ps i (np_last_seen_ms p)
      else peer_find node (Suc i) ps oldest oldest_ms)"

definition fresh_peer :: "u32 \<Rightarrow> int \<Rightarrow> nodeinfo_peer" where
  "fresh_peer node now = \<lparr>np_node = node, np_last_seen_ms = now, np_last_request_ms = 0, np_last_reply_ms = 0,
     np_has_user = False, np_request_time_valid = False, np_reply_time_valid = False\<rparr>"

definition peer_get :: "u32 \<Rightarrow> int \<Rightarrow> nodeinfo_peer list \<Rightarrow> nat \<times> nodeinfo_peer list" where
  "peer_get node now peers =
     (let (found, i) = peer_find node 0 peers 0 (np_last_seen_ms (peers ! 0))
      in (i, peers[i := (if found then (peers ! i)\<lparr>np_last_seen_ms := now\<rparr> else fresh_peer node now)]))"

text \<open>
  The tables of the two telemetry modules: the node's own slot, else the first one that has
  not replied yet, else the one that replied longest ago.
\<close>

fun telemetry_peer_find :: "u32 \<Rightarrow> nat \<Rightarrow> telemetry_peer list \<Rightarrow> nat \<Rightarrow> int \<Rightarrow> bool \<times> nat" where
  "telemetry_peer_find from i [] oldest oldest_ms = (False, oldest)"
| "telemetry_peer_find from i (p # ps) oldest oldest_ms =
     (if tp_from p = from then (True, i)
      else if \<not> tp_reply_time_valid p then (False, i)
      else if tp_last_reply_ms p < oldest_ms then telemetry_peer_find from (Suc i) ps i (tp_last_reply_ms p)
      else telemetry_peer_find from (Suc i) ps oldest oldest_ms)"

definition telemetry_peer_get :: "u32 \<Rightarrow> telemetry_peer list \<Rightarrow> nat \<times> telemetry_peer list" where
  "telemetry_peer_get from peers =
     (let (found, i) = telemetry_peer_find from 0 peers 0 INT64_MAX
      in (i, if found then peers
             else peers[i := (peers ! i)\<lparr>tp_from := from, tp_reply_time_valid := False\<rparr>]))"

text \<open>Whether a reply to a node is due; the time of the reply is recorded if so.\<close>

definition telemetry_reply_due :: "env \<Rightarrow> int \<Rightarrow> u32 \<Rightarrow> telemetry_peer list \<Rightarrow> bool \<times> telemetry_peer list" where
  "telemetry_reply_due ev now from peers =
     (let (i, peers) = telemetry_peer_get from peers; p = peers ! i
      in if \<not> interval_elapsed (tp_reply_time_valid p) (tp_last_reply_ms p) now
                (int (TELEMETRY_REPLY_SUPPRESS_SEC (ev_m ev)) * 1000)
         then (False, peers)
         else (True, peers[i := p\<lparr>tp_reply_time_valid := True, tp_last_reply_ms := now\<rparr>]))"

section \<open>Text messages and the node database\<close>

definition module_message_on_packet :: "packet \<Rightarrow> node \<Rightarrow> node" where
  "module_message_on_packet p st =
     (if p_payload p = None \<or> p_payload_len p = 0 then st
      else if p_portnum p \<noteq> PORT_TEXT_MESSAGE then st
      else if p_from p = 0 \<or> p_from p = mt_node_id (mt st) then st
      else if \<not> (p_to p = mt_node_id (mt st) \<or> p_to p = NODE_BROADCAST) then st
      else set_mt (emit_event EVENT_TEXT_MESSAGE None (Some p) (mt st)) st)"

definition module_nodedb :: "env \<Rightarrow> int \<Rightarrow> packet \<Rightarrow> node \<Rightarrow> node" where
  "module_nodedb ev now p st =
     st\<lparr>st_db := module_nodedb_on_packet (ev_pb ev) (mt_node_id (mt st)) now p (st_db st)\<rparr>"

section \<open>NodeInfo\<close>

definition nodeinfo_build_packet :: "env \<Rightarrow> u32 \<Rightarrow> bool \<Rightarrow> u8 \<Rightarrow> u32 \<Rightarrow> node \<Rightarrow> packet res" where
  "nodeinfo_build_packet ev dest want_response chan response_to_id st =
     (case pb_encode (enc_User (ev_pb ev)) MAX_PAYLOAD_LEN (fill_user (ev_hw_model ev) (st_ch st) (mt st)) of
        None \<Rightarrow> Inl ENOMEM
      | Some payload \<Rightarrow> Inr (packet_zero\<lparr>p_to := dest, p_portnum := PORT_NODEINFO, p_payload := Some payload,
          p_payload_len := length payload, p_channel := chan, p_want_response := want_response,
          p_request_id := response_to_id\<rparr>))"

definition send_node_info_ex :: "env \<Rightarrow> int \<Rightarrow> u32 \<Rightarrow> bool \<Rightarrow> u8 \<Rightarrow> u32 \<Rightarrow> node \<Rightarrow> (unit res \<times> node) option" where
  "send_node_info_ex ev now dest want_response chan response_to_id st =
     (case nodeinfo_build_packet ev dest want_response chan response_to_id st of
        Inl e \<Rightarrow> Some (Inl e, st)
      | Inr p \<Rightarrow> send_packet ev now p K_FOREVER st)"

definition send_node_info :: "env \<Rightarrow> int \<Rightarrow> u32 \<Rightarrow> node \<Rightarrow> (unit res \<times> node) option" where
  "send_node_info ev now dest st = send_node_info_ex ev now dest False 0 0 st"

text \<open>The slot a reply goes out on: the one the packet came in on, else the primary one.\<close>

definition reply_channel :: "channels \<Rightarrow> packet \<Rightarrow> u8" where
  "reply_channel t p =
     (if p_channel_index p \<noteq> CHANNEL_INDEX_INVALID then p_channel_index p else word_of_nat (ct_primary_index t))"

text \<open>
  The locked section of the handler: the peer is noted, and the result says whether the node
  should ask it who it is.
\<close>

definition nodeinfo_note_peer :: "env \<Rightarrow> int \<Rightarrow> packet \<Rightarrow> nodeinfo_peer list \<Rightarrow> bool \<times> nodeinfo_peer list" where
  "nodeinfo_note_peer ev now p peers =
     (let is_nodeinfo = (p_portnum p = PORT_NODEINFO);
          has_user = (is_nodeinfo \<and> decode_payload (dec_User (ev_pb ev)) p \<noteq> None);
          (i, peers) = peer_get (p_from p) now peers;
          peer = (if has_user then (peers ! i)\<lparr>np_has_user := True\<rparr> else peers ! i);
          should_request = (\<not> np_has_user peer \<and> \<not> is_nodeinfo \<and>
            interval_elapsed (np_request_time_valid peer) (np_last_request_ms peer) now
              (int (NODEINFO_UNKNOWN_SUPPRESS_SEC (ev_m ev)) * 1000));
          peer = (if should_request then peer\<lparr>np_request_time_valid := True, np_last_request_ms := now\<rparr> else peer)
      in (should_request, peers[i := peer]))"

definition module_nodeinfo_on_packet :: "env \<Rightarrow> int \<Rightarrow> packet \<Rightarrow> node \<Rightarrow> node option" where
  "module_nodeinfo_on_packet ev now p st =
     (if p_from p = 0 \<or> p_from p = mt_node_id (mt st) then Some st
      else let (should_request, peers) = nodeinfo_note_peer ev now p (st_peers st);
               st = st\<lparr>st_peers := peers\<rparr>
        in if \<not> should_request then Some st
           else case nodeinfo_build_packet ev (p_from p) True (reply_channel (st_ch st) p) 0 st of
               Inl _ \<Rightarrow> Some st
             | Inr q \<Rightarrow> map_option snd (send_packet ev now q K_NO_WAIT st))"

definition module_nodeinfo_alloc_reply :: "env \<Rightarrow> int \<Rightarrow> packet \<Rightarrow> node \<Rightarrow> packet res \<times> node" where
  "module_nodeinfo_alloc_reply ev now req st =
     (if p_from req = 0 \<or> p_from req = mt_node_id (mt st) then (Inl EINVAL, st)
      else let (i, peers) = peer_get (p_from req) now (st_peers st); peer = peers ! i
        in if \<not> interval_elapsed (np_reply_time_valid peer) (np_last_reply_ms peer) now
                 (int (NODEINFO_REPLY_SUPPRESS_SEC (ev_m ev)) * 1000)
           then (Inl ENOENT, st\<lparr>st_peers := peers\<rparr>)
           else let st = st\<lparr>st_peers := peers[i := peer\<lparr>np_reply_time_valid := True, np_last_reply_ms := now\<rparr>]\<rparr>
             in (nodeinfo_build_packet ev (p_from req) False (p_channel req) (p_id req) st, st))"

section \<open>Telemetry\<close>

definition telemetry_decode_request :: "env \<Rightarrow> packet \<Rightarrow> telemetry option" where
  "telemetry_decode_request ev p =
     (case p_payload p of
        None \<Rightarrow> Some Telemetry_none
      | Some bs \<Rightarrow> if p_payload_len p = 0 then Some Telemetry_none
                  else dec_Telemetry (ev_pb ev) (take (p_payload_len p) bs))"

definition telemetry_encode_packet :: "env \<Rightarrow> u32 \<Rightarrow> u8 \<Rightarrow> u32 \<Rightarrow> telemetry \<Rightarrow> packet res" where
  "telemetry_encode_packet ev dest chan response_to_id t =
     (case pb_encode (enc_Telemetry (ev_mpb ev)) MAX_PAYLOAD_LEN t of
        None \<Rightarrow> Inl ENOMEM
      | Some payload \<Rightarrow> Inr (packet_zero\<lparr>p_to := dest, p_portnum := PORT_TELEMETRY, p_payload := Some payload,
          p_payload_len := length payload, p_channel := chan, p_want_response := False,
          p_request_id := response_to_id\<rparr>))"

definition collect_fuel_gauge :: "sensors \<Rightarrow> device_metrics \<Rightarrow> device_metrics" where
  "collect_fuel_gauge sn m =
     (if \<not> fg_ready sn then m
      else let m = (case fg_relative_pct sn of
                 Some v \<Rightarrow> m\<lparr>dm_battery_level := (True, word_of_nat (min v 100))\<rparr>
               | None \<Rightarrow> (case fg_absolute_pct sn of
                     Some v \<Rightarrow> m\<lparr>dm_battery_level := (True, word_of_nat (min v 100))\<rparr>
                   | None \<Rightarrow> m))
        in (case fg_voltage sn of Some v \<Rightarrow> m\<lparr>dm_voltage := (True, v)\<rparr> | None \<Rightarrow> m))"

definition collect_device_metrics :: "env \<Rightarrow> int \<Rightarrow> node \<Rightarrow> device_metrics" where
  "collect_device_metrics ev now st =
     (let m = device_metrics_zero\<lparr>dm_uptime_seconds := (True, uptime_seconds now)\<rparr>;
          m = collect_fuel_gauge (ev_sensors ev now) m
      in if AIRTIME (ev_k ev)
         then m\<lparr>dm_channel_utilization := (True, airtime_channel_util_percent (ev_percent ev) (l_air (st_link st))),
                dm_air_util_tx := (True, airtime_tx_util_percent (ev_percent ev) (l_air (st_link st)))\<rparr>
         else m)"

text \<open>The common end of the two telemetry senders: encode, report a failure, send.\<close>

definition send_telemetry :: "env \<Rightarrow> int \<Rightarrow> u32 \<Rightarrow> telemetry \<Rightarrow> timeout \<Rightarrow> node \<Rightarrow> (unit res \<times> node) option" where
  "send_telemetry ev now dest t wait st =
     (case pb_encode (enc_Telemetry (ev_mpb ev)) MAX_PAYLOAD_LEN t of
        None \<Rightarrow> Some (Inl ENOMEM, set_mt (emit_event EVENT_METRICS_ERROR (Some ENOMEM) None (mt st)) st)
      | Some payload \<Rightarrow> send_data ev now dest PORT_TELEMETRY (Some payload) (length payload) wait st)"

definition send_device_metrics :: "env \<Rightarrow> int \<Rightarrow> u32 \<Rightarrow> timeout \<Rightarrow> node \<Rightarrow> (unit res \<times> node) option" where
  "send_device_metrics ev now dest wait st =
     send_telemetry ev now dest (Telemetry_device_metrics (collect_device_metrics ev now st)) wait st"

definition module_device_telemetry_alloc_reply :: "env \<Rightarrow> int \<Rightarrow> packet \<Rightarrow> node \<Rightarrow> packet res \<times> node" where
  "module_device_telemetry_alloc_reply ev now req st =
     (if p_from req = 0 \<or> p_from req = mt_node_id (mt st) then (Inl EINVAL, st)
      else case telemetry_decode_request ev req of
          None \<Rightarrow> (Inl ENOENT, st)
        | Some t \<Rightarrow>
            if \<not> (case t of Telemetry_device_metrics _ \<Rightarrow> True | Telemetry_none \<Rightarrow> True | _ \<Rightarrow> False) then (Inl ENOENT, st)
            else let (due, peers) = telemetry_reply_due ev now (p_from req) (st_dev_peers st);
                     st = st\<lparr>st_dev_peers := peers\<rparr>
              in if \<not> due then (Inl ENOENT, st)
                 else (telemetry_encode_packet ev (p_from req) (p_channel req) (p_id req)
                         (Telemetry_device_metrics (collect_device_metrics ev now st)), st))"

text \<open>One quantity of the environment metrics; the temperature falls back to the die sensor.\<close>

definition collect_environment :: "sensors \<Rightarrow> environment_metrics res" where
  "collect_environment sn =
     (let put = (\<lambda>v f (m, n). case v of Some x \<Rightarrow> (f (True, x) m, Suc n) | None \<Rightarrow> (m, n));
          mn = (environment_metrics_zero, 0 :: nat);
          mn = put (case sn_ambient_temp sn of Some x \<Rightarrow> Some x | None \<Rightarrow> sn_die_temp sn)
                 (\<lambda>v m. m\<lparr>em_temperature := v\<rparr>) mn;
          mn = put (sn_humidity sn) (\<lambda>v m. m\<lparr>em_relative_humidity := v\<rparr>) mn;
          mn = put (sn_pressure sn) (\<lambda>v m. m\<lparr>em_barometric_pressure := v\<rparr>) mn;
          mn = put (sn_gas sn) (\<lambda>v m. m\<lparr>em_gas_resistance := v\<rparr>) mn;
          mn = put (sn_light sn) (\<lambda>v m. m\<lparr>em_lux := v\<rparr>) mn
      in if snd mn = 0 then Inl ENODEV else Inr (fst mn))"

definition send_environment :: "env \<Rightarrow> int \<Rightarrow> u32 \<Rightarrow> timeout \<Rightarrow> node \<Rightarrow> (unit res \<times> node) option" where
  "send_environment ev now dest wait st =
     (case collect_environment (ev_sensors ev now) of
        Inl e \<Rightarrow> Some (Inl e, set_mt (emit_event EVENT_METRICS_ERROR (Some e) None (mt st)) st)
      | Inr m \<Rightarrow> send_telemetry ev now dest (Telemetry_environment_metrics m) wait st)"

definition module_environment_telemetry_alloc_reply :: "env \<Rightarrow> int \<Rightarrow> packet \<Rightarrow> node \<Rightarrow> packet res \<times> node" where
  "module_environment_telemetry_alloc_reply ev now req st =
     (if p_from req = 0 \<or> p_from req = mt_node_id (mt st) then (Inl EINVAL, st)
      else case telemetry_decode_request ev req of
          Some (Telemetry_environment_metrics _) \<Rightarrow>
            (let (due, peers) = telemetry_reply_due ev now (p_from req) (st_env_peers st);
                 st = st\<lparr>st_env_peers := peers\<rparr>
             in if \<not> due then (Inl ENOENT, st)
                else case collect_environment (ev_sensors ev now) of
                    Inl _ \<Rightarrow> (Inl ENOENT, st)
                  | Inr m \<Rightarrow> (telemetry_encode_packet ev (p_from req) (p_channel req) (p_id req)
                                (Telemetry_environment_metrics m), st))
        | _ \<Rightarrow> (Inl ENOENT, st))"

section \<open>Position\<close>

definition fill_position :: "env \<Rightarrow> gnss_data \<Rightarrow> sent_position" where
  "fill_position ev g =
     \<lparr>pos_latitude_i = (True, signed_take_bit 31 (gd_latitude g sdiv 100)),
      pos_longitude_i = (True, signed_take_bit 31 (gd_longitude g sdiv 100)),
      pos_altitude = (True, gd_altitude g sdiv 1000), pos_time = 0, pos_location_source = 2,
      pos_precision_bits = 32, pos_altitude_source = 2,
      pos_altitude_geoidal_separation = (if gd_geoid_separation g \<noteq> 0 then (True, gd_geoid_separation g sdiv 1000) else (False, 0)),
      pos_HDOP = gd_hdop g div 10,
      pos_ground_speed = (if gd_speed g \<noteq> 0 then (True, gd_speed g div 1000) else (False, 0)),
      pos_ground_track = (if gd_bearing g \<noteq> 0 then (True, gd_bearing g div 10) else (False, 0)),
      pos_fix_quality = gd_fix_quality g,
      pos_fix_type = (case gd_fix_status g of FIX_DGNSS_FIX \<Rightarrow> 3 | FIX_NO_FIX \<Rightarrow> 0 | _ \<Rightarrow> 2),
      pos_sats_in_view = gd_satellites_cnt g, pos_next_update = GNSS_SEND_INTERVAL_SEC (ev_m ev),
      pos_seq_number = 0\<rparr>"

definition position_build_packet :: "env \<Rightarrow> u32 \<Rightarrow> bool \<Rightarrow> u8 \<Rightarrow> u32 \<Rightarrow> node \<Rightarrow> packet res \<times> node" where
  "position_build_packet ev dest want_response chan response_to_id st =
     (if \<not> gs_has_fix (st_gnss st) then (Inl ENODATA, st)
      else let seq = gs_seq (st_gnss st) + 1;
               st = st\<lparr>st_gnss := (st_gnss st)\<lparr>gs_seq := seq\<rparr>\<rparr>;
               pos = (fill_position ev (gs_data (st_gnss st)))\<lparr>pos_seq_number := seq\<rparr>
        in (case pb_encode (enc_Position (ev_mpb ev)) MAX_PAYLOAD_LEN pos of
              None \<Rightarrow> Inl ENOMEM
            | Some payload \<Rightarrow> Inr (packet_zero\<lparr>p_to := dest, p_portnum := PORT_POSITION, p_payload := Some payload,
                p_payload_len := length payload, p_channel := chan, p_want_response := want_response,
                p_request_id := response_to_id\<rparr>), st))"

definition gnss_get_last_position :: "env \<Rightarrow> node \<Rightarrow> sent_position res" where
  "gnss_get_last_position ev st =
     (if \<not> GNSS_ALIAS (ev_m ev) then Inl ENOTSUP
      else if \<not> gs_has_fix (st_gnss st) then Inl ENODATA
      else Inr (fill_position ev (gs_data (st_gnss st))))"

definition send_position :: "env \<Rightarrow> int \<Rightarrow> u32 \<Rightarrow> node \<Rightarrow> (unit res \<times> node) option" where
  "send_position ev now dest st =
     (case position_build_packet ev dest False 0 0 st of
        (Inl e, st) \<Rightarrow> Some (Inl e, st)
      | (Inr p, st) \<Rightarrow> send_packet ev now p K_FOREVER st)"

text \<open>The position handler only logs what it decoded.\<close>

definition module_position_alloc_reply :: "env \<Rightarrow> int \<Rightarrow> packet \<Rightarrow> node \<Rightarrow> packet res \<times> node" where
  "module_position_alloc_reply ev now req st =
     (if p_from req = 0 \<or> p_from req = mt_node_id (mt st) then (Inl EINVAL, st)
      else if \<not> interval_elapsed (gs_reply_time_valid (st_gnss st)) (gs_last_reply_ms (st_gnss st)) now
             (int (GNSS_REPLY_SUPPRESS_SEC (ev_m ev)) * 1000)
      then (Inl ENOENT, st)
      else let st = st\<lparr>st_gnss := (st_gnss st)\<lparr>gs_reply_time_valid := True, gs_last_reply_ms := now\<rparr>\<rparr>;
               (ret, st) = position_build_packet ev (p_from req) False (p_channel req) (p_id req) st
        in (if ret = Inl ENODATA then Inl ENOENT else ret, st))"

definition position_perhaps_auto_send :: "env \<Rightarrow> int \<Rightarrow> gnss_state \<Rightarrow> gnss_state" where
  "position_perhaps_auto_send ev now g =
     (if \<not> GNSS_AUTO_SEND (ev_m ev) then g
      else if now - gs_last_sent_ms g < int (GNSS_SEND_INTERVAL_SEC (ev_m ev)) * 1000 \<or>
              now - gs_last_attempt_ms g < int (GNSS_RETRY_INTERVAL_SEC (ev_m ev)) * 1000 \<or> gs_work_submitted g
      then g
      else g\<lparr>gs_last_attempt_ms := now, gs_work_submitted := True\<rparr>)"

definition gnss_data_cb :: "env \<Rightarrow> int \<Rightarrow> gnss_data \<Rightarrow> node \<Rightarrow> node" where
  "gnss_data_cb ev now g st =
     (if gd_fix_status g = FIX_NO_FIX then st
      else let st = st\<lparr>st_gnss := position_perhaps_auto_send ev now ((st_gnss st)\<lparr>gs_data := g, gs_has_fix := True\<rparr>)\<rparr>
        in set_mt (emit_event EVENT_GNSS_FIX None None (mt st)) st)"

text \<open>The work item: it is no longer busy once its handler has returned.\<close>

definition position_work_handler :: "env \<Rightarrow> int \<Rightarrow> node \<Rightarrow> node option" where
  "position_work_handler ev now st = do {
     (ret, st) \<leftarrow> send_position ev now NODE_BROADCAST st;
     let st = st\<lparr>st_gnss := (st_gnss st)\<lparr>gs_work_submitted := False\<rparr>\<rparr>;
     Some (if ret = ok then st\<lparr>st_gnss := (st_gnss st)\<lparr>gs_last_sent_ms := now\<rparr>\<rparr> else st)
   }"

definition gnss_init :: "env \<Rightarrow> gnss_state \<Rightarrow> gnss_state" where
  "gnss_init ev g = g\<lparr>gs_last_sent_ms := - (int (GNSS_SEND_INTERVAL_SEC (ev_m ev)) * 1000),
     gs_last_attempt_ms := - (int (GNSS_RETRY_INTERVAL_SEC (ev_m ev)) * 1000)\<rparr>"

section \<open>The dispatcher\<close>

record module =
  mod_name :: string
  mod_portnum :: u32
  mod_all_packets :: bool
  mod_on_packet :: "(env \<Rightarrow> int \<Rightarrow> packet \<Rightarrow> node \<Rightarrow> node option) option"
  mod_alloc_reply :: "(env \<Rightarrow> int \<Rightarrow> packet \<Rightarrow> node \<Rightarrow> packet res \<times> node) option"

definition module_table :: "env \<Rightarrow> module list" where
  "module_table ev =
     (if DEVICE_METRICS (ev_m ev) \<and> TELEMETRY_WANT_RESPONSE (ev_m ev)
      then [\<lparr>mod_name = ''device_telemetry'', mod_portnum = PORT_TELEMETRY, mod_all_packets = False,
             mod_on_packet = None, mod_alloc_reply = Some module_device_telemetry_alloc_reply\<rparr>] else []) @
     (if ENVIRONMENT_METRICS (ev_m ev) \<and> TELEMETRY_WANT_RESPONSE (ev_m ev)
      then [\<lparr>mod_name = ''environment_telemetry'', mod_portnum = PORT_TELEMETRY, mod_all_packets = False,
             mod_on_packet = None, mod_alloc_reply = Some module_environment_telemetry_alloc_reply\<rparr>] else []) @
     (if MESSAGE (ev_m ev)
      then [\<lparr>mod_name = ''message'', mod_portnum = PORT_TEXT_MESSAGE, mod_all_packets = False,
             mod_on_packet = Some (\<lambda>ev now p st. Some (module_message_on_packet p st)), mod_alloc_reply = None\<rparr>] else []) @
     (if NODEDB (ev_k ev)
      then [\<lparr>mod_name = ''nodedb'', mod_portnum = 0, mod_all_packets = True,
             mod_on_packet = Some (\<lambda>ev now p st. Some (module_nodedb ev now p st)), mod_alloc_reply = None\<rparr>] else []) @
     (if NODEINFO (ev_m ev)
      then [\<lparr>mod_name = ''nodeinfo'', mod_portnum = PORT_NODEINFO, mod_all_packets = True,
             mod_on_packet = Some module_nodeinfo_on_packet, mod_alloc_reply = Some module_nodeinfo_alloc_reply\<rparr>] else []) @
     (if GNSS (ev_k ev)
      then [\<lparr>mod_name = ''position'', mod_portnum = PORT_POSITION, mod_all_packets = False,
             mod_on_packet = Some (\<lambda>ev now p st. Some st), mod_alloc_reply = Some module_position_alloc_reply\<rparr>] else [])"

fun run_on_packet :: "env \<Rightarrow> int \<Rightarrow> packet \<Rightarrow> module list \<Rightarrow> node \<Rightarrow> node option" where
  "run_on_packet ev now p [] st = Some st"
| "run_on_packet ev now p (m # ms) st =
     (case mod_on_packet m of
        None \<Rightarrow> run_on_packet ev now p ms st
      | Some f \<Rightarrow> if mod_all_packets m \<or> mod_portnum m = p_portnum p
                  then f ev now p st \<bind> run_on_packet ev now p ms
                  else run_on_packet ev now p ms st)"

text \<open>The first module of the port that does not decline; \<open>None\<close> when all do.\<close>

fun first_reply :: "env \<Rightarrow> int \<Rightarrow> packet \<Rightarrow> module list \<Rightarrow> node \<Rightarrow> packet res option \<times> node" where
  "first_reply ev now p [] st = (None, st)"
| "first_reply ev now p (m # ms) st =
     (case mod_alloc_reply m of
        None \<Rightarrow> first_reply ev now p ms st
      | Some f \<Rightarrow>
          if mod_portnum m \<noteq> p_portnum p then first_reply ev now p ms st
          else let (ret, st) = f ev now p st
            in if ret = Inl ENOENT then first_reply ev now p ms st else (Some ret, st))"

definition packet_set_reply_to :: "packet \<Rightarrow> packet \<Rightarrow> packet" where
  "packet_set_reply_to reply req =
     (let reply = reply\<lparr>p_to := p_from req\<rparr>;
          reply = (if p_channel_index req \<noteq> CHANNEL_INDEX_INVALID then reply\<lparr>p_channel_index := p_channel_index req\<rparr>
                   else if p_channel req \<noteq> 0 then reply\<lparr>p_channel := p_channel req\<rparr> else reply)
      in reply\<lparr>p_request_id := p_id req, p_reply_id := 0, p_want_response := False\<rparr>)"

definition dispatch_modules :: "env \<Rightarrow> int \<Rightarrow> packet \<Rightarrow> node \<Rightarrow> node option" where
  "dispatch_modules ev now p st = do {
     st \<leftarrow> run_on_packet ev now p (module_table ev) st;
     if p_to p \<noteq> mt_node_id (mt st) \<or> \<not> p_want_response p then Some st
     else case first_reply ev now p (module_table ev) st of
         (Some (Inr reply), st) \<Rightarrow>
           map_option snd (send_packet ev now (packet_set_reply_to reply p) K_NO_WAIT st)
       | (_, st) \<Rightarrow> Some st
   }"

section \<open>Packet handlers\<close>

text \<open>
  The contract between the dispatcher and whatever handles a packet: on a live channel table the
  handler returns, and it leaves identity, channels and duplicate cache alone.
\<close>

locale packet_handler =
  fixes handle :: "env \<Rightarrow> int \<Rightarrow> packet \<Rightarrow> node \<Rightarrow> node option"
  assumes returns: "channels_live (st_ch st) \<Longrightarrow> \<exists>st'. handle ev now p st = Some st'"
    and keeps: "handle ev now p st = Some st' \<Longrightarrow> keeps st st'"
begin

lemma total:
  assumes "channels_live (st_ch st)"
  obtains st' where "handle ev now p st = Some st'" "keeps st st'" "channels_live (st_ch st')"
  using returns [OF assms, of ev now p] keeps keepsD(1) assms that by metis

lemma all_packets:
  assumes "channels_live (st_ch st)"
  shows "\<exists>st'. fold (\<lambda>p s. s \<bind> handle ev now p) ps (Some st) = Some st' \<and> keeps st st'"
  using assms
proof (induction ps arbitrary: st)
  case Nil
  then show ?case by simp
next
  case (Cons p ps)
  obtain st1 where st1: "handle ev now p st = Some st1" "keeps st st1" "channels_live (st_ch st1)"
    using total [OF Cons.prems] by blast
  with Cons.IH [of st1] keeps_trans show ?case by auto
qed

end

locale handler_pair = first: packet_handler f + second: packet_handler g
  for f :: "env \<Rightarrow> int \<Rightarrow> packet \<Rightarrow> node \<Rightarrow> node option" and g :: "env \<Rightarrow> int \<Rightarrow> packet \<Rightarrow> node \<Rightarrow> node option"

sublocale handler_pair \<subseteq> seq: packet_handler "\<lambda>ev now p st. f ev now p st \<bind> g ev now p"
proof
  fix st :: node and ev now p
  assume "channels_live (st_ch st)"
  then obtain st1 where "f ev now p st = Some st1" "channels_live (st_ch st1)" by (rule first.total)
  then show "\<exists>st'. f ev now p st \<bind> g ev now p = Some st'" using second.returns by simp
next
  fix st st' :: node and ev now p
  assume "f ev now p st \<bind> g ev now p = Some st'"
  then show "keeps st st'"
    by (auto simp: bind_eq_Some_conv intro: keeps_trans first.keeps second.keeps)
qed

lemma keeps_peers [simp]:
  "keeps st (st'\<lparr>st_peers := x\<rparr>) = keeps st st'" "keeps st (st'\<lparr>st_dev_peers := y\<rparr>) = keeps st st'"
  "keeps st (st'\<lparr>st_env_peers := y\<rparr>) = keeps st st'" "keeps st (st'\<lparr>st_gnss := g\<rparr>) = keeps st st'"
  "keeps st (st'\<lparr>st_db := d\<rparr>) = keeps st st'" "keeps st (st'\<lparr>st_phones := a\<rparr>) = keeps st st'"
  "keeps st (st'\<lparr>st_rel := r\<rparr>) = keeps st st'" "keeps st (st'\<lparr>st_mqtt := q\<rparr>) = keeps st st'"
  "keeps (st\<lparr>st_peers := x\<rparr>) st' = keeps st st'"
  by (simp_all add: keeps_def)

lemma frames_modules [simp]:
  "frames (st\<lparr>st_peers := x\<rparr>) = frames st" "frames (st\<lparr>st_dev_peers := y\<rparr>) = frames st"
  "frames (st\<lparr>st_env_peers := y\<rparr>) = frames st" "frames (st\<lparr>st_gnss := g\<rparr>) = frames st"
  "frames (st\<lparr>st_db := d\<rparr>) = frames st" "frames (set_mt c st) = frames st"
  by (simp_all add: frames_def)

lemma message_frame:
  "keeps st (module_message_on_packet p st)" "frames (module_message_on_packet p st) = frames st"
  by (auto simp: module_message_on_packet_def intro: keeps_emit)

lemma nodeinfo_request:
  assumes "module_nodeinfo_on_packet ev now p st = Some st'"
  obtains (Quiet) peers where "st' = st\<lparr>st_peers := peers\<rparr>"
  | (Asks) peers q ret where "send_packet ev now q K_NO_WAIT (st\<lparr>st_peers := peers\<rparr>) = Some (ret, st')"
      "p_to q = p_from p" "p_portnum q = PORT_NODEINFO" "p_want_response q" "p_request_id q = 0" "\<not> p_want_ack q"
proof (cases "p_from p = 0 \<or> p_from p = mt_node_id (mt st)")
  case True
  with assms show ?thesis by (intro Quiet [of "st_peers st"]) (auto simp: module_nodeinfo_on_packet_def)
next
  case False
  obtain b peers where np: "nodeinfo_note_peer ev now p (st_peers st) = (b, peers)" by force
  let ?st = "st\<lparr>st_peers := peers\<rparr>"
  let ?B = "nodeinfo_build_packet ev (p_from p) True (reply_channel (st_ch st) p) 0 ?st"
  have step: "(if \<not> b then Some ?st else case ?B of Inl _ \<Rightarrow> Some ?st
      | Inr q \<Rightarrow> map_option snd (send_packet ev now q K_NO_WAIT ?st)) = Some st'"
    using assms False np by (cases b) (simp_all add: module_nodeinfo_on_packet_def Let_def cong: sum.case_cong)
  show ?thesis
  proof (cases "\<exists>q. b \<and> ?B = Inr q")
    case True
    then obtain q where q: "b" "?B = Inr q" by blast
    then obtain ret where "send_packet ev now q K_NO_WAIT ?st = Some (ret, st')" using step by auto
    moreover have "p_to q = p_from p \<and> p_portnum q = PORT_NODEINFO \<and> p_want_response q \<and> p_request_id q = 0 \<and>
        \<not> p_want_ack q"
      using q(2) by (auto simp: nodeinfo_build_packet_def packet_zero_def split: option.splits)
    ultimately show ?thesis using Asks by blast
  next
    case False
    with step have "st' = ?st" by (cases b; cases ?B) auto
    then show ?thesis by (rule Quiet)
  qed
qed

lemma nodeinfo_returns:
  assumes "channels_live (st_ch st)"
  shows "\<exists>st'. module_nodeinfo_on_packet ev now p st = Some st'"
proof -
  obtain b peers where np: "nodeinfo_note_peer ev now p (st_peers st) = (b, peers)" by force
  let ?st = "st\<lparr>st_peers := peers\<rparr>"
  show ?thesis
  proof (cases "nodeinfo_build_packet ev (p_from p) True (reply_channel (st_ch st) p) 0 ?st")
    case (Inl e)
    with np show ?thesis by (simp add: module_nodeinfo_on_packet_def Let_def)
  next
    case (Inr q)
    obtain ret st' where "send_packet ev now q K_NO_WAIT ?st = Some (ret, st')"
      using send_packet_returns [of ?st ev now q K_NO_WAIT] assms by auto
    with np Inr show ?thesis by (simp add: module_nodeinfo_on_packet_def Let_def)
  qed
qed

interpretation nodeinfo: packet_handler module_nodeinfo_on_packet
proof
  fix st st' :: node and ev now p
  assume "module_nodeinfo_on_packet ev now p st = Some st'"
  then show "keeps st st'"
    by (cases rule: nodeinfo_request) (auto dest: keeps_send_packet)
qed (rule nodeinfo_returns)

text \<open>Every handler of the module table keeps the contract.\<close>

definition handler_ok :: "module \<Rightarrow> bool" where
  "handler_ok m \<longleftrightarrow> (\<forall>f. mod_on_packet m = Some f \<longrightarrow> packet_handler f)"

lemma module_table_handlers: "m \<in> set (module_table ev) \<Longrightarrow> handler_ok m"
  using nodeinfo.packet_handler_axioms message_frame(1)
  by (auto simp: module_table_def handler_ok_def packet_handler_def module_nodedb_def split: if_splits)

lemma run_on_packet_ok:
  assumes "\<forall>m\<in>set ms. handler_ok m" "channels_live (st_ch st)"
  shows "\<exists>st'. run_on_packet ev now p ms st = Some st' \<and> keeps st st'"
  using assms
proof (induction ms arbitrary: st)
  case Nil
  then show ?case by simp
next
  case (Cons m ms)
  show ?case
  proof (cases "mod_on_packet m")
    case None
    with Cons show ?thesis by simp
  next
    case (Some f)
    then have f: "packet_handler f" using Cons.prems by (simp add: handler_ok_def)
    obtain st1 where st1: "f ev now p st = Some st1" "keeps st st1" "channels_live (st_ch st1)"
      using packet_handler.total [OF f Cons.prems(2)] by blast
    have "\<exists>st'. run_on_packet ev now p ms st1 = Some st' \<and> keeps st1 st'"
      using Cons.IH [of st1] Cons.prems(1) st1(3) by simp
    then obtain st2 where "run_on_packet ev now p ms st1 = Some st2" "keeps st st2" using st1(2) keeps_trans by blast
    with Some st1(1) Cons show ?thesis by auto
  qed
qed

section \<open>How much a packet can trigger\<close>

text \<open>A step that hands at most so many frames to the radio.\<close>

definition sends_at_most :: "nat \<Rightarrow> (node \<Rightarrow> node option) \<Rightarrow> bool" where
  "sends_at_most n f \<longleftrightarrow> (\<forall>st st'. f st = Some st' \<longrightarrow> (\<exists>ws. frames st' = frames st @ ws \<and> length ws \<le> n))"

lemma sends_at_mostD:
  assumes "sends_at_most n f" "f st = Some st'"
  obtains ws where "frames st' = frames st @ ws" "length ws \<le> n"
  using assms by (auto simp: sends_at_most_def)

lemma sends_bind: "sends_at_most a f \<Longrightarrow> sends_at_most b g \<Longrightarrow> sends_at_most (a + b) (\<lambda>st. f st \<bind> g)"
  unfolding sends_at_most_def bind_eq_Some_conv by (metis add_mono append.assoc length_append)

lemma sends_none: "(\<And>st st'. f st = Some st' \<Longrightarrow> frames st' = frames st) \<Longrightarrow> sends_at_most 0 f"
  by (auto simp: sends_at_most_def)

lemma run_on_packet_append:
  "run_on_packet ev now p (ms @ ns) st = run_on_packet ev now p ms st \<bind> run_on_packet ev now p ns"
  by (induction ms arbitrary: st) (auto split: option.splits Option.bind_split)

lemma sends_nodeinfo: "sends_at_most 1 (module_nodeinfo_on_packet ev now p)"
  unfolding sends_at_most_def
proof (intro allI impI)
  fix st st'
  assume "module_nodeinfo_on_packet ev now p st = Some st'"
  then show "\<exists>ws. frames st' = frames st @ ws \<and> length ws \<le> 1"
  proof (cases rule: nodeinfo_request)
    case (Asks peers q ret)
    from Asks(1) obtain ws where "frames st' = frames (st\<lparr>st_peers := peers\<rparr>) @ ws" "length ws \<le> 1"
      by (rule frames_send_no_wait)
    then show ?thesis by auto
  qed simp
qed

lemma sends_run_on_packet: "sends_at_most 1 (run_on_packet ev now p (module_table ev))"
proof -
  have bind0: "sends_at_most n (\<lambda>st. f st \<bind> g)" if "sends_at_most 0 f" "sends_at_most n g" for f g n
    using sends_bind [OF that] by simp
  have bind1: "sends_at_most n (\<lambda>st. f st \<bind> g)" if "sends_at_most n f" "sends_at_most 0 g" for f g n
    using sends_bind [OF that] by simp
  show ?thesis
    unfolding module_table_def run_on_packet_append
    by (intro bind0 sends_none bind1)
      (use sends_nodeinfo [of ev now p] in
        \<open>auto simp: message_frame module_nodedb_def sends_at_most_def split: if_splits Option.bind_splits\<close>)
qed

text \<open>Building a reply touches the tables of the modules only.\<close>

definition modules_only :: "node \<Rightarrow> node \<Rightarrow> bool" where
  "modules_only st st' \<longleftrightarrow> st' = st\<lparr>st_peers := st_peers st', st_dev_peers := st_dev_peers st',
     st_env_peers := st_env_peers st', st_gnss := st_gnss st'\<rparr>"

lemma modules_only_frame: "modules_only st st' \<Longrightarrow>
    st_link st' = st_link st \<and> st_ch st' = st_ch st \<and> st_rel st' = st_rel st \<and> keeps st st' \<and> frames st' = frames st"
  by (cases st; cases st') (simp add: modules_only_def keeps_def frames_def)

lemma modules_only_refl [simp]: "modules_only st st"
  by (simp add: modules_only_def)

lemma modules_only_trans: "modules_only st st' \<Longrightarrow> modules_only st' st'' \<Longrightarrow> modules_only st st''"
  by (cases st; cases st'; cases st'') (simp add: modules_only_def)

lemma alloc_reply_frame:
  assumes "m \<in> set (module_table ev)" "mod_alloc_reply m = Some f" "f ev now req st = (ret, st')"
  shows "modules_only st st' \<and> (p_from req = 0 \<or> p_from req = mt_node_id (mt st) \<longrightarrow> ret = Inl EINVAL)"
proof -
  have "f \<in> {module_device_telemetry_alloc_reply, module_environment_telemetry_alloc_reply,
      module_nodeinfo_alloc_reply, module_position_alloc_reply}"
    using assms(1,2) by (auto simp: module_table_def split: if_splits)
  with assms(3) show ?thesis
    by (auto simp: modules_only_def module_device_telemetry_alloc_reply_def module_environment_telemetry_alloc_reply_def
      module_nodeinfo_alloc_reply_def module_position_alloc_reply_def position_build_packet_def Let_def
      split: if_splits prod.splits option.splits telemetry.splits sum.splits)
qed

lemma first_reply_frame:
  assumes "set ms \<subseteq> set (module_table ev)" "first_reply ev now p ms st = (r, st')"
  shows "modules_only st st' \<and> (p_from p = 0 \<or> p_from p = mt_node_id (mt st) \<longrightarrow> r = None \<or> r = Some (Inl EINVAL))"
  using assms
proof (induction ms arbitrary: st)
  case Nil
  then show ?case by simp
next
  case (Cons m ms)
  show ?case
  proof (cases "mod_alloc_reply m = None \<or> mod_portnum m \<noteq> p_portnum p")
    case True
    with Cons show ?thesis by (auto split: option.splits)
  next
    case False
    then obtain f where f: "mod_alloc_reply m = Some f" by auto
    obtain ret st1 where r: "f ev now p st = (ret, st1)" by force
    note a = alloc_reply_frame [OF _ f r]
    show ?thesis
    proof (cases "ret = Inl ENOENT")
      case True
      then have "first_reply ev now p ms st1 = (r, st')" using Cons.prems f r False by simp
      then show ?thesis
        using Cons.IH [of st1] Cons.prems(1) a True modules_only_trans modules_only_frame [of st st1] by auto
    next
      case no: False
      with Cons.prems f r False have "r = Some ret" "st' = st1" by auto
      with a Cons.prems(1) show ?thesis by auto
    qed
  qed
qed

lemma run_on_packet_keeps:
  assumes "\<forall>m\<in>set ms. handler_ok m" "run_on_packet ev now p ms st = Some st'"
  shows "keeps st st'"
  using assms
proof (induction ms arbitrary: st)
  case Nil
  then show ?case by simp
next
  case (Cons m ms)
  then consider "run_on_packet ev now p ms st = Some st'"
    | f st1 where "mod_on_packet m = Some f" "f ev now p st = Some st1" "run_on_packet ev now p ms st1 = Some st'"
    by (auto split: option.splits if_splits simp: bind_eq_Some_conv)
  then show ?case
  proof cases
    case 1
    with Cons show ?thesis by simp
  next
    case (2 f st1)
    then have "packet_handler f" using Cons.prems by (simp add: handler_ok_def)
    then have "keeps st st1" using 2(2) by (rule packet_handler.keeps)
    with 2 Cons keeps_trans show ?thesis by auto
  qed
qed

lemma dispatch_steps:
  assumes "dispatch_modules ev now p st = Some st'"
  obtains (Done) "run_on_packet ev now p (module_table ev) st = Some st'" "keeps st st'"
  | (Declined) st1 r where "run_on_packet ev now p (module_table ev) st = Some st1" "keeps st st1"
      "first_reply ev now p (module_table ev) st1 = (r, st')" "modules_only st1 st'"
  | (Replied) st1 st2 reply ret where "run_on_packet ev now p (module_table ev) st = Some st1" "keeps st st1"
      "p_to p = mt_node_id (mt st)" "p_want_response p"
      "first_reply ev now p (module_table ev) st1 = (Some (Inr reply), st2)" "modules_only st1 st2"
      "send_packet ev now (packet_set_reply_to reply p) K_NO_WAIT st2 = Some (ret, st')"
proof -
  obtain st1 where st1: "run_on_packet ev now p (module_table ev) st = Some st1"
    using assms by (auto simp: dispatch_modules_def bind_eq_Some_conv)
  then have k: "keeps st st1" using run_on_packet_keeps module_table_handlers by blast
  obtain r st2 where st2: "first_reply ev now p (module_table ev) st1 = (r, st2)" by force
  have only: "modules_only st1 st2" using first_reply_frame [OF _ st2] by simp
  show ?thesis
  proof (cases "p_to p \<noteq> mt_node_id (mt st) \<or> \<not> p_want_response p")
    case True
    with assms st1 keepsD(2) [OF k] have "st' = st1" by (auto simp: dispatch_modules_def)
    with Done st1 k show ?thesis by blast
  next
    case asked: False
    show ?thesis
    proof (cases "\<exists>reply. r = Some (Inr reply)")
      case True
      then obtain reply where r: "r = Some (Inr reply)" by blast
      with assms st1 st2 asked keepsD(2) [OF k] obtain ret where
        "send_packet ev now (packet_set_reply_to reply p) K_NO_WAIT st2 = Some (ret, st')"
        by (auto simp: dispatch_modules_def)
      with Replied st1 k asked st2 r only show ?thesis by blast
    next
      case False
      with assms st1 st2 asked keepsD(2) [OF k] have "st' = st2"
        by (cases r) (auto simp: dispatch_modules_def split: sum.splits)
      with Declined st1 k st2 only show ?thesis by blast
    qed
  qed
qed

lemma dispatch_returns:
  assumes "channels_live (st_ch st)"
  shows "\<exists>st'. dispatch_modules ev now p st = Some st'"
proof -
  obtain st1 where st1: "run_on_packet ev now p (module_table ev) st = Some st1" "keeps st st1"
    using run_on_packet_ok [of "module_table ev" st] module_table_handlers assms by blast
  obtain r st2 where st2: "first_reply ev now p (module_table ev) st1 = (r, st2)" by force
  have "st_ch st2 = st_ch st"
    using first_reply_frame [OF _ st2] modules_only_frame [of st1 st2] keepsD(1) [OF st1(2)] by simp
  then have "\<exists>ret st'. send_packet ev now q K_NO_WAIT st2 = Some (ret, st')" for q
    using send_packet_returns assms by metis
  with st1 st2 show ?thesis
    by (auto simp: dispatch_modules_def split: option.splits sum.splits) meson
qed

interpretation dispatch: packet_handler dispatch_modules
proof
  fix st st' :: node and ev now p
  assume "dispatch_modules ev now p st = Some st'"
  then show "keeps st st'"
    by (cases rule: dispatch_steps) (auto dest!: modules_only_frame keeps_send_packet intro: keeps_trans)
qed (rule dispatch_returns)

section \<open>The retry table\<close>

text \<open>Packets that ask for no acknowledgement, and acknowledgements themselves, are not tracked.\<close>

lemma untracked_send:
  assumes "send_packet ev now p wait st = Some (ret, st')" "\<not> p_want_ack p \<or> p_portnum p = PORT_ROUTING"
  shows "st_rel st' = st_rel st"
proof (cases "mt_initialized (mt st) \<and> p_to p \<noteq> 0 \<and> \<not> payload_args_bad p")
  case False
  with assms send_packet_refused [of st p ev now wait] show ?thesis by auto
next
  case True
  then have c: "mt_initialized (mt st)" "p_to p \<noteq> 0" "\<not> payload_args_bad p" by simp_all
  from c assms(1) show ?thesis
  proof (cases rule: send_packet_unfold)
    case (Failed pid n e)
    then show ?thesis by simp
  next
    case (Built pid n wire tx_ret st1)
    from Built(4) have st1: "st_rel st1 = st_rel st" by (rule radio_send_link) simp
    show ?thesis
    proof (cases tx_ret)
      case (Inl e)
      with Built(6) st1 show ?thesis by simp
    next
      case (Inr u)
      let ?c = "snd (send_packet_complete ev (defaulted st pid p) wire tx_ret (wait = K_FOREVER) st1)"
      have "st_rel ?c = st_rel st" using Inr st1 by (simp add: send_packet_complete_def Let_def)
      moreover have "st_rel st' = st_rel ?c"
        using assms(2) Inr by (auto simp: Built(6) track_packet_rel reliable_track_def Let_def)
      ultimately show ?thesis by simp
    qed
  qed
qed

lemma reply_no_ack:
  assumes "m \<in> set (module_table ev)" "mod_alloc_reply m = Some f" "f ev now req st = (Inr reply, st')"
  shows "\<not> p_want_ack reply"
proof -
  have "f \<in> {module_device_telemetry_alloc_reply, module_environment_telemetry_alloc_reply,
      module_nodeinfo_alloc_reply, module_position_alloc_reply}"
    using assms(1,2) by (auto simp: module_table_def split: if_splits)
  with assms(3) show ?thesis
    by (auto simp: module_device_telemetry_alloc_reply_def module_environment_telemetry_alloc_reply_def
      module_nodeinfo_alloc_reply_def module_position_alloc_reply_def position_build_packet_def
      telemetry_encode_packet_def nodeinfo_build_packet_def Let_def packet_zero_def
      split: if_splits prod.splits option.splits telemetry.splits sum.splits)
qed

lemma first_reply_no_ack:
  assumes "set ms \<subseteq> set (module_table ev)" "first_reply ev now p ms st = (Some (Inr reply), st')"
  shows "\<not> p_want_ack reply"
  using assms
proof (induction ms arbitrary: st)
  case (Cons m ms)
  then show ?case
    using reply_no_ack [of m ev _ now p st reply] by (auto split: option.splits if_splits prod.splits)
qed simp

text \<open>Handlers that leave the retry table alone.\<close>

definition rel_same :: "(node \<Rightarrow> node option) \<Rightarrow> bool" where
  "rel_same f \<longleftrightarrow> (\<forall>st st'. f st = Some st' \<longrightarrow> st_rel st' = st_rel st)"

lemma rel_same_bind: "rel_same f \<Longrightarrow> rel_same g \<Longrightarrow> rel_same (\<lambda>st. f st \<bind> g)"
  by (auto simp: rel_same_def bind_eq_Some_conv)

lemma rel_same_nodeinfo: "rel_same (module_nodeinfo_on_packet ev now p)"
  unfolding rel_same_def
proof (intro allI impI)
  fix st st'
  assume "module_nodeinfo_on_packet ev now p st = Some st'"
  then show "st_rel st' = st_rel st"
    by (cases rule: nodeinfo_request) (auto dest: untracked_send)
qed

lemma rel_same_run: "rel_same (run_on_packet ev now p (module_table ev))"
  unfolding module_table_def run_on_packet_append
  by (intro rel_same_bind)
    (use rel_same_nodeinfo [of ev now p] in
      \<open>auto simp: rel_same_def module_message_on_packet_def module_nodedb_def bind_eq_Some_conv\<close>)

lemma dispatch_untracked:
  assumes "dispatch_modules ev now p st = Some st'"
  shows "st_rel st' = st_rel st"
  using assms
proof (cases rule: dispatch_steps)
  case Done
  with rel_same_run show ?thesis by (auto simp: rel_same_def)
next
  case (Declined st1 r)
  with rel_same_run modules_only_frame [OF Declined(4)] show ?thesis by (auto simp: rel_same_def)
next
  case (Replied st1 st2 reply ret)
  have "\<not> p_want_ack (packet_set_reply_to reply p)"
    using first_reply_no_ack [OF _ Replied(5)] by (simp add: packet_set_reply_to_def Let_def)
  with untracked_send [OF Replied(7)] have "st_rel st' = st_rel st2" by simp
  with Replied(1) rel_same_run modules_only_frame [OF Replied(6)] show ?thesis by (auto simp: rel_same_def)
qed

lemma run_on_packet_own:
  assumes "p_from p = 0 \<or> p_from p = mt_node_id (mt st)"
  shows "run_on_packet ev now p (module_table ev) st = Some st"
proof -
  have "module_message_on_packet p st = st" "module_nodedb ev now p st = st" "module_nodeinfo_on_packet ev now p st = Some st"
    using assms by (auto simp: module_message_on_packet_def module_nodedb_def module_nodedb_on_packet_def module_nodeinfo_on_packet_def)
  then show ?thesis by (auto simp: module_table_def run_on_packet_append)
qed

section \<open>Properties\<close>

text \<open>
  C12: one incoming packet makes the modules hand at most two frames to the radio, the question
  who an unknown sender is and one reply; a packet that does not ask this node for a response
  triggers at most the question, and a packet that carries this node's own number or none triggers
  nothing. On a live channel table the dispatcher always returns.
\<close>

theorem dispatch_amplification:
  assumes "channels_live (st_ch st)"
  shows "\<exists>st' ws. dispatch_modules ev now p st = Some st' \<and> frames st' = frames st @ ws \<and>
    length ws \<le> (if p_from p = 0 \<or> p_from p = mt_node_id (mt st) then 0
      else if p_to p = mt_node_id (mt st) \<and> p_want_response p then 2 else 1)"
proof -
  obtain st' where d: "dispatch_modules ev now p st = Some st'" using dispatch_returns [OF assms] by blast
  then show ?thesis
  proof (cases rule: dispatch_steps)
    case Done
    obtain ws where "frames st' = frames st @ ws" "length ws \<le> 1"
      using sends_at_mostD [OF sends_run_on_packet Done(1)] by blast
    with d Done run_on_packet_own [of p st ev now] show ?thesis by (intro exI [of _ st'] exI [of _ ws]) auto
  next
    case (Declined st1 r)
    obtain ws where "frames st1 = frames st @ ws" "length ws \<le> 1"
      using sends_at_mostD [OF sends_run_on_packet Declined(1)] by blast
    with d Declined modules_only_frame [OF Declined(4)] run_on_packet_own [of p st ev now] show ?thesis
      by (intro exI [of _ st'] exI [of _ ws]) auto
  next
    case (Replied st1 st2 reply ret)
    obtain ws where ws: "frames st1 = frames st @ ws" "length ws \<le> 1"
      using sends_at_mostD [OF sends_run_on_packet Replied(1)] by blast
    from Replied(7) obtain ws2 where "frames st' = frames st2 @ ws2" "length ws2 \<le> 1" by (rule frames_send_no_wait)
    moreover have "\<not> (p_from p = 0 \<or> p_from p = mt_node_id (mt st))"
      using first_reply_frame [OF _ Replied(5)] keepsD(2) [OF Replied(2)] by auto
    ultimately show ?thesis
      using d ws Replied(3,4) modules_only_frame [OF Replied(6)]
      by (intro exI [of _ st'] exI [of _ "ws @ ws2"]) auto
  qed
qed

end
