(* ===== verification/Router.thy ===== *)
theory Router
  imports Modules
begin

text \<open>
  The router, of \<^verbatim>\<open>src/meshtastic_router.c\<close> and \<^verbatim>\<open>src/meshtastic_routing.c\<close>: duplicate detection,
  local delivery, relaying, acknowledgements, and the injection of packets that arrive from an
  MQTT broker.

  The packet variable of a receive handler is uninitialised in the code; the model starts from the
  zero packet. Fields the decoder does not set are read by no one.
\<close>

section \<open>The duplicate cache\<close>

definition dup_check :: "kconfig \<Rightarrow> u32 \<Rightarrow> u32 \<Rightarrow> mt_context \<Rightarrow> bool \<times> mt_context" where
  "dup_check k src pid c =
     (if (src, pid) \<in> set (take (DUP_CACHE_SIZE k) (mt_dup_cache c))
      then (True, upd_status (\<lambda>s. s\<lparr>s_duplicate_packets := s_duplicate_packets s + 1\<rparr>) c)
      else (False, c))"

definition dup_add :: "kconfig \<Rightarrow> u32 \<Rightarrow> u32 \<Rightarrow> mt_context \<Rightarrow> mt_context" where
  "dup_add k src pid c = c\<lparr>mt_dup_cache := (mt_dup_cache c)[mt_dup_head c := (src, pid)],
     mt_dup_head := u8_cast ((mt_dup_head c + 1) mod DUP_CACHE_SIZE k)\<rparr>"

section \<open>Acknowledgements\<close>

definition packet_is_to_us :: "mt_context \<Rightarrow> packet \<Rightarrow> bool" where
  "packet_is_to_us c p \<longleftrightarrow> p_to p = mt_node_id c \<or> p_to p = NODE_BROADCAST"

definition routing_hop_limit_for_reply :: "mt_context \<Rightarrow> packet \<Rightarrow> u8" where
  "routing_hop_limit_for_reply c req =
     (if p_hop_start req = 0 then 0
      else if p_hop_start req < p_hop_limit req then mt_hop_limit c
      else let hops_used = p_hop_start req - p_hop_limit req
        in if mt_hop_limit c < hops_used then hops_used
           else if hops_used + 2 < mt_hop_limit c then hops_used + 2
           else mt_hop_limit c)"

definition routing_ack_should_request_ack :: "mt_context \<Rightarrow> packet \<Rightarrow> bool" where
  "routing_ack_should_request_ack c req \<longleftrightarrow> p_want_ack req \<and> p_to req = mt_node_id c \<and>
     (p_portnum req = PORT_TEXT_MESSAGE \<or> p_portnum req = PORT_TEXT_COMPRESSED)"

definition ack_mesh :: "node \<Rightarrow> u32 \<Rightarrow> packet \<Rightarrow> bytes \<Rightarrow> mesh_packet" where
  "ack_mesh st pid req payload =
     (let hl = routing_hop_limit_for_reply (mt st) req
      in mesh_zero\<lparr>m_from := mt_node_id (mt st), m_to := p_from req, m_id := pid,
           m_channel := reply_channel (st_ch st) req, m_hop_limit := hl, m_hop_start := hl,
           m_want_ack := routing_ack_should_request_ack (mt st) req, m_priority_ack := True,
           m_variant := Decoded (data_zero\<lparr>d_portnum := PORT_ROUTING, d_payload := payload,
             d_request_id := p_id req, d_want_response := False\<rparr>)\<rparr>)"

definition routing_send_ack :: "env \<Rightarrow> int \<Rightarrow> packet \<Rightarrow> node \<Rightarrow> (unit res \<times> node) option" where
  "routing_send_ack ev now req st =
     (if p_to req \<noteq> mt_node_id (mt st) then Some (Inl EINVAL, st)
      else let (pid, c) = allocate_packet_id (mt st); st = set_mt c st
        in case pb_encode (enc_Routing (ev_pb ev)) MAX_PAYLOAD_LEN (Routing_error_reason 0) of
             None \<Rightarrow> Some (Inl ENOMEM, st)
           | Some payload \<Rightarrow> send_mesh_pb ev now (ack_mesh st pid req payload) st)"

definition on_routing :: "env \<Rightarrow> packet \<Rightarrow> node \<Rightarrow> node" where
  "on_routing ev p st =
     (let (_, rel, c) = reliable_on_routing (ev_k ev) (ev_pb ev) p (st_rel st, mt st)
      in (set_mt c st)\<lparr>st_rel := rel\<rparr>)"

definition routing_on_decoded :: "env \<Rightarrow> int \<Rightarrow> packet \<Rightarrow> node \<Rightarrow> node option" where
  "routing_on_decoded ev now p st =
     (if \<not> packet_is_to_us (mt st) p \<or> p_from p = mt_node_id (mt st) then Some st
      else let st = on_routing ev p st
        in if p_want_ack p \<and> p_to p = mt_node_id (mt st)
           then map_option snd (routing_send_ack ev now p st)
           else Some st)"

section \<open>Relaying\<close>

definition relay_flags :: "u8 \<Rightarrow> u8 \<Rightarrow> u8" where
  "relay_flags flags hop_limit =
     (flags AND NOT FLAGS_HOP_LIMIT_MASK) OR ((hop_limit - 1) AND FLAGS_HOP_LIMIT_MASK)"

definition relay_packet :: "env \<Rightarrow> bytes \<Rightarrow> wire_header \<Rightarrow> u8 \<Rightarrow> node \<Rightarrow> node" where
  "relay_packet ev buf hdr hop_limit st =
     (if PKT_MAX < length buf \<or> hop_limit = 0 then st
      else let relay_buf = buf[12 := relay_flags (h_flags hdr) hop_limit];
               (ret, r) = radio_send_wire (ev_k ev) relay_buf (st_radio st);
               st = set_radio r st
        in case ret of
             Inl _ \<Rightarrow> st
           | Inr _ \<Rightarrow> upd_st_status (\<lambda>s. s\<lparr>s_relayed_packets := s_relayed_packets s + 1\<rparr>) st)"

definition relay_injected_encrypted_mesh_packet :: "env \<Rightarrow> mesh_packet \<Rightarrow> node \<Rightarrow> unit res \<times> node" where
  "relay_injected_encrypted_mesh_packet ev mesh st =
     (case m_variant mesh of
        Encrypted enc \<Rightarrow>
          if PAYLOAD_MAX < length enc then (Inl EINVAL, st)
          else let (pid, st) = (if m_id mesh \<noteq> 0 then (m_id mesh, st)
                      else let (pid, c) = allocate_packet_id (mt st) in (pid, set_mt c st));
                   hdr = \<lparr>h_dest = (if m_to mesh \<noteq> 0 then m_to mesh else NODE_BROADCAST),
                     h_src = (if m_from mesh \<noteq> 0 then m_from mesh else mt_node_id (mt st)), h_id = pid,
                     h_flags = make_flags (m_hop_limit mesh) (m_hop_start mesh) (m_want_ack mesh) (m_via_mqtt mesh),
                     h_channel = mesh_hash (st_ch st) (mt st) mesh, h_next_hop = m_next_hop mesh,
                     h_relay_node = m_relay_node mesh\<rparr>;
                   (ret, r) = radio_send_wire (ev_k ev) (put_header hdr @ enc) (st_radio st)
            in (ret, set_radio r st)
      | _ \<Rightarrow> (Inl EINVAL, st))"

definition routing_sniff_rebroadcast :: "env \<Rightarrow> wire_header \<Rightarrow> bytes \<Rightarrow> packet \<Rightarrow> node \<Rightarrow> node" where
  "routing_sniff_rebroadcast ev hdr wire p st =
     (let hop_limit = h_flags hdr AND FLAGS_HOP_LIMIT_MASK in
      if length wire < HDR_LEN then st
      else if \<not> is_rebroadcaster (st_ch st) then st
      else if h_src hdr = mt_node_id (mt st) \<or> h_dest hdr = mt_node_id (mt st) then st
      else if hop_limit = 0 then st
      else if h_dest hdr = NODE_BROADCAST \<and> p_id p = 0 then st
      else if ct_rebroadcast_mode (st_ch st) = Rebroadcast_LOCAL_ONLY then st
      else relay_packet ev wire hdr hop_limit st)"

section \<open>Delivery\<close>

definition deliver_packet :: "env \<Rightarrow> packet \<Rightarrow> node \<Rightarrow> node" where
  "deliver_packet ev p st =
     (let c = (if mt_recv_cb (mt st) then (mt st)\<lparr>mt_log := mt_log (mt st) @ [RecvCb p]\<rparr> else mt st);
          c = emit_event EVENT_PACKET_RECEIVED None (Some p) c;
          (apis, c) = (if PHONEAPI (ev_k ev) then phoneapi_on_packet (ev_pc ev) p (st_phones st, c) else (st_phones st, c))
      in (set_mt c st)\<lparr>st_phones := apis\<rparr>)"

definition core_port :: "u32 \<Rightarrow> bool" where
  "core_port port \<longleftrightarrow> port = PORT_TEXT_MESSAGE \<or> port = PORT_POSITION \<or> port = PORT_NODEINFO \<or>
     port = PORT_ROUTING \<or> port = PORT_TELEMETRY"

definition deliver_local :: "env \<Rightarrow> packet \<Rightarrow> node \<Rightarrow> node" where
  "deliver_local ev p st =
     (if ct_rebroadcast_mode (st_ch st) = Rebroadcast_CORE_PORTNUMS_ONLY \<and> \<not> core_port (p_portnum p) then st
      else if p_to p = mt_node_id (mt st) \<or> p_to p = NODE_BROADCAST then deliver_packet ev p st
      else st)"

definition gateway_on_rx :: "env \<Rightarrow> packet \<Rightarrow> bytes \<Rightarrow> node \<Rightarrow> node" where
  "gateway_on_rx ev p wire st =
     (if MQTT (ev_k ev)
      then st\<lparr>st_mqtt := mqtt_on_rx (ev_k ev) (ev_mc ev) (st_ch st) (mt st) p wire (st_mqtt st)\<rparr>
      else st)"

text \<open>The wire is empty for a packet that did not come from the radio.\<close>

definition handle_inbound_packet :: "env \<Rightarrow> int \<Rightarrow> packet \<Rightarrow> bytes \<Rightarrow> bool \<Rightarrow> node \<Rightarrow> node option" where
  "handle_inbound_packet ev now p wire decoded st = do {
     st \<leftarrow> (if \<not> decoded then Some st
       else do {
         st \<leftarrow> routing_on_decoded ev now p (gateway_on_rx ev p wire (deliver_local ev p st));
         dispatch_modules ev now p st
       });
     Some (if HDR_LEN \<le> length wire then routing_sniff_rebroadcast ev (get_header wire) wire p st else st)
   }"

section \<open>Reception\<close>

definition reack_duplicate :: "env \<Rightarrow> int \<Rightarrow> bytes \<Rightarrow> int \<Rightarrow> int \<Rightarrow> node \<Rightarrow> node option" where
  "reack_duplicate ev now buf rssi snr st =
     (let hdr = get_header buf in
      if h_flags hdr AND FLAGS_WANT_ACK = 0 \<or> h_dest hdr \<noteq> mt_node_id (mt st) then Some st
      else do {
        (ret, p) \<leftarrow> try_decode_wire_packet (ev_k ev) (ev_pb ev) (ev_psa ev) (st_db st) (st_ch st) buf rssi snr
          packet_zero (Some MAX_PAYLOAD_LEN);
        if ret \<noteq> Inr True then Some st else routing_on_decoded ev now p st
      })"

definition log_air :: "env \<Rightarrow> airtime_type \<Rightarrow> nat \<Rightarrow> node \<Rightarrow> node" where
  "log_air ev ty len st =
     (if AIRTIME (ev_k ev)
      then st\<lparr>st_link := (st_link st)\<lparr>l_air := airtime_log ty
             (airtime_packet_ms (mt_lora_ready (mt st)) (lora_airtime (ev_drv ev)) len) (l_air (st_link st))\<rparr>\<rparr>
      else st)"

text \<open>The state in which a new frame is handed on: noted in the cache, counted and accounted.\<close>

definition noted :: "env \<Rightarrow> bytes \<Rightarrow> node \<Rightarrow> node" where
  "noted ev buf st = set_mt (dup_add (ev_k ev) (h_src (get_header buf)) (h_id (get_header buf)) (mt st)) st"

definition counted :: "env \<Rightarrow> bytes \<Rightarrow> int \<Rightarrow> int \<Rightarrow> bool \<Rightarrow> packet \<Rightarrow> node \<Rightarrow> node" where
  "counted ev buf rssi snr decoded p st =
     (let st = log_air ev (if p_from p = 0 then AIRTIME_RX_ALL else AIRTIME_RX) (length buf) st;
          st = (if \<not> decoded then upd_st_status (\<lambda>s. s\<lparr>s_decode_failures := s_decode_failures s + 1\<rparr>) st else st)
      in upd_st_status (\<lambda>s. s\<lparr>s_rx_packets := s_rx_packets s + 1, s_last_rx_from := h_src (get_header buf),
           s_last_rssi := rssi, s_last_snr := snr\<rparr>) st)"

definition router_process_lora_rx :: "env \<Rightarrow> int \<Rightarrow> bytes \<Rightarrow> int \<Rightarrow> int \<Rightarrow> node \<Rightarrow> node option" where
  "router_process_lora_rx ev now buf rssi snr st =
     (if length buf < HDR_LEN then Some st
      else let hdr = get_header buf in
        if MQTT_IGNORE_MQTT (ev_k ev) \<and> h_flags hdr AND FLAGS_VIA_MQTT \<noteq> 0
        then Some (log_air ev AIRTIME_RX_ALL (length buf) st)
        else let (dup, c) = dup_check (ev_k ev) (h_src hdr) (h_id hdr) (mt st); st = set_mt c st in
          if dup then reack_duplicate ev now buf rssi snr (log_air ev AIRTIME_RX_ALL (length buf) st)
          else let st = noted ev buf st in do {
            (ret, p) \<leftarrow> try_decode_wire_packet (ev_k ev) (ev_pb ev) (ev_psa ev) (st_db st) (st_ch st) buf rssi snr
              packet_zero (Some MAX_PAYLOAD_LEN);
            case ret of
              Inl _ \<Rightarrow> Some (log_air ev AIRTIME_RX_ALL (length buf) st)
            | Inr decoded \<Rightarrow> handle_inbound_packet ev now p buf decoded (counted ev buf rssi snr decoded p st)
          })"

section \<open>Packets from a broker\<close>

definition inject_relay :: "env \<Rightarrow> int \<Rightarrow> mesh_packet \<Rightarrow> node \<Rightarrow> (unit res \<times> node) option" where
  "inject_relay ev now work st =
     (let encrypted = (case m_variant work of Encrypted _ \<Rightarrow> True | _ \<Rightarrow> False) in
      if m_to work \<noteq> mt_node_id (mt st) \<and> (0 < m_hop_limit work \<or> encrypted)
      then if m_hop_limit work = 0 \<and> encrypted
           then Some (relay_injected_encrypted_mesh_packet ev work st)
           else send_mesh_pb ev now work st
      else Some (ok, st))"

definition inject_downlink_mesh_packet :: "env \<Rightarrow> int \<Rightarrow> mesh_packet \<Rightarrow> node \<Rightarrow> (unit res \<times> node) option" where
  "inject_downlink_mesh_packet ev now mesh st =
     (if \<not> mt_initialized (mt st) then Some (Inl EINVAL, st)
      else let work = (mesh_packet_copy mesh)\<lparr>m_via_mqtt := True, m_transport := TRANSPORT_MQTT\<rparr>;
               (dup, c) = dup_check (ev_k ev) (m_from work) (m_id work) (mt st); st = set_mt c st in
        if dup then Some (Inl EALREADY, st)
        else let st = set_mt (dup_add (ev_k ev) (m_from work) (m_id work) (mt st)) st in do {
          (ret, st) \<leftarrow> inject_relay ev now work st;
          if ret \<noteq> ok then Some (ret, st)
          else if \<not> (m_to work = mt_node_id (mt st) \<or> m_to work = NODE_BROADCAST) then Some (ok, st)
          else do {
            (ret, work) \<leftarrow> mesh_pb_try_decode (ev_pb ev) (ev_psa ev) (st_ch st) (mt st) work;
            if ret \<noteq> ok then Some (ok, st)
            else do {
              r \<leftarrow> mesh_pb_to_packet (ev_pb ev) (ev_psa ev) (st_ch st) (mt st) work (Some MAX_PAYLOAD_LEN);
              case r of
                Inl e \<Rightarrow> Some (Inl e, st)
              | Inr p \<Rightarrow> do {
                  st \<leftarrow> handle_inbound_packet ev now (p\<lparr>p_via_mqtt := True\<rparr>) [] True st;
                  Some (ok, st)
                }
            }
          }
        })"

section \<open>What sending leaves alone\<close>

text \<open>The counters of received traffic, and the effects by which a packet reaches the application.\<close>

definition rx_counters :: "mt_context \<Rightarrow> u32 \<times> u32 \<times> u32 \<times> u32 \<times> u32" where
  "rx_counters c = (let s = mt_status c in
     (s_rx_packets s, s_relayed_packets s, s_duplicate_packets s, s_decode_failures s, s_last_rx_from s))"

fun is_delivery :: "effect \<Rightarrow> bool" where
  "is_delivery (RecvCb p) = True"
| "is_delivery (Event ty err p) = (ty = EVENT_PACKET_RECEIVED \<or> ty = EVENT_TEXT_MESSAGE)"

definition delivered :: "node \<Rightarrow> effect list" where
  "delivered st = filter is_delivery (mt_log (mt st))"

lemma rx_counters_simps [simp]:
  "rx_counters (c\<lparr>mt_radio_rx_armed := b\<rparr>) = rx_counters c" "rx_counters (c\<lparr>mt_log := l\<rparr>) = rx_counters c"
  "rx_counters (c\<lparr>mt_next_pkt_id := n\<rparr>) = rx_counters c" "rx_counters (emit_event ty err p c) = rx_counters c"
  "rx_counters (c\<lparr>mt_dup_cache := d, mt_dup_head := h\<rparr>) = rx_counters c"
  "rx_counters (c\<lparr>mt_status := s\<lparr>s_tx_packets := n\<rparr>\<rparr>) = rx_counters (c\<lparr>mt_status := s\<rparr>)"
  "rx_counters (c\<lparr>mt_status := s\<lparr>s_tx_failures := n\<rparr>\<rparr>) = rx_counters (c\<lparr>mt_status := s\<rparr>)"
  by (simp_all add: rx_counters_def emit_event_def)

lemma rx_counters_send_now: "rx_counters (l_mt (snd (radio_send_wire_now k drv pkt l))) = rx_counters (l_mt l)"
proof -
  have arm: "rx_counters (l_mt (snd (radio_arm_rx drv m))) = rx_counters (l_mt m)" for m
    by (auto simp: radio_arm_rx_def call_driver_def Let_def rx_counters_def split: option.splits)
  show ?thesis
    by (simp add: radio_send_wire_now_def call_driver_def Let_def split_beta arm split: option.split)
qed

lemma rx_counters_thread: "rx_counters (l_mt (outbound_thread k drv q l)) = rx_counters (l_mt l)"
  by (induction q arbitrary: l) (simp_all add: rx_counters_send_now)

lemma rx_counters_once: "rx_counters (l_mt (outbound_once k drv l)) = rx_counters (l_mt l)"
  by (auto simp: outbound_once_def rx_counters_send_now split: list.splits)

lemma rx_counters_wait: "rx_counters (l_mt (snd (radio_send_wire_wait k drv pkt wait l))) = rx_counters (l_mt l)"
proof (cases wait)
  case (K_WITHIN b)
  then show ?thesis
    by (cases b) (simp_all add: radio_send_wire_wait_def rx_counters_send_now outbound_run_def rx_counters_thread
      rx_counters_once Let_def)
qed (simp_all add: radio_send_wire_wait_def rx_counters_send_now outbound_run_def rx_counters_thread split_beta)

text \<open>A quiet step may transmit, but it delivers nothing and counts nothing as received.\<close>

definition quiet :: "node \<Rightarrow> node \<Rightarrow> bool" where
  "quiet st st' \<longleftrightarrow> keeps st st' \<and> st_db st' = st_db st \<and> st_phones st' = st_phones st \<and>
     rx_counters (mt st') = rx_counters (mt st) \<and> delivered st' = delivered st"

lemma quiet_refl [simp]: "quiet st st"
  by (simp add: quiet_def)

lemma quiet_trans: "quiet st st' \<Longrightarrow> quiet st' st'' \<Longrightarrow> quiet st st''"
  by (auto simp: quiet_def intro: keeps_trans)

lemma quiet_fields [simp]:
  "quiet st (st'\<lparr>st_mqtt := q\<rparr>) = quiet st st'" "quiet st (st'\<lparr>st_rel := r\<rparr>) = quiet st st'"
  by (simp_all add: quiet_def delivered_def)

lemma quiet_radio_send:
  assumes "radio_send ev wire wait st = (ret, st')"
  shows "quiet st st'"
proof -
  have rx: "rx_counters (mt st') = rx_counters (mt st)"
    using assms rx_counters_wait [of "ev_k ev" "ev_drv ev" wire wait "st_link st"]
    by (cases wait) (auto simp: radio_send_def split_beta)
  from assms obtain l where l: "st' = st\<lparr>st_link := l\<rparr>" "mt_same (mt st) (l_mt l)"
    "prefix (r_on_air (st_radio st)) (r_on_air (l_radio l))"
    "\<exists>es. mt_log (l_mt l) = mt_log (mt st) @ es \<and> set es \<subseteq> tx_failed_events"
    by (rule radio_send_link)
  have "filter is_delivery es = []" if "set es \<subseteq> tx_failed_events" for es
    using that by (auto simp: filter_empty_conv tx_failed_events_def)
  with l have "delivered st' = delivered st" by (auto simp: delivered_def)
  with rx keeps_radio_send [OF assms] l(1) show ?thesis by (simp add: quiet_def)
qed

lemma quiet_allocated:
  assumes "allocate_packet_id (mt st) = (pid, c)"
  shows "quiet st (set_mt c st)"
proof -
  from allocate_same [OF assms] have c: "c = (mt st)\<lparr>mt_next_pkt_id := mt_next_pkt_id c\<rparr>" by blast
  have "rx_counters c = rx_counters (mt st) \<and> mt_log c = mt_log (mt st)"
    by (subst (1 2) c) simp
  with keeps_allocated [OF assms] show ?thesis by (simp add: quiet_def delivered_def)
qed

lemma track_packet_stores:
  "st_db (track_packet ev now p wire st) = st_db st" "st_phones (track_packet ev now p wire st) = st_phones st"
  by (rule track_packet_frame [of ev now p wire st]; simp)+

lemma quiet_send_packet:
  assumes "send_packet ev now p wait st = Some (ret, st')"
  shows "quiet st st'"
proof (cases "mt_initialized (mt st) \<and> p_to p \<noteq> 0 \<and> \<not> payload_args_bad p")
  case False
  with assms send_packet_refused [of st p ev now wait] show ?thesis by auto
next
  case True
  then have ok: "mt_initialized (mt st)" "p_to p \<noteq> 0" "\<not> payload_args_bad p" by simp_all
  have alloc: "quiet st (set_mt ((mt st)\<lparr>mt_next_pkt_id := n\<rparr>) st)" for n
    by (simp add: quiet_def delivered_def)
  from ok assms show ?thesis
  proof (cases rule: send_packet_unfold)
    case (Failed pid n e)
    with alloc show ?thesis by simp
  next
    case (Built pid n wire tx_ret st1)
    have st1: "quiet st st1" using quiet_radio_send [OF Built(4)] quiet_trans [OF alloc] by blast
    have "delivered st' = delivered st1 \<and> rx_counters (mt st') = rx_counters (mt st1) \<and> st_db st' = st_db st1 \<and>
        st_phones st' = st_phones st1"
    proof (cases tx_ret)
      case (Inl e)
      with Built(6) show ?thesis by simp
    next
      case (Inr u)
      then show ?thesis
        by (simp add: Built(6) track_packet_stores send_packet_complete_def delivered_def emit_event_def Let_def)
    qed
    with st1 keeps_send_packet [OF assms] show ?thesis by (simp add: quiet_def)
  qed
qed

lemma quiet_send_mesh_encrypted:
  assumes "send_mesh_encrypted ev mesh enc st = (ret, st')"
  shows "quiet st st'"
proof (cases "PAYLOAD_MAX < length enc")
  case True
  with assms show ?thesis by (auto simp: send_mesh_encrypted_def)
next
  case False
  obtain pid st0 where p: "(if m_id mesh \<noteq> 0 then (m_id mesh, st)
      else let (pid, c) = allocate_packet_id (mt st) in (pid, set_mt c st)) = (pid, st0)" by force
  have st0: "quiet st st0" using p quiet_allocated by (auto split: if_splits prod.splits)
  obtain wire tx st1 where "radio_send ev wire K_FOREVER st0 = (tx, st1)" "st' = st1 \<or> (\<exists>q. st' = st1\<lparr>st_mqtt := q\<rparr>)"
    using assms False p by (auto simp: send_mesh_encrypted_def Let_def split: prod.splits if_splits)
  with quiet_trans [OF st0 quiet_radio_send] show ?thesis by auto
qed

lemma quiet_send_mesh_pb: "send_mesh_pb ev now mesh st = Some (ret, st') \<Longrightarrow> quiet st st'"
  by (cases "m_variant mesh") (auto simp: send_mesh_pb_def intro: quiet_send_packet quiet_send_mesh_encrypted)

lemma quiet_emit: "\<not> is_delivery (Event ty err p) \<Longrightarrow> quiet st (set_mt (emit_event ty err p (mt st)) st)"
  using keeps_emit [of st ty err p] by (simp add: quiet_def) (simp add: delivered_def emit_event_def)

lemma quiet_on_routing: "quiet st (on_routing ev p st)"
proof -
  obtain b rel c where r: "reliable_on_routing (ev_k ev) (ev_pb ev) p (st_rel st, mt st) = (b, rel, c)"
    by (metis prod_cases3)
  then have "c = mt st \<or> (\<exists>ty err out. c = reliable_emit ty err out (mt st) \<and> ty \<in> {EVENT_TX_ACKED, EVENT_TX_NO_ACK})"
    by (auto simp: reliable_on_routing_def Let_def split: if_splits option.splits prod.splits)
  then have "quiet st (set_mt c st)"
    by (auto simp: reliable_emit_def intro!: quiet_emit)
  with r show ?thesis by (simp add: on_routing_def)
qed

lemma quiet_send_ack:
  assumes "routing_send_ack ev now req st = Some (ret, st')"
  shows "quiet st st'"
proof (cases "p_to req = mt_node_id (mt st)")
  case False
  with assms show ?thesis by (auto simp: routing_send_ack_def)
next
  case True
  obtain pid c where a: "allocate_packet_id (mt st) = (pid, c)" by force
  show ?thesis
    using assms True a quiet_allocated [OF a] quiet_trans quiet_send_mesh_pb
    by (fastforce simp: routing_send_ack_def Let_def split: option.splits)
qed

lemma send_ack_returns:
  assumes "channels_live (st_ch st)"
  shows "\<exists>x. routing_send_ack ev now req st = Some x"
proof -
  obtain pid c where a: "allocate_packet_id (mt st) = (pid, c)" by force
  show ?thesis
    using a send_mesh_pb_returns [of "set_mt c st" ev now] assms
    by (auto simp: routing_send_ack_def Let_def split: option.split)
qed

lemma quiet_routing_on_decoded: "routing_on_decoded ev now p st = Some st' \<Longrightarrow> quiet st st'"
  using quiet_on_routing [of st ev p] quiet_send_ack quiet_trans
  by (fastforce simp: routing_on_decoded_def Let_def split: if_splits)

lemma quiet_keeps: "quiet st st' \<Longrightarrow> keeps st st'"
  by (simp add: quiet_def)

lemma routing_returns:
  assumes "channels_live (st_ch st)"
  shows "\<exists>st'. routing_on_decoded ev now p st = Some st'"
proof -
  have "st_ch (on_routing ev p st) = st_ch st" using quiet_on_routing quiet_keeps keepsD(1) by blast
  then have "\<exists>x. routing_send_ack ev now p (on_routing ev p st) = Some x" using send_ack_returns assms by simp
  then show ?thesis by (auto simp: routing_on_decoded_def Let_def)
qed

interpretation routing: packet_handler routing_on_decoded
  by unfold_locales (auto intro: routing_returns quiet_keeps quiet_routing_on_decoded)

text \<open>What the router does with a decoded packet after delivering it is again a packet handler.\<close>

interpretation after_delivery: handler_pair routing_on_decoded dispatch_modules
  by unfold_locales

section \<open>The duplicate cache remembers the last packets\<close>

text \<open>The contract of a filter that remembers a fixed number of keys, the most recent ones.\<close>

locale recent_filter =
  fixes inv :: "'s \<Rightarrow> bool" and recent :: "'s \<Rightarrow> 'k list" and add :: "'k \<Rightarrow> 's \<Rightarrow> 's" and seen :: "'k \<Rightarrow> 's \<Rightarrow> bool"
  assumes nonempty: "inv s \<Longrightarrow> recent s \<noteq> []"
    and inv_add: "inv s \<Longrightarrow> inv (add x s)"
    and recent_add: "inv s \<Longrightarrow> recent (add x s) = tl (recent s) @ [x]"
    and seen_iff: "inv s \<Longrightarrow> seen x s \<longleftrightarrow> x \<in> set (recent s)"
begin

lemma recent_fold: "inv s \<Longrightarrow> inv (fold add xs s) \<and> recent (fold add xs s) = drop (length xs) (recent s @ xs)"
proof (induction xs arbitrary: s)
  case Nil
  then show ?case by simp
next
  case (Cons x xs)
  then have "recent (fold add xs (add x s)) = drop (length xs) ((tl (recent s) @ [x]) @ xs)"
    using Cons.IH [OF inv_add [OF Cons.prems], of x] recent_add by simp
  moreover obtain y ys where "recent s = y # ys" using nonempty [OF Cons.prems] by (cases "recent s") auto
  ultimately show ?case using Cons.IH [OF inv_add [OF Cons.prems]] by simp
qed

lemma remembers:
  assumes "inv s" "length ys < length (recent s)"
  shows "seen x (fold add (x # ys) s)"
proof -
  have r: "recent (fold add (x # ys) s) = drop (Suc (length ys)) (recent s @ x # ys)" and i: "inv (fold add (x # ys) s)"
    using recent_fold [OF assms(1), of "x # ys"] by auto
  have "x \<in> set (drop (Suc (length ys)) (recent s @ x # ys))" using assms(2) by (auto simp: in_set_conv_nth)
  with r i seen_iff show ?thesis by simp
qed

lemma only_added: "inv s \<Longrightarrow> seen x (fold add xs s) \<Longrightarrow> x \<in> set xs \<or> seen x s"
  using recent_fold [of s xs] seen_iff set_drop_subset [of "length xs" "recent s @ xs"] by auto

end

definition dup_inv :: "kconfig \<Rightarrow> mt_context \<Rightarrow> bool" where
  "dup_inv k c \<longleftrightarrow> 0 < DUP_CACHE_SIZE k \<and> DUP_CACHE_SIZE k \<le> 256 \<and> length (mt_dup_cache c) = DUP_CACHE_SIZE k \<and>
     mt_dup_head c < DUP_CACHE_SIZE k"

definition dup_recent :: "kconfig \<Rightarrow> mt_context \<Rightarrow> (u32 \<times> u32) list" where
  "dup_recent k c = ring_list (mt_dup_cache c) (mt_dup_head c) (DUP_CACHE_SIZE k)"

lemma set_ring_list_full:
  assumes "0 < length buf"
  shows "set (ring_list buf first (length buf)) = set buf"
proof
  let ?N = "length buf"
  show "set (ring_list buf first ?N) \<subseteq> set buf" using assms by (auto simp: ring_list_def)
  show "set buf \<subseteq> set (ring_list buf first ?N)"
  proof
    fix x assume "x \<in> set buf"
    then obtain i where i: "i < ?N" "x = buf ! i" by (auto simp: in_set_conv_nth)
    let ?j = "(i + (?N - first mod ?N)) mod ?N"
    have f: "first mod ?N < ?N" using assms by simp
    have "(first + ?j) mod ?N = (first mod ?N + (i + (?N - first mod ?N))) mod ?N" by (simp add: mod_simps)
    also have "first mod ?N + (i + (?N - first mod ?N)) = i + ?N" using f by simp
    finally have "(first + ?j) mod ?N = i" using i by simp
    moreover have "?j < ?N" using assms by simp
    ultimately have "ring_list buf first ?N ! ?j = x" using i by (simp add: nth_ring_list)
    then show "x \<in> set (ring_list buf first ?N)"
      using \<open>?j < ?N\<close> by (metis length_ring_list nth_mem)
  qed
qed

interpretation dup: recent_filter "dup_inv k" "dup_recent k" "\<lambda>(src, pid). dup_add k src pid" "\<lambda>(src, pid) c. fst (dup_check k src pid c)"
proof
  fix c :: mt_context and x :: "u32 \<times> u32"
  assume c: "dup_inv k c"
  obtain src pid where x: "x = (src, pid)" by force
  let ?N = "DUP_CACHE_SIZE k"
  show "dup_recent k c \<noteq> []"
    using c by (simp add: dup_recent_def dup_inv_def ring_list_def)
  show "dup_inv k ((case x of (src, pid) \<Rightarrow> dup_add k src pid) c)"
    using c x by (simp add: dup_inv_def dup_add_def)
  have "ring_list ((mt_dup_cache c)[(mt_dup_head c + ?N) mod ?N := x]) ((mt_dup_head c + 1) mod ?N) (Suc (?N - 1))
      = tl (ring_list (mt_dup_cache c) (mt_dup_head c) ?N) @ [x]"
    using ring_append_dropping(1) [of "mt_dup_cache c" ?N "mt_dup_head c" x] c by (force simp: dup_inv_def)
  then show "dup_recent k ((case x of (src, pid) \<Rightarrow> dup_add k src pid) c) = tl (dup_recent k c) @ [x]"
    using c x by (simp add: dup_recent_def dup_add_def dup_inv_def)
  show "(case x of (src, pid) \<Rightarrow> \<lambda>c. fst (dup_check k src pid c)) c \<longleftrightarrow> x \<in> set (dup_recent k c)"
    using c x set_ring_list_full [of "mt_dup_cache c" "mt_dup_head c"]
    by (simp add: dup_recent_def dup_check_def dup_inv_def)
qed

section \<open>Handling one packet\<close>

lemma phoneapi_on_packet_ctx:
  "phoneapi_on_packet pc p (apis, c) = (apis', c') \<Longrightarrow> \<exists>n. c' = c\<lparr>mt_next_fromradio_id := n\<rparr>"
  by (auto simp: phoneapi_on_packet_def next_fromradio_id_def Let_def split: if_splits sum.splits)

text \<open>Delivery tells the application and the phones, and changes nothing else.\<close>

lemma deliver_spec:
  obtains apis n where "deliver_packet ev p st =
    (set_mt ((mt st)\<lparr>mt_log := mt_log (mt st) @ (if mt_recv_cb (mt st) then [RecvCb p] else []) @
        (if mt_event_cb (mt st) then [Event EVENT_PACKET_RECEIVED None (Some p)] else []),
      mt_next_fromradio_id := n\<rparr>) st)\<lparr>st_phones := apis\<rparr>"
proof -
  let ?c = "(mt st)\<lparr>mt_log := mt_log (mt st) @ (if mt_recv_cb (mt st) then [RecvCb p] else []) @
    (if mt_event_cb (mt st) then [Event EVENT_PACKET_RECEIVED None (Some p)] else [])\<rparr>"
  have c: "emit_event EVENT_PACKET_RECEIVED None (Some p)
      (if mt_recv_cb (mt st) then (mt st)\<lparr>mt_log := mt_log (mt st) @ [RecvCb p]\<rparr> else mt st) = ?c"
    by (simp add: emit_event_def)
  obtain apis c' where a: "(if PHONEAPI (ev_k ev) then phoneapi_on_packet (ev_pc ev) p (st_phones st, ?c)
      else (st_phones st, ?c)) = (apis, c')" by force
  have "\<exists>n. c' = ?c\<lparr>mt_next_fromradio_id := n\<rparr>"
  proof (cases "PHONEAPI (ev_k ev)")
    case True
    with a have "phoneapi_on_packet (ev_pc ev) p (st_phones st, ?c) = (apis, c')" by (simp del: mt_context.simps)
    then show ?thesis by (rule phoneapi_on_packet_ctx)
  next
    case False
    with a have "c' = ?c" by (simp del: mt_context.simps)
    then show ?thesis by (intro exI [of _ "mt_next_fromradio_id (mt st)"]) simp
  qed
  then obtain n where "c' = ?c\<lparr>mt_next_fromradio_id := n\<rparr>" by blast
  moreover have "deliver_packet ev p st = (set_mt c' st)\<lparr>st_phones := apis\<rparr>"
    unfolding deliver_packet_def Let_def c a by simp
  ultimately show ?thesis using that [of apis n] by simp
qed

lemma deliver_ctx:
  "mt_log (mt (deliver_packet ev p st)) = mt_log (mt st) @ (if mt_recv_cb (mt st) then [RecvCb p] else []) @
     (if mt_event_cb (mt st) then [Event EVENT_PACKET_RECEIVED None (Some p)] else [])"
  "rx_counters (mt (deliver_packet ev p st)) = rx_counters (mt st)"
  by (rule deliver_spec [of ev p st]; simp add: rx_counters_def)+

lemma gateway_mt [simp]: "mt (gateway_on_rx ev p wire st) = mt st"
  by (simp add: gateway_on_rx_def)

lemma keeps_deliver: "keeps st (deliver_packet ev p st)"
  by (rule deliver_spec [of ev p st]) (auto simp: keeps_def)

lemma relay_spec:
  assumes "HDR_LEN \<le> length buf"
  shows "relay_packet ev buf hdr hop_limit st =
    (if 255 < length buf \<or> hop_limit = 0 \<or> OUTBOUND_QUEUE_DEPTH (ev_k ev) \<le> length (r_outbound (st_radio st)) then st
     else upd_st_status (\<lambda>s. s\<lparr>s_relayed_packets := s_relayed_packets s + 1\<rparr>)
       (set_radio ((st_radio st)\<lparr>r_outbound := r_outbound (st_radio st) @ [buf[12 := relay_flags (h_flags hdr) hop_limit]]\<rparr>) st))"
  using assms by (auto simp: relay_packet_def radio_send_wire_def Let_def)

lemma keeps_sniff: "keeps st (routing_sniff_rebroadcast ev hdr wire p st)"
  by (auto simp: routing_sniff_rebroadcast_def Let_def relay_spec keeps_def)

lemma keeps_deliver_local: "keeps st (gateway_on_rx ev p wire (deliver_local ev p st))"
  by (simp add: gateway_on_rx_def deliver_local_def keeps_mqtt keeps_deliver)

lemma inbound_spec:
  assumes "handle_inbound_packet ev now p wire decoded st = Some st'"
  obtains st1 where "keeps st st1"
    "decoded \<Longrightarrow> routing_on_decoded ev now p (gateway_on_rx ev p wire (deliver_local ev p st)) \<bind> dispatch_modules ev now p = Some st1"
    "\<not> decoded \<Longrightarrow> st1 = st"
    "st' = (if HDR_LEN \<le> length wire then routing_sniff_rebroadcast ev (get_header wire) wire p st1 else st1)"
proof (cases decoded)
  case False
  with assms that [of st] show ?thesis by (auto simp: handle_inbound_packet_def)
next
  case True
  let ?m = "gateway_on_rx ev p wire (deliver_local ev p st)"
  obtain st1 where s: "routing_on_decoded ev now p ?m \<bind> dispatch_modules ev now p = Some st1"
    "st' = (if HDR_LEN \<le> length wire then routing_sniff_rebroadcast ev (get_header wire) wire p st1 else st1)"
    using assms True by (auto simp: handle_inbound_packet_def bind_eq_Some_conv)
  from after_delivery.seq.keeps [OF s(1)] keeps_trans [OF keeps_deliver_local] have "keeps st st1" by blast
  with that [of st1] s True show ?thesis by blast
qed

lemma inbound_returns:
  assumes "channels_live (st_ch st)"
  shows "\<exists>st'. handle_inbound_packet ev now p wire decoded st = Some st'"
proof -
  let ?m = "gateway_on_rx ev p wire (deliver_local ev p st)"
  have "channels_live (st_ch ?m)" using assms keepsD(1) [OF keeps_deliver_local] by simp
  from after_delivery.seq.returns [OF this] show ?thesis
    by (auto simp: handle_inbound_packet_def bind_eq_Some_conv)
qed

interpretation inbound: packet_handler "\<lambda>ev now p. handle_inbound_packet ev now p wire decoded"
proof
  fix st st' :: node and ev now p
  assume "handle_inbound_packet ev now p wire decoded st = Some st'"
  then show "keeps st st'"
    by (rule inbound_spec) (auto intro: keeps_trans keeps_sniff)
qed (rule inbound_returns)

section \<open>Reception of one frame\<close>

abbreviation frame_key :: "bytes \<Rightarrow> u32 \<times> u32" where
  "frame_key buf \<equiv> (h_src (get_header buf), h_id (get_header buf))"

abbreviation frame_seen :: "env \<Rightarrow> bytes \<Rightarrow> node \<Rightarrow> bool" where
  "frame_seen ev buf st \<equiv> fst (dup_check (ev_k ev) (h_src (get_header buf)) (h_id (get_header buf)) (mt st))"

abbreviation frame_ignored :: "env \<Rightarrow> bytes \<Rightarrow> bool" where
  "frame_ignored ev buf \<equiv> MQTT_IGNORE_MQTT (ev_k ev) \<and> h_flags (get_header buf) AND 0x10 \<noteq> 0"

lemma log_air_same [simp]:
  "mt (log_air ev ty n st) = mt st" "st_ch (log_air ev ty n st) = st_ch st" "st_db (log_air ev ty n st) = st_db st"
  "st_phones (log_air ev ty n st) = st_phones st" "st_radio (log_air ev ty n st) = st_radio st"
  "st_store (log_air ev ty n st) = st_store st" "st_rel (log_air ev ty n st) = st_rel st"
  by (simp_all add: log_air_def)

lemma noted_same [simp]:
  "st_db (noted ev buf st) = st_db st" "st_ch (noted ev buf st) = st_ch st" "st_phones (noted ev buf st) = st_phones st"
  "st_radio (noted ev buf st) = st_radio st" "st_rel (noted ev buf st) = st_rel st"
  "mt (noted ev buf st) = dup_add (ev_k ev) (h_src (get_header buf)) (h_id (get_header buf)) (mt st)"
  by (simp_all add: noted_def)

lemma counted_keeps: "keeps st (counted ev buf rssi snr decoded p st)"
  by (simp add: counted_def keeps_def Let_def)

text \<open>The four ways a frame with a whole header can go.\<close>

lemma process_cases:
  assumes "HDR_LEN \<le> length buf" "router_process_lora_rx ev now buf rssi snr st = Some st'"
  obtains (Ignored) "frame_ignored ev buf" "st' = log_air ev AIRTIME_RX_ALL (length buf) st"
  | (Duplicate) "\<not> frame_ignored ev buf" "frame_seen ev buf st"
      "reack_duplicate ev now buf rssi snr (log_air ev AIRTIME_RX_ALL (length buf)
         (upd_st_status (\<lambda>s. s\<lparr>s_duplicate_packets := s_duplicate_packets s + 1\<rparr>) st)) = Some st'"
  | (Unreadable) e p where "\<not> frame_ignored ev buf" "\<not> frame_seen ev buf st"
      "try_decode_wire_packet (ev_k ev) (ev_pb ev) (ev_psa ev) (st_db st) (st_ch st) buf rssi snr packet_zero (Some MAX_PAYLOAD_LEN)
         = Some (Inl e, p)" "st' = log_air ev AIRTIME_RX_ALL (length buf) (noted ev buf st)"
  | (Handled) decoded p where "\<not> frame_ignored ev buf" "\<not> frame_seen ev buf st"
      "try_decode_wire_packet (ev_k ev) (ev_pb ev) (ev_psa ev) (st_db st) (st_ch st) buf rssi snr packet_zero (Some MAX_PAYLOAD_LEN)
         = Some (Inr decoded, p)"
      "handle_inbound_packet ev now p buf decoded (counted ev buf rssi snr decoded p (noted ev buf st)) = Some st'"
proof (cases "frame_ignored ev buf")
  case True
  with assms Ignored show ?thesis by (simp add: router_process_lora_rx_def Let_def)
next
  case new: False
  show ?thesis
  proof (cases "frame_seen ev buf st")
    case True
    then have "dup_check (ev_k ev) (h_src (get_header buf)) (h_id (get_header buf)) (mt st) =
        (True, upd_status (\<lambda>s. s\<lparr>s_duplicate_packets := s_duplicate_packets s + 1\<rparr>) (mt st))"
      by (auto simp: dup_check_def split: if_splits)
    then have "router_process_lora_rx ev now buf rssi snr st = reack_duplicate ev now buf rssi snr
        (log_air ev AIRTIME_RX_ALL (length buf)
          (upd_st_status (\<lambda>s. s\<lparr>s_duplicate_packets := s_duplicate_packets s + 1\<rparr>) st))"
      using assms(1) by (simp add: router_process_lora_rx_def Let_def if_not_P [OF new])
    with assms(2) new True Duplicate show ?thesis by simp
  next
    case False
    then have c: "dup_check (ev_k ev) (h_src (get_header buf)) (h_id (get_header buf)) (mt st) = (False, mt st)"
      by (auto simp: dup_check_def split: if_splits)
    let ?T = "try_decode_wire_packet (ev_k ev) (ev_pb ev) (ev_psa ev) (st_db st) (st_ch st) buf rssi snr packet_zero (Some MAX_PAYLOAD_LEN)"
    have step: "router_process_lora_rx ev now buf rssi snr st = ?T \<bind> (\<lambda>(ret, p). case ret of
        Inl _ \<Rightarrow> Some (log_air ev AIRTIME_RX_ALL (length buf) (noted ev buf st))
      | Inr decoded \<Rightarrow> handle_inbound_packet ev now p buf decoded (counted ev buf rssi snr decoded p (noted ev buf st)))"
      using assms(1) c by (simp add: router_process_lora_rx_def Let_def if_not_P [OF new] cong: sum.case_cong)
    then obtain ret p where t: "?T = Some (ret, p)" using assms(2) by (cases ?T) auto
    show ?thesis
    proof (cases ret)
      case (Inl e)
      with step t assms(2) have "st' = log_air ev AIRTIME_RX_ALL (length buf) (noted ev buf st)" by simp
      with Unreadable new False t Inl show ?thesis by blast
    next
      case (Inr decoded)
      with step t assms(2) Handled new False show ?thesis by simp
    qed
  qed
qed

lemma quiet_reack:
  assumes "reack_duplicate ev now buf rssi snr st = Some st'"
  shows "quiet st st'"
  using assms by (auto simp: reack_duplicate_def Let_def bind_eq_Some_conv split: if_splits dest: quiet_routing_on_decoded)

lemma process_returns:
  assumes "channels_live (st_ch st)"
  shows "\<exists>st'. router_process_lora_rx ev now buf rssi snr st = Some st'"
proof -
  have td: "\<exists>r p. try_decode_wire_packet (ev_k ev) (ev_pb ev) (ev_psa ev) db (st_ch st) buf rssi snr packet_zero (Some MAX_PAYLOAD_LEN) = Some (r, p)" for db
    using try_decode_returns [OF assms] by blast
  have re: "\<exists>s'. reack_duplicate ev now buf rssi snr s = Some s'" if ch: "st_ch s = st_ch st" for s
  proof -
    obtain r p where "try_decode_wire_packet (ev_k ev) (ev_pb ev) (ev_psa ev) (st_db s) (st_ch s) buf rssi snr packet_zero (Some MAX_PAYLOAD_LEN) = Some (r, p)"
      using td ch by metis
    with ch assms routing_returns [of s] show ?thesis by (auto simp: reack_duplicate_def Let_def)
  qed
  obtain dup c where c: "dup_check (ev_k ev) (h_src (get_header buf)) (h_id (get_header buf)) (mt st) = (dup, c)" by force
  obtain r p where t: "try_decode_wire_packet (ev_k ev) (ev_pb ev) (ev_psa ev) (st_db st) (st_ch st) buf rssi snr packet_zero (Some MAX_PAYLOAD_LEN) = Some (r, p)"
    using td by blast
  have inb: "\<exists>s'. handle_inbound_packet ev now p buf b (counted ev buf rssi snr b p (noted ev buf (set_mt c st))) = Some s'" for b
    using inbound_returns assms keepsD(1) [OF counted_keeps] by simp
  show ?thesis
    using c t inb re by (cases r) (auto simp: router_process_lora_rx_def Let_def)
qed

lemma process_keeps_channels:
  assumes "router_process_lora_rx ev now buf rssi snr st = Some st'"
  shows "st_ch st' = st_ch st \<and> mt_node_id (mt st') = mt_node_id (mt st)"
proof (cases "HDR_LEN \<le> length buf")
  case False
  with assms show ?thesis by (simp add: router_process_lora_rx_def)
next
  case True
  then show ?thesis
    using assms
  proof (cases rule: process_cases)
    case Duplicate
    then show ?thesis using keepsD(1,2) [OF quiet_keeps [OF quiet_reack [OF Duplicate(3)]]] by simp
  next
    case (Handled decoded p)
    then show ?thesis
      using keepsD(1,2) [OF inbound.keeps [OF Handled(4)]] keepsD(1,2) [OF counted_keeps [of "noted ev buf st"]]
      by (simp add: dup_add_def)
  qed (simp_all add: dup_add_def)
qed

text \<open>How one frame moves the cache.\<close>

lemma process_recent:
  assumes "router_process_lora_rx ev now buf rssi snr st = Some st'" "dup_inv (ev_k ev) (mt st)"
  shows "dup_inv (ev_k ev) (mt st') \<and>
    (if HDR_LEN \<le> length buf \<and> \<not> frame_ignored ev buf \<and> \<not> frame_seen ev buf st
     then dup_recent (ev_k ev) (mt st') = tl (dup_recent (ev_k ev) (mt st)) @ [frame_key buf]
     else dup_recent (ev_k ev) (mt st') = dup_recent (ev_k ev) (mt st))"
proof -
  let ?k = "ev_k ev"
  have same: "dup_inv ?k c' = dup_inv ?k c \<and> dup_recent ?k c' = dup_recent ?k c"
    if "mt_dup_cache c' = mt_dup_cache c" "mt_dup_head c' = mt_dup_head c" for c c'
    using that by (simp add: dup_inv_def dup_recent_def)
  have add: "dup_inv ?k (dup_add ?k (h_src (get_header buf)) (h_id (get_header buf)) (mt st)) \<and>
      dup_recent ?k (dup_add ?k (h_src (get_header buf)) (h_id (get_header buf)) (mt st)) = tl (dup_recent ?k (mt st)) @ [frame_key buf]"
    using dup.inv_add [OF assms(2), of "frame_key buf"] dup.recent_add [OF assms(2), of "frame_key buf"] by simp
  show ?thesis
  proof (cases "HDR_LEN \<le> length buf")
    case False
    with assms show ?thesis by (simp add: router_process_lora_rx_def)
  next
    case True
    then show ?thesis
      using assms(1)
    proof (cases rule: process_cases)
      case Ignored
      with assms(2) True show ?thesis by simp
    next
      case Duplicate
      note k = quiet_keeps [OF quiet_reack [OF Duplicate(3)]]
      from same [OF keepsD(7) [OF k] keepsD(8) [OF k]] Duplicate(1,2) assms(2) show ?thesis
        by (simp add: dup_inv_def dup_recent_def)
    next
      case (Unreadable e p)
      with add True show ?thesis by simp
    next
      case (Handled decoded p)
      note k = keeps_trans [OF counted_keeps inbound.keeps [OF Handled(4)]]
      from same [OF keepsD(7) [OF k] keepsD(8) [OF k]] Handled(1,2) add True show ?thesis by simp
    qed
  qed
qed

text \<open>A sequence of received frames with the time, signal strength and quality of each.\<close>

fun rx_run :: "env \<Rightarrow> (int \<times> bytes \<times> int \<times> int) list \<Rightarrow> node \<Rightarrow> node option" where
  "rx_run ev [] st = Some st"
| "rx_run ev ((now, buf, rssi, snr) # fs) st = router_process_lora_rx ev now buf rssi snr st \<bind> rx_run ev fs"

lemma rx_run_returns:
  "channels_live (st_ch st) \<Longrightarrow> \<exists>st'. rx_run ev fs st = Some st' \<and> st_ch st' = st_ch st"
proof (induction fs arbitrary: st)
  case Nil
  then show ?case by simp
next
  case (Cons f fs)
  obtain now buf rssi snr where f: "f = (now, buf, rssi, snr)" by (metis prod_cases4)
  obtain st1 where st1: "router_process_lora_rx ev now buf rssi snr st = Some st1" "st_ch st1 = st_ch st"
    using process_returns [OF Cons.prems] process_keeps_channels by metis
  with Cons.IH [of st1] Cons.prems f show ?case by simp
qed

lemma drop_shift: "a \<le> length xs \<Longrightarrow> drop b (drop a xs @ ys) = drop (a + b) (xs @ ys)"
  by (simp add: add.commute)

lemma rx_run_recent:
  assumes "rx_run ev fs st = Some st'" "dup_inv (ev_k ev) (mt st)"
  shows "dup_inv (ev_k ev) (mt st') \<and> (\<exists>ks. length ks \<le> length fs \<and>
    dup_recent (ev_k ev) (mt st') = drop (length ks) (dup_recent (ev_k ev) (mt st) @ ks))"
  using assms
proof (induction fs arbitrary: st)
  case Nil
  then show ?case by simp
next
  case (Cons f fs)
  obtain now buf rssi snr where f: "f = (now, buf, rssi, snr)" by (metis prod_cases4)
  obtain st1 where st1: "router_process_lora_rx ev now buf rssi snr st = Some st1" "rx_run ev fs st1 = Some st'"
    using Cons.prems(1) f by (auto simp: bind_eq_Some_conv)
  note r = process_recent [OF st1(1) Cons.prems(2)]
  have ne: "dup_recent (ev_k ev) (mt st) \<noteq> []" using dup.nonempty [OF Cons.prems(2)] .
  obtain k1 where k1: "length k1 \<le> 1" "dup_recent (ev_k ev) (mt st1) = drop (length k1) (dup_recent (ev_k ev) (mt st) @ k1)"
  proof (cases "HDR_LEN \<le> length buf \<and> \<not> frame_ignored ev buf \<and> \<not> frame_seen ev buf st")
    case True
    with r ne that [of "[frame_key buf]"] show ?thesis by (cases "dup_recent (ev_k ev) (mt st)") simp_all
  next
    case False
    with r that [of "[]"] show ?thesis by (simp del: de_Morgan_conj)
  qed
  obtain ks where ks: "length ks \<le> length fs"
    "dup_recent (ev_k ev) (mt st') = drop (length ks) (dup_recent (ev_k ev) (mt st1) @ ks)" "dup_inv (ev_k ev) (mt st')"
    using Cons.IH [OF st1(2)] r by blast
  have "length k1 \<le> length (dup_recent (ev_k ev) (mt st) @ k1)" by simp
  from drop_shift [OF this, of "length ks" ks] k1 ks
  have "dup_recent (ev_k ev) (mt st') = drop (length (k1 @ ks)) (dup_recent (ev_k ev) (mt st) @ k1 @ ks)"
    by (simp only: append_assoc length_append)
  with k1 ks show ?case by (intro conjI exI [of _ "k1 @ ks"]) auto
qed

section \<open>Relayed frames\<close>

lemma get_header_flags:
  assumes "HDR_LEN \<le> length buf"
  shows "get_header (buf[12 := f]) = (get_header buf)\<lparr>h_flags := f\<rparr>"
  using assms by (simp add: get_header_def get_le32_def)

lemma relay_flags_hop: "relay_flags f h AND 0x07 = (h - 1) AND 0x07"
  unfolding relay_flags_def flag_masks by (rule bit_word_eqI) (auto simp: bit_simps)

lemma relay_flags_rest: "relay_flags f h AND 0xF8 = f AND 0xF8"
proof -
  have m: "(0xF8 :: u8) = NOT (mask 3)" by code_simp
  show ?thesis unfolding relay_flags_def flag_masks(1) m by (rule bit_word_eqI) (auto simp: bit_simps)
qed

lemma hop_limit_decreases:
  assumes "(f :: u8) AND 0x07 \<noteq> 0"
  shows "Suc (unat (relay_flags f (f AND 0x07) AND 0x07)) = unat (f AND 0x07)"
proof -
  define h where "h = f AND 0x07"
  have le: "h \<le> 7" and pos: "h \<noteq> 0" using assms word_and_le1 [of f 7] by (simp_all add: h_def)
  have "h - 1 < 2 ^ 3" using le pos by unat_arith
  then have "(h - 1) AND mask 3 = h - 1" by (rule less_mask_eq)
  then have "relay_flags f h AND 0x07 = h - 1" unfolding relay_flags_hop by (simp only: flag_masks(1))
  then show ?thesis unfolding h_def [symmetric] using pos by simp unat_arith
qed

text \<open>The frame a relay sends: one hop less to go, everything else as received.\<close>

definition relayed_copy :: "bytes \<Rightarrow> bytes \<Rightarrow> bool" where
  "relayed_copy w w' \<longleftrightarrow> length w' = length w \<and> drop 16 w' = drop 16 w \<and>
     get_header w' = (get_header w)\<lparr>h_flags := h_flags (get_header w')\<rparr> \<and>
     h_flags (get_header w') AND 0xF8 = h_flags (get_header w) AND 0xF8 \<and>
     Suc (unat (h_flags (get_header w') AND 0x07)) = unat (h_flags (get_header w) AND 0x07)"

lemma relayed_copy_fields:
  assumes "relayed_copy w w'"
  shows "h_src (get_header w') = h_src (get_header w)" "h_id (get_header w') = h_id (get_header w)"
    "h_dest (get_header w') = h_dest (get_header w)"
proof -
  from assms have e: "get_header w' = (get_header w)\<lparr>h_flags := h_flags (get_header w')\<rparr>" by (simp add: relayed_copy_def)
  show "h_src (get_header w') = h_src (get_header w)" "h_id (get_header w') = h_id (get_header w)"
    "h_dest (get_header w') = h_dest (get_header w)" by (subst e, simp)+
qed

lemma relay_buf_copy:
  assumes "HDR_LEN \<le> length w" "h_flags (get_header w) AND 0x07 \<noteq> 0"
  shows "relayed_copy w (w[12 := relay_flags (h_flags (get_header w)) (h_flags (get_header w) AND 0x07)])"
  using assms hop_limit_decreases [of "h_flags (get_header w)"]
  by (simp add: relayed_copy_def get_header_flags relay_flags_rest)

definition may_relay :: "node \<Rightarrow> bytes \<Rightarrow> packet \<Rightarrow> bool" where
  "may_relay st w p \<longleftrightarrow> (let h = get_header w in
     is_rebroadcaster (st_ch st) \<and> ct_rebroadcast_mode (st_ch st) \<noteq> Rebroadcast_LOCAL_ONLY \<and>
     h_src h \<noteq> mt_node_id (mt st) \<and> h_dest h \<noteq> mt_node_id (mt st) \<and>
     h_flags h AND 0x07 \<noteq> 0 \<and> \<not> (h_dest h = NODE_BROADCAST \<and> p_id p = 0))"

lemma sniff_spec:
  assumes "HDR_LEN \<le> length w" "length w \<le> 255"
  shows "routing_sniff_rebroadcast ev (get_header w) w p st =
    (if may_relay st w p \<and> length (r_outbound (st_radio st)) < OUTBOUND_QUEUE_DEPTH (ev_k ev)
     then upd_st_status (\<lambda>s. s\<lparr>s_relayed_packets := s_relayed_packets s + 1\<rparr>)
       (set_radio ((st_radio st)\<lparr>r_outbound := r_outbound (st_radio st) @
         [w[12 := relay_flags (h_flags (get_header w)) (h_flags (get_header w) AND 0x07)]]\<rparr>) st)
     else st)"
  using assms by (auto simp: routing_sniff_rebroadcast_def may_relay_def Let_def relay_spec)

inductive relays :: "nat \<Rightarrow> bytes \<Rightarrow> bytes \<Rightarrow> bool" where
  here: "relays 0 w w"
| hop: "relays n w w' \<Longrightarrow> HDR_LEN \<le> length w' \<Longrightarrow> length w' \<le> 255 \<Longrightarrow>
    r_outbound (st_radio (routing_sniff_rebroadcast ev (get_header w') w' p st)) = r_outbound (st_radio st) @ [w''] \<Longrightarrow>
    relays (Suc n) w w''"

inductive_cases relays_SucE: "relays (Suc n) w w''"

lemma sniff_copy:
  assumes "HDR_LEN \<le> length w" "length w \<le> 255"
    "r_outbound (st_radio (routing_sniff_rebroadcast ev (get_header w) w p st)) = r_outbound (st_radio st) @ [w']"
  shows "relayed_copy w w'"
  using assms(3) relay_buf_copy [OF assms(1)]
  by (simp add: sniff_spec [OF assms(1,2)] may_relay_def Let_def split: if_splits)

lemma relays_copy:
  "relays n w w' \<Longrightarrow> frame_key w' = frame_key w \<and> h_dest (get_header w') = h_dest (get_header w) \<and>
     drop 16 w' = drop 16 w \<and>
     unat (h_flags (get_header w') AND 0x07) + n = unat (h_flags (get_header w) AND 0x07)"
proof (induction rule: relays.induct)
  case (here w)
  then show ?case by simp
next
  case (hop n w w' ev p st w'')
  note c = sniff_copy [OF hop.hyps(2-4)]
  from relayed_copy_fields [OF c] c hop.IH show ?case by (simp add: relayed_copy_def)
qed

section \<open>Delivery of one frame\<close>

text \<open>
  Steps of a node with given event callback and number that leave the counters of received traffic
  alone, relays excepted, and tell the application exactly the given deliveries.
\<close>

definition rx_told :: "effect list \<Rightarrow> node \<Rightarrow> node \<Rightarrow> bool" where
  "rx_told ts st st' \<longleftrightarrow> (mt_event_cb (mt st'), mt_node_id (mt st')) = (mt_event_cb (mt st), mt_node_id (mt st)) \<and>
     rx_counters (mt st') = rx_counters (mt st) \<and> delivered st' = delivered st @ ts"

definition rx_tells :: "bool \<times> u32 \<Rightarrow> effect list \<Rightarrow> (node \<Rightarrow> node option) \<Rightarrow> bool" where
  "rx_tells who ts f \<longleftrightarrow> (\<forall>st st'. (mt_event_cb (mt st), mt_node_id (mt st)) = who \<longrightarrow> f st = Some st' \<longrightarrow> rx_told ts st st')"

lemma rx_told_trans: "rx_told ts st st' \<Longrightarrow> rx_told us st' st'' \<Longrightarrow> rx_told (ts @ us) st st''"
  by (simp add: rx_told_def)

lemma quiet_told: "quiet st st' \<Longrightarrow> rx_told [] st st'"
  using keepsD [of st st'] by (simp add: quiet_def rx_told_def)

lemma rx_tells_bind:
  assumes "rx_tells who ts f" "rx_tells who us g"
  shows "rx_tells who (ts @ us) (\<lambda>st. f st \<bind> g)"
  unfolding rx_tells_def
proof (intro allI impI)
  fix st st''
  assume w: "(mt_event_cb (mt st), mt_node_id (mt st)) = who" and "f st \<bind> g = Some st''"
  then obtain st' where st': "f st = Some st'" "g st' = Some st''" by (auto simp: bind_eq_Some_conv)
  have "rx_told ts st st'" using assms(1) w st'(1) by (simp add: rx_tells_def)
  moreover from this w have "(mt_event_cb (mt st'), mt_node_id (mt st')) = who" by (simp add: rx_told_def)
  with assms(2) st'(2) have "rx_told us st' st''" unfolding rx_tells_def by blast
  ultimately show "rx_told (ts @ us) st st''" by (rule rx_told_trans)
qed

lemma rx_tells_quiet: "(\<And>st st'. f st = Some st' \<Longrightarrow> quiet st st') \<Longrightarrow> rx_tells who [] f"
  by (simp add: rx_tells_def quiet_told)

text \<open>The event by which the message module tells of a text.\<close>

definition text_told :: "env \<Rightarrow> packet \<Rightarrow> bool \<Rightarrow> u32 \<Rightarrow> effect list" where
  "text_told ev p cb nid =
     (if MESSAGE (ev_m ev) \<and> cb \<and> p_portnum p = PORT_TEXT_MESSAGE \<and> p_payload p \<noteq> None \<and> p_payload_len p \<noteq> 0 \<and>
         p_from p \<noteq> 0 \<and> p_from p \<noteq> nid \<and> (p_to p = nid \<or> p_to p = NODE_BROADCAST)
      then [Event EVENT_TEXT_MESSAGE None (Some p)] else [])"

lemma told_fields:
  "rx_told ts (st\<lparr>st_peers := ps\<rparr>) st' = rx_told ts st st'" "rx_told [] st (st\<lparr>st_peers := ps\<rparr>)" "rx_told [] st (st\<lparr>st_db := db\<rparr>)"
  by (simp_all add: rx_told_def delivered_def)

lemma rx_tells_nodeinfo: "rx_tells who [] (module_nodeinfo_on_packet ev now p)"
  unfolding rx_tells_def
proof (intro allI impI)
  fix st st'
  assume "module_nodeinfo_on_packet ev now p st = Some st'"
  then show "rx_told [] st st'"
  proof (cases rule: nodeinfo_request)
    case (Quiet peers)
    then show ?thesis by (simp add: told_fields)
  next
    case (Asks peers q ret)
    from quiet_told [OF quiet_send_packet [OF Asks(1)]] show ?thesis by (simp add: told_fields)
  qed
qed

lemma message_told:
  assumes "MESSAGE (ev_m ev)"
  shows "rx_told (text_told ev p (mt_event_cb (mt st)) (mt_node_id (mt st))) st (module_message_on_packet p st)"
  using assms by (simp add: rx_told_def text_told_def module_message_on_packet_def delivered_def emit_event_def)

lemma rx_tells_module:
  assumes "\<And>f. b \<Longrightarrow> mod_all_packets m \<or> mod_portnum m = p_portnum p \<Longrightarrow> mod_on_packet m = Some f \<Longrightarrow> rx_tells who ts (f ev now p)"
    and "\<not> (b \<and> (mod_all_packets m \<or> mod_portnum m = p_portnum p) \<and> mod_on_packet m \<noteq> None) \<Longrightarrow> ts = []"
  shows "rx_tells who ts (run_on_packet ev now p (if b then [m] else []))"
proof (cases "b \<and> (mod_all_packets m \<or> mod_portnum m = p_portnum p) \<and> mod_on_packet m \<noteq> None")
  case True
  then obtain f where f: "b" "mod_all_packets m \<or> mod_portnum m = p_portnum p" "mod_on_packet m = Some f" by blast
  moreover have "run_on_packet ev now p [] = Some" by (rule ext) simp
  ultimately have "run_on_packet ev now p (if b then [m] else []) = f ev now p" by (intro ext) (simp add: Option.bind_runit)
  with assms(1) [OF f] show ?thesis by simp
next
  case False
  then have "run_on_packet ev now p (if b then [m] else []) st = Some st" for st by (auto split: option.split)
  with assms(2) [OF False] show ?thesis by (simp add: rx_tells_def rx_told_def)
qed

lemma rx_tells_run: "rx_tells (cb, nid) (text_told ev p cb nid) (run_on_packet ev now p (module_table ev))"
proof -
  have same: "rx_tells (cb, nid) [] (\<lambda>st. Some st)" by (simp add: rx_tells_def rx_told_def)
  have db: "rx_tells (cb, nid) [] (\<lambda>st. Some (module_nodedb ev now p st))" by (simp add: rx_tells_def module_nodedb_def told_fields)
  have msg: "rx_tells (cb, nid) (text_told ev p cb nid) (\<lambda>st. Some (module_message_on_packet p st))" if "MESSAGE (ev_m ev)"
    using message_told [OF that, of p] by (auto simp: rx_tells_def)
  have quiet: "text_told ev p cb nid = []" if "\<not> (MESSAGE (ev_m ev) \<and> p_portnum p = PORT_TEXT_MESSAGE)"
    using that by (auto simp: text_told_def)
  have "rx_tells (cb, nid) ([] @ [] @ text_told ev p cb nid @ [] @ [] @ []) (run_on_packet ev now p (module_table ev))"
    unfolding module_table_def run_on_packet_append
    by (intro rx_tells_bind rx_tells_module) (use same db msg quiet rx_tells_nodeinfo in auto)
  then show ?thesis by simp
qed

lemma rx_tells_dispatch: "rx_tells (cb, nid) (text_told ev p cb nid) (dispatch_modules ev now p)"
  unfolding rx_tells_def
proof (intro allI impI)
  fix st st'
  assume w: "(mt_event_cb (mt st), mt_node_id (mt st)) = (cb, nid)" and d: "dispatch_modules ev now p st = Some st'"
  have run: "rx_told (text_told ev p cb nid) st st1" if "run_on_packet ev now p (module_table ev) st = Some st1" for st1
    using rx_tells_run w that unfolding rx_tells_def by blast
  have only: "rx_told [] s s'" if "modules_only s s'" for s s'
    using modules_only_frame [OF that] by (simp add: rx_told_def delivered_def)
  from d show "rx_told (text_told ev p cb nid) st st'"
  proof (cases rule: dispatch_steps)
    case Done
    then show ?thesis using run by blast
  next
    case (Declined st1 r)
    then show ?thesis using rx_told_trans [OF run only] by fastforce
  next
    case (Replied st1 st2 reply ret)
    then show ?thesis
      using rx_told_trans [OF rx_told_trans [OF run only] quiet_told [OF quiet_send_packet]] by fastforce
  qed
qed

lemma sniff_frame:
  "rx_counters (mt (routing_sniff_rebroadcast ev hdr w p st)) = (let (r, y, d, f, l) = rx_counters (mt st) in
     (r, s_relayed_packets (mt_status (mt (routing_sniff_rebroadcast ev hdr w p st))), d, f, l))"
  "mt_log (mt (routing_sniff_rebroadcast ev hdr w p st)) = mt_log (mt st)"
  by (auto simp: routing_sniff_rebroadcast_def Let_def relay_packet_def radio_send_wire_def rx_counters_def)

lemma inbound_delivers:
  assumes "channels_live (st_ch st)" and "p_to p = mt_node_id (mt st) \<or> p_to p = NODE_BROADCAST"
    and "ct_rebroadcast_mode (st_ch st) \<noteq> Rebroadcast_CORE_PORTNUMS_ONLY \<or> core_port (p_portnum p)"
  obtains st' rest where "handle_inbound_packet ev now p wire True st = Some st'"
    "filter is_delivery rest = text_told ev p (mt_event_cb (mt st)) (mt_node_id (mt st))"
    "mt_log (mt st') = mt_log (mt st) @ (if mt_recv_cb (mt st) then [RecvCb p] else []) @
        (if mt_event_cb (mt st) then [Event EVENT_PACKET_RECEIVED None (Some p)] else []) @ rest"
    "s_rx_packets (mt_status (mt st')) = s_rx_packets (mt_status (mt st))"
    "s_duplicate_packets (mt_status (mt st')) = s_duplicate_packets (mt_status (mt st))"
    "s_decode_failures (mt_status (mt st')) = s_decode_failures (mt_status (mt st))"
    "s_last_rx_from (mt_status (mt st')) = s_last_rx_from (mt_status (mt st))"
proof -
  let ?d = "gateway_on_rx ev p wire (deliver_local ev p st)"
  have d: "mt_log (mt ?d) = mt_log (mt st) @ (if mt_recv_cb (mt st) then [RecvCb p] else []) @
        (if mt_event_cb (mt st) then [Event EVENT_PACKET_RECEIVED None (Some p)] else [])"
    "rx_counters (mt ?d) = rx_counters (mt st)"
    using assms(2,3) by (auto simp: deliver_local_def deliver_ctx)
  have who: "(mt_event_cb (mt ?d), mt_node_id (mt ?d)) = (mt_event_cb (mt st), mt_node_id (mt st))"
    using keepsD [OF keeps_deliver_local [of st ev p wire]] by simp
  obtain st' where st': "handle_inbound_packet ev now p wire True st = Some st'"
    using inbound_returns [OF assms(1)] by blast
  then obtain st1 where st1: "routing_on_decoded ev now p ?d \<bind> dispatch_modules ev now p = Some st1"
    and s: "st' = (if HDR_LEN \<le> length wire then routing_sniff_rebroadcast ev (get_header wire) wire p st1 else st1)"
    by (rule inbound_spec) blast
  obtain rest where rest: "mt_log (mt st1) = mt_log (mt ?d) @ rest"
    using keepsD(10) [OF after_delivery.seq.keeps [OF st1]] by (auto simp: prefix_def)
  let ?told = "text_told ev p (mt_event_cb (mt st)) (mt_node_id (mt st))"
  have "rx_tells (mt_event_cb (mt st), mt_node_id (mt st)) ([] @ ?told) (\<lambda>st. routing_on_decoded ev now p st \<bind> dispatch_modules ev now p)"
    by (intro rx_tells_bind rx_tells_quiet quiet_routing_on_decoded rx_tells_dispatch)
  with st1 who have "rx_told ([] @ ?told) ?d st1" unfolding rx_tells_def by blast
  then have tells: "rx_counters (mt st1) = rx_counters (mt ?d)" "delivered st1 = delivered ?d @ ?told" by (simp_all add: rx_told_def)
  then have "filter is_delivery rest = text_told ev p (mt_event_cb (mt st)) (mt_node_id (mt st))"
    by (simp add: delivered_def rest)
  with rest tells show ?thesis
    using st' s d sniff_frame [of ev "get_header wire" wire p st1]
    by (intro that [of st' rest]) (auto simp: rx_counters_def Let_def)
qed

lemma process_delivers:
  assumes "channels_live (st_ch st)" and "HDR_LEN \<le> length buf" and "\<not> frame_ignored ev buf" and "\<not> frame_seen ev buf st"
    and "try_decode_wire_packet (ev_k ev) (ev_pb ev) (ev_psa ev) (st_db st) (st_ch st) buf rssi snr packet_zero (Some MAX_PAYLOAD_LEN)
      = Some (Inr True, p)"
    and "p_to p = mt_node_id (mt st) \<or> p_to p = NODE_BROADCAST"
    and "ct_rebroadcast_mode (st_ch st) \<noteq> Rebroadcast_CORE_PORTNUMS_ONLY \<or> core_port (p_portnum p)"
  obtains st' rest where "router_process_lora_rx ev now buf rssi snr st = Some st'"
    "mt_log (mt st') = mt_log (mt st) @ (if mt_recv_cb (mt st) then [RecvCb p] else []) @
        (if mt_event_cb (mt st) then [Event EVENT_PACKET_RECEIVED None (Some p)] else []) @ rest"
    "filter is_delivery rest = text_told ev p (mt_event_cb (mt st)) (mt_node_id (mt st))"
    "s_rx_packets (mt_status (mt st')) = s_rx_packets (mt_status (mt st)) + 1"
    "s_duplicate_packets (mt_status (mt st')) = s_duplicate_packets (mt_status (mt st))"
    "s_decode_failures (mt_status (mt st')) = s_decode_failures (mt_status (mt st))"
    "s_last_rx_from (mt_status (mt st')) = h_src (get_header buf)"
proof -
  obtain st' where p: "router_process_lora_rx ev now buf rssi snr st = Some st'"
    using process_returns [OF assms(1)] by blast
  let ?s = "counted ev buf rssi snr True p (noted ev buf st)"
  from assms(2) p have inb: "handle_inbound_packet ev now p buf True ?s = Some st'"
    by (cases rule: process_cases) (use assms(3-5) in auto)
  have s: "st_ch ?s = st_ch st" "mt_node_id (mt ?s) = mt_node_id (mt st)" "mt_recv_cb (mt ?s) = mt_recv_cb (mt st)"
    "mt_event_cb (mt ?s) = mt_event_cb (mt st)" "mt_log (mt ?s) = mt_log (mt st)"
    "mt_status (mt ?s) = (mt_status (mt st))\<lparr>s_rx_packets := s_rx_packets (mt_status (mt st)) + 1,
       s_last_rx_from := h_src (get_header buf), s_last_rssi := rssi, s_last_snr := snr\<rparr>"
    by (simp_all add: counted_def Let_def dup_add_def)
  have "channels_live (st_ch ?s)" "p_to p = mt_node_id (mt ?s) \<or> p_to p = NODE_BROADCAST"
    "ct_rebroadcast_mode (st_ch ?s) \<noteq> Rebroadcast_CORE_PORTNUMS_ONLY \<or> core_port (p_portnum p)"
    using assms s by simp_all
  then show ?thesis
    by (rule inbound_delivers [of ?s p ev now buf]) (use inb p s in \<open>auto intro!: that\<close>)
qed

section \<open>Properties\<close>

text \<open>
  no packet is delivered twice. After a frame with a new packet number has been received,
  and as long as fewer frames follow than the duplicate cache has entries, a further copy of
  the packet, whatever its hop count, reaches neither the application nor a phone nor the node
  database, is not relayed and is counted as a duplicate and nothing else. The handlers always
  return.
\<close>

theorem no_duplicate_delivery:
  assumes "channels_live (st_ch st)" and "dup_inv (ev_k ev) (mt st)" and "\<not> MQTT_IGNORE_MQTT (ev_k ev)"
    and "16 \<le> length frame" and "\<not> frame_seen ev frame st"
    and "length others < DUP_CACHE_SIZE (ev_k ev)"
    and "16 \<le> length copy" and "frame_key copy = frame_key frame"
  shows "\<exists>st2 st3. rx_run ev ((now, frame, rssi, snr) # others) st = Some st2 \<and>
    router_process_lora_rx ev now' copy rssi' snr' st2 = Some st3 \<and>
    delivered st3 = delivered st2 \<and> st_phones st3 = st_phones st2 \<and> st_db st3 = st_db st2 \<and>
    mt_status (mt st3) = (mt_status (mt st3))\<lparr>s_rx_packets := s_rx_packets (mt_status (mt st2)),
      s_relayed_packets := s_relayed_packets (mt_status (mt st2)),
      s_duplicate_packets := s_duplicate_packets (mt_status (mt st2)) + 1\<rparr>"
proof -
  let ?k = "ev_k ev"
  obtain st1 where st1: "router_process_lora_rx ev now frame rssi snr st = Some st1"
    using process_returns [OF assms(1)] by blast
  then have ch1: "channels_live (st_ch st1)" using process_keeps_channels assms(1) by metis
  from process_recent [OF st1 assms(2)] assms(3-5) have r1:
    "dup_inv ?k (mt st1)" "dup_recent ?k (mt st1) = tl (dup_recent ?k (mt st)) @ [frame_key frame]" by simp_all
  obtain st2 where st2: "rx_run ev others st1 = Some st2" "channels_live (st_ch st2)"
    using rx_run_returns [OF ch1] ch1 by metis
  obtain ks where ks: "dup_inv ?k (mt st2)" "length ks \<le> length others"
    "dup_recent ?k (mt st2) = drop (length ks) ((tl (dup_recent ?k (mt st)) @ [frame_key frame]) @ ks)"
    using rx_run_recent [OF st2(1) r1(1)] r1(2) by auto
  have len: "length (dup_recent ?k (mt st)) = DUP_CACHE_SIZE ?k" by (simp add: dup_recent_def)
  have "frame_key frame \<in> set (drop (length ks) ((tl (dup_recent ?k (mt st)) @ [frame_key frame]) @ ks))"
    using len ks(2) assms(6) by (simp add: drop_Cons')
  then have seen: "frame_seen ev copy st2"
    using dup.seen_iff [OF ks(1), of "frame_key frame"] ks(3) assms(8) by simp
  obtain st3 where st3: "router_process_lora_rx ev now' copy rssi' snr' st2 = Some st3"
    using process_returns [OF st2(2)] by blast
  from assms(7) st3 have "quiet (log_air ev AIRTIME_RX_ALL (length copy)
      (upd_st_status (\<lambda>s. s\<lparr>s_duplicate_packets := s_duplicate_packets s + 1\<rparr>) st2)) st3"
    by (cases rule: process_cases) (use seen assms(3) in \<open>auto dest: quiet_reack\<close>)
  then have "delivered st3 = delivered st2 \<and> st_phones st3 = st_phones st2 \<and> st_db st3 = st_db st2 \<and>
      s_rx_packets (mt_status (mt st3)) = s_rx_packets (mt_status (mt st2)) \<and>
      s_relayed_packets (mt_status (mt st3)) = s_relayed_packets (mt_status (mt st2)) \<and>
      s_duplicate_packets (mt_status (mt st3)) = s_duplicate_packets (mt_status (mt st2)) + 1"
    by (simp add: quiet_def delivered_def rx_counters_def Let_def)
  with st1 st2 st3 show ?thesis by simp
qed

text \<open>
  C6: the relaying rule. A frame is queued for rebroadcast exactly when this node relays at
  all, is neither its sender nor its destination, the frame has hops left, is not an unnumbered
  broadcast, and the transmit queue has room. What is queued is the frame with the hop limit
  reduced by one and every other bit of header and payload unchanged; it is counted once.
\<close>

theorem relay_rule:
  assumes "16 \<le> length w" and "length w \<le> 255"
    and "routing_sniff_rebroadcast ev (get_header w) w p st = st'"
  shows "if is_rebroadcaster (st_ch st) \<and> ct_rebroadcast_mode (st_ch st) \<noteq> Rebroadcast_LOCAL_ONLY \<and>
      h_src (get_header w) \<noteq> mt_node_id (mt st) \<and> h_dest (get_header w) \<noteq> mt_node_id (mt st) \<and>
      h_flags (get_header w) AND 0x07 \<noteq> 0 \<and> \<not> (h_dest (get_header w) = NODE_BROADCAST \<and> p_id p = 0) \<and>
      length (r_outbound (st_radio st)) < OUTBOUND_QUEUE_DEPTH (ev_k ev)
    then \<exists>w'. r_outbound (st_radio st') = r_outbound (st_radio st) @ [w'] \<and> relayed_copy w w' \<and>
      s_relayed_packets (mt_status (mt st')) = s_relayed_packets (mt_status (mt st)) + 1
    else st' = st"
  using relay_buf_copy [OF assms(1)] assms(3)
  by (auto simp: sniff_spec [OF assms(1,2)] may_relay_def Let_def)

text \<open>
  C5: floods end. Along any chain of relaying nodes, whatever their state, the hop limit of a
  frame goes down by one at each hop and payload, destination and packet number stay the same; a
  frame can therefore be relayed at most as often as its hop limit says, seven times at most.
\<close>

theorem flood_bounded:
  assumes "relays n w w'"
  shows "n \<le> unat (h_flags (get_header w) AND 0x07) \<and> n \<le> 7 \<and>
    unat (h_flags (get_header w') AND 0x07) = unat (h_flags (get_header w) AND 0x07) - n \<and>
    frame_key w' = frame_key w \<and> h_dest (get_header w') = h_dest (get_header w) \<and> drop 16 w' = drop 16 w"
proof -
  have "h_flags (get_header w) AND 0x07 \<le> 7" using word_and_le1 [of "h_flags (get_header w)" 7] by simp
  then have "unat (h_flags (get_header w) AND 0x07) \<le> 7" by unat_arith
  with relays_copy [OF assms] show ?thesis by auto
qed

end
