(* ===== verification/Network.thy ===== *)
theory Network
  imports Router
begin

text \<open>
  Two nodes in radio range of each other: what one of them sends is what the other one receives.
  The frame one node has put on the air is handed to the router of the other. The nodes have
  their own state and build options and share the protobuf codec and the cipher.
\<close>

section \<open>A text message arrives\<close>

text \<open>The packet of a text message as it goes out.\<close>

abbreviation text_request :: "u32 \<Rightarrow> string \<Rightarrow> packet" where
  "text_request dest txt \<equiv> packet_zero\<lparr>p_to := dest, p_portnum := PORT_TEXT_MESSAGE,
     p_payload := Some (cstr_bytes txt), p_payload_len := length txt\<rparr>"

lemma length_cstr_bytes [simp]: "length (cstr_bytes s) = length s"
  by (simp add: cstr_bytes_def)

text \<open>The same on a given slot, with or without the request for an acknowledgement.\<close>

abbreviation text_request_on :: "u8 \<Rightarrow> bool \<Rightarrow> u32 \<Rightarrow> string \<Rightarrow> packet" where
  "text_request_on ci want dest txt \<equiv> packet_zero\<lparr>p_to := dest, p_portnum := PORT_TEXT_MESSAGE,
     p_payload := Some (cstr_bytes txt), p_payload_len := length txt, p_channel_index := ci, p_want_ack := want\<rparr>"

lemma text_request_plain: "text_request dest txt = text_request_on 0 False dest txt"
  by (simp add: packet_zero_def)

text \<open>The slot the sender is asked for: the one named, else the primary one.\<close>

definition asked_slot :: "node \<Rightarrow> u8 \<Rightarrow> u8" where
  "asked_slot st ci = (if ci = CHANNEL_INDEX_INVALID then word_of_nat (ct_primary_index (st_ch st)) else ci)"

lemma text_request_ok:
  assumes "0 < length txt" "length txt \<le> MAX_TEXT_LEN"
  shows "\<not> payload_args_bad (text_request_on ci want dest txt)"
    "payload_readable (defaulted st pid (text_request_on ci want dest txt))"
    "payload_bytes (defaulted st pid (text_request_on ci want dest txt)) = cstr_bytes txt"
  using assms by (simp_all add: payload_args_bad_def payload_readable_def payload_bytes_def defaulted_def Let_def)

lemma flags_not_mqtt: "make_flags hl hs a False AND 0x10 = 0"
  using make_flags_via_mqtt [of hl hs a False] by blast

lemma text_packet_delivered:
  assumes "pb_Data_ok (ev_pb eva)" and "psa_ctr_ok (ev_psa eva)" and "ev_pb evb = ev_pb eva" and "ev_psa evb = ev_psa eva"
    and "channels_inv (st_ch a)" and "channels_live (st_ch b)" and "mt_initialized (mt a)"
    and "send_packet eva now (text_request_on ci want dest txt) K_FOREVER a = Some (ok, a')" and "dest \<noteq> 0"
    and "dest = mt_node_id (mt b) \<or> dest = NODE_BROADCAST"
    and "shares_channel (st_ch a) (channels_resolve_send_index (ev_k eva) (st_db a) (st_ch a) dest (asked_slot a ci) 0) (st_ch b) j"
    and "decode_known_only (ev_k evb) (st_db b) (st_ch b) (mt_node_id (mt a))"
    and "\<not> frame_seen evb (last (r_on_air (st_radio a'))) b"
    and "0 < length txt" and "length txt \<le> MAX_TEXT_LEN"
  obtains b' p rest where "router_process_lora_rx evb now' (last (r_on_air (st_radio a'))) rssi snr b = Some b'"
    "mt_log (mt b') = mt_log (mt b) @ (if mt_recv_cb (mt b) then [RecvCb p] else []) @
        (if mt_event_cb (mt b) then [Event EVENT_PACKET_RECEIVED None (Some p)] else []) @ rest"
    "filter is_delivery rest = text_told evb p (mt_event_cb (mt b)) (mt_node_id (mt b))"
    "p_portnum p = PORT_TEXT_MESSAGE" "p_payload p = Some (cstr_bytes txt)" "p_payload_len p = length txt"
    "p_from p = mt_node_id (mt a)" "p_to p = dest" "p_id p \<noteq> 0" "p_want_ack p = want"
    "s_rx_packets (mt_status (mt b')) = s_rx_packets (mt_status (mt b)) + 1"
proof -
  let ?p = "text_request_on ci want dest txt"
  note req = text_request_ok [OF assms(14,15)]
  have nonempty: "cstr_bytes txt \<noteq> []" using assms(14) by (simp flip: length_greater_0_conv)
  have to: "p_to ?p \<noteq> 0" using assms(9) by simp
  from assms(7) to req(1) assms(8) obtain pid wire oks where pid: "pid \<noteq> 0"
    and w: "build_wire_packet (ev_k eva) (ev_pb eva) (ev_psa eva) (st_db a) (st_ch a) (defaulted a pid ?p) = Some (Inr wire)"
    and air: "r_on_air (st_radio a') = r_on_air (st_radio a) @ oks @ [wire]"
    by (rule send_forever_ok) blast
  let ?q = "defaulted a pid ?p"
  let ?s = "channels_resolve_send_index (ev_k eva) (st_db a) (st_ch a) dest (asked_slot a ci) 0"
  have q: "p_to ?q = dest" "p_channel_index ?q = asked_slot a ci" "p_channel ?q = 0" "p_portnum ?q = 1" "p_from ?q = mt_node_id (mt a)"
    "p_payload_len ?q = length txt" "p_via_mqtt ?q = False" "p_id ?q = pid" "p_want_ack ?q = want"
    by (simp_all add: defaulted_def Let_def packet_zero_def asked_slot_def)
  let ?r = "received ?q (channels_get_hash (st_ch a) ?s) j rssi snr"
  have dec: "try_decode_wire_packet (ev_k evb) (ev_pb evb) (ev_psa evb) (st_db b) (st_ch b) wire rssi snr packet_zero (Some MAX_PAYLOAD_LEN)
      = Some (Inr True, ?r)"
    unfolding assms(3,4)
    by (rule wire_decodes [OF assms(1,2,5) w, of ?s]) (use q req assms(11,12,15) in simp_all)
  have last: "last (r_on_air (st_radio a')) = wire" by (simp add: air)
  have long: "HDR_LEN \<le> length wire" using built_wire_length [OF assms(2) w] by simp
  have "h_flags (get_header wire) AND 0x10 = 0"
    by (rule build_wire_Inr [OF w]) (simp add: q flags_not_mqtt)
  then have ni: "\<not> frame_ignored evb wire" by simp
  have r: "p_to ?r = dest" "p_portnum ?r = 1" "p_payload ?r = Some (cstr_bytes txt)" "p_payload_len ?r = length txt"
    "p_from ?r = mt_node_id (mt a)" "p_id ?r = pid" "p_want_ack ?r = want"
    using req(3) nonempty q by (simp_all add: received_def)
  have port: "core_port (p_portnum ?r)" by (simp add: r core_port_def)
  have rto: "p_to ?r = mt_node_id (mt b) \<or> p_to ?r = NODE_BROADCAST" using assms(10) r by simp
  have seen: "\<not> frame_seen evb wire b" using assms(13) last by simp
  show thesis
    by (rule process_delivers [OF assms(6) long ni seen dec rto disjI2 [OF port], of now'], rule that [of _ ?r])
      (use last r pid in simp_all)
qed

text \<open>
  C1: a text message that was sent successfully reaches the application of every node in range
  that shares the channel, decodes packets of the sender and has not yet seen the packet: the
  receive callback and the packet event get the text, its sender and its destination, in that
  order, and the packet counts as received.
\<close>

theorem text_message_delivered:
  assumes "pb_Data_ok (ev_pb eva)" and "psa_ctr_ok (ev_psa eva)" and "ev_pb evb = ev_pb eva" and "ev_psa evb = ev_psa eva"
    and "channels_inv (st_ch a)" and "channels_live (st_ch b)" and "mt_initialized (mt a)"
    and "send_text eva now dest txt a = Some (ok, a')" and "dest \<noteq> 0"
    and "dest = mt_node_id (mt b) \<or> dest = NODE_BROADCAST"
    and "shares_channel (st_ch a) (channels_resolve_send_index (ev_k eva) (st_db a) (st_ch a) dest 0 0) (st_ch b) j"
    and "decode_known_only (ev_k evb) (st_db b) (st_ch b) (mt_node_id (mt a))"
    and "mt_recv_cb (mt b)" and "mt_event_cb (mt b)"
    and "\<not> frame_seen evb (last (r_on_air (st_radio a'))) b"
  shows "\<exists>b' p rest. router_process_lora_rx evb now' (last (r_on_air (st_radio a'))) rssi snr b = Some b' \<and>
    mt_log (mt b') = mt_log (mt b) @ [RecvCb p, Event EVENT_PACKET_RECEIVED None (Some p)] @ rest \<and>
    p_portnum p = PORT_TEXT_MESSAGE \<and> p_payload p = Some (cstr_bytes txt) \<and> p_payload_len p = length txt \<and>
    p_from p = mt_node_id (mt a) \<and> p_to p = dest \<and> p_id p \<noteq> 0 \<and>
    s_rx_packets (mt_status (mt b')) = s_rx_packets (mt_status (mt b)) + 1"
proof -
  have len: "0 < length txt" "length txt \<le> MAX_TEXT_LEN"
    and s: "send_packet eva now (text_request_on 0 False dest txt) K_FOREVER a = Some (ok, a')"
    using assms(8) by (auto simp: send_text_def send_data_def simp flip: text_request_plain split: if_splits)
  have share: "shares_channel (st_ch a) (channels_resolve_send_index (ev_k eva) (st_db a) (st_ch a) dest (asked_slot a 0) 0) (st_ch b) j"
    using assms(11) by (simp add: asked_slot_def)
  show ?thesis
    by (rule text_packet_delivered [OF assms(1-7) s assms(9,10) share assms(12,15) len, of now' rssi snr])
      (use assms(13,14) in auto)
qed

section \<open>An acknowledgement arrives\<close>

text \<open>What an acknowledgement does to the node that waits for it.\<close>

lemma on_routing_settles:
  assumes "RELIABLE (ev_k ev)" "p_portnum p = PORT_ROUTING" "p_to p = mt_node_id (mt st)" "p_request_id p \<noteq> 0"
    "reliable_routing_is_ack (ev_pb ev) (p_payload p) (p_payload_len p) = (True, None)"
    "find_index (\<lambda>e. e_id e = p_request_id p) (rel_entries (st_rel st)) = Some i"
  shows "on_routing ev p st = (set_mt (reliable_emit EVENT_TX_ACKED None (outcome_of (rel_entries (st_rel st) ! i)) (mt st)) st)
    \<lparr>st_rel := (st_rel st)\<lparr>rel_entries := (rel_entries (st_rel st))[i := (rel_entries (st_rel st) ! i)\<lparr>e_id := 0\<rparr>]\<rparr>\<rparr>"
  using assms by (simp add: on_routing_def reliable_on_routing_def Let_def)

lemma send_ack_untracked:
  assumes "routing_send_ack ev now req st = Some (ret, st')"
  shows "st_rel st' = st_rel st"
proof (cases "p_to req = mt_node_id (mt st)")
  case False
  with assms show ?thesis by (auto simp: routing_send_ack_def)
next
  case True
  obtain pid c where a: "allocate_packet_id (mt st) = (pid, c)" by force
  show ?thesis
  proof (cases "pb_encode (enc_Routing (ev_pb ev)) MAX_PAYLOAD_LEN (Routing_error_reason 0)")
    case None
    with assms True a show ?thesis by (auto simp: routing_send_ack_def)
  next
    case (Some payload)
    then have "send_mesh_pb ev now (ack_mesh (set_mt c st) pid req payload) (set_mt c st) = Some (ret, st')"
      using assms True a by (simp add: routing_send_ack_def Let_def)
    then obtain p where "send_packet ev now p K_FOREVER (set_mt c st) = Some (ret, st')" "p_portnum p = PORT_ROUTING"
      by (auto simp: send_mesh_pb_def ack_mesh_def mesh_decoded_packet_def Let_def)
    from untracked_send [OF this(1)] this(2) show ?thesis by simp
  qed
qed

lemma ack_received:
  assumes "channels_live (st_ch st)" and "HDR_LEN \<le> length buf" and "\<not> frame_ignored ev buf" and "\<not> frame_seen ev buf st"
    and "try_decode_wire_packet (ev_k ev) (ev_pb ev) (ev_psa ev) (st_db st) (st_ch st) buf rssi snr packet_zero (Some MAX_PAYLOAD_LEN)
      = Some (Inr True, p)"
    and "RELIABLE (ev_k ev)" "p_portnum p = PORT_ROUTING" "p_to p = mt_node_id (mt st)" "p_from p \<noteq> mt_node_id (mt st)" "p_request_id p \<noteq> 0"
    and "reliable_routing_is_ack (ev_pb ev) (p_payload p) (p_payload_len p) = (True, None)"
    and "find_index (\<lambda>e. e_id e = p_request_id p) (rel_entries (st_rel st)) = Some i"
    and "mt_event_cb (mt st)"
  shows "\<exists>st'. router_process_lora_rx ev now buf rssi snr st = Some st' \<and>
    st_rel st' = (st_rel st)\<lparr>rel_entries := (rel_entries (st_rel st))[i := (rel_entries (st_rel st) ! i)\<lparr>e_id := 0\<rparr>]\<rparr> \<and>
    Event EVENT_TX_ACKED None (Some (outcome_packet (mt_node_id (mt st)) (outcome_of (rel_entries (st_rel st) ! i)))) \<in> set (mt_log (mt st'))"
proof -
  obtain st' where p: "router_process_lora_rx ev now buf rssi snr st = Some st'"
    using process_returns [OF assms(1)] by blast
  let ?s = "counted ev buf rssi snr True p (noted ev buf st)"
  let ?d = "gateway_on_rx ev p buf (deliver_local ev p ?s)"
  from assms(2) p have "handle_inbound_packet ev now p buf True ?s = Some st'"
    by (cases rule: process_cases) (use assms(3-5) in auto)
  then obtain st1 where st1: "routing_on_decoded ev now p ?d \<bind> dispatch_modules ev now p = Some st1"
    and s: "st' = (if HDR_LEN \<le> length buf then routing_sniff_rebroadcast ev (get_header buf) buf p st1 else st1)"
    by (rule inbound_spec) blast
  obtain st2 where st2: "routing_on_decoded ev now p ?d = Some st2" "dispatch_modules ev now p st2 = Some st1"
    using st1 by (auto simp: bind_eq_Some_conv)
  have cs: "st_rel ?s = st_rel st" "mt_node_id (mt ?s) = mt_node_id (mt st)" "mt_event_cb (mt ?s) = mt_event_cb (mt st)"
    by (simp_all add: counted_def Let_def dup_add_def)
  note kd = keeps_deliver_local [of ?s ev p buf]
  have rel: "st_rel ?d = st_rel st"
    by (rule deliver_spec [of ev p ?s]) (simp add: gateway_on_rx_def deliver_local_def cs)
  have id: "mt_node_id (mt ?d) = mt_node_id (mt st)" "mt_event_cb (mt ?d)"
    using keepsD(2,6) [OF kd] cs assms(13) by simp_all
  let ?e = "rel_entries (st_rel st) ! i"
  let ?r = "on_routing ev p ?d"
  have r: "st_rel ?r = (st_rel st)\<lparr>rel_entries := (rel_entries (st_rel st))[i := ?e\<lparr>e_id := 0\<rparr>]\<rparr>"
    "Event EVENT_TX_ACKED None (Some (outcome_packet (mt_node_id (mt st)) (outcome_of ?e))) \<in> set (mt_log (mt ?r))"
    using on_routing_settles [of ev p ?d i] assms(6-12) rel id
    by (simp_all add: reliable_emit_def emit_event_def)
  have rs: "st_rel st2 = st_rel ?r \<and> keeps ?r st2"
    using st2(1) assms(8,9) id quiet_keeps [OF quiet_send_ack] send_ack_untracked
    by (auto simp: routing_on_decoded_def packet_is_to_us_def Let_def split: if_splits)
  have "keeps ?r st'"
    using rs dispatch.keeps [OF st2(2)] s keeps_sniff keeps_trans by metis
  then have "Event EVENT_TX_ACKED None (Some (outcome_packet (mt_node_id (mt st)) (outcome_of ?e))) \<in> set (mt_log (mt st'))"
    using r(2) keepsD(10) set_mono_prefix by blast
  moreover have "st_rel st' = st_rel st1"
    by (auto simp: s routing_sniff_rebroadcast_def relay_packet_def radio_send_wire_def Let_def)
  ultimately show ?thesis using p r(1) rs dispatch_untracked [OF st2(2)] by simp
qed

text \<open>The acknowledgement as a packet, and the frame it leaves on the air.\<close>

lemma ack_on_air:
  assumes "mt_initialized (mt st)" "p_to req = mt_node_id (mt st)" "p_from req \<noteq> 0" "p_channel_index req < 8"
    "routing_send_ack ev now req st = Some (ok, st')"
  obtains q payload wire where
    "enc_Routing (ev_pb ev) (Routing_error_reason 0) = Some payload" "payload_bytes q = payload" "payload_readable q"
    "build_wire_packet (ev_k ev) (ev_pb ev) (ev_psa ev) (st_db st) (st_ch st) q = Some (Inr wire)"
    "last (r_on_air (st_radio st')) = wire"
    "p_portnum q = PORT_ROUTING" "p_to q = p_from req" "p_channel_index q = p_channel_index req" "p_channel q = 0"
    "p_request_id q = p_id req" "\<not> p_via_mqtt q" "p_payload_len q \<le> MAX_PAYLOAD_LEN"
    "mt_node_id (mt st) \<noteq> 0 \<Longrightarrow> p_from q = mt_node_id (mt st)"
proof -
  obtain pid c where a: "allocate_packet_id (mt st) = (pid, c)" by force
  from allocate_same [OF a] have c: "c = (mt st)\<lparr>mt_next_pkt_id := mt_next_pkt_id c\<rparr>" "pid \<noteq> 0" by blast+
  have cf: "mt_initialized c = mt_initialized (mt st)" "mt_node_id c = mt_node_id (mt st)" by (subst c(1), simp)+
  obtain payload where pl: "pb_encode (enc_Routing (ev_pb ev)) MAX_PAYLOAD_LEN (Routing_error_reason 0) = Some payload"
    using assms a by (cases "pb_encode (enc_Routing (ev_pb ev)) MAX_PAYLOAD_LEN (Routing_error_reason 0)")
      (auto simp: routing_send_ack_def Let_def)
  let ?st = "set_mt c st"
  let ?m = "ack_mesh ?st pid req payload"
  let ?d = "data_zero\<lparr>d_portnum := PORT_ROUTING, d_payload := payload, d_request_id := p_id req, d_want_response := False\<rparr>"
  let ?p = "mesh_decoded_packet ?m ?d"
  have snd: "send_packet ev now ?p K_FOREVER ?st = Some (ok, st')"
    using assms a pl by (simp add: routing_send_ack_def Let_def send_mesh_pb_def ack_mesh_def)
  have p: "p_to ?p = p_from req" "p_portnum ?p = PORT_ROUTING" "p_payload ?p = Some payload" "p_payload_len ?p = length payload"
    "p_channel_index ?p = p_channel_index req" "p_channel ?p = 0" "p_request_id ?p = p_id req" "\<not> p_via_mqtt ?p"
    "p_from ?p = mt_node_id (mt st)" "p_id ?p = pid"
    using assms(3,4) cf by (auto simp: mesh_decoded_packet_def ack_mesh_def reply_channel_def data_zero_def mesh_zero_def Let_def)
  have len: "length payload \<le> MAX_PAYLOAD_LEN" "enc_Routing (ev_pb ev) (Routing_error_reason 0) = Some payload"
    using pl by (simp_all add: pb_encode_Some)
  have "mt_initialized (mt ?st)" "p_to ?p \<noteq> 0" "\<not> payload_args_bad ?p"
    using assms cf p len by (simp_all add: payload_args_bad_def)
  from this snd obtain pid' wire oks where
    w: "build_wire_packet (ev_k ev) (ev_pb ev) (ev_psa ev) (st_db ?st) (st_ch ?st) (defaulted ?st pid' ?p) = Some (Inr wire)"
    and air: "r_on_air (st_radio st') = r_on_air (st_radio ?st) @ oks @ [wire]"
    by (rule send_forever_ok) blast
  let ?q = "defaulted ?st pid' ?p"
  have ci: "p_channel_index ?p \<noteq> 0xFF" using p(5) assms(4) by auto
  show ?thesis
    by (rule that [of payload ?q wire])
      (use w air p len cf ci in \<open>auto simp: defaulted_def Let_def payload_bytes_def payload_readable_def\<close>)
qed

text \<open>
  C4: an acknowledged packet is settled at its sender. When a node that received a packet
  asking for an acknowledgement sends one successfully, and the sender of the packet hears it
  on a channel they share, the sender's entry for the packet is freed, so that no further
  retransmission takes place, and the application is told \<open>TX_ACKED\<close> for that packet.
\<close>

theorem delivery_confirmed:
  assumes "pb_Data_ok (ev_pb eva)" and "psa_ctr_ok (ev_psa eva)" and "pb_roundtrip (enc_Routing (ev_pb eva)) (dec_Routing (ev_pb eva))"
    and "ev_pb evb = ev_pb eva" and "ev_psa evb = ev_psa eva"
    and "channels_inv (st_ch b)" and "channels_live (st_ch a)" and "mt_initialized (mt b)"
    and "mt_node_id (mt a) \<noteq> 0" and "mt_node_id (mt b) \<noteq> 0" and "mt_node_id (mt b) \<noteq> mt_node_id (mt a)"
    and "p_from p = mt_node_id (mt a)" and "p_to p = mt_node_id (mt b)" and "p_id p \<noteq> 0" and "p_channel_index p < 8"
    and "routing_send_ack evb now p b = Some (ok, b')"
    and "shares_channel (st_ch b)
      (channels_resolve_send_index (ev_k evb) (st_db b) (st_ch b) (mt_node_id (mt a)) (p_channel_index p) 0) (st_ch a) j"
    and "decode_known_only (ev_k eva) (st_db a) (st_ch a) (mt_node_id (mt b))"
    and "RELIABLE (ev_k eva)" and "mt_event_cb (mt a)"
    and "find_index (\<lambda>e. e_id e = p_id p) (rel_entries (st_rel a)) = Some i"
    and "\<not> frame_seen eva (last (r_on_air (st_radio b'))) a"
  shows "\<exists>a'. router_process_lora_rx eva now' (last (r_on_air (st_radio b'))) rssi snr a = Some a' \<and>
    st_rel a' = (st_rel a)\<lparr>rel_entries := (rel_entries (st_rel a))[i := (rel_entries (st_rel a) ! i)\<lparr>e_id := 0\<rparr>]\<rparr> \<and>
    Event EVENT_TX_ACKED None (Some (outcome_packet (mt_node_id (mt a)) (outcome_of (rel_entries (st_rel a) ! i)))) \<in> set (mt_log (mt a'))"
proof -
  have from0: "p_from p \<noteq> 0" using assms(9,12) by simp
  from assms(8,13) from0 assms(15,16) obtain q payload wire where
    enc: "enc_Routing (ev_pb evb) (Routing_error_reason 0) = Some payload" and pb: "payload_bytes q = payload" "payload_readable q"
    and w: "build_wire_packet (ev_k evb) (ev_pb evb) (ev_psa evb) (st_db b) (st_ch b) q = Some (Inr wire)"
    and last: "last (r_on_air (st_radio b')) = wire"
    and q: "p_portnum q = PORT_ROUTING" "p_to q = p_from p" "p_channel_index q = p_channel_index p" "p_channel q = 0"
      "p_request_id q = p_id p" "\<not> p_via_mqtt q" "p_payload_len q \<le> MAX_PAYLOAD_LEN"
    and qf: "mt_node_id (mt b) \<noteq> 0 \<Longrightarrow> p_from q = mt_node_id (mt b)"
    by (rule ack_on_air) blast
  note w' = w [unfolded assms(4,5)]
  let ?s = "channels_resolve_send_index (ev_k evb) (st_db b) (st_ch b) (mt_node_id (mt a)) (p_channel_index p) 0"
  let ?r = "received q (channels_get_hash (st_ch b) ?s) j rssi snr"
  have dec: "try_decode_wire_packet (ev_k eva) (ev_pb eva) (ev_psa eva) (st_db a) (st_ch a) wire rssi snr packet_zero (Some MAX_PAYLOAD_LEN)
      = Some (Inr True, ?r)"
    by (rule wire_decodes [OF assms(1,2,6) w', of ?s])
      (use q qf assms(10,12,17,18) pb in simp_all)
  have long: "HDR_LEN \<le> length wire" using built_wire_length [OF assms(2) w'] by simp
  have "h_flags (get_header wire) AND 0x10 = 0"
    by (rule build_wire_Inr [OF w']) (use q(6) flags_not_mqtt in simp)
  then have ni: "\<not> frame_ignored eva wire" by simp
  have seen: "\<not> frame_seen eva wire a" using assms(22) last by simp
  have ack: "reliable_routing_is_ack (ev_pb eva) (p_payload ?r) (p_payload_len ?r) = (True, None)"
    using pb enc assms(3) by (auto simp: received_def reliable_routing_is_ack_def pb_roundtrip_def assms(4))
  have r: "p_portnum ?r = PORT_ROUTING" "p_to ?r = mt_node_id (mt a)" "p_from ?r \<noteq> mt_node_id (mt a)"
    "p_request_id ?r \<noteq> 0" "p_request_id ?r = p_id p"
    using q qf assms(10-12,14) by (simp_all add: received_def)
  have fi: "find_index (\<lambda>e. e_id e = p_request_id ?r) (rel_entries (st_rel a)) = Some i" using assms(21) r(5) by simp
  from ack_received [OF assms(7) long ni seen dec assms(19) r(1-4) ack fi assms(20)] last show ?thesis by simp
qed

end
