(* ===== verification/Serial.thy ===== *)
theory Serial
  imports Send
begin

text \<open>
  The phone interface on a serial line, of \<^verbatim>\<open>src/meshtastic_serial.c\<close>. Frames of both directions
  are preceded by two start bytes and a length; the receiver looks for the next header that makes
  sense and drops bytes until it finds one.

  Zephyr's ring buffers are byte lists of bounded length. What the code asks the ring buffers
  and the UART driver is a parameter: how many bytes a contiguous region has, how many a read of
  the receive FIFO or a write to the transmit FIFO moves, and whether the driver reports ready.
  The state keeps what has arrived in the hardware FIFO and what has been handed to the line. A
  submitted work item is a flag; its handler runs at some later time.
\<close>

section \<open>Frames\<close>

abbreviation (input) START1 :: u8 where "START1 \<equiv> 0x94"
abbreviation (input) START2 :: u8 where "START2 \<equiv> 0xC3"
abbreviation (input) SERIAL_HEADER :: nat where "SERIAL_HEADER \<equiv> 4"
abbreviation (input) SERIAL_WIRE_MAX :: nat where "SERIAL_WIRE_MAX \<equiv> 516"

text \<open>The bytes written to the output; none when the function returns 0.\<close>

definition serial_encode_frame :: "bytes \<Rightarrow> nat \<Rightarrow> bytes" where
  "serial_encode_frame payload out_len =
     (if API_FRAME_MAX < length payload \<or> out_len < length payload + SERIAL_HEADER then []
      else [START1, START2, word_of_nat (length payload div 256), word_of_nat (length payload)] @ payload)"

text \<open>The result of one attempt on the receive ring: the return code, the payload, the ring.\<close>

definition serial_rx_pop_frame :: "bytes \<Rightarrow> int \<times> bytes \<times> bytes" where
  "serial_rx_pop_frame rb =
     (if length rb < SERIAL_HEADER then (0, [], rb)
      else if rb ! 0 \<noteq> START1 then (- 1, [], drop 1 rb)
      else if rb ! 1 \<noteq> START2 then (- 1, [], drop 1 rb)
      else let pkt_len = unat (push_bit 8 (ucast (rb ! 2) :: u16) OR ucast (rb ! 3)) in
        if API_FRAME_MAX < pkt_len then (- 1, [], drop 1 rb)
        else let frame_len = SERIAL_HEADER + pkt_len in
          if length rb < frame_len then (0, [], rb)
          else (1, take pkt_len (drop SERIAL_HEADER rb), drop frame_len rb))"

section \<open>State\<close>

record serial_kconfig =
  SERIAL_RX_BUF_SIZE :: nat
  SERIAL_TX_BUF_SIZE :: nat
  SERIAL_FROMRADIO_QUEUE_SIZE :: nat

record serial =
  se_api :: nat \<comment> \<open>the transport's place among the phones of the node\<close>
  se_rx_rb :: bytes
  se_tx_rb :: bytes
  se_rx_overflow :: bool
  se_rx_work :: bool
  se_tx_work :: bool
  se_tx_cont_work :: bool
  se_tx_irq :: bool
  se_rx_irq :: bool
  se_fifo :: bytes \<comment> \<open>received by the hardware, not yet read\<close>
  se_out :: bytes \<comment> \<open>handed to the hardware, in order\<close>

text \<open>The answers of the ring buffers and of the UART driver.\<close>

record uart =
  ring_buf_put_ptr :: "bytes \<Rightarrow> nat"
  ring_buf_get_ptr :: "bytes \<Rightarrow> nat"
  uart_fifo_read :: "bytes \<Rightarrow> nat \<Rightarrow> int"
  uart_fifo_fill :: "bytes \<Rightarrow> int"
  uart_irq_rx_ready :: "bytes \<Rightarrow> bool"
  uart_irq_tx_ready :: "bytes \<Rightarrow> bool"
  uart_device_ready :: bool
  uart_configure :: "errno option"
  uart_callback_set :: "errno option"

section \<open>Transmission\<close>

definition phone_env_of :: "env \<Rightarrow> node \<Rightarrow> phone_env" where
  "phone_env_of ev st = \<lparr>pe_k = ev_k ev, pe_hw_model = ev_hw_model ev, pe_store = st_store st, pe_channels = st_ch st\<rparr>"

definition pop_fromradio :: "env \<Rightarrow> nat \<Rightarrow> node \<Rightarrow> bytes option \<times> node" where
  "pop_fromradio ev i st =
     (let (frame, api, c) = pop_frame (ev_pc ev) (phone_env_of ev st) (st_phones st ! i, mt st)
      in (frame, set_mt c st\<lparr>st_phones := (st_phones st)[i := api]\<rparr>))"

definition push_fromradio :: "nat \<Rightarrow> bytes \<Rightarrow> node \<Rightarrow> node" where
  "push_fromradio i frame st = upd_phone i (\<lambda>(api, c). (push_frame_front frame api, c)) st"

definition serial_tx_start :: "serial \<Rightarrow> serial" where
  "serial_tx_start s = s\<lparr>se_tx_irq := True\<rparr>"

definition serial_tx_finish :: "serial \<Rightarrow> serial" where
  "serial_tx_finish s = (if se_tx_rb s \<noteq> [] then s else s\<lparr>se_tx_irq := False, se_tx_cont_work := True\<rparr>)"

definition serial_tx_queue :: "serial_kconfig \<Rightarrow> bytes \<Rightarrow> serial \<Rightarrow> bool \<times> serial" where
  "serial_tx_queue k data s =
     (let fits = length data \<le> SERIAL_TX_BUF_SIZE k - length (se_tx_rb s);
          s = (if fits then s\<lparr>se_tx_rb := se_tx_rb s @ data\<rparr> else s)
      in (fits, serial_tx_start s))"

partial_function (option) serial_tx_loop :: "env \<Rightarrow> serial_kconfig \<Rightarrow> serial \<Rightarrow> node \<Rightarrow> (serial \<times> node) option" where
  "serial_tx_loop ev k s st =
     (case pop_fromradio ev (se_api s) st of
        (None, st) \<Rightarrow> Some (s, st)
      | (Some frame, st) \<Rightarrow>
          let wire = serial_encode_frame frame SERIAL_WIRE_MAX in
          if wire = [] then serial_tx_loop ev k s st
          else if SERIAL_TX_BUF_SIZE k - length (se_tx_rb s) < length wire
          then Some (s, push_fromradio (se_api s) frame st)
          else (case serial_tx_queue k wire s of
                  (queued, s) \<Rightarrow>
                    if \<not> queued then Some (s, push_fromradio (se_api s) frame st) else serial_tx_loop ev k s st))"

definition tx_work_handler :: "env \<Rightarrow> serial_kconfig \<Rightarrow> serial \<Rightarrow> node \<Rightarrow> (serial \<times> node) option" where
  "tx_work_handler ev k s st = serial_tx_loop ev k (s\<lparr>se_tx_work := False\<rparr>) st"

definition tx_cont_work_handler :: "serial \<Rightarrow> serial" where
  "tx_cont_work_handler s = s\<lparr>se_tx_cont_work := False, se_tx_work := True\<rparr>"

definition serial_data_ready :: "serial \<Rightarrow> serial" where
  "serial_data_ready s = s\<lparr>se_tx_work := True\<rparr>"

text \<open>The data-ready callbacks the phone interface has made between two states of the node.\<close>

definition serial_notified :: "node \<Rightarrow> node \<Rightarrow> serial \<Rightarrow> serial" where
  "serial_notified st st' s =
     (if pa_notified (st_phones st' ! se_api s) \<noteq> pa_notified (st_phones st ! se_api s) then serial_data_ready s else s)"

lemma serial_notified_simps [simp]:
  "se_rx_rb (serial_notified st st' s) = se_rx_rb s" "se_tx_rb (serial_notified st st' s) = se_tx_rb s"
  "se_out (serial_notified st st' s) = se_out s" "se_api (serial_notified st st' s) = se_api s"
  by (simp_all add: serial_notified_def serial_data_ready_def)

section \<open>Reception\<close>

lemma pop_frame_shorter: "serial_rx_pop_frame rb = (ret, p, rb') \<Longrightarrow> ret \<noteq> 0 \<Longrightarrow> length rb' < length rb"
  by (auto simp: serial_rx_pop_frame_def Let_def split: if_splits)

function serial_rx_loop :: "env \<Rightarrow> int \<Rightarrow> nat \<Rightarrow> bytes \<Rightarrow> node \<Rightarrow> (bytes \<times> node) option" where
  "serial_rx_loop ev now i rb st =
     (case serial_rx_pop_frame rb of
        (ret, payload, rb') \<Rightarrow>
          if ret = 0 then Some (rb', st)
          else if ret < 0 then serial_rx_loop ev now i rb' st
          else if payload = [] then serial_rx_loop ev now i rb' st
          else (case handle_toradio ev now i payload st of
                  None \<Rightarrow> None
                | Some st \<Rightarrow> serial_rx_loop ev now i rb' st))"
  by pat_completeness auto
termination
  by (relation "measure (\<lambda>(ev, now, i, rb, st). length rb)") (auto dest: pop_frame_shorter [OF sym])

declare serial_rx_loop.simps [simp del]

definition rx_work_handler :: "env \<Rightarrow> int \<Rightarrow> serial \<Rightarrow> node \<Rightarrow> (serial \<times> node) option" where
  "rx_work_handler ev now s st =
     (let s = s\<lparr>se_rx_work := False, se_rx_overflow := False\<rparr> in do {
        (rb, st') \<leftarrow> serial_rx_loop ev now (se_api s) (se_rx_rb s) st;
        Some (serial_notified st st' (s\<lparr>se_rx_rb := rb\<rparr>), st')
      })"

section \<open>Interrupts\<close>

partial_function (option) serial_discard :: "uart \<Rightarrow> bytes \<Rightarrow> bytes option" where
  "serial_discard u fifo =
     (let len = uart_fifo_read u fifo 16; rest = drop (nat len) fifo
      in if len = 16 then serial_discard u rest else Some rest)"

definition serial_isr_rx :: "uart \<Rightarrow> serial \<Rightarrow> serial option" where
  "serial_isr_rx u s =
     (let space = ring_buf_put_ptr u (se_rx_rb s) in
      if space = 0
      then do { rest \<leftarrow> serial_discard u (se_fifo s); Some (s\<lparr>se_rx_overflow := True, se_fifo := rest\<rparr>) }
      else let len = uart_fifo_read u (se_fifo s) space in
        if len \<le> 0 then Some s
        else Some (s\<lparr>se_rx_rb := se_rx_rb s @ take (nat len) (se_fifo s), se_fifo := drop (nat len) (se_fifo s),
               se_rx_work := True\<rparr>))"

definition serial_isr_tx :: "uart \<Rightarrow> serial \<Rightarrow> serial" where
  "serial_isr_tx u s =
     (let len = ring_buf_get_ptr u (se_tx_rb s) in
      if len = 0 then serial_tx_finish s
      else let sent = uart_fifo_fill u (take len (se_tx_rb s)) in
        if sent \<le> 0 then s
        else s\<lparr>se_out := se_out s @ take (nat sent) (se_tx_rb s), se_tx_rb := drop (nat sent) (se_tx_rb s)\<rparr>)"

lemma isr_tx_shorter: "length (se_tx_rb (serial_isr_tx u s)) \<le> length (se_tx_rb s)"
  by (simp add: serial_isr_tx_def serial_tx_finish_def Let_def)

function serial_isr_tx_loop :: "uart \<Rightarrow> serial \<Rightarrow> serial" where
  "serial_isr_tx_loop u s =
     (let s' = serial_isr_tx u s in
      if length (se_tx_rb s') = length (se_tx_rb s) then s'
      else if uart_irq_tx_ready u (se_tx_rb s') then serial_isr_tx_loop u s' else s')"
  by pat_completeness auto
termination
proof (relation "measure (\<lambda>(u, s). length (se_tx_rb s))", goal_cases)
  case (2 u s s')
  then show ?case using isr_tx_shorter [of u s] by simp
qed simp

declare serial_isr_tx_loop.simps [simp del]

definition serial_isr :: "uart \<Rightarrow> serial \<Rightarrow> serial option" where
  "serial_isr u s = do {
     s \<leftarrow> (if uart_irq_rx_ready u (se_fifo s) then serial_isr_rx u s else Some s);
     Some (if uart_irq_tx_ready u (se_tx_rb s) then serial_isr_tx_loop u s else s)
   }"

section \<open>Initialisation\<close>

text \<open>An unsupported configuration call is not an error; 88 is \<^verbatim>\<open>ENOSYS\<close>.\<close>

definition configure_uart :: "uart \<Rightarrow> unit res" where
  "configure_uart u =
     (case uart_configure u of
        None \<Rightarrow> ok
      | Some e \<Rightarrow> if e \<noteq> EOTHER 88 \<and> e \<noteq> ENOTSUP then Inl e else ok)"

definition serial_init :: "env \<Rightarrow> serial_kconfig \<Rightarrow> uart \<Rightarrow> serial \<Rightarrow> node \<Rightarrow> unit res \<times> serial \<times> node" where
  "serial_init ev k u s st =
     (if \<not> uart_device_ready u then (Inl ENODEV, s, st)
      else case configure_uart u of
          Inl e \<Rightarrow> (Inl e, s, st)
        | Inr _ \<Rightarrow>
            let i = length (st_phones st);
                s = s\<lparr>se_api := i\<rparr>;
                st = st\<lparr>st_phones := st_phones st @ [phoneapi_init (SERIAL_FROMRADIO_QUEUE_SIZE k)]\<rparr>
            in case uart_callback_set u of
                Some e \<Rightarrow> (Inl e, s, st)
              | None \<Rightarrow>
                  let st' = upd_phone i (\<lambda>(api, c). (enqueue_rebooted (ev_pc ev) api, c)) st
                  in (ok, serial_notified st st' (s\<lparr>se_tx_irq := False, se_rx_irq := True\<rparr>), st'))"

section \<open>The receiver\<close>

lemma header_len_small: "unat (push_bit 8 (ucast a :: u16) OR ucast (b :: u8)) = 256 * unat (a :: u8) + unat b"
proof -
  have "unat (push_bit 8 (ucast a :: u16) OR ucast b) = unat (push_bit 8 (ucast a :: u16) + ucast b)"
    by (subst disjunctive_add) (auto simp: bit_push_bit_iff bit_ucast_iff dest: bit_imp_le_length)
  also have "\<dots> = 256 * unat a + unat b"
  proof -
    have "unat a < 256" "unat b < 256" using unsigned_less [of a] unsigned_less [of b] by simp_all
    then show ?thesis
      by (simp add: push_bit_eq_mult unat_word_ariths unsigned_ucast_eq take_bit_eq_mod)
  qed
  finally show ?thesis .
qed

text \<open>What the receiver decides it decides for good: more bytes do not change it.\<close>

lemma pop_frame_append:
  assumes "serial_rx_pop_frame rb = (ret, payload, rb')" "ret \<noteq> 0"
  shows "serial_rx_pop_frame (rb @ ys) = (ret, payload, rb' @ ys)"
proof -
  have l: "4 \<le> length rb" using assms by (simp add: serial_rx_pop_frame_def split: if_splits)
  then have n: "(rb @ ys) ! 0 = rb ! 0" "(rb @ ys) ! 1 = rb ! 1" "(rb @ ys) ! 2 = rb ! 2" "(rb @ ys) ! 3 = rb ! 3"
    by (cases rb, auto simp: nth_append)+
  let ?n = "unat (push_bit 8 (ucast (rb ! 2) :: u16) OR ucast (rb ! 3))"
  have step: "serial_rx_pop_frame (rb @ zs) =
      (if rb ! 0 \<noteq> START1 \<or> rb ! 1 \<noteq> START2 \<or> API_FRAME_MAX < ?n then (- 1, [], drop 1 rb @ zs)
       else if length rb + length zs < 4 + ?n then (0, [], rb @ zs)
       else (1, take ?n (drop 4 rb @ zs), drop (4 + ?n) (rb @ zs)))" if "zs = [] \<or> zs = ys" for zs
    using l n that by (auto simp: serial_rx_pop_frame_def Let_def)
  show ?thesis
    using step [of "[]"] step [of ys] assms l by (auto split: if_splits)
qed

lemma pop_frame_wait: "serial_rx_pop_frame rb = (0, payload, rb') \<Longrightarrow> rb' = rb"
  by (auto simp: serial_rx_pop_frame_def Let_def split: if_splits)

lemma drop_header: "drop (4 + n) (a # b # c # d # xs) = drop n xs"
  by (simp add: numeral_eq_Suc)

lemma pop_frame_encoded:
  assumes "length p \<le> API_FRAME_MAX"
  shows "serial_rx_pop_frame (serial_encode_frame p SERIAL_WIRE_MAX @ ys) = (1, p, ys)"
proof -
  have "unat (word_of_nat (length p div 256) :: u8) = length p div 256" "unat (word_of_nat (length p) :: u8) = length p mod 256"
    using assms by (simp_all add: unat_of_nat)
  with assms show ?thesis by (simp add: serial_rx_pop_frame_def serial_encode_frame_def header_len_small drop_header Let_def)
qed

text \<open>Noise: any bytes in which the two start bytes do not follow each other.\<close>

abbreviation noise :: "bytes \<Rightarrow> bool" where
  "noise g \<equiv> successively (\<lambda>a b. \<not> (a = START1 \<and> b = START2)) g"

lemma pop_frame_noise:
  "b \<noteq> START1 \<or> rb ! 0 \<noteq> START2 \<Longrightarrow> 3 \<le> length rb \<Longrightarrow> serial_rx_pop_frame (b # rb) = (- 1, [], rb)"
  by (auto simp: serial_rx_pop_frame_def)

text \<open>
  The receiver as a function on streams: the payloads in a byte sequence and the bytes it keeps
  for later. Frames without payload are passed over.
\<close>

function stream_parse :: "bytes \<Rightarrow> bytes list \<times> bytes" where
  "stream_parse rb =
     (case serial_rx_pop_frame rb of
        (ret, payload, rb') \<Rightarrow>
          if ret = 0 then ([], rb')
          else apfst (append (if payload = [] then [] else [payload])) (stream_parse rb'))"
  by pat_completeness auto
termination
  by (relation "measure length") (auto dest: pop_frame_shorter [OF sym])

declare stream_parse.simps [simp del]

lemma pop_frame_skip: "serial_rx_pop_frame rb = (ret, payload, rb') \<Longrightarrow> ret < 0 \<Longrightarrow> payload = []"
  by (auto simp: serial_rx_pop_frame_def Let_def split: if_splits)

lemma stream_parse_append:
  "stream_parse (xs @ ys) =
     (let (ps, r) = stream_parse xs; (qs, r') = stream_parse (r @ ys) in (ps @ qs, r'))"
proof (induction xs rule: stream_parse.induct)
  case (1 xs)
  obtain ret p rb' where f: "serial_rx_pop_frame xs = (ret, p, rb')" by (metis prod_cases3)
  show ?case
  proof (cases "ret = 0")
    case True
    with f pop_frame_wait have "stream_parse xs = ([], xs)" by (subst stream_parse.simps) auto
    then show ?thesis by (simp split: prod.splits)
  next
    case False
    have l: "stream_parse (xs @ ys) = apfst (append (if p = [] then [] else [p])) (stream_parse (rb' @ ys))"
      using pop_frame_append [OF f False, of ys] False by (subst stream_parse.simps) simp
    have r: "stream_parse xs = apfst (append (if p = [] then [] else [p])) (stream_parse rb')"
      using f False by (subst stream_parse.simps) simp
    show ?thesis unfolding l r "1.IH" [OF f [symmetric] refl False] by (simp add: split_beta Let_def)
  qed
qed

lemma stream_parse_noise:
  assumes "noise g" "3 \<le> length rb" "rb ! 0 = START1"
  shows "stream_parse (g @ rb) = stream_parse rb"
  using assms(1)
proof (induction g)
  case (Cons b g)
  have "b \<noteq> START1 \<or> (g @ rb) ! 0 \<noteq> START2" using Cons.prems assms(3) by (cases g) auto
  then have "serial_rx_pop_frame (b # g @ rb) = (- 1, [], g @ rb)" using assms(2) by (intro pop_frame_noise) auto
  then have "stream_parse (b # g @ rb) = stream_parse (g @ rb)" by (cases "stream_parse (g @ rb)") (subst stream_parse.simps, simp)
  with Cons show ?case by (cases g) simp_all
qed simp

lemma stream_parse_frame:
  "p \<noteq> [] \<Longrightarrow> length p \<le> API_FRAME_MAX \<Longrightarrow>
     stream_parse (serial_encode_frame p SERIAL_WIRE_MAX @ ys) = apfst (Cons p) (stream_parse ys)"
  by (subst stream_parse.simps) (simp add: pop_frame_encoded)

lemma encode_nonempty:
  assumes "length p \<le> API_FRAME_MAX"
  shows "length (serial_encode_frame p SERIAL_WIRE_MAX) = length p + 4" "(serial_encode_frame p SERIAL_WIRE_MAX @ ys) ! 0 = START1"
  using assms by (simp_all add: serial_encode_frame_def)

abbreviation noisy :: "(bytes \<times> bytes) list \<Rightarrow> bytes" where
  "noisy xs \<equiv> concat (map (\<lambda>(g, p). g @ serial_encode_frame p SERIAL_WIRE_MAX) xs)"

lemma stream_parse_noisy:
  assumes "\<forall>(g, p)\<in>set xs. noise g \<and> p \<noteq> [] \<and> length p \<le> API_FRAME_MAX"
  shows "stream_parse (noisy xs) = (map snd xs, [])"
  using assms
proof (induction xs)
  case Nil
  show ?case by (subst stream_parse.simps) (simp add: serial_rx_pop_frame_def)
next
  case (Cons x xs)
  obtain g p where x: "x = (g, p)" by force
  with Cons have "stream_parse (g @ serial_encode_frame p SERIAL_WIRE_MAX @ noisy xs) = (p # map snd xs, [])"
    by (subst stream_parse_noise) (auto simp: stream_parse_frame encode_nonempty)
  with x show ?case by simp
qed

text \<open>The same on the node: each payload is handled, in order.\<close>

fun timed_toradio :: "env \<Rightarrow> nat \<Rightarrow> (int \<times> bytes) list \<Rightarrow> node \<Rightarrow> node option" where
  "timed_toradio ev i [] st = Some st"
| "timed_toradio ev i ((now, p) # ps) st = handle_toradio ev now i p st \<bind> timed_toradio ev i ps"

lemma timed_toradio_append:
  "timed_toradio ev i (ps @ qs) st = timed_toradio ev i ps st \<bind> timed_toradio ev i qs"
  by (induction ps arbitrary: st) (auto split: Option.bind_splits)

lemma rx_loop_parse:
  "serial_rx_loop ev now i rb st =
     map_option (Pair (snd (stream_parse rb))) (timed_toradio ev i (map (Pair now) (fst (stream_parse rb))) st)"
proof (induction ev now i rb st rule: serial_rx_loop.induct)
  case (1 ev now i rb st)
  obtain ret p rb' where f: "serial_rx_pop_frame rb = (ret, p, rb')" by (metis prod_cases3)
  note l = serial_rx_loop.simps [of ev now i rb st] and r = stream_parse.simps [of rb]
  consider "ret = 0" | "ret \<noteq> 0" "p = []" | "0 < ret" "p \<noteq> []" using pop_frame_skip [OF f] by force
  then show ?case
  proof cases
    case 1
    then show ?thesis by (simp add: l r f)
  next
    case 2
    with "1.IH"(1,2) [OF f [symmetric] refl] have "serial_rx_loop ev now i rb' st =
        map_option (Pair (snd (stream_parse rb'))) (timed_toradio ev i (map (Pair now) (fst (stream_parse rb'))) st)"
      by (cases "ret < 0") simp_all
    with 2 show ?thesis by (simp add: l r f)
  next
    case 3
    with "1.IH"(3) [OF f [symmetric] refl] show ?thesis
      by (cases "handle_toradio ev now i p st") (simp_all add: l r f)
  qed
qed

section \<open>The transmitter\<close>

abbreviation (input) wire_of :: "bytes \<Rightarrow> bytes" where
  "wire_of f \<equiv> serial_encode_frame f SERIAL_WIRE_MAX"

definition phone_ok :: "phoneapi \<Rightarrow> bool" where
  "phone_ok api \<longleftrightarrow> phone_ring_ok api \<and> (\<forall>f\<in>set (pa_queue api). length f \<le> API_FRAME_MAX)"

text \<open>A step of the configuration download touches its own fields only and yields small frames.\<close>

definition config_only :: "phoneapi \<Rightarrow> bytes res \<times> phoneapi \<times> 'c \<Rightarrow> bool" where
  "config_only api x \<longleftrightarrow> (case x of (r, api', c) \<Rightarrow>
     (\<exists>s i. api' = api\<lparr>pa_config_state := s, pa_config_index := i\<rparr>) \<and> (\<forall>f. r = Inr f \<longrightarrow> length f \<le> API_FRAME_MAX))"

lemma config_only_update:
  "config_only (api\<lparr>pa_config_index := i\<rparr>) x \<Longrightarrow> config_only api x"
  "config_only (api\<lparr>pa_config_state := s, pa_config_index := i\<rparr>) x \<Longrightarrow> config_only api x"
  by (auto simp: config_only_def)

lemma config_only_same: "config_only api (Inl e, api, c)"
  unfolding config_only_def split
  by (intro conjI exI [of _ "pa_config_state api"] exI [of _ "pa_config_index api"]) simp_all

lemma config_only_emit: "emit_frame pc m s i api = (r, api') \<Longrightarrow> config_only api (r, api', c)"
proof (cases "pb_encode (enc_FromRadio pc) API_FRAME_MAX m")
  case None
  then show "emit_frame pc m s i api = (r, api') \<Longrightarrow> ?thesis"
    using config_only_same [of api] by (auto simp: emit_frame_def encode_fromradio_frame_def)
next
  case (Some f)
  moreover from this have "length f \<le> API_FRAME_MAX" by (simp add: pb_encode_Some)
  ultimately show "emit_frame pc m s i api = (r, api') \<Longrightarrow> ?thesis"
    by (auto simp: config_only_def emit_frame_def encode_fromradio_frame_def)
qed

lemma config_only_variant: "config_only api (emit_variant pc v s i (api, c))"
  by (auto simp: emit_variant_def Let_def split: prod.split intro: config_only_emit)

lemma config_only_queue_status: "config_only api (queue_status_step pc (api, c))"
  by (simp add: queue_status_step_def config_only_variant)

lemma config_only_modules: "config_only api (modules_step pc env (api, c))"
  using config_only_queue_status [THEN config_only_update(2)]
  by (auto simp: modules_step_def Let_def split: prod.split option.split intro: config_only_emit [THEN config_only_update(1)])

lemma config_only_configs: "config_only api (configs_step pc env (api, c))"
  using config_only_modules [THEN config_only_update(2)]
  by (auto simp: configs_step_def Let_def split: prod.split option.split intro: config_only_emit [THEN config_only_update(1)])

lemma config_only_next: "config_only api (next_config_frame pc env (api, c))"
  by (simp add: next_config_frame_def config_only_same config_only_variant config_only_configs config_only_modules
      config_only_queue_status Let_def split: config_state.split)

lemma pop_frame_phone_ok:
  assumes "phone_ok api" "pop_frame pc env (api, c) = (r, api', c')"
  shows "phone_ok api' \<and> (\<forall>f. r = Some f \<longrightarrow> length f \<le> API_FRAME_MAX \<and> pa_count api' < pa_queue_size api')"
proof (cases "ring_pop api")
  case None
  then have "phone_frames api = []" using assms(1) ring_pop_spec [of api] by (cases "phone_frames api") (auto simp: phone_ok_def)
  then have n: "pa_count api = 0" using length_phone_frames [of api] by simp
  have "config_only api (next_config_frame pc env (api, c))" by (rule config_only_next)
  with None assms n show ?thesis
    by (auto simp: pop_frame_def config_only_def phone_ok_def phone_ring_ok_def split: if_splits prod.splits sum.splits)
next
  case (Some x)
  obtain f api1 where x: "x = (f, api1)" by force
  with Some assms(2) have r: "r = Some f" "api' = api1" by (auto simp: pop_frame_def)
  have "phone_frames api \<noteq> []" using assms(1) Some ring_pop_spec [of api] by (auto simp: phone_ok_def)
  then obtain y ys where "phone_frames api = y # ys" by (cases "phone_frames api") auto
  with assms(1) Some x ring_pop_spec [of api] have ring: "phone_ring_ok api1" "phone_frames api1 = ys" "f = y"
    "pa_queue_size api1 = pa_queue_size api" by (auto simp: phone_ok_def)
  have q: "pa_queue api1 = pa_queue api" "f = pa_queue api ! pa_tail api" "pa_count api1 < pa_count api"
    using Some x by (auto simp: ring_pop_def split: if_splits)
  have "f \<in> set (pa_queue api)" using q(2) assms(1) by (simp add: phone_ok_def phone_ring_ok_def)
  with assms(1) ring q r show ?thesis by (auto simp: phone_ok_def phone_ring_ok_def)
qed

lemma push_front_phone_ok:
  assumes "phone_ok api" "length f \<le> API_FRAME_MAX"
  shows "phone_ok (push_frame_front f api)"
  using assms push_frame_front_spec [of api f] set_update_subset_insert [of "pa_queue api" _ f]
  by (fastforce simp: phone_ok_def push_frame_front_def Let_def)

text \<open>One step of the loop, and what popping changes on the node.\<close>

lemma pop_fromradio_spec:
  assumes "i < length (st_phones st)" "pop_fromradio ev i st = (r, st')"
  obtains api c where "pop_frame (ev_pc ev) (phone_env_of ev st) (st_phones st ! i, mt st) = (r, api, c)"
    "st' = set_mt c st\<lparr>st_phones := (st_phones st)[i := api]\<rparr>" "st_phones st' ! i = api" "mt st' = c"
    "phone_env_of ev st' = phone_env_of ev st" "length (st_phones st') = length (st_phones st)"
  using assms by (auto simp: pop_fromradio_def phone_env_of_def split: prod.splits)

lemma push_fromradio_spec:
  assumes "i < length (st_phones st)"
  shows "st_phones (push_fromradio i f st) ! i = push_frame_front f (st_phones st ! i)" "mt (push_fromradio i f st) = mt st"
    "phone_env_of ev (push_fromradio i f st) = phone_env_of ev st"
  using assms by (simp_all add: push_fromradio_def upd_phone_def phone_env_of_def)

lemma push_front_pop:
  "phone_ring_ok api \<Longrightarrow> fst (pop_frame pc env (push_frame_front f api, c)) = Some f"
  using push_frame_front_spec [of api f] ring_pop_spec [of "push_frame_front f api"] by (auto simp: pop_frame_def)

lemma length_wire_of: "length f \<le> API_FRAME_MAX \<Longrightarrow> length (wire_of f) = length f + 4 \<and> wire_of f \<noteq> []"
  using encode_nonempty [of f] by auto

text \<open>
  The loop ends, because every frame it takes uses up room in the ring. The frames it takes are
  the next ones of the phone; it stops when there is none left or the next one does not fit, and
  then that frame is back at the head of the queue.
\<close>

text \<open>
  What a run of the loop has achieved: the frames \<open>fs\<close> are appended to the ring, they are the next ones
  of the phone, and the one after them, if there is one, does not fit and is the phone's next again.
\<close>

definition tx_result :: "env \<Rightarrow> serial_kconfig \<Rightarrow> serial \<Rightarrow> node \<Rightarrow> serial \<Rightarrow> node \<Rightarrow> bytes list \<Rightarrow> bool" where
  "tx_result ev k s st s' st' fs \<longleftrightarrow>
     (let pc = ev_pc ev; env = phone_env_of ev st; run = pop_frames pc env (length fs) (st_phones st ! se_api s, mt st) in
      se_tx_rb s' = se_tx_rb s @ concat (map wire_of fs) \<and> length (se_tx_rb s') \<le> SERIAL_TX_BUF_SIZE k \<and>
      (\<forall>f\<in>set fs. length f \<le> API_FRAME_MAX) \<and> phone_ok (st_phones st' ! se_api s) \<and> se_out s' = se_out s \<and>
      fst run = map Some fs \<and>
      (case fst (pop_frame pc env (snd run)) of
         None \<Rightarrow> True
       | Some f \<Rightarrow> SERIAL_TX_BUF_SIZE k < length (se_tx_rb s') + length f + 4 \<and>
           fst (pop_frame pc env (st_phones st' ! se_api s, mt st')) = Some f))"

text \<open>The three ways of one round of the loop.\<close>

lemma tx_result_idle:
  assumes "pop_frame (ev_pc ev) (phone_env_of ev st) (st_phones st ! se_api s, mt st) = (None, api, c)"
    "phone_ok (st_phones st1 ! se_api s)" "length (se_tx_rb s) \<le> SERIAL_TX_BUF_SIZE k"
  shows "tx_result ev k s st s st1 []"
  using assms by (simp add: tx_result_def)

lemma tx_result_full:
  assumes "pop_frame (ev_pc ev) (phone_env_of ev st) (st_phones st ! se_api s, mt st) = (Some f, api, c)"
    "st_phones st1 ! se_api s = api" "mt st1 = c" "se_api s < length (st_phones st1)" "phone_ok api" "length f \<le> API_FRAME_MAX"
    "SERIAL_TX_BUF_SIZE k - length (se_tx_rb s) < length (wire_of f)" "length (se_tx_rb s) \<le> SERIAL_TX_BUF_SIZE k"
  shows "tx_result ev k s st s (push_fromradio (se_api s) f st1) []"
proof -
  note push = push_fromradio_spec [OF assms(4), where f = f] push_front_pop [of api "ev_pc ev" "phone_env_of ev st" f c]
  have "SERIAL_TX_BUF_SIZE k < length (se_tx_rb s) + length f + 4" using assms(7,8) length_wire_of [OF assms(6)] by simp
  moreover have "phone_ok (push_frame_front f api)" by (rule push_front_phone_ok [OF assms(5,6)])
  moreover have "phone_ring_ok api" using assms(5) by (simp add: phone_ok_def)
  ultimately show ?thesis using assms(1-3,8) push by (simp add: tx_result_def)
qed

lemma tx_result_next:
  assumes "pop_frame (ev_pc ev) (phone_env_of ev st) (st_phones st ! se_api s, mt st) = (Some f, api, c)"
    "st_phones st1 ! se_api s = api" "mt st1 = c" "phone_env_of ev st1 = phone_env_of ev st" "length f \<le> API_FRAME_MAX"
    "tx_result ev k (s\<lparr>se_tx_rb := se_tx_rb s @ wire_of f, se_tx_irq := True\<rparr>) st1 s' st' fs"
  shows "tx_result ev k s st s' st' (f # fs)"
proof -
  have "pop_frames (ev_pc ev) (phone_env_of ev st) (Suc n) (st_phones st ! se_api s, mt st) =
      apfst (Cons (Some f)) (pop_frames (ev_pc ev) (phone_env_of ev st) n (api, c))" for n
    by (simp add: assms(1) split_beta prod_eq_iff)
  note q = this
  have "tx_result ev k s st s' st' (f # fs) \<longleftrightarrow>
      tx_result ev k (s\<lparr>se_tx_rb := se_tx_rb s @ wire_of f, se_tx_irq := True\<rparr>) st1 s' st' fs"
    unfolding tx_result_def Let_def using assms(2-5) q by (simp del: pop_frames.simps cong: option.case_cong)
  with assms(6) show ?thesis by simp
qed

lemma serial_tx_loop_result:
  assumes "phone_ok (st_phones st ! se_api s)" "se_api s < length (st_phones st)"
    "length (se_tx_rb s) \<le> SERIAL_TX_BUF_SIZE k"
  shows "\<exists>s' st' fs. serial_tx_loop ev k s st = Some (s', st') \<and> tx_result ev k s st s' st' fs"
  using assms
proof (induction "SERIAL_TX_BUF_SIZE k - length (se_tx_rb s)" arbitrary: s st rule: less_induct)
  case less
  let ?i = "se_api s"
  obtain r st1 where pop: "pop_fromradio ev ?i st = (r, st1)" by force
  from less.prems(2) pop obtain api c where p: "pop_frame (ev_pc ev) (phone_env_of ev st) (st_phones st ! ?i, mt st) = (r, api, c)"
    and st1: "st1 = set_mt c st\<lparr>st_phones := (st_phones st)[?i := api]\<rparr>" "st_phones st1 ! ?i = api" "mt st1 = c"
      "phone_env_of ev st1 = phone_env_of ev st" "length (st_phones st1) = length (st_phones st)"
    by (rule pop_fromradio_spec)
  note ok1 = pop_frame_phone_ok [OF less.prems(1) p]
  show ?case
  proof (cases r)
    case None
    then have "serial_tx_loop ev k s st = Some (s, st1)" by (simp add: serial_tx_loop.simps pop)
    with tx_result_idle p None ok1 st1(2) less.prems(3) show ?thesis by fastforce
  next
    case (Some f)
    with ok1 have f: "length f \<le> API_FRAME_MAX" "phone_ok api" by simp_all
    note w = length_wire_of [OF f(1)] and p = p [unfolded Some]
    show ?thesis
    proof (cases "SERIAL_TX_BUF_SIZE k - length (se_tx_rb s) < length (wire_of f)")
      case True
      then have "serial_tx_loop ev k s st = Some (s, push_fromradio ?i f st1)" using w by (simp add: serial_tx_loop.simps pop Some)
      with tx_result_full [OF p st1(2,3) _ f(2,1) True less.prems(3)] less.prems(2) st1(5) show ?thesis by auto
    next
      case False
      let ?s1 = "s\<lparr>se_tx_rb := se_tx_rb s @ wire_of f, se_tx_irq := True\<rparr>"
      have step: "serial_tx_loop ev k s st = serial_tx_loop ev k ?s1 st1"
        using False w by (subst serial_tx_loop.simps) (simp add: pop Some serial_tx_queue_def serial_tx_start_def Let_def)
      have "\<exists>s' st' fs. serial_tx_loop ev k ?s1 st1 = Some (s', st') \<and> tx_result ev k ?s1 st1 s' st' fs"
        using False w f(2) st1(2,5) less.prems(2,3) by (intro less.hyps) simp_all
      then obtain s' st' fs where "serial_tx_loop ev k ?s1 st1 = Some (s', st')" "tx_result ev k ?s1 st1 s' st' fs" by blast
      with step tx_result_next [OF p st1(2-4) f(1)] show ?thesis by metis
    qed
  qed
qed

lemma serial_tx_loop_spec:
  assumes "phone_ok (st_phones st ! se_api s)" "se_api s < length (st_phones st)"
    "length (se_tx_rb s) \<le> SERIAL_TX_BUF_SIZE k"
  obtains s' st' fs where "serial_tx_loop ev k s st = Some (s', st')"
    "se_tx_rb s' = se_tx_rb s @ concat (map wire_of fs)" "length (se_tx_rb s') \<le> SERIAL_TX_BUF_SIZE k"
    "\<forall>f\<in>set fs. length f \<le> API_FRAME_MAX" "phone_ok (st_phones st' ! se_api s)" "se_out s' = se_out s"
    "fst (pop_frames (ev_pc ev) (phone_env_of ev st) (length fs) (st_phones st ! se_api s, mt st)) = map Some fs"
    "case fst (pop_frame (ev_pc ev) (phone_env_of ev st)
        (snd (pop_frames (ev_pc ev) (phone_env_of ev st) (length fs) (st_phones st ! se_api s, mt st)))) of
       None \<Rightarrow> True
     | Some f \<Rightarrow> SERIAL_TX_BUF_SIZE k < length (se_tx_rb s') + length f + 4 \<and>
         fst (pop_frame (ev_pc ev) (phone_env_of ev st) (st_phones st' ! se_api s, mt st')) = Some f"
  using serial_tx_loop_result [OF assms, of ev] unfolding tx_result_def Let_def by blast

section \<open>The line\<close>

text \<open>
  What the ring buffers and the driver are documented to do: a region is not larger than the free
  or used part of the buffer and empty only if that is, and a transfer moves at most what there is.
\<close>

definition uart_ok :: "serial_kconfig \<Rightarrow> uart \<Rightarrow> bool" where
  "uart_ok k u \<longleftrightarrow>
     (\<forall>rb. ring_buf_put_ptr u rb \<le> SERIAL_RX_BUF_SIZE k - length rb) \<and>
     (\<forall>fifo n. uart_fifo_read u fifo n \<le> int (min n (length fifo)))"

lemma serial_discard_returns:
  assumes "uart_ok k u"
  shows "\<exists>rest. serial_discard u fifo = Some rest"
proof (induction fifo rule: length_induct)
  case (1 fifo)
  show ?case
  proof (cases "uart_fifo_read u fifo 16 = 16")
    case True
    have "uart_fifo_read u fifo 16 \<le> int (min 16 (length fifo))" using assms by (simp add: uart_ok_def)
    with True have "length (drop 16 fifo) < length fifo" by simp
    with 1 True show ?thesis by (subst serial_discard.simps) simp
  next
    case False
    then show ?thesis by (subst serial_discard.simps) simp
  qed
qed

lemma isr_rx_spec:
  assumes "uart_ok k u" "length (se_rx_rb s) \<le> SERIAL_RX_BUF_SIZE k"
  obtains s' n where "serial_isr_rx u s = Some s'" "se_rx_rb s' = se_rx_rb s @ take n (se_fifo s)"
    "length (se_rx_rb s') \<le> SERIAL_RX_BUF_SIZE k" "se_tx_rb s' = se_tx_rb s" "se_out s' = se_out s" "se_api s' = se_api s"
proof (cases "ring_buf_put_ptr u (se_rx_rb s) = 0")
  case True
  obtain rest where "serial_discard u (se_fifo s) = Some rest" using serial_discard_returns [OF assms(1)] by blast
  with True assms(2) show ?thesis
    by (intro that [of "s\<lparr>se_rx_overflow := True, se_fifo := rest\<rparr>" 0]) (simp_all add: serial_isr_rx_def)
next
  case False
  let ?n = "uart_fifo_read u (se_fifo s) (ring_buf_put_ptr u (se_rx_rb s))"
  have n: "?n \<le> int (min (ring_buf_put_ptr u (se_rx_rb s)) (length (se_fifo s)))"
    "ring_buf_put_ptr u (se_rx_rb s) \<le> SERIAL_RX_BUF_SIZE k - length (se_rx_rb s)"
    using assms(1) by (simp_all add: uart_ok_def)
  show ?thesis
  proof (cases "?n \<le> 0")
    case True
    with False assms(2) show ?thesis by (intro that [of s 0]) (simp_all add: serial_isr_rx_def Let_def)
  next
    case pos: False
    then show ?thesis
      using False assms(2) n
      by (intro that [of "s\<lparr>se_rx_rb := se_rx_rb s @ take (nat ?n) (se_fifo s), se_fifo := drop (nat ?n) (se_fifo s),
            se_rx_work := True\<rparr>" "nat ?n"]) (simp_all add: serial_isr_rx_def Let_def)
  qed
qed

lemma isr_tx_spec:
  "se_out (serial_isr_tx u s) @ se_tx_rb (serial_isr_tx u s) = se_out s @ se_tx_rb s"
  "se_rx_rb (serial_isr_tx u s) = se_rx_rb s" "se_api (serial_isr_tx u s) = se_api s"
  "se_fifo (serial_isr_tx u s) = se_fifo s" "se_rx_work (serial_isr_tx u s) = se_rx_work s"
  by (simp_all add: serial_isr_tx_def serial_tx_finish_def Let_def)

lemma isr_tx_loop_spec:
  "se_out (serial_isr_tx_loop u s) @ se_tx_rb (serial_isr_tx_loop u s) = se_out s @ se_tx_rb s \<and>
   se_rx_rb (serial_isr_tx_loop u s) = se_rx_rb s \<and> se_api (serial_isr_tx_loop u s) = se_api s \<and>
   se_fifo (serial_isr_tx_loop u s) = se_fifo s \<and> se_rx_work (serial_isr_tx_loop u s) = se_rx_work s \<and>
   length (se_tx_rb (serial_isr_tx_loop u s)) \<le> length (se_tx_rb s)"
proof (induction u s rule: serial_isr_tx_loop.induct)
  case (1 u s)
  show ?case
    using 1 isr_tx_spec [of u s] isr_tx_shorter [of u s] by (subst (1 2 3 4 5 6 7) serial_isr_tx_loop.simps) (auto simp: Let_def)
qed

lemma isr_spec:
  assumes "uart_ok k u" "length (se_rx_rb s) \<le> SERIAL_RX_BUF_SIZE k"
  obtains s' n where "serial_isr u s = Some s'" "se_rx_rb s' = se_rx_rb s @ take n (se_fifo s)"
    "length (se_rx_rb s') \<le> SERIAL_RX_BUF_SIZE k" "se_out s' @ se_tx_rb s' = se_out s @ se_tx_rb s"
    "length (se_tx_rb s') \<le> length (se_tx_rb s)" "se_api s' = se_api s"
proof -
  obtain s1 n where s1: "(if uart_irq_rx_ready u (se_fifo s) then serial_isr_rx u s else Some s) = Some s1"
    "se_rx_rb s1 = se_rx_rb s @ take n (se_fifo s)" "length (se_rx_rb s1) \<le> SERIAL_RX_BUF_SIZE k"
    "se_tx_rb s1 = se_tx_rb s" "se_out s1 = se_out s" "se_api s1 = se_api s"
  proof (cases "uart_irq_rx_ready u (se_fifo s)")
    case True
    from assms show thesis by (rule isr_rx_spec) (use True that in simp)
  next
    case False
    with assms(2) that [of s 0] show thesis by simp
  qed
  show thesis
    by (rule that [of "if uart_irq_tx_ready u (se_tx_rb s1) then serial_isr_tx_loop u s1 else s1" n])
      (use s1 isr_tx_loop_spec [of u s1] in \<open>auto simp: serial_isr_def\<close>)
qed

section \<open>Reception as the line runs\<close>

text \<open>
  What happens on the receiving side: bytes reach the hardware, the interrupt fires, the receive
  handler runs. The order is any; an interrupt moves as many bytes as the driver gives and the ring
  can take.
\<close>

datatype rx_event = Arrive bytes | Interrupt | Run int

fun rx_step :: "env \<Rightarrow> uart \<Rightarrow> rx_event \<Rightarrow> serial \<times> node \<Rightarrow> (serial \<times> node) option" where
  "rx_step ev u (Arrive bs) (s, st) = Some (s\<lparr>se_fifo := se_fifo s @ bs\<rparr>, st)"
| "rx_step ev u Interrupt (s, st) = map_option (\<lambda>s. (s, st)) (serial_isr u s)"
| "rx_step ev u (Run now) (s, st) = rx_work_handler ev now s st"

fun rx_line :: "env \<Rightarrow> uart \<Rightarrow> rx_event list \<Rightarrow> serial \<times> node \<Rightarrow> (serial \<times> node) option" where
  "rx_line ev u [] sn = Some sn"
| "rx_line ev u (e # es) sn = rx_step ev u e sn \<bind> rx_line ev u es"

fun arrived :: "rx_event list \<Rightarrow> bytes" where
  "arrived [] = []"
| "arrived (Arrive bs # es) = bs @ arrived es"
| "arrived (e # es) = arrived es"

fun run_times :: "rx_event list \<Rightarrow> int list" where
  "run_times [] = []"
| "run_times (Run now # es) = now # run_times es"
| "run_times (e # es) = run_times es"

text \<open>No interrupt finds the receive ring full. It is so when the handler runs between any two interrupts.\<close>

fun rx_room :: "serial_kconfig \<Rightarrow> env \<Rightarrow> uart \<Rightarrow> rx_event list \<Rightarrow> serial \<times> node \<Rightarrow> bool" where
  "rx_room k ev u [] sn = True"
| "rx_room k ev u (e # es) sn \<longleftrightarrow> (e = Interrupt \<longrightarrow> length (se_rx_rb (fst sn)) < SERIAL_RX_BUF_SIZE k) \<and>
     (case rx_step ev u e sn of None \<Rightarrow> True | Some sn \<Rightarrow> rx_room k ev u es sn)"

fun spaced :: "bool \<Rightarrow> rx_event list \<Rightarrow> bool" where
  "spaced handled [] = True"
| "spaced handled (Interrupt # es) \<longleftrightarrow> handled \<and> spaced False es"
| "spaced handled (Run now # es) = spaced True es"
| "spaced handled (Arrive bs # es) = spaced handled es"

text \<open>A ring of Zephyr that is not full has a place to put bytes.\<close>

definition ring_ok :: "serial_kconfig \<Rightarrow> uart \<Rightarrow> bool" where
  "ring_ok k u \<longleftrightarrow> uart_ok k u \<and> (\<forall>rb. length rb < SERIAL_RX_BUF_SIZE k \<longrightarrow> 0 < ring_buf_put_ptr u rb)"

lemma isr_lossless:
  assumes "ring_ok k u" "length (se_rx_rb s) < SERIAL_RX_BUF_SIZE k"
  obtains s' where "serial_isr u s = Some s'" "se_rx_rb s' @ se_fifo s' = se_rx_rb s @ se_fifo s" "se_api s' = se_api s"
    "length (se_rx_rb s') \<le> SERIAL_RX_BUF_SIZE k" "se_rx_work s' \<or> se_rx_rb s' = se_rx_rb s \<and> se_rx_work s' = se_rx_work s"
proof -
  let ?n = "uart_fifo_read u (se_fifo s) (ring_buf_put_ptr u (se_rx_rb s))"
  have n: "?n \<le> int (min (ring_buf_put_ptr u (se_rx_rb s)) (length (se_fifo s)))"
    "ring_buf_put_ptr u (se_rx_rb s) \<le> SERIAL_RX_BUF_SIZE k - length (se_rx_rb s)" "0 < ring_buf_put_ptr u (se_rx_rb s)"
    using assms by (simp_all add: ring_ok_def uart_ok_def)
  obtain s1 where s1: "(if uart_irq_rx_ready u (se_fifo s) then serial_isr_rx u s else Some s) = Some s1"
    "se_rx_rb s1 @ se_fifo s1 = se_rx_rb s @ se_fifo s" "se_api s1 = se_api s" "length (se_rx_rb s1) \<le> SERIAL_RX_BUF_SIZE k"
    "se_rx_work s1 \<or> se_rx_rb s1 = se_rx_rb s \<and> se_rx_work s1 = se_rx_work s"
  proof (cases "uart_irq_rx_ready u (se_fifo s) \<and> 0 < ?n")
    case True
    with n assms(2) show thesis
      by (intro that [of "s\<lparr>se_rx_rb := se_rx_rb s @ take (nat ?n) (se_fifo s), se_fifo := drop (nat ?n) (se_fifo s),
            se_rx_work := True\<rparr>"]) (simp_all add: serial_isr_rx_def Let_def)
  next
    case False
    with n(3) assms(2) show thesis by (intro that [of s]) (auto simp: serial_isr_rx_def Let_def)
  qed
  show thesis
    by (rule that [of "if uart_irq_tx_ready u (se_tx_rb s1) then serial_isr_tx_loop u s1 else s1"])
      (use s1 isr_tx_loop_spec [of u s1] in \<open>auto simp: serial_isr_def\<close>)
qed

lemma rx_work_parse:
  "rx_work_handler ev now s st = map_option
     (\<lambda>st'. (serial_notified st st' (s\<lparr>se_rx_work := False, se_rx_overflow := False, se_rx_rb := snd (stream_parse (se_rx_rb s))\<rparr>), st'))
     (timed_toradio ev (se_api s) (map (Pair now) (fst (stream_parse (se_rx_rb s)))) st)"
  by (cases "timed_toradio ev (se_api s) (map (Pair now) (fst (stream_parse (se_rx_rb s)))) st")
    (simp_all add: rx_work_handler_def rx_loop_parse)

lemma stream_parse_rest: "length (snd (stream_parse rb)) < SERIAL_WIRE_MAX \<and> fst (stream_parse (snd (stream_parse rb))) = []"
proof
  show "length (snd (stream_parse rb)) < SERIAL_WIRE_MAX"
  proof (induction rb rule: stream_parse.induct)
    case (1 rb)
    obtain ret p rb' where f: "serial_rx_pop_frame rb = (ret, p, rb')" by (metis prod_cases3)
    show ?case
    proof (cases "ret = 0")
      case True
      with f show ?thesis
        by (subst stream_parse.simps) (auto simp: serial_rx_pop_frame_def Let_def split: if_splits)
    next
      case False
      with f "1.IH" [OF f [symmetric] refl] show ?thesis by (subst stream_parse.simps) simp
    qed
  qed
  show "fst (stream_parse (snd (stream_parse rb))) = []"
    using stream_parse_append [of rb "[]"] by (simp add: split_beta Let_def prod_eq_iff)
qed

lemma spaced_room:
  assumes "ring_ok k u" "SERIAL_WIRE_MAX \<le> SERIAL_RX_BUF_SIZE k"
    and "spaced handled es" "handled \<longrightarrow> length (se_rx_rb s) < SERIAL_WIRE_MAX"
  shows "rx_room k ev u es (s, st)"
  using assms(3,4)
proof (induction es arbitrary: handled s st)
  case (Cons e es)
  show ?case
  proof (cases e)
    case (Run now)
    then show ?thesis
      using Cons.prems Cons.IH [of True] stream_parse_rest [of "se_rx_rb s"]
      by (auto simp: rx_work_parse split: option.splits)
  next
    case Interrupt
    with Cons.prems assms(2) Cons.IH [of False] show ?thesis by (auto split: option.splits)
  next
    case (Arrive bs)
    with Cons.prems Cons.IH [of handled] show ?thesis by simp
  qed
qed simp

lemma rx_line_parse:
  fixes ev u k
  assumes "ring_ok k u" "rx_room k ev u es (s, st)" "\<not> se_rx_work s \<longrightarrow> fst (stream_parse (se_rx_rb s)) = []"
  shows "\<exists>ts ms. length ts = length ms \<and> set ts \<subseteq> set (run_times es) \<and>
    map_option snd (rx_line ev u es (s, st)) = timed_toradio ev (se_api s) (zip ts ms) st \<and>
    prefix ms (fst (stream_parse (se_rx_rb s @ se_fifo s @ arrived es))) \<and>
    (\<forall>s' st'. rx_line ev u es (s, st) = Some (s', st') \<longrightarrow>
      ms @ fst (stream_parse (se_rx_rb s' @ se_fifo s')) = fst (stream_parse (se_rx_rb s @ se_fifo s @ arrived es)) \<and>
      (\<not> se_rx_work s' \<longrightarrow> fst (stream_parse (se_rx_rb s')) = []))"
  using assms(2,3)
proof (induction es arbitrary: s st)
  case Nil
  then show ?case by (intro exI [of _ "[]"]) simp
next
  case (Cons e es)
  show ?case
  proof (cases e)
    case (Arrive bs)
    with Cons.prems Cons.IH [of "s\<lparr>se_fifo := se_fifo s @ bs\<rparr>" st] show ?thesis by simp
  next
    case Interrupt
    with Cons.prems(1) have "length (se_rx_rb s) < SERIAL_RX_BUF_SIZE k" by simp
    from assms(1) this obtain s1 where s1: "serial_isr u s = Some s1" "se_rx_rb s1 @ se_fifo s1 = se_rx_rb s @ se_fifo s"
      "se_api s1 = se_api s" "se_rx_work s1 \<or> se_rx_rb s1 = se_rx_rb s \<and> se_rx_work s1 = se_rx_work s"
      by (rule isr_lossless)
    have same: "se_rx_rb s1 @ se_fifo s1 @ arrived es = se_rx_rb s @ se_fifo s @ arrived es"
      using s1(2) by (metis append_assoc)
    with Cons.prems Cons.IH [of s1 st] Interrupt s1 show ?thesis by auto
  next
    case (Run now)
    let ?ps = "fst (stream_parse (se_rx_rb s))" and ?r = "snd (stream_parse (se_rx_rb s))"
    have all: "fst (stream_parse (se_rx_rb s @ se_fifo s @ arrived (e # es))) = ?ps @ fst (stream_parse (?r @ se_fifo s @ arrived es))"
      using stream_parse_append [of "se_rx_rb s" "se_fifo s @ arrived es"] Run by (simp add: split_beta Let_def)
    show ?thesis
    proof (cases "timed_toradio ev (se_api s) (map (Pair now) ?ps) st")
      case None
      then show ?thesis using Run unfolding all
        by (intro exI [of _ "replicate (length ?ps) now"] exI [of _ ?ps]) (auto simp: rx_work_parse zip_replicate1)
    next
      case (Some st1)
      let ?s1 = "serial_notified st st1 (s\<lparr>se_rx_work := False, se_rx_overflow := False, se_rx_rb := ?r\<rparr>)"
      have step: "rx_work_handler ev now s st = Some (?s1, st1)" using Some by (simp add: rx_work_parse)
      have "se_fifo ?s1 = se_fifo s" by (simp add: serial_notified_def serial_data_ready_def)
      moreover have "rx_room k ev u es (?s1, st1)" using Cons.prems(1) Run step by simp
      ultimately obtain ts ms where IH: "length ts = length ms" "set ts \<subseteq> set (run_times es)"
        "map_option snd (rx_line ev u es (?s1, st1)) = timed_toradio ev (se_api s) (zip ts ms) st1"
        "prefix ms (fst (stream_parse (?r @ se_fifo s @ arrived es)))"
        "\<forall>s' st'. rx_line ev u es (?s1, st1) = Some (s', st') \<longrightarrow>
          ms @ fst (stream_parse (se_rx_rb s' @ se_fifo s')) = fst (stream_parse (?r @ se_fifo s @ arrived es)) \<and>
          (\<not> se_rx_work s' \<longrightarrow> fst (stream_parse (se_rx_rb s')) = [])"
        using Cons.IH [of ?s1 st1] stream_parse_rest [of "se_rx_rb s"] by auto
      then show ?thesis using Run step Some unfolding all
        by (intro exI [of _ "replicate (length ?ps) now @ ts"] exI [of _ "?ps @ ms"])
          (auto simp: zip_append zip_replicate1 timed_toradio_append)
    qed
  qed
qed

section \<open>The serial line as a system\<close>

text \<open>
  The serial line as a system: bytes arrive, the interrupt fires, the work handlers run in any
  order, and other parts of the node change it in between.
\<close>

inductive serial_step :: "env \<Rightarrow> serial_kconfig \<Rightarrow> uart \<Rightarrow> serial \<times> node \<Rightarrow> serial \<times> node \<Rightarrow> bool" for ev k u where
  arrive: "serial_step ev k u (s, st) (s\<lparr>se_fifo := se_fifo s @ bs\<rparr>, st)"
| interrupt: "serial_isr u s = Some s' \<Longrightarrow> serial_step ev k u (s, st) (s', st)"
| rx_work: "rx_work_handler ev now s st = Some (s', st') \<Longrightarrow> serial_step ev k u (s, st) (s', st')"
| tx_work: "tx_work_handler ev k s st = Some (s', st') \<Longrightarrow> serial_step ev k u (s, st) (s', st')"
| tx_cont: "serial_step ev k u (s, st) (tx_cont_work_handler s, st)"
| data_ready: "serial_step ev k u (s, st) (serial_data_ready s, st)"
| elsewhere: "serial_step ev k u (s, st) (s, st')"

text \<open>Without any assumption on the phone: what the loop appends is whole frames.\<close>

lemma serial_tx_loop_framed:
  assumes "serial_tx_loop ev k s st = Some r"
  shows "\<exists>fs. se_tx_rb (fst r) = se_tx_rb s @ concat (map wire_of fs) \<and> se_out (fst r) = se_out s \<and> se_rx_rb (fst r) = se_rx_rb s \<and>
    (length (se_tx_rb s) \<le> SERIAL_TX_BUF_SIZE k \<longrightarrow> length (se_tx_rb (fst r)) \<le> SERIAL_TX_BUF_SIZE k)"
proof (rule serial_tx_loop.raw_induct [OF _ assms], goal_cases)
  case (1 loop ev k s st y)
  note IH = 1(1) and eq = 1(2)
  obtain x st1 where pop: "pop_fromradio ev (se_api s) st = (x, st1)" by force
  have none: ?case if "fst y = s" using that by (intro exI [of _ "[]"]) simp
  show ?case
  proof (cases x)
    case None
    with eq pop none show ?thesis by auto
  next
    case (Some f)
    consider "wire_of f = []" | "wire_of f \<noteq> []" "SERIAL_TX_BUF_SIZE k - length (se_tx_rb s) < length (wire_of f)"
      | "wire_of f \<noteq> []" "length (wire_of f) \<le> SERIAL_TX_BUF_SIZE k - length (se_tx_rb s)" by linarith
    then show ?thesis
    proof cases
      case 1
      with eq pop Some have "loop ev k s st1 = Some y" by simp
      from IH [OF this] show ?thesis .
    next
      case 2
      with eq pop Some none show ?thesis by auto
    next
      case 3
      let ?s1 = "s\<lparr>se_tx_rb := se_tx_rb s @ wire_of f, se_tx_irq := True\<rparr>"
      from 3 eq pop Some have "loop ev k ?s1 st1 = Some y"
        by (simp add: serial_tx_queue_def serial_tx_start_def Let_def)
      from IH [OF this] obtain fs where "se_tx_rb (fst y) = se_tx_rb ?s1 @ concat (map wire_of fs)" "se_out (fst y) = se_out s"
        "se_rx_rb (fst y) = se_rx_rb s" "length (se_tx_rb ?s1) \<le> SERIAL_TX_BUF_SIZE k \<longrightarrow> length (se_tx_rb (fst y)) \<le> SERIAL_TX_BUF_SIZE k"
        by auto
      with 3 show ?thesis by (intro exI [of _ "f # fs"]) auto
    qed
  qed
qed

lemma rx_work_frame:
  assumes "rx_work_handler ev now s st = Some (s', st')"
  shows "se_tx_rb s' = se_tx_rb s" "se_out s' = se_out s" "length (se_rx_rb s') \<le> length (se_rx_rb s)"
proof -
  have "length (snd (stream_parse rb)) \<le> length rb" for rb
  proof (induction rb rule: stream_parse.induct)
    case (1 rb)
    obtain ret p rb' where f: "serial_rx_pop_frame rb = (ret, p, rb')" by (metis prod_cases3)
    show ?case
    proof (cases "ret = 0")
      case True
      with f pop_frame_wait show ?thesis by (subst stream_parse.simps) auto
    next
      case False
      with 1 [OF f [symmetric] refl False] pop_frame_shorter [OF f False] f show ?thesis
        by (subst stream_parse.simps) simp
    qed
  qed
  from this [of "se_rx_rb s"] assms show "se_tx_rb s' = se_tx_rb s" "se_out s' = se_out s" "length (se_rx_rb s') \<le> length (se_rx_rb s)"
    by (auto simp: rx_work_handler_def rx_loop_parse Let_def bind_eq_Some_conv)
qed

lemma stream_parse_frames:
  "\<forall>f\<in>set fs. length f \<le> API_FRAME_MAX \<Longrightarrow> stream_parse (concat (map wire_of fs)) = (filter (\<lambda>f. f \<noteq> []) fs, [])"
proof (induction fs)
  case Nil
  show ?case by (subst stream_parse.simps) (simp add: serial_rx_pop_frame_def)
next
  case (Cons f fs)
  then show ?case by (subst stream_parse.simps) (simp add: pop_frame_encoded)
qed

lemma take4D:
  assumes "take 4 rb = [a, b, c, d]"
  shows "4 \<le> length rb"
proof -
  have "length (take 4 rb) = 4" using assms by simp
  then show ?thesis by simp
qed

lemma stream_parse_incomplete:
  assumes "take 4 rb = [START1, START2, word_of_nat (n div 256), word_of_nat n]" "n \<le> 512" "length rb < n + 4"
  shows "stream_parse rb = ([], rb)"
proof -
  obtain ys where rb: "rb = START1 # START2 # word_of_nat (n div 256) # word_of_nat n # ys"
    using append_take_drop_id [of 4 rb] assms(1) by (metis append_Cons append_Nil)
  have "unat (word_of_nat (n div 256) :: u8) = n div 256" "unat (word_of_nat n :: u8) = n mod 256"
    using assms(2) by (simp_all add: unat_of_nat)
  with assms(2,3) have "serial_rx_pop_frame rb = (0, [], rb)"
    unfolding rb by (simp add: serial_rx_pop_frame_def header_len_small Let_def)
  then show ?thesis by (subst stream_parse.simps) simp
qed

section \<open>Properties\<close>

text \<open>
  C19: the serial receiver recovers every message whatever the timing. The bytes of a sequence
  of frames, each preceded by any noise in which the two start bytes do not follow each other, reach the
  hardware in any portions; interrupts move them to the receive ring, as many at a time as the driver
  gives and the ring can take, and the receive handler runs, in any order. As long as no interrupt
  finds the ring full, and in particular when the ring holds a longest frame and the handler runs
  between any two interrupts, the messages handled so far are the first ones sent, unchanged and in
  order, each at the time of a run; and once the hardware has no more bytes and no run is pending,
  they are all of them.
\<close>

theorem serial_rx_stream:
  assumes "\<forall>(g, p)\<in>set xs. successively (\<lambda>a b. \<not> (a = 0x94 \<and> b = 0xC3)) g \<and> p \<noteq> [] \<and> length p \<le> 512"
    and "arrived es = concat (map (\<lambda>(g, p). g @ serial_encode_frame p 516) xs)"
    and "se_rx_rb s = []" and "se_fifo s = []" and "ring_ok k u"
    and "rx_room k ev u es (s, st) \<or> 516 \<le> SERIAL_RX_BUF_SIZE k \<and> spaced True es"
  shows "\<exists>ts ms. length ts = length ms \<and> set ts \<subseteq> set (run_times es) \<and> prefix ms (map snd xs) \<and>
    map_option snd (rx_line ev u es (s, st)) = timed_toradio ev (se_api s) (zip ts ms) st \<and>
    (\<forall>s' st'. rx_line ev u es (s, st) = Some (s', st') \<and> se_fifo s' = [] \<and> \<not> se_rx_work s' \<longrightarrow> ms = map snd xs)"
proof -
  have "stream_parse (se_rx_rb s @ se_fifo s @ arrived es) = (map snd xs, [])"
    using stream_parse_noisy [of xs] assms(1-4) by simp
  moreover have "rx_room k ev u es (s, st)"
    using assms(6) spaced_room [OF assms(5), of True es s ev st] assms(3) by auto
  moreover have "fst (stream_parse (se_rx_rb s)) = []"
    using assms(3) by (subst stream_parse.simps) (simp add: serial_rx_pop_frame_def)
  ultimately obtain ts ms where "length ts = length ms" "set ts \<subseteq> set (run_times es)" "prefix ms (map snd xs)"
    "map_option snd (rx_line ev u es (s, st)) = timed_toradio ev (se_api s) (zip ts ms) st"
    "\<forall>s' st'. rx_line ev u es (s, st) = Some (s', st') \<longrightarrow> ms @ fst (stream_parse (se_rx_rb s' @ se_fifo s')) = map snd xs \<and>
      (\<not> se_rx_work s' \<longrightarrow> fst (stream_parse (se_rx_rb s')) = [])"
    using rx_line_parse [OF assms(5), of ev es s st] by auto
  then show ?thesis by (intro exI [of _ ts] exI [of _ ms]) auto
qed

text \<open>
  C20: the transmit handler of the serial line returns and loses nothing. What it appends to the
  transmit ring are the next frames the phone has to get, complete and in order, as many as fit;
  when the next one does not fit it is back at the head of the queue. A receiver that decodes the
  appended bytes gets exactly these frames.
\<close>

theorem serial_tx_stream:
  assumes "phone_ok (st_phones st ! se_api s)" and "se_api s < length (st_phones st)"
    and "length (se_tx_rb s) \<le> SERIAL_TX_BUF_SIZE k"
  shows "\<exists>s' st' fs sent. tx_work_handler ev k s st = Some (s', st') \<and> se_tx_rb s' = se_tx_rb s @ sent \<and>
    length (se_tx_rb s') \<le> SERIAL_TX_BUF_SIZE k \<and> stream_parse sent = (filter (\<lambda>f. f \<noteq> []) fs, []) \<and>
    fst (pop_frames (ev_pc ev) (phone_env_of ev st) (length fs) (st_phones st ! se_api s, mt st)) = map Some fs \<and>
    (case fst (pop_frame (ev_pc ev) (phone_env_of ev st)
        (snd (pop_frames (ev_pc ev) (phone_env_of ev st) (length fs) (st_phones st ! se_api s, mt st)))) of
       None \<Rightarrow> True
     | Some f \<Rightarrow> SERIAL_TX_BUF_SIZE k < length (se_tx_rb s') + length f + 4 \<and>
         fst (pop_frame (ev_pc ev) (phone_env_of ev st) (st_phones st' ! se_api s, mt st')) = Some f)"
proof -
  let ?s = "s\<lparr>se_tx_work := False\<rparr>"
  have a: "phone_ok (st_phones st ! se_api ?s)" "se_api ?s < length (st_phones st)" "length (se_tx_rb ?s) \<le> SERIAL_TX_BUF_SIZE k"
    using assms by simp_all
  from a show ?thesis
  proof (rule serial_tx_loop_spec [where ev = ev])
    fix s' st' fs
    assume "serial_tx_loop ev k ?s st = Some (s', st')" "se_tx_rb s' = se_tx_rb ?s @ concat (map wire_of fs)"
      "length (se_tx_rb s') \<le> SERIAL_TX_BUF_SIZE k" "\<forall>f\<in>set fs. length f \<le> API_FRAME_MAX"
      "fst (pop_frames (ev_pc ev) (phone_env_of ev st) (length fs) (st_phones st ! se_api ?s, mt st)) = map Some fs"
      "case fst (pop_frame (ev_pc ev) (phone_env_of ev st)
          (snd (pop_frames (ev_pc ev) (phone_env_of ev st) (length fs) (st_phones st ! se_api ?s, mt st)))) of
         None \<Rightarrow> True
       | Some f \<Rightarrow> SERIAL_TX_BUF_SIZE k < length (se_tx_rb s') + length f + 4 \<and>
           fst (pop_frame (ev_pc ev) (phone_env_of ev st) (st_phones st' ! se_api ?s, mt st')) = Some f"
    with stream_parse_frames [of fs] show ?thesis
      by (intro exI [of _ s'] exI [of _ st'] exI [of _ fs] exI [of _ "concat (map wire_of fs)"])
        (simp add: tx_work_handler_def cong: option.case_cong)
  qed
qed

text \<open>
  C21: the serial line only ever carries whole frames. In whatever order bytes arrive, interrupts
  fire and the work handlers run, what has been sent and what still waits in the transmit ring
  is together a sequence of complete frames, and neither ring exceeds its size.
\<close>

theorem serial_line_framed:
  assumes "uart_ok k u" and "(serial_step ev k u)\<^sup>*\<^sup>* (s, st) (s', st')"
    and "se_out s = []" and "se_tx_rb s = []" and "se_rx_rb s = []"
  shows "\<exists>fs. se_out s' @ se_tx_rb s' = concat (map (\<lambda>f. serial_encode_frame f 516) fs) \<and>
    length (se_tx_rb s') \<le> SERIAL_TX_BUF_SIZE k \<and> length (se_rx_rb s') \<le> SERIAL_RX_BUF_SIZE k"
  using assms(2)
proof (induction rule: rtranclp_induct2)
  case refl
  show ?case using assms(3-5) by (intro exI [of _ "[]"]) simp
next
  case (step s1 st1 s2 st2)
  then obtain fs where fs: "se_out s1 @ se_tx_rb s1 = concat (map wire_of fs)"
    "length (se_tx_rb s1) \<le> SERIAL_TX_BUF_SIZE k" "length (se_rx_rb s1) \<le> SERIAL_RX_BUF_SIZE k" by blast
  from step.hyps(2) show ?case
  proof cases
    case (interrupt)
    from assms(1) fs(3) obtain n where "se_out s2 @ se_tx_rb s2 = se_out s1 @ se_tx_rb s1"
      "length (se_rx_rb s2) \<le> SERIAL_RX_BUF_SIZE k" "length (se_tx_rb s2) \<le> length (se_tx_rb s1)"
      by (rule isr_spec) (use interrupt in simp)
    with fs show ?thesis by (intro exI [of _ fs]) simp
  next
    case (rx_work now)
    from rx_work_frame [OF rx_work] fs show ?thesis by (intro exI [of _ fs]) simp
  next
    case tx_work
    then obtain gs where "se_tx_rb s2 = se_tx_rb s1 @ concat (map wire_of gs)" "se_out s2 = se_out s1" "se_rx_rb s2 = se_rx_rb s1"
      "length (se_tx_rb s2) \<le> SERIAL_TX_BUF_SIZE k"
      using serial_tx_loop_framed [of ev k "s1\<lparr>se_tx_work := False\<rparr>" st1 "(s2, st2)"] fs(2) by (auto simp: tx_work_handler_def)
    with fs show ?thesis by (intro exI [of _ "fs @ gs"]) (simp flip: append_assoc)
  qed (use fs in \<open>auto simp: tx_cont_work_handler_def serial_data_ready_def\<close>)
qed

text \<open>
  C22: a receive buffer smaller than a frame blocks the line for good. When the receive ring holds
  the header of a frame that is longer than the ring, then whatever arrives later, the header stays
  at its head and no run of the receive handler ever handles a message again.
\<close>

theorem serial_rx_blocked:
  assumes "uart_ok k u" and "(serial_step ev k u)\<^sup>*\<^sup>* (s, st) (s', st')"
    and "take 4 (se_rx_rb s) = [0x94, 0xC3, word_of_nat (n div 256), word_of_nat n]"
    and "length (se_rx_rb s) \<le> SERIAL_RX_BUF_SIZE k" and "n \<le> 512" and "SERIAL_RX_BUF_SIZE k < n + 4"
  shows "take 4 (se_rx_rb s') = take 4 (se_rx_rb s) \<and>
    (\<exists>s''. rx_work_handler ev now s' st' = Some (s'', st') \<and> se_rx_rb s'' = se_rx_rb s')"
proof -
  have stuck: "stream_parse rb = ([], rb)"
    if "take 4 rb = take 4 (se_rx_rb s)" "length rb \<le> SERIAL_RX_BUF_SIZE k" for rb
    by (rule stream_parse_incomplete [of _ n]) (use that assms(3,5,6) in \<open>simp, simp, linarith\<close>)
  have inv: "take 4 (se_rx_rb s') = take 4 (se_rx_rb s) \<and> length (se_rx_rb s') \<le> SERIAL_RX_BUF_SIZE k"
    using assms(2)
  proof (induction rule: rtranclp_induct2)
    case refl
    show ?case using assms(4) by simp
  next
    case (step s1 st1 s2 st2)
    from step.hyps(2) show ?case
    proof cases
      case interrupt
      from assms(1) step.IH [THEN conjunct2] obtain m where "se_rx_rb s2 = se_rx_rb s1 @ take m (se_fifo s1)"
        "length (se_rx_rb s2) \<le> SERIAL_RX_BUF_SIZE k"
        by (rule isr_spec) (use interrupt in auto)
      moreover have "4 \<le> length (se_rx_rb s1)" using step.IH assms(3) by (intro take4D) simp
      ultimately show ?thesis using step.IH by simp
    next
      case (rx_work now)
      then show ?thesis using stuck [of "se_rx_rb s1"] step.IH by (auto simp: rx_work_handler_def rx_loop_parse)
    next
      case tx_work
      then show ?thesis
        using step.IH serial_tx_loop_framed [of ev k "s1\<lparr>se_tx_work := False\<rparr>" st1 "(s2, st2)"] by (auto simp: tx_work_handler_def)
    qed (use step.IH in \<open>auto simp: tx_cont_work_handler_def serial_data_ready_def\<close>)
  qed
  with stuck [of "se_rx_rb s'"] show ?thesis by (auto simp: rx_work_handler_def rx_loop_parse)
qed

end
