(* ===== verification/Ble.thy ===== *)
theory Ble
  imports Serial
begin

text \<open>
  The phone interface over Bluetooth, of \<^verbatim>\<open>src/meshtastic_ble.c\<close>. A frame for the phone is staged,
  its arrival is announced by a counter, and the phone reads it in portions; a message of the phone
  is written to a buffer, in portions if it is long, and handled by a work item.

  Zephyr's Bluetooth host is a parameter: what \<^verbatim>\<open>bt_gatt_attr_read\<close> copies out of a value, and what
  the calls of the initialisation answer. Connections are numbers, notifications and requests to
  close the connection are logged. Pairing and security callbacks only log and are left out.
\<close>

section \<open>State\<close>

record ble =
  bl_api :: nat \<comment> \<open>the transport's place among the phones of the node\<close>
  bl_fromnum_notify_enabled :: bool
  bl_log_notify_enabled :: bool
  bl_conn :: "nat option"
  bl_to_radio_buf :: bytes
  bl_to_radio_len :: nat
  bl_to_radio_work :: bool
  bl_fromradio_work :: bool
  bl_fromradio_staged :: bytes
  bl_fromradio_buf :: bytes
  bl_fromradio_len :: nat
  bl_fromradio_ready :: bool
  bl_notified :: "u32 list"
  bl_hangups :: nat

record bt_host =
  bt_gatt_attr_read :: "nat \<Rightarrow> nat \<Rightarrow> bytes \<Rightarrow> bytes option" \<comment> \<open>\<open>None\<close> for an attribute error\<close>
  bt_is_ready :: bool
  bt_enable :: "errno option"
  bt_le_adv_start :: "errno option"
  bt_adv_enabled :: bool
  bt_fromradio_queue_size :: nat

section \<open>Callbacks of the phone interface\<close>

definition ble_set_api :: "ble \<Rightarrow> (phoneapi \<Rightarrow> phoneapi) \<Rightarrow> node \<Rightarrow> node" where
  "ble_set_api b f st = upd_phone (bl_api b) (\<lambda>(api, c). (f api, c)) st"

definition schedule_fromradio_prepare :: "ble \<Rightarrow> ble" where
  "schedule_fromradio_prepare b = b\<lparr>bl_fromradio_work := True\<rparr>"

definition ble_data_ready :: "ble \<Rightarrow> ble" where
  "ble_data_ready b = schedule_fromradio_prepare b"

definition ble_invalidate_delivery :: "ble \<times> node \<Rightarrow> ble \<times> node" where
  "ble_invalidate_delivery = (\<lambda>(b, st).
     (b\<lparr>bl_fromradio_ready := False, bl_fromradio_len := 0\<rparr>, ble_set_api b release_current_frame st))"

definition ble_disconnect :: "ble \<Rightarrow> ble" where
  "ble_disconnect b = (if bl_conn b \<noteq> None then b\<lparr>bl_hangups := Suc (bl_hangups b)\<rparr> else b)"

text \<open>The callbacks the phone interface has made between two states of the transport.\<close>

definition ble_callbacks :: "phoneapi \<Rightarrow> phoneapi \<Rightarrow> ble \<times> node \<Rightarrow> ble \<times> node" where
  "ble_callbacks api api' bs =
     (let bs = (if pa_invalidated api' \<noteq> pa_invalidated api then ble_invalidate_delivery bs else bs);
          bs = (if pa_notified api' \<noteq> pa_notified api then apfst ble_data_ready bs else bs)
      in if pa_disconnected api' \<noteq> pa_disconnected api then apfst ble_disconnect bs else bs)"

section \<open>Frames for the phone\<close>

definition notify_fromnum :: "ble \<Rightarrow> node \<Rightarrow> ble" where
  "notify_fromnum b st =
     (if \<not> bl_fromnum_notify_enabled b \<or> bl_conn b = None then b
      else b\<lparr>bl_notified := bl_notified b @ [pa_from_num (st_phones st ! bl_api b)]\<rparr>)"

definition fromradio_work_handler :: "env \<Rightarrow> ble \<times> node \<Rightarrow> ble \<times> node" where
  "fromradio_work_handler ev bs =
     (let (b, st) = bs; b = b\<lparr>bl_fromradio_work := False\<rparr> in
      if bl_fromradio_ready b then (b, st)
      else let (r, api, c) = current_frame (ev_pc ev) (phone_env_of ev st) (st_phones st ! bl_api b, mt st);
               st = set_mt c st\<lparr>st_phones := (st_phones st)[bl_api b := api]\<rparr>
        in case r of
             None \<Rightarrow> (b, st)
           | Some frame \<Rightarrow>
               (let b = b\<lparr>bl_fromradio_staged := frame\<rparr>;
                    st = ble_set_api b (\<lambda>api. api\<lparr>pa_from_num := pa_from_num api + 1\<rparr>) st;
                    b = b\<lparr>bl_fromradio_ready := True\<rparr>
                in (notify_fromnum b st, st)))"

definition read_fromnum :: "bt_host \<Rightarrow> nat \<Rightarrow> nat \<Rightarrow> ble \<Rightarrow> node \<Rightarrow> bytes option" where
  "read_fromnum bt len offset b st = bt_gatt_attr_read bt len offset (put_le32 (pa_from_num (st_phones st ! bl_api b)))"

definition read_fromradio :: "bt_host \<Rightarrow> nat \<Rightarrow> nat \<Rightarrow> ble \<times> node \<Rightarrow> bytes option \<times> ble \<times> node" where
  "read_fromradio bt len offset bs =
     (let (b, st) = bs;
          b = (if offset = 0
               then if bl_fromradio_ready b
                    then b\<lparr>bl_fromradio_buf := bl_fromradio_staged b @ drop (length (bl_fromradio_staged b)) (bl_fromradio_buf b),
                           bl_fromradio_len := length (bl_fromradio_staged b)\<rparr>
                    else b\<lparr>bl_fromradio_len := 0\<rparr>
               else b);
          ret = bt_gatt_attr_read bt len offset (take (bl_fromradio_len b) (bl_fromradio_buf b))
      in case ret of
           None \<Rightarrow> (ret, b, st)
         | Some bytes \<Rightarrow>
             if 0 < bl_fromradio_len b \<and> bl_fromradio_len b \<le> offset + length bytes
             then (ret, schedule_fromradio_prepare (b\<lparr>bl_fromradio_ready := False\<rparr>), ble_set_api b release_current_frame st)
             else (ret, b, st))"

definition read_logradio :: "bt_host \<Rightarrow> nat \<Rightarrow> nat \<Rightarrow> bytes option" where
  "read_logradio bt len offset = bt_gatt_attr_read bt len offset (cstr_bytes (''Zephyr Meshtastic'' @ [CHR 0x0A]))"

definition fromnum_ccc_changed :: "nat \<Rightarrow> ble \<Rightarrow> ble" where
  "fromnum_ccc_changed v b = b\<lparr>bl_fromnum_notify_enabled := (v = 1)\<rparr>"

definition logradio_ccc_changed :: "u16 \<Rightarrow> ble \<Rightarrow> ble" where
  "logradio_ccc_changed v b = b\<lparr>bl_log_notify_enabled := (v AND 3 \<noteq> 0)\<rparr>"

section \<open>Messages of the phone\<close>

definition to_radio_work_handler :: "env \<Rightarrow> int \<Rightarrow> ble \<times> node \<Rightarrow> (ble \<times> node) option" where
  "to_radio_work_handler ev now bs =
     (let (b, st) = bs; buf = take (bl_to_radio_len b) (bl_to_radio_buf b);
          b = b\<lparr>bl_to_radio_len := 0, bl_to_radio_work := False\<rparr> in do {
        st' \<leftarrow> handle_toradio ev now (bl_api b) buf st;
        Some (ble_callbacks (st_phones st ! bl_api b) (st_phones st' ! bl_api b) (b, st'))
      })"

text \<open>The result is the number of bytes taken, \<open>None\<close> for an attribute error.\<close>

definition write_toradio :: "bytes \<Rightarrow> nat \<Rightarrow> bool \<Rightarrow> ble \<Rightarrow> nat option \<times> ble" where
  "write_toradio buf offset prepare b =
     (if length (bl_to_radio_buf b) < offset + length buf then (None, b)
      else let b = (if offset = 0 \<and> \<not> prepare then b\<lparr>bl_to_radio_len := 0\<rparr> else b);
               b = b\<lparr>bl_to_radio_buf := take offset (bl_to_radio_buf b) @ buf @ drop (offset + length buf) (bl_to_radio_buf b),
                     bl_to_radio_len := max (bl_to_radio_len b) (offset + length buf)\<rparr>
        in (Some (length buf), if \<not> prepare then b\<lparr>bl_to_radio_work := True\<rparr> else b))"

section \<open>Connections\<close>

definition set_ble_connected :: "bool \<Rightarrow> node \<Rightarrow> node" where
  "set_ble_connected v st = upd_st_status (\<lambda>s. s\<lparr>s_ble_connected := v\<rparr>) st"

definition ble_connected :: "nat \<Rightarrow> nat \<Rightarrow> ble \<times> node \<Rightarrow> ble \<times> node" where
  "ble_connected conn err bs =
     (let (b, st) = bs in
      if err \<noteq> 0 then (b, st)
      else let b = (if bl_conn b = None then b\<lparr>bl_conn := Some conn\<rparr> else b);
               st = set_ble_connected True st
        in (b, set_mt (emit_event EVENT_BLE_CONNECTED None None (mt st)) st))"

definition ble_disconnected :: "nat \<Rightarrow> ble \<times> node \<Rightarrow> ble \<times> node" where
  "ble_disconnected conn bs =
     (let (b, st) = bs;
          b = (if bl_conn b = Some conn then b\<lparr>bl_conn := None\<rparr> else b);
          (b, st) = ble_invalidate_delivery (b, st);
          st = ble_set_api b phoneapi_reset st;
          b = b\<lparr>bl_fromradio_work := False\<rparr>;
          st = set_ble_connected False st
      in (b, set_mt (emit_event EVENT_BLE_DISCONNECTED None None (mt st)) st))"

text \<open>
  The registration of the pairing callbacks cannot fail the initialisation and is left out. Once
  Bluetooth is up the saved settings are loaded again; what that does to the store is an argument.
\<close>

definition ble_init :: "bt_host \<Rightarrow> (store \<Rightarrow> store) \<Rightarrow> ble \<Rightarrow> node \<Rightarrow> unit res \<times> ble \<times> node" where
  "ble_init bt load b st =
     (let b = b\<lparr>bl_api := length (st_phones st)\<rparr>;
          st = st\<lparr>st_phones := st_phones st @ [phoneapi_init (bt_fromradio_queue_size bt)]\<rparr>
      in if \<not> bt_is_ready bt \<and> bt_enable bt \<noteq> None then (Inl (the (bt_enable bt)), b, st)
         else let st = st\<lparr>st_store := load (st_store st)\<rparr> in
           if bt_adv_enabled bt \<and> bt_le_adv_start bt \<noteq> None \<and> bt_le_adv_start bt \<noteq> Some EALREADY
           then (Inl (the (bt_le_adv_start bt)), b, st)
           else (ok, b, st))"

section \<open>A phone that reads\<close>

text \<open>
  What Zephyr documents of \<^verbatim>\<open>bt_gatt_attr_read\<close>: an offset past the end of the value is an attribute
  error, otherwise as much of the value from the offset on as fits is copied.
\<close>

definition attr_read_ok :: "bt_host \<Rightarrow> bool" where
  "attr_read_ok bt \<longleftrightarrow> (\<forall>len offset v. bt_gatt_attr_read bt len offset v =
     (if length v < offset then None else Some (take len (drop offset v))))"

text \<open>
  The long read of the attribute protocol: portions of \<open>m\<close> bytes are read until one is shorter
  than that. The work queue runs between two portions. A value of \<open>API_FRAME_MAX\<close> bytes takes at
  most that many portions and an empty one.
\<close>

definition ble_run_work :: "env \<Rightarrow> ble \<times> node \<Rightarrow> ble \<times> node" where
  "ble_run_work ev bs = (if bl_fromradio_work (fst bs) then fromradio_work_handler ev bs else bs)"

fun ble_portions :: "env \<Rightarrow> bt_host \<Rightarrow> nat \<Rightarrow> nat \<Rightarrow> nat \<Rightarrow> ble \<times> node \<Rightarrow> (bytes \<times> ble \<times> node) option" where
  "ble_portions ev bt m 0 offset bs = None"
| "ble_portions ev bt m (Suc n) offset bs =
     (case read_fromradio bt m offset bs of
        (None, bs) \<Rightarrow> None
      | (Some bytes, bs) \<Rightarrow>
          if length bytes < m then Some (bytes, ble_run_work ev bs)
          else map_option (apfst ((@) bytes)) (ble_portions ev bt m n (offset + length bytes) (ble_run_work ev bs)))"

definition ble_long_read :: "env \<Rightarrow> bt_host \<Rightarrow> nat \<Rightarrow> ble \<times> node \<Rightarrow> (bytes \<times> ble \<times> node) option" where
  "ble_long_read ev bt m bs = ble_portions ev bt m (Suc API_FRAME_MAX) 0 bs"

fun ble_read_all :: "env \<Rightarrow> bt_host \<Rightarrow> nat \<Rightarrow> nat \<Rightarrow> ble \<times> node \<Rightarrow> (bytes list \<times> ble \<times> node) option" where
  "ble_read_all ev bt m 0 bs = Some ([], bs)"
| "ble_read_all ev bt m (Suc n) bs = do {
     (f, bs) \<leftarrow> ble_long_read ev bt m bs;
     (fs, bs) \<leftarrow> ble_read_all ev bt m n bs;
     Some (f # fs, bs)
   }"

text \<open>The frames still to be read, when no configuration download is going on.\<close>

definition ble_phone :: "ble \<times> node \<Rightarrow> phoneapi" where
  "ble_phone bs = st_phones (snd bs) ! bl_api (fst bs)"

definition ble_ok :: "ble \<times> node \<Rightarrow> bool" where
  "ble_ok bs \<longleftrightarrow> bl_api (fst bs) < length (st_phones (snd bs)) \<and> phone_ring_ok (ble_phone bs) \<and> \<not> config_active (ble_phone bs) \<and>
     (\<not> bl_fromradio_ready (fst bs) \<longrightarrow> \<not> pa_current_valid (ble_phone bs))"

definition ble_frames :: "ble \<times> node \<Rightarrow> bytes list" where
  "ble_frames bs = (if bl_fromradio_ready (fst bs) then [bl_fromradio_staged (fst bs)] else []) @ phone_frames (ble_phone bs)"

definition ble_holds :: "bytes list \<Rightarrow> ble \<times> node \<Rightarrow> bool" where
  "ble_holds fs bs \<longleftrightarrow> ble_ok bs \<and> ble_frames bs = fs \<and> (bl_fromradio_ready (fst bs) \<longleftrightarrow> fs \<noteq> [])"

definition ble_loaded :: "bytes \<Rightarrow> ble \<times> node \<Rightarrow> bool" where
  "ble_loaded f bs \<longleftrightarrow> bl_fromradio_len (fst bs) = length f \<and> take (length f) (bl_fromradio_buf (fst bs)) = f"

lemma ble_phone_set_api [simp]:
  "bl_api b < length (st_phones st) \<Longrightarrow> st_phones (ble_set_api b f st) ! bl_api b = f (st_phones st ! bl_api b)"
  "length (st_phones (ble_set_api b f st)) = length (st_phones st)"
  by (simp_all add: ble_set_api_def upd_phone_def)

lemma phone_release [simp]:
  "phone_ring_ok (release_current_frame api) = phone_ring_ok api" "phone_frames (release_current_frame api) = phone_frames api"
  "config_active (release_current_frame api) = config_active api" "\<not> pa_current_valid (release_current_frame api)"
  by (simp_all add: release_current_frame_def phone_ring_ok_def phone_frames_def config_active_def)

text \<open>The work item stages the next frame, or finds none; what is being read is left alone.\<close>

lemma current_frame_pop:
  assumes "phone_ring_ok api" "\<not> config_active api" "\<not> pa_current_valid api"
  shows "phone_frames api = [] \<Longrightarrow> current_frame pc env (api, c) = (None, api, c)"
    "phone_frames api = g # gs \<Longrightarrow> \<exists>api'. current_frame pc env (api, c) = (Some g, api', c) \<and> phone_ring_ok api' \<and>
       phone_frames api' = gs \<and> \<not> config_active api'"
proof -
  show "phone_frames api = [] \<Longrightarrow> current_frame pc env (api, c) = (None, api, c)"
    using assms ring_pop_spec [of api] by (simp add: current_frame_def)
  assume "phone_frames api = g # gs"
  with assms ring_pop_spec [of api] obtain api1 where "ring_pop api = Some (g, api1)" "phone_ring_ok api1" "phone_frames api1 = gs"
    by blast
  moreover from this(1) have "config_active api1 = config_active api"
    by (auto simp: ring_pop_def config_active_def split: if_splits)
  ultimately show "\<exists>api'. current_frame pc env (api, c) = (Some g, api', c) \<and> phone_ring_ok api' \<and>
       phone_frames api' = gs \<and> \<not> config_active api'"
    using assms by (auto simp: current_frame_def phone_ring_ok_def phone_frames_def config_active_def)
qed

lemma work_handler_stages:
  assumes "ble_ok (b, st)" "\<not> bl_fromradio_ready b" "phone_frames (st_phones st ! bl_api b) = gs"
  shows "ble_holds gs (fromradio_work_handler ev (b, st)) \<and> (\<forall>f. ble_loaded f (fromradio_work_handler ev (b, st)) = ble_loaded f (b, st))"
proof (cases gs)
  case Nil
  with assms current_frame_pop(1) [of "st_phones st ! bl_api b"] show ?thesis
    by (simp add: fromradio_work_handler_def ble_ok_def ble_phone_def ble_holds_def ble_frames_def ble_loaded_def)
next
  case (Cons g hs)
  with assms current_frame_pop(2) [of "st_phones st ! bl_api b" g hs "ev_pc ev" "phone_env_of ev st" "mt st"]
  obtain api' where "current_frame (ev_pc ev) (phone_env_of ev st) (st_phones st ! bl_api b, mt st) = (Some g, api', mt st)"
    "phone_ring_ok api'" "phone_frames api' = hs" "\<not> config_active api'"
    by (auto simp: ble_ok_def ble_phone_def)
  with Cons assms show ?thesis
    by (simp add: fromradio_work_handler_def ble_ok_def ble_phone_def ble_holds_def ble_frames_def ble_loaded_def notify_fromnum_def
        ble_set_api_def upd_phone_def phone_ring_ok_def phone_frames_def config_active_def Let_def)
qed

text \<open>One portion: the last one releases the frame and asks for the next.\<close>

lemma read_portion:
  assumes "attr_read_ok bt" "f \<noteq> []" "offset \<le> length f"
    and "offset = 0 \<and> bl_fromradio_ready b \<and> bl_fromradio_staged b = f \<or> 0 < offset \<and> ble_loaded f (b, st)"
  obtains b' where "ble_loaded f (b', st)" "bl_api b' = bl_api b" "bl_fromradio_ready b' = bl_fromradio_ready b"
    "bl_fromradio_staged b' = bl_fromradio_staged b"
    "bl_fromradio_work b' = bl_fromradio_work b"
    "read_fromradio bt m offset (b, st) = (Some (take m (drop offset f)),
       if length f \<le> offset + m then (schedule_fromradio_prepare (b'\<lparr>bl_fromradio_ready := False\<rparr>), ble_set_api b release_current_frame st)
       else (b', st))"
proof -
  let ?b = "if offset = 0 then b\<lparr>bl_fromradio_buf := f @ drop (length f) (bl_fromradio_buf b), bl_fromradio_len := length f\<rparr> else b"
  have l: "bl_fromradio_len ?b = length f" "take (length f) (bl_fromradio_buf ?b) = f" using assms(4) by (auto simp: ble_loaded_def)
  have r: "bt_gatt_attr_read bt m offset f = Some (take m (drop offset f))" using assms(1,3) by (simp add: attr_read_ok_def)
  show ?thesis
    by (rule that [of ?b]) (use assms(2-4) l r in \<open>auto simp: read_fromradio_def Let_def ble_loaded_def ble_set_api_def\<close>)
qed

lemma released_stages:
  assumes "ble_ok (b, st)" "phone_frames (st_phones st ! bl_api b) = gs" "bl_api b' = bl_api b" "ble_loaded f (b', st)"
  shows "ble_holds gs (ble_run_work ev (schedule_fromradio_prepare (b'\<lparr>bl_fromradio_ready := False\<rparr>), ble_set_api b release_current_frame st)) \<and>
    ble_loaded f (ble_run_work ev (schedule_fromradio_prepare (b'\<lparr>bl_fromradio_ready := False\<rparr>), ble_set_api b release_current_frame st))"
proof -
  let ?b = "schedule_fromradio_prepare (b'\<lparr>bl_fromradio_ready := False\<rparr>)" and ?st = "ble_set_api b release_current_frame st"
  have "ble_ok (?b, ?st)" using assms by (simp add: ble_ok_def ble_phone_def schedule_fromradio_prepare_def)
  from work_handler_stages [OF this, of gs ev] assms show ?thesis
    by (simp add: ble_run_work_def ble_ok_def ble_phone_def schedule_fromradio_prepare_def ble_loaded_def)
qed

lemma unreleased_stages:
  assumes "ble_holds (f # gs) (b, st)" "bl_api b' = bl_api b" "bl_fromradio_ready b' = bl_fromradio_ready b"
    "bl_fromradio_staged b' = bl_fromradio_staged b" "ble_loaded f (b', st)"
  shows "ble_holds (f # gs) (ble_run_work ev (b', st)) \<and> ble_loaded f (ble_run_work ev (b', st))"
  using assms by (auto simp: ble_run_work_def fromradio_work_handler_def ble_holds_def ble_ok_def ble_frames_def ble_phone_def ble_loaded_def)

text \<open>
  A long read from some offset on: the portion that completes the frame is short unless the
  frame ends on a portion boundary, and then one more portion is read.
\<close>

lemma ble_portions_frame:
  assumes "attr_read_ok bt" "0 < m" "f \<noteq> []"
  shows "ble_holds (f # gs) bs \<Longrightarrow> offset < length f \<Longrightarrow> length f - offset < n \<Longrightarrow> offset = 0 \<or> ble_loaded f bs \<Longrightarrow>
    \<exists>bs'. ble_portions ev bt m n offset bs = Some (drop offset f, bs') \<and>
      ble_holds (if m dvd length f - offset then tl gs else gs) bs'"
proof (induction n arbitrary: offset bs)
  case (Suc n)
  obtain b st where bs: "bs = (b, st)" by force
  from Suc.prems(1) bs have h: "ble_ok (b, st)" "bl_fromradio_ready b" "bl_fromradio_staged b = f"
    "phone_frames (st_phones st ! bl_api b) = gs" by (auto simp: ble_holds_def ble_frames_def ble_phone_def)
  have at: "offset = 0 \<and> bl_fromradio_ready b \<and> bl_fromradio_staged b = f \<or> 0 < offset \<and> ble_loaded f (b, st)"
    using Suc.prems(4) h bs by auto
  from assms(1,3) less_imp_le [OF Suc.prems(2)] at obtain b' where b': "ble_loaded f (b', st)" "bl_api b' = bl_api b"
    "bl_fromradio_ready b' = bl_fromradio_ready b" "bl_fromradio_staged b' = bl_fromradio_staged b"
    and r: "read_fromradio bt m offset (b, st) = (Some (take m (drop offset f)),
       if length f \<le> offset + m then (schedule_fromradio_prepare (b'\<lparr>bl_fromradio_ready := False\<rparr>), ble_set_api b release_current_frame st)
       else (b', st))"
    by (rule read_portion)
  consider "length f < offset + m" | "length f = offset + m" | "offset + m < length f" by linarith
  then show ?case
  proof cases
    case 1
    with Suc.prems(2) have "\<not> m dvd length f - offset" by (auto dest!: dvd_imp_le)
    moreover have "length f - offset < m" using 1 Suc.prems(2) by linarith
    ultimately show ?thesis using 1 r bs released_stages [OF h(1,4) b'(2,1), of ev] by auto
  next
    case 2
    let ?bs = "ble_run_work ev (schedule_fromradio_prepare (b'\<lparr>bl_fromradio_ready := False\<rparr>), ble_set_api b release_current_frame st)"
    obtain c su where c: "?bs = (c, su)" by force
    from released_stages [OF h(1,4) b'(2,1), of ev] c have holds: "ble_holds gs (c, su)" and loaded: "ble_loaded f (c, su)" by simp_all
    have "length f = 0 \<and> bl_fromradio_ready c \<and> bl_fromradio_staged c = f \<or> 0 < length f \<and> ble_loaded f (c, su)"
      using loaded assms(3) by simp
    from assms(1,3) order_refl this obtain c' where c': "ble_loaded f (c', su)" "bl_api c' = bl_api c"
      and e: "read_fromradio bt m (length f) (c, su) = (Some (take m (drop (length f) f)),
       if length f \<le> length f + m then (schedule_fromradio_prepare (c'\<lparr>bl_fromradio_ready := False\<rparr>), ble_set_api c release_current_frame su)
       else (c', su))"
      by (rule read_portion)
    have fr: "phone_frames (st_phones su ! bl_api c) = tl gs"
      using holds by (auto simp: ble_holds_def ble_frames_def ble_phone_def split: if_splits)
    from holds have "ble_ok (c, su)" by (simp add: ble_holds_def)
    from released_stages [OF this fr c'(2,1), of ev] e 2 bs r c assms(2) Suc.prems(3) show ?thesis
      by (cases n) auto
  next
    case 3
    from unreleased_stages [OF _ b'(2,3,4,1), of gs ev] Suc.prems(1) bs
    have "ble_holds (f # gs) (ble_run_work ev (b', st))" "ble_loaded f (ble_run_work ev (b', st))" by simp_all
    moreover have "length f - (offset + m) < n" using 3 Suc.prems(3) assms(2) by linarith
    ultimately obtain bs' where
      "ble_portions ev bt m n (offset + m) (ble_run_work ev (b', st)) = Some (drop (offset + m) f, bs')"
      "ble_holds (if m dvd length f - (offset + m) then tl gs else gs) bs'" using Suc.IH 3 by blast
    moreover have "m dvd length f - (offset + m) \<longleftrightarrow> m dvd length f - offset"
    proof -
      have "length f - offset = (length f - (offset + m)) + m" using 3 by linarith
      then show ?thesis by (simp only: dvd_add_triv_right_iff)
    qed
    moreover have "take m (drop offset f) @ drop (offset + m) f = drop offset f"
      using append_take_drop_id [of m "drop offset f"] by (simp add: add.commute)
    ultimately show ?thesis using 3 r bs by (simp add: min_absorb2 del: drop_drop)
  qed
qed simp

lemma ble_long_read_frame:
  assumes "attr_read_ok bt" "0 < m" "f \<noteq> []" "length f \<le> API_FRAME_MAX" "ble_holds (f # gs) bs"
  shows "\<exists>bs'. ble_long_read ev bt m bs = Some (f, bs') \<and> ble_holds (if m dvd length f then tl gs else gs) bs'"
  using ble_portions_frame [OF assms(1-3,5), of 0 "Suc API_FRAME_MAX" ev] assms(3,4)
  by (simp add: ble_long_read_def del: ble_portions.simps)

text \<open>A phone that writes several messages, each in one piece, before the work item runs.\<close>

definition ble_writes :: "bytes list \<Rightarrow> ble \<Rightarrow> ble" where
  "ble_writes ws b = fold (\<lambda>w b. snd (write_toradio w 0 False b)) ws b"

lemma ble_writes_keep:
  "\<forall>w\<in>set ws. length w \<le> length (bl_to_radio_buf b) \<Longrightarrow>
     length (bl_to_radio_buf (ble_writes ws b)) = length (bl_to_radio_buf b) \<and> bl_api (ble_writes ws b) = bl_api b"
  unfolding ble_writes_def by (induction ws arbitrary: b) (auto simp: write_toradio_def Let_def)

section \<open>Properties\<close>

text \<open>
  C23: a phone that reads over Bluetooth gets every frame that waits for it, whole, once and in
  order, whatever the size of the portions, when no frame's length is a multiple of that size.
\<close>

theorem ble_frames_delivered:
  assumes "attr_read_ok bt" "ble_holds fs bs" "\<forall>f\<in>set fs. length f \<le> API_FRAME_MAX \<and> \<not> m dvd length f" "0 < m"
  shows "\<exists>bs'. ble_read_all ev bt m (length fs) bs = Some (fs, bs') \<and> ble_holds [] bs'"
  using assms(2,3)
proof (induction fs arbitrary: bs)
  case (Cons f fs)
  then have "f \<noteq> []" by auto
  from ble_long_read_frame [OF assms(1,4) this _ Cons.prems(1), of ev] Cons.prems(2) obtain bs1 where
    "ble_long_read ev bt m bs = Some (f, bs1)" "ble_holds fs bs1" by auto
  with Cons.IH [of bs1] Cons.prems(2) show ?case by auto
qed simp

text \<open>
  C24: when the length of a frame is a multiple of the portion size, the empty portion with which
  the phone finds its end releases the frame after it, which has been staged meanwhile: that
  frame is lost.
\<close>

theorem ble_frame_lost:
  assumes "attr_read_ok bt" "ble_holds (f # g # fs) bs" "f \<noteq> []" "length f \<le> API_FRAME_MAX" "m dvd length f" "0 < m"
  shows "\<exists>bs'. ble_long_read ev bt m bs = Some (f, bs') \<and> ble_holds fs bs'"
  using ble_long_read_frame [OF assms(1,6,3,4,2), of ev] assms(5) by simp

text \<open>
  the messages a phone writes before the work item runs overwrite each other: the work item
  hands on exactly the last of them, the others are lost.
\<close>

theorem ble_last_write_handled:
  assumes "\<forall>v\<in>set (ws @ [w]). length v \<le> length (bl_to_radio_buf b)"
  shows "bl_to_radio_work (ble_writes (ws @ [w]) b) \<and>
    to_radio_work_handler ev now (ble_writes (ws @ [w]) b, st) = do {
      st' \<leftarrow> handle_toradio ev now (bl_api b) w st;
      Some (ble_callbacks (st_phones st ! bl_api b) (st_phones st' ! bl_api b)
        ((ble_writes (ws @ [w]) b)\<lparr>bl_to_radio_len := 0, bl_to_radio_work := False\<rparr>, st'))
    }"
proof -
  have l: "length (bl_to_radio_buf (ble_writes ws b)) = length (bl_to_radio_buf b)" "bl_api (ble_writes ws b) = bl_api b"
    using assms ble_writes_keep [of ws b] by simp_all
  have "ble_writes (ws @ [w]) b = snd (write_toradio w 0 False (ble_writes ws b))" by (simp add: ble_writes_def)
  with l assms show ?thesis by (simp add: write_toradio_def to_radio_work_handler_def Let_def)
qed

text \<open>
  C25: nothing of a session reaches the next phone that connects: after the connection is lost
  a read is empty at the start and an attribute error further on, and the work item finds
  nothing to stage, whatever was queued, staged or half read before.
\<close>

theorem ble_session_isolated:
  assumes "attr_read_ok bt" "bl_api b < length (st_phones st)"
    and "ble_connected conn' 0 (ble_disconnected conn (b, st)) = (b', st')"
  shows "fst (read_fromradio bt len offset (b', st')) = (if offset = 0 then Some [] else None) \<and>
    fst (read_fromradio bt len offset (fromradio_work_handler ev (b', st'))) = (if offset = 0 then Some [] else None) \<and>
    \<not> bl_fromradio_work b' \<and> (bl_conn b = Some conn \<longrightarrow> bl_conn b' = Some conn')"
proof -
  have b': "bl_fromradio_len b' = 0" "\<not> bl_fromradio_ready b'" "\<not> bl_fromradio_work b'"
    "bl_conn b = Some conn \<longrightarrow> bl_conn b' = Some conn'" and api: "bl_api b' = bl_api b"
    and len: "length (st_phones st') = length (st_phones st)"
    and ph: "st_phones st' ! bl_api b = phoneapi_reset (release_current_frame (st_phones st ! bl_api b))"
    using assms(2,3) by (auto simp: ble_connected_def ble_disconnected_def ble_invalidate_delivery_def Let_def set_ble_connected_def
      ble_set_api_def upd_phone_def split: if_splits)
  have "current_frame (ev_pc ev) (phone_env_of ev st') (st_phones st' ! bl_api b', mt st') = (None, st_phones st' ! bl_api b', mt st')"
    by (simp add: ph api current_frame_def phoneapi_reset_def ring_pop_def config_active_def)
  with b' have "fromradio_work_handler ev (b', st') = (b'\<lparr>bl_fromradio_work := False\<rparr>, st')"
    by (simp add: fromradio_work_handler_def)
  moreover have "fst (read_fromradio bt len offset (c, su)) = (if offset = 0 then Some [] else None)"
    if "bl_fromradio_len c = 0" "\<not> bl_fromradio_ready c" for c su
    using that assms(1) by (auto simp: read_fromradio_def attr_read_ok_def Let_def)
  ultimately show ?thesis using b' by simp
qed

end
