(* ===== verification/Gateway.thy ===== *)
theory Gateway
  imports Router
begin

text \<open>
  The gateway at work, of \<^verbatim>\<open>src/meshtastic_mqtt.c\<close>: what the events of the MQTT client do to the
  node, and one turn of the gateway's thread, which connects, publishes and listens. The queue,
  the filters and the topics are those of theory \<open>Mqtt\<close>.

  The network and the client library are parameters: a turn is given what each call it may make
  answers, with the events the call delivers before it returns. Sleeping is left out.
\<close>

section \<open>What the surroundings answer\<close>

text \<open>
  An event the client delivers. A published message comes with its topic, with what reading its
  payload answers, and with its number if it has to be acknowledged.
\<close>

datatype mqtt_evt =
    EVT_CONNACK int
  | EVT_DISCONNECT
  | EVT_PUBLISH string "bytes res" "nat option"
  | EVT_OTHER

text \<open>
  A call that writes to the broker answers a return code and whether it delivered a disconnect
  event. The default interface is given with its state and whether it has a global address.
\<close>

record mqtt_io =
  io_iface :: "(bool \<times> bool) option"
  io_iface_later :: "(bool \<times> bool) option"
  io_getaddrinfo :: "int \<times> bytes option option"
  io_sockaddr_size :: nat
  io_connect :: "unit res"
  io_sock :: int
  io_connect_poll :: int
  io_connect_input :: "mqtt_evt list"
  io_abort_lost :: bool
  io_subscribe :: "unit res \<times> bool"
  io_disconnect_lost :: bool
  io_publish :: mqtt_client
  io_poll :: int
  io_pollin :: bool
  io_input :: "mqtt_evt list \<times> unit res"
  io_live :: "unit res \<times> bool"
  io_version :: string

section \<open>Sockets\<close>

definition mqtt_iface_has_global_ipv4 :: "(bool \<times> bool) option \<Rightarrow> bool" where
  "mqtt_iface_has_global_ipv4 iface = (case iface of None \<Rightarrow> False | Some (up, has_addr) \<Rightarrow> if \<not> up then False else has_addr)"

definition mqtt_prepare_fds :: "int \<Rightarrow> mqtt_ctx \<Rightarrow> mqtt_ctx" where
  "mqtt_prepare_fds sock q = q\<lparr>mq_polling := 0 \<le> sock\<rparr>"

definition mqtt_clear_fds :: "mqtt_ctx \<Rightarrow> mqtt_ctx" where
  "mqtt_clear_fds q = q\<lparr>mq_polling := False\<rparr>"

definition mqtt_poll_socket :: "int \<Rightarrow> mqtt_ctx \<Rightarrow> int" where
  "mqtt_poll_socket answer q = (if \<not> mq_polling q then 0 else answer)"

text \<open>The address of the broker, as long as it fits the socket address it is copied to.\<close>

definition mqtt_resolve_broker :: "mqtt_io \<Rightarrow> bytes res" where
  "mqtt_resolve_broker io =
     (let (rc, answer) = io_getaddrinfo io in
      if rc \<noteq> 0 then Inl ENOENT
      else case answer of
          None \<Rightarrow> Inl ENOENT
        | Some None \<Rightarrow> Inl ENOENT
        | Some (Some addr) \<Rightarrow> if io_sockaddr_size io < length addr then Inl ENOMEM else Inr addr)"

section \<open>Events of the client\<close>

abbreviation upd_mqtt :: "(mqtt_ctx \<Rightarrow> mqtt_ctx) \<Rightarrow> node \<Rightarrow> node" where
  "upd_mqtt f st \<equiv> st\<lparr>st_mqtt := f (st_mqtt st)\<rparr>"

definition mqtt_handle_publish :: "env \<Rightarrow> int \<Rightarrow> bytes \<Rightarrow> node \<Rightarrow> node option" where
  "mqtt_handle_publish ev now payload st =
     (case mqtt_downlink_packet (ev_k ev) (ev_mc ev) (st_ch st) (mt st) payload of
        None \<Rightarrow> Some st
      | Some inject \<Rightarrow> do {
          (ret, st) \<leftarrow> inject_downlink_mesh_packet ev now inject st;
          Some st
        })"

text \<open>The handlers return the node and the numbers of the messages they have acknowledged.\<close>

definition mqtt_on_publish_evt :: "env \<Rightarrow> int \<Rightarrow> string \<Rightarrow> bytes res \<Rightarrow> nat option \<Rightarrow> node \<Rightarrow> (nat list \<times> node) option" where
  "mqtt_on_publish_evt ev now topic payload qos1 st =
     (if 128 \<le> length topic then Some ([], st)
      else case payload of
          Inl _ \<Rightarrow> Some ([], st)
        | Inr bytes \<Rightarrow> do {
            st \<leftarrow> mqtt_handle_publish ev now bytes st;
            Some (case qos1 of Some message_id \<Rightarrow> [message_id] | None \<Rightarrow> [], st)
          })"

fun mqtt_evt_handler :: "env \<Rightarrow> mqtt_io \<Rightarrow> int \<Rightarrow> mqtt_evt \<Rightarrow> node \<Rightarrow> (nat list \<times> node) option" where
  "mqtt_evt_handler ev io now (EVT_CONNACK result) st =
     (if result \<noteq> 0 then Some ([], upd_mqtt (\<lambda>q. q\<lparr>mq_connected := False\<rparr>) st)
      else Some ([], upd_mqtt (\<lambda>q. mqtt_work_notify (mqtt_drain_queue (ev_k ev) (io_publish io) MQTT_PUBLISH_BUDGET_ON_CONNECT
             (mqtt_prepare_fds (io_sock io) (q\<lparr>mq_connected := True\<rparr>)))) st))"
| "mqtt_evt_handler ev io now EVT_DISCONNECT st = Some ([], upd_mqtt mqtt_on_disconnect st)"
| "mqtt_evt_handler ev io now (EVT_PUBLISH topic payload qos1) st = mqtt_on_publish_evt ev now topic payload qos1 st"
| "mqtt_evt_handler ev io now EVT_OTHER st = Some ([], st)"

text \<open>The events one call of the client delivers, in their order.\<close>

fun mqtt_events :: "env \<Rightarrow> mqtt_io \<Rightarrow> int \<Rightarrow> mqtt_evt list \<Rightarrow> node \<Rightarrow> (nat list \<times> node) option" where
  "mqtt_events ev io now [] st = Some ([], st)"
| "mqtt_events ev io now (e # es) st = do {
     (acks, st) \<leftarrow> mqtt_evt_handler ev io now e st;
     (acks', st) \<leftarrow> mqtt_events ev io now es st;
     Some (acks @ acks', st)
   }"

section \<open>The session\<close>

definition mqtt_lost :: "bool \<Rightarrow> mqtt_ctx \<Rightarrow> mqtt_ctx" where
  "mqtt_lost lost q = (if lost then mqtt_on_disconnect q else q)"

definition mqtt_subscribe_downlink :: "mqtt_io \<Rightarrow> node \<Rightarrow> unit res \<times> node" where
  "mqtt_subscribe_downlink io st =
     (let topic = mqtt_build_subscribe_topic (st_ch st) (st_mqtt st);
          st = upd_mqtt (\<lambda>q. q\<lparr>mq_sub_topic := strn 128 topic\<rparr>) st
      in if 128 \<le> length topic then (Inl EINVAL, st)
         else let (ret, lost) = io_subscribe io in (ret, upd_mqtt (mqtt_lost lost) st))"

definition mqtt_try_connect :: "env \<Rightarrow> mqtt_io \<Rightarrow> int \<Rightarrow> node \<Rightarrow> (unit res \<times> nat list \<times> node) option" where
  "mqtt_try_connect ev io now st =
     (case io_connect io of
        Inl e \<Rightarrow> Some (Inl e, [], st)
      | Inr _ \<Rightarrow>
          (let st = upd_mqtt (mqtt_prepare_fds (io_sock io)) st in do {
             (acks, st) \<leftarrow> (if 0 < mqtt_poll_socket (io_connect_poll io) (st_mqtt st)
                            then mqtt_events ev io now (io_connect_input io) st else Some ([], st));
             if \<not> mq_connected (st_mqtt st) then Some (Inl ENOTCONN, acks, upd_mqtt (mqtt_lost (io_abort_lost io)) st)
             else if MQTT_DOWNLINK_ENABLED (ev_k ev)
             then (case mqtt_subscribe_downlink io st of
                 (Inl e, st) \<Rightarrow> Some (Inl e, acks, upd_mqtt (\<lambda>q. (mqtt_lost (io_disconnect_lost io) q)\<lparr>mq_connected := False\<rparr>) st)
               | (Inr _, st) \<Rightarrow> Some (ok, acks, st))
             else Some (ok, acks, st)
           }))"

definition mqtt_process_once :: "env \<Rightarrow> mqtt_io \<Rightarrow> int \<Rightarrow> node \<Rightarrow> (unit res \<times> nat list \<times> node) option" where
  "mqtt_process_once ev io now st =
     (if \<not> mq_connected (st_mqtt st) then Some (Inl ENOTCONN, [], st)
      else let ret = mqtt_poll_socket (io_poll io) (st_mqtt st) in
        if 0 < ret \<and> io_pollin io
        then do {
          (acks, st) \<leftarrow> mqtt_events ev io now (fst (io_input io)) st;
          Some (snd (io_input io), acks, st)
        }
        else if ret = 0
        then let (live, lost) = io_live io; st = upd_mqtt (mqtt_lost lost) st
          in Some (if live \<noteq> ok \<and> live \<noteq> Inl EAGAIN then live else ok, [], st)
        else Some (ok, [], st))"

section \<open>One turn of the thread\<close>

definition mqtt_listen :: "env \<Rightarrow> mqtt_io \<Rightarrow> int \<Rightarrow> node \<Rightarrow> (nat list \<times> node) option" where
  "mqtt_listen ev io now st =
     (if \<not> mqtt_network_is_ready (mqtt_iface_has_global_ipv4 (io_iface_later io)) (st_mqtt st)
      then Some ([], upd_mqtt (\<lambda>q. mqtt_handle_disconnect_pending (q\<lparr>mq_disconnect_pending := True\<rparr>)) st)
      else let st = upd_mqtt (mqtt_drain_queue (ev_k ev) (io_publish io) MQTT_PUBLISH_BUDGET_PER_LOOP) st in do {
        (ret, acks, st) \<leftarrow> mqtt_process_once ev io now st;
        if ret \<noteq> ok
        then Some (acks, upd_mqtt (\<lambda>q. mqtt_clear_fds ((mqtt_lost (io_disconnect_lost io) q)\<lparr>mq_connected := False\<rparr>)) st)
        else let st = upd_mqtt (mqtt_drain_queue (ev_k ev) (io_publish io) MQTT_PUBLISH_BUDGET_PER_LOOP) st in do {
          q \<leftarrow> mqtt_perhaps_report_to_map (ev_k ev) (ev_mc ev) (io_publish io) (io_version io) (ev_hw_model ev) now
            (map_sum id position.truncate (gnss_get_last_position ev st)) (st_ch st) (mt st) (st_mqtt st);
          Some (acks, st\<lparr>st_mqtt := (if mq_count q = 0 then q\<lparr>mq_work_sem := False\<rparr> else q)\<rparr>)
        }
      })"

definition mqtt_thread_turn :: "env \<Rightarrow> mqtt_io \<Rightarrow> int \<Rightarrow> node \<Rightarrow> (nat list \<times> node) option" where
  "mqtt_thread_turn ev io now st =
     (let st = upd_mqtt mqtt_handle_disconnect_pending st in
      if \<not> mq_connected (st_mqtt st)
      then if \<not> mqtt_network_is_ready (mqtt_iface_has_global_ipv4 (io_iface io)) (st_mqtt st) then Some ([], st)
        else case mqtt_resolve_broker io of
            Inl _ \<Rightarrow> Some ([], st)
          | Inr _ \<Rightarrow> do {
              (ret, acks, st) \<leftarrow> mqtt_try_connect ev io now st;
              case ret of
                Inl _ \<Rightarrow> Some (acks, st)
              | Inr _ \<Rightarrow> do {
                  (acks', st) \<leftarrow> mqtt_listen ev io now st;
                  Some (acks @ acks', st)
                }
            }
      else mqtt_listen ev io now st)"

section \<open>The flags and the queue\<close>

lemma take_flags:
  "mqtt_take k q = Some (e, q') \<Longrightarrow> mq_net_has_ipv4 q' = mq_net_has_ipv4 q \<and> mq_disconnect_pending q' = mq_disconnect_pending q \<and>
     mq_crypt_prefix q' = mq_crypt_prefix q \<and> mq_connected q' = mq_connected q"
  by (auto simp: mqtt_take_def split: if_splits)

lemma publish_flags:
  "mq_net_has_ipv4 (snd (mqtt_do_publish cl t p q)) = mq_net_has_ipv4 q"
  "mq_disconnect_pending (snd (mqtt_do_publish cl t p q)) = mq_disconnect_pending q"
  "mq_crypt_prefix (snd (mqtt_do_publish cl t p q)) = mq_crypt_prefix q"
  by (simp_all add: mqtt_do_publish_def mqtt_on_disconnect_def split_beta Let_def)

lemma drain_flags [simp]:
  "mq_net_has_ipv4 (mqtt_drain_queue k cl n q) = mq_net_has_ipv4 q"
  "mq_disconnect_pending (mqtt_drain_queue k cl n q) = mq_disconnect_pending q"
  "mq_crypt_prefix (mqtt_drain_queue k cl n q) = mq_crypt_prefix q"
  by (induction n arbitrary: q) (auto simp: publish_flags dest!: take_flags split: option.split)

lemma drain_connected:
  "\<forall>i. \<not> snd (cl i) \<Longrightarrow> mq_connected q \<Longrightarrow> mq_connected (mqtt_drain_queue k cl n q)"
proof (induction n arbitrary: q)
  case (Suc n)
  have "mq_connected (snd (mqtt_do_publish cl t p q'))" if "mq_connected q'" for t p q'
    using that Suc.prems(1) by (simp add: mqtt_do_publish_def split_beta Let_def)
  with Suc show ?case by (auto dest!: take_flags split: option.split)
qed simp

text \<open>Changes that leave queue, log of publishes and flags of the connection to the network alone.\<close>

lemma mqtt_flag_updates [simp]:
  "mqtt_ring_ok k (q\<lparr>mq_connected := b\<rparr>) = mqtt_ring_ok k q" "mqtt_pending (q\<lparr>mq_connected := b\<rparr>) = mqtt_pending q"
  "mqtt_ring_ok k (q\<lparr>mq_polling := b\<rparr>) = mqtt_ring_ok k q" "mqtt_pending (q\<lparr>mq_polling := b\<rparr>) = mqtt_pending q"
  "mqtt_ring_ok k (q\<lparr>mq_work_sem := b\<rparr>) = mqtt_ring_ok k q" "mqtt_pending (q\<lparr>mq_work_sem := b\<rparr>) = mqtt_pending q"
  "mqtt_ring_ok k (q\<lparr>mq_disconnect_pending := b\<rparr>) = mqtt_ring_ok k q" "mqtt_pending (q\<lparr>mq_disconnect_pending := b\<rparr>) = mqtt_pending q"
  "mqtt_ring_ok k (q\<lparr>mq_net_has_ipv4 := b\<rparr>) = mqtt_ring_ok k q" "mqtt_pending (q\<lparr>mq_net_has_ipv4 := b\<rparr>) = mqtt_pending q"
  "mqtt_ring_ok k (q\<lparr>mq_sub_topic := s\<rparr>) = mqtt_ring_ok k q" "mqtt_pending (q\<lparr>mq_sub_topic := s\<rparr>) = mqtt_pending q"
  by (simp_all add: mqtt_ring_ok_def mqtt_pending_def)

fun mqtt_thread_run :: "env \<Rightarrow> (mqtt_io \<times> int) list \<Rightarrow> node \<Rightarrow> (nat list \<times> node) option" where
  "mqtt_thread_run ev [] st = Some ([], st)"
| "mqtt_thread_run ev ((io, now) # ts) st = do {
     (acks, st) \<leftarrow> mqtt_thread_turn ev io now st;
     (acks', st) \<leftarrow> mqtt_thread_run ev ts st;
     Some (acks @ acks', st)
   }"

lemma turn_offline:
  assumes "\<not> mq_net_has_ipv4 (st_mqtt st)"
  shows "mqtt_thread_turn ev io now st = Some ([], upd_mqtt mqtt_handle_disconnect_pending
    (if mq_connected (st_mqtt st) then upd_mqtt (\<lambda>q. q\<lparr>mq_disconnect_pending := True\<rparr>) st else st))"
proof -
  let ?st = "upd_mqtt mqtt_handle_disconnect_pending st"
  have net: "\<not> mqtt_network_is_ready b (st_mqtt ?st)" for b
    using assms by (simp add: mqtt_network_is_ready_def mqtt_handle_disconnect_pending_def Let_def)
  show ?thesis
  proof (cases "mq_connected (st_mqtt ?st)")
    case True
    then have p: "mq_connected (st_mqtt st)" "\<not> mq_disconnect_pending (st_mqtt st)"
      by (auto simp: mqtt_handle_disconnect_pending_def Let_def split: if_splits)
    from True net have "mqtt_thread_turn ev io now st = Some ([], upd_mqtt (\<lambda>q. mqtt_handle_disconnect_pending (q\<lparr>mq_disconnect_pending := True\<rparr>)) ?st)"
      by (simp add: mqtt_thread_turn_def mqtt_listen_def Let_def)
    with p show ?thesis by (simp add: mqtt_handle_disconnect_pending_def Let_def)
  next
    case False
    with net have "mqtt_thread_turn ev io now st = Some ([], ?st)" by (simp add: mqtt_thread_turn_def Let_def)
    moreover have "mq_connected (st_mqtt st) \<longrightarrow> mq_disconnect_pending (st_mqtt st)"
      using False by (auto simp: mqtt_handle_disconnect_pending_def Let_def split: if_splits)
    ultimately show ?thesis by (auto simp: mqtt_handle_disconnect_pending_def Let_def)
  qed
qed

section \<open>A broker that answers\<close>

text \<open>A turn in which the network is up, the broker takes the connection and every message, and has none itself.\<close>

definition broker_answers :: "mqtt_io \<Rightarrow> bool" where
  "broker_answers io \<longleftrightarrow> io_iface io = Some (True, True) \<and> io_iface_later io = Some (True, True) \<and>
     (\<exists>addr. io_getaddrinfo io = (0, Some (Some addr)) \<and> length addr \<le> io_sockaddr_size io) \<and>
     io_connect io = ok \<and> 0 \<le> io_sock io \<and> 0 < io_connect_poll io \<and> io_connect_input io = [EVT_CONNACK 0] \<and>
     io_subscribe io = (ok, False) \<and> (\<forall>i. \<not> snd (io_publish io i)) \<and> io_poll io = 0 \<and> io_live io = (ok, False)"

definition online :: "kconfig \<Rightarrow> node \<Rightarrow> bool" where
  "online k st \<longleftrightarrow> mqtt_ring_ok k (st_mqtt st) \<and> mq_net_has_ipv4 (st_mqtt st) \<and> \<not> mq_disconnect_pending (st_mqtt st) \<and>
     length (mqtt_build_subscribe_topic (st_ch st) (st_mqtt st)) < 128"

text \<open>Published so far are the entries up to a point, at least \<open>n\<close> of them if there were as many.\<close>

definition drained :: "nat \<Rightarrow> node \<Rightarrow> node \<Rightarrow> bool" where
  "drained n st st' \<longleftrightarrow> (\<exists>m\<ge>min n (length (mqtt_pending (st_mqtt st))).
     mqtt_pending (st_mqtt st') = drop m (mqtt_pending (st_mqtt st)) \<and>
     mq_sent (st_mqtt st') = mq_sent (st_mqtt st) @ map (\<lambda>e. (pub_topic e, pub_payload e)) (take m (mqtt_pending (st_mqtt st))))"

lemma drained_refl: "drained 0 st st"
  by (auto simp: drained_def intro: exI [of _ 0])

lemma drained_trans:
  assumes "drained a st st'" "drained b st' st''"
  shows "drained (a + b) st st''"
proof -
  let ?p = "mqtt_pending (st_mqtt st)"
  from assms(1) obtain m where m: "min a (length ?p) \<le> m" "mqtt_pending (st_mqtt st') = drop m ?p"
    "mq_sent (st_mqtt st') = mq_sent (st_mqtt st) @ map (\<lambda>e. (pub_topic e, pub_payload e)) (take m ?p)" by (auto simp: drained_def)
  from assms(2) m obtain n where n: "min b (length (drop m ?p)) \<le> n" "mqtt_pending (st_mqtt st'') = drop n (drop m ?p)"
    "mq_sent (st_mqtt st'') = mq_sent (st_mqtt st) @ map (\<lambda>e. (pub_topic e, pub_payload e)) (take m ?p @ take n (drop m ?p))"
    by (auto simp: drained_def)
  have "take m ?p @ take n (drop m ?p) = take (m + n) ?p" by (simp add: take_add)
  moreover have "min (a + b) (length ?p) \<le> m + n" using m(1) n(1) by (auto simp: min_def split: if_splits)
  ultimately show ?thesis using n by (auto simp: drained_def add.commute intro!: exI [of _ "m + n"])
qed

lemma drained_drain:
  assumes "mqtt_ring_ok k (st_mqtt st)" "mq_connected (mqtt_drain_queue k cl n (st_mqtt st))"
  shows "drained n st (upd_mqtt (mqtt_drain_queue k cl n) st) \<and> mqtt_ring_ok k (mqtt_drain_queue k cl n (st_mqtt st))"
  using mqtt_drain_spec [OF assms(1), of n cl] assms(2) by (auto simp: drained_def)

lemma drained_cong:
  "drained n st st' \<Longrightarrow> mqtt_pending (st_mqtt st1) = mqtt_pending (st_mqtt st) \<Longrightarrow> mq_sent (st_mqtt st1) = mq_sent (st_mqtt st) \<Longrightarrow>
   mqtt_pending (st_mqtt st2) = mqtt_pending (st_mqtt st') \<Longrightarrow> mq_sent (st_mqtt st2) = mq_sent (st_mqtt st') \<Longrightarrow> drained n st1 st2"
  by (simp add: drained_def)

lemma listen_online:
  assumes "broker_answers io" "online (ev_k ev) st" "mq_connected (st_mqtt st)" "\<not> MQTT_MAP_REPORT (ev_k ev)"
  shows "\<exists>st'. mqtt_listen ev io now st = Some ([], st') \<and> drained 4 st st' \<and> online (ev_k ev) st' \<and> mq_connected (st_mqtt st') \<and>
    st'\<lparr>st_mqtt := st_mqtt st\<rparr> = st"
proof -
  let ?d = "\<lambda>q. mqtt_drain_queue (ev_k ev) (io_publish io) 2 q"
  let ?q = "?d (?d (st_mqtt st))"
  let ?r = "if mq_count ?q = 0 then ?q\<lparr>mq_work_sem := False\<rparr> else ?q"
  have c: "mq_connected (?d (st_mqtt st))" "mq_connected ?q"
    using assms(1,3) drain_connected by (simp_all add: broker_answers_def)
  have d: "drained 2 st (upd_mqtt ?d st)" "drained 2 (upd_mqtt ?d st) (upd_mqtt ?d (upd_mqtt ?d st))" "mqtt_ring_ok (ev_k ev) ?q"
    using drained_drain [of "ev_k ev" st "io_publish io" 2] drained_drain [of "ev_k ev" "upd_mqtt ?d st" "io_publish io" 2] assms(2) c
    by (simp_all add: online_def)
  have "mqtt_listen ev io now st = Some ([], st\<lparr>st_mqtt := ?r\<rparr>)"
    using assms c by (simp add: mqtt_listen_def broker_answers_def online_def mqtt_network_is_ready_def mqtt_iface_has_global_ipv4_def
        mqtt_process_once_def mqtt_poll_socket_def mqtt_lost_def mqtt_perhaps_report_to_map_def)
  moreover have "drained 4 st (st\<lparr>st_mqtt := ?r\<rparr>)"
    using drained_trans [OF d(1,2)] by (auto elim!: drained_cong)
  moreover have "online (ev_k ev) (st\<lparr>st_mqtt := ?r\<rparr>)"
    using assms(2) d(3) by (simp add: online_def mqtt_build_subscribe_topic_def)
  ultimately show ?thesis using c by auto
qed

lemma connect_online:
  assumes "broker_answers io" "online (ev_k ev) st"
  shows "\<exists>st'. mqtt_try_connect ev io now st = Some (ok, [], st') \<and> drained 0 st st' \<and> online (ev_k ev) st' \<and> mq_connected (st_mqtt st') \<and>
    st'\<lparr>st_mqtt := st_mqtt st\<rparr> = st"
proof -
  let ?start = "(st_mqtt st)\<lparr>mq_connected := True, mq_polling := True\<rparr>"
  let ?flushed = "mqtt_work_notify (mqtt_drain_queue (ev_k ev) (io_publish io) 8 ?start)"
  let ?q = "if MQTT_DOWNLINK_ENABLED (ev_k ev) then ?flushed\<lparr>mq_sub_topic := strn 128 (mqtt_build_subscribe_topic (st_ch st) ?flushed)\<rparr> else ?flushed"
  have c: "mq_connected (mqtt_drain_queue (ev_k ev) (io_publish io) 8 ?start)"
    using assms(1) drain_connected by (simp add: broker_answers_def)
  have d: "drained 8 (st\<lparr>st_mqtt := ?start\<rparr>) (upd_mqtt (mqtt_drain_queue (ev_k ev) (io_publish io) 8) (st\<lparr>st_mqtt := ?start\<rparr>))"
    "mqtt_ring_ok (ev_k ev) (mqtt_drain_queue (ev_k ev) (io_publish io) 8 ?start)"
    using drained_drain [of "ev_k ev" "st\<lparr>st_mqtt := ?start\<rparr>" "io_publish io" 8] assms(2) c by (simp_all add: online_def)
  have len: "length (mqtt_build_subscribe_topic (st_ch st) ?flushed) < 128"
    using assms(2) by (simp add: online_def mqtt_build_subscribe_topic_def mqtt_work_notify_def)
  have "mqtt_try_connect ev io now st = Some (ok, [], st\<lparr>st_mqtt := ?q\<rparr>)"
    using assms c len by (simp add: mqtt_try_connect_def broker_answers_def mqtt_prepare_fds_def mqtt_poll_socket_def mqtt_subscribe_downlink_def
        mqtt_lost_def mqtt_work_notify_def Let_def)
  moreover have "drained 0 st (st\<lparr>st_mqtt := ?q\<rparr>)"
    using d(1) by (auto simp: drained_def mqtt_work_notify_def)
  moreover have "online (ev_k ev) (st\<lparr>st_mqtt := ?q\<rparr>)"
    using assms(2) d(2) by (simp add: online_def mqtt_build_subscribe_topic_def mqtt_work_notify_def)
  ultimately show ?thesis using c by (auto simp: mqtt_work_notify_def)
qed

lemma turn_online:
  assumes "broker_answers io" "online (ev_k ev) st" "\<not> MQTT_MAP_REPORT (ev_k ev)"
  shows "\<exists>st'. mqtt_thread_turn ev io now st = Some ([], st') \<and> drained 4 st st' \<and> online (ev_k ev) st' \<and> mq_connected (st_mqtt st') \<and>
    st'\<lparr>st_mqtt := st_mqtt st\<rparr> = st"
proof (cases "mq_connected (st_mqtt st)")
  case True
  with assms(2) listen_online [OF assms(1,2) True assms(3), of now] show ?thesis
    by (simp add: mqtt_thread_turn_def mqtt_handle_disconnect_pending_def online_def)
next
  case False
  from connect_online [OF assms(1,2), of now] obtain st1 where st1: "mqtt_try_connect ev io now st = Some (ok, [], st1)"
    "drained 0 st st1" "online (ev_k ev) st1" "mq_connected (st_mqtt st1)" "st1\<lparr>st_mqtt := st_mqtt st\<rparr> = st" by blast
  from listen_online [OF assms(1) st1(3,4) assms(3), of now] obtain st2 where st2: "mqtt_listen ev io now st1 = Some ([], st2)"
    "drained 4 st1 st2" "online (ev_k ev) st2" "mq_connected (st_mqtt st2)" "st2\<lparr>st_mqtt := st_mqtt st1\<rparr> = st1" by blast
  have "mqtt_thread_turn ev io now st = Some ([], st2)"
    using False assms(1,2) st1(1) st2(1) by (auto simp: mqtt_thread_turn_def mqtt_handle_disconnect_pending_def online_def
        mqtt_network_is_ready_def broker_answers_def mqtt_iface_has_global_ipv4_def mqtt_resolve_broker_def)
  moreover have "st2\<lparr>st_mqtt := st_mqtt st\<rparr> = st" using st1(5) st2(5) by (metis node.surjective node.update_convs(6))
  ultimately show ?thesis using drained_trans [OF st1(2) st2(2)] st2(3,4) by simp
qed

section \<open>One packet over both ways\<close>

text \<open>A packet arrives by radio or from the broker.\<close>

datatype arrival =
    Heard int bytes int int
  | Published int bytes

fun arrive :: "env \<Rightarrow> arrival \<Rightarrow> node \<Rightarrow> node option" where
  "arrive ev (Heard now buf rssi snr) st = router_process_lora_rx ev now buf rssi snr st"
| "arrive ev (Published now payload) st = mqtt_handle_publish ev now payload st"

fun arrivals :: "env \<Rightarrow> arrival list \<Rightarrow> node \<Rightarrow> node option" where
  "arrivals ev [] st = Some st"
| "arrivals ev (a # as) st = arrive ev a st \<bind> arrivals ev as"

text \<open>Sender and number of the packet that arrives, if it gets as far as the duplicate cache.\<close>

fun arrival_key :: "env \<Rightarrow> node \<Rightarrow> arrival \<Rightarrow> (u32 \<times> u32) option" where
  "arrival_key ev st (Heard now buf rssi snr) =
     (if 16 \<le> length buf \<and> \<not> frame_ignored ev buf then Some (frame_key buf) else None)"
| "arrival_key ev st (Published now payload) =
     map_option (\<lambda>m. (m_from m, m_id m)) (mqtt_downlink_packet (ev_k ev) (ev_mc ev) (st_ch st) (mt st) payload)"

definition bridging :: "env \<Rightarrow> node \<Rightarrow> bool" where
  "bridging ev st \<longleftrightarrow> channels_live (st_ch st) \<and> dup_inv (ev_k ev) (mt st) \<and> mt_initialized (mt st)"

abbreviation key_seen :: "env \<Rightarrow> u32 \<times> u32 \<Rightarrow> node \<Rightarrow> bool" where
  "key_seen ev key st \<equiv> fst (dup_check (ev_k ev) (fst key) (snd key) (mt st))"

lemma arrival_key_cong:
  assumes "st_ch st' = st_ch st" "mt_node_id (mt st') = mt_node_id (mt st)"
  shows "arrival_key ev st' a = arrival_key ev st a"
proof -
  have "mqtt_downlink_packet (ev_k ev) (ev_mc ev) (st_ch st') (mt st') p = mqtt_downlink_packet (ev_k ev) (ev_mc ev) (st_ch st) (mt st) p" for p
    unfolding mqtt_downlink_packet_def assms ..
  then show ?thesis by (cases a) simp_all
qed

lemma keeps_relay_injected: "keeps st (snd (relay_injected_encrypted_mesh_packet ev work st))"
proof -
  obtain pid st0 where p: "(if m_id work \<noteq> 0 then (m_id work, st)
      else let (pid, c) = allocate_packet_id (mt st) in (pid, set_mt c st)) = (pid, st0)" by force
  have st0: "keeps st st0" using p quiet_keeps [OF quiet_allocated] by (auto split: if_splits prod.splits)
  have "keeps st0 (set_radio (snd (radio_send_wire (ev_k ev) pkt (st_radio st0))) st0)" for pkt
    by (auto simp: radio_send_wire_def keeps_def)
  with keeps_trans [OF st0] show ?thesis
    unfolding relay_injected_encrypted_mesh_packet_def p by (auto simp: split_beta Let_def split: payload_variant.split)
qed

lemma keeps_inject_relay:
  "inject_relay ev now work st = Some (ret, st') \<Longrightarrow> keeps st st'"
  using keeps_relay_injected [of st ev work]
  by (auto simp: inject_relay_def Let_def split: if_splits dest: keeps_send_mesh_pb)

lemma inject_relay_returns: "channels_live (st_ch st) \<Longrightarrow> \<exists>ret st'. inject_relay ev now work st = Some (ret, st')"
  using send_mesh_pb_returns [of st ev now work] by (auto simp: inject_relay_def Let_def)

lemma mesh_pb_to_packet_returns: "channels_live t \<Longrightarrow> \<exists>r. mesh_pb_to_packet pb psa t c mesh buf = Some r"
  using mesh_pb_try_decode_returns [of t pb psa c "mesh_packet_copy mesh"]
  by (cases "m_variant mesh") (auto simp: mesh_pb_to_packet_def)

text \<open>A packet from the broker that is in the cache only counts as a duplicate; any other enters it.\<close>

lemma inject_seen:
  assumes "mt_initialized (mt st)" "fst (dup_check (ev_k ev) (m_from mesh) (m_id mesh) (mt st))"
  shows "inject_downlink_mesh_packet ev now mesh st =
    Some (Inl EALREADY, upd_st_status (\<lambda>s. s\<lparr>s_duplicate_packets := s_duplicate_packets s + 1\<rparr>) st)"
  using assms by (auto simp: inject_downlink_mesh_packet_def dup_check_def mesh_packet_copy_def split: if_splits)

lemma inject_new:
  assumes "mt_initialized (mt st)" "\<not> fst (dup_check (ev_k ev) (m_from mesh) (m_id mesh) (mt st))" "channels_live (st_ch st)"
  shows "\<exists>ret st'. inject_downlink_mesh_packet ev now mesh st = Some (ret, st') \<and>
    keeps (set_mt (dup_add (ev_k ev) (m_from mesh) (m_id mesh) (mt st)) st) st'"
proof -
  let ?st = "set_mt (dup_add (ev_k ev) (m_from mesh) (m_id mesh) (mt st)) st"
  let ?work = "(mesh_packet_copy mesh)\<lparr>m_via_mqtt := True, m_transport := TRANSPORT_MQTT\<rparr>"
  have c: "dup_check (ev_k ev) (m_from ?work) (m_id ?work) (mt st) = (False, mt st)" and
    key: "m_from ?work = m_from mesh" "m_id ?work = m_id mesh"
    using assms(2) by (auto simp: dup_check_def mesh_packet_copy_def split: if_splits)
  obtain ret st1 where r: "inject_relay ev now ?work ?st = Some (ret, st1)"
    using inject_relay_returns [of ?st ev now ?work] assms(3) by auto
  note k1 = keeps_inject_relay [OF r]
  have live: "channels_live (st_ch st1)" using keepsD(1) [OF k1] assms(3) by simp
  obtain ret2 work where d: "mesh_pb_try_decode (ev_pb ev) (ev_psa ev) (st_ch st1) (mt st1) ?work = Some (ret2, work)"
    using mesh_pb_try_decode_returns [OF live] by blast
  obtain pr where pr: "mesh_pb_to_packet (ev_pb ev) (ev_psa ev) (st_ch st1) (mt st1) work (Some MAX_PAYLOAD_LEN) = Some pr"
    using mesh_pb_to_packet_returns [OF live] by blast
  have h: "\<exists>st2. handle_inbound_packet ev now p [] True st1 = Some st2 \<and> keeps ?st st2" for p
    using inbound_returns [OF live, of ev now p "[]" True] inbound.keeps keeps_trans [OF k1] by blast
  have "inject_downlink_mesh_packet ev now mesh st =
    (if ret \<noteq> ok then Some (ret, st1)
     else if \<not> (m_to ?work = mt_node_id (mt st1) \<or> m_to ?work = NODE_BROADCAST) then Some (ok, st1)
     else if ret2 \<noteq> ok then Some (ok, st1)
     else case pr of Inl e \<Rightarrow> Some (Inl e, st1)
       | Inr p \<Rightarrow> handle_inbound_packet ev now (p\<lparr>p_via_mqtt := True\<rparr>) [] True st1 \<bind> (\<lambda>st. Some (ok, st)))"
    using assms(1) c key r d pr
    by (simp add: inject_downlink_mesh_packet_def Let_def del: mesh_packet.simps cong: sum.case_cong if_cong)
  then show ?thesis
  proof (cases pr)
    case (Inr p)
    with h [of "p\<lparr>p_via_mqtt := True\<rparr>"] k1 \<open>inject_downlink_mesh_packet ev now mesh st = _\<close> show ?thesis by auto
  qed (use k1 in auto)
qed

text \<open>How one arrival moves the cache; a known packet changes nothing the user could notice.\<close>

lemma arrive_spec:
  assumes "bridging ev st"
  obtains st' where "arrive ev a st = Some st'" "bridging ev st'" "st_ch st' = st_ch st" "mt_node_id (mt st') = mt_node_id (mt st)"
    "\<And>key. arrival_key ev st a = Some key \<Longrightarrow> \<not> key_seen ev key st \<Longrightarrow>
       dup_recent (ev_k ev) (mt st') = tl (dup_recent (ev_k ev) (mt st)) @ [key]"
    "(\<And>key. arrival_key ev st a = Some key \<Longrightarrow> key_seen ev key st) \<Longrightarrow> dup_recent (ev_k ev) (mt st') = dup_recent (ev_k ev) (mt st)"
proof (cases a)
  case (Heard now buf rssi snr)
  from assms have b: "channels_live (st_ch st)" "dup_inv (ev_k ev) (mt st)" "mt_initialized (mt st)" by (simp_all add: bridging_def)
  obtain st' where st': "router_process_lora_rx ev now buf rssi snr st = Some st'" using process_returns [OF b(1)] by blast
  have init: "mt_initialized (mt st')"
  proof (cases "16 \<le> length buf")
    case True
    from True st' show ?thesis
      using b(3) by (cases rule: process_cases)
        (auto simp: dup_add_def keepsD(9) [OF counted_keeps] dest!: quiet_reack quiet_keeps inbound.keeps keepsD(9))
  next
    case False
    with st' b(3) show ?thesis by (simp add: router_process_lora_rx_def)
  qed
  note r = process_recent [OF st' b(2)] and c = process_keeps_channels [OF st']
  show ?thesis
    by (rule that [of st']) (use Heard st' r c b init in \<open>auto simp: bridging_def split: if_splits\<close>)
next
  case (Published now payload)
  from assms have b: "channels_live (st_ch st)" "dup_inv (ev_k ev) (mt st)" "mt_initialized (mt st)" by (simp_all add: bridging_def)
  show ?thesis
  proof (cases "mqtt_downlink_packet (ev_k ev) (ev_mc ev) (st_ch st) (mt st) payload")
    case None
    then show ?thesis by (intro that [of st]) (use Published assms in \<open>simp_all add: mqtt_handle_publish_def\<close>)
  next
    case (Some mesh)
    let ?key = "(m_from mesh, m_id mesh)"
    show ?thesis
    proof (cases "key_seen ev ?key st")
      case True
      then show ?thesis
        by (intro that [of "upd_st_status (\<lambda>s. s\<lparr>s_duplicate_packets := s_duplicate_packets s + 1\<rparr>) st"])
          (use Published Some assms inject_seen [OF b(3)] in \<open>auto simp: mqtt_handle_publish_def bridging_def dup_inv_def dup_recent_def\<close>)
    next
      case False
      with inject_new [OF b(3) _ b(1), of ev mesh now] obtain ret st' where
        i: "inject_downlink_mesh_packet ev now mesh st = Some (ret, st')"
        and k: "keeps (set_mt (dup_add (ev_k ev) (m_from mesh) (m_id mesh) (mt st)) st) st'" by auto
      have add: "dup_inv (ev_k ev) (dup_add (ev_k ev) (m_from mesh) (m_id mesh) (mt st))"
        "dup_recent (ev_k ev) (dup_add (ev_k ev) (m_from mesh) (m_id mesh) (mt st)) = tl (dup_recent (ev_k ev) (mt st)) @ [?key]"
        using dup.inv_add [OF b(2), of ?key] dup.recent_add [OF b(2), of ?key] by simp_all
      have "dup_inv (ev_k ev) (mt st')" "dup_recent (ev_k ev) (mt st') = tl (dup_recent (ev_k ev) (mt st)) @ [?key]"
        using add keepsD(7,8) [OF k] by (simp_all add: dup_inv_def dup_recent_def)
      then show ?thesis
        by (intro that [of st']) (use Published Some i keepsD(1,2,9) [OF k] b False in \<open>auto simp: mqtt_handle_publish_def bridging_def dup_add_def\<close>)
    qed
  qed
qed


lemma arrivals_spec:
  assumes "bridging ev st"
  shows "\<exists>st' ks. arrivals ev as st = Some st' \<and> bridging ev st' \<and> st_ch st' = st_ch st \<and> mt_node_id (mt st') = mt_node_id (mt st) \<and>
    length ks \<le> length as \<and> dup_recent (ev_k ev) (mt st') = drop (length ks) (dup_recent (ev_k ev) (mt st) @ ks)"
  using assms
proof (induction as arbitrary: st)
  case Nil
  then show ?case by simp
next
  case (Cons a as)
  let ?r = "\<lambda>st. dup_recent (ev_k ev) (mt st)"
  from arrive_spec [OF Cons.prems, of a] obtain st1 where st1: "arrive ev a st = Some st1" "bridging ev st1" "st_ch st1 = st_ch st"
    "mt_node_id (mt st1) = mt_node_id (mt st)"
    and new: "\<And>key. arrival_key ev st a = Some key \<Longrightarrow> \<not> key_seen ev key st \<Longrightarrow> ?r st1 = tl (?r st) @ [key]"
    and old: "(\<And>key. arrival_key ev st a = Some key \<Longrightarrow> key_seen ev key st) \<Longrightarrow> ?r st1 = ?r st" by blast
  have ne: "?r st \<noteq> []" using dup.nonempty Cons.prems by (simp add: bridging_def)
  obtain k1 where k1: "length k1 \<le> 1" "?r st1 = drop (length k1) (?r st @ k1)"
  proof (cases "\<exists>key. arrival_key ev st a = Some key \<and> \<not> key_seen ev key st")
    case True
    then obtain key where "?r st1 = tl (?r st) @ [key]" using new by blast
    with ne that [of "[key]"] show ?thesis by (cases "?r st") simp_all
  next
    case False
    with old that [of "[]"] show ?thesis by auto
  qed
  from Cons.IH [OF st1(2)] obtain st' ks where st': "arrivals ev as st1 = Some st'" "bridging ev st'" "st_ch st' = st_ch st1"
    "mt_node_id (mt st') = mt_node_id (mt st1)" "length ks \<le> length as" "?r st' = drop (length ks) (?r st1 @ ks)" by blast
  have "length k1 \<le> length (?r st @ k1)" by simp
  from drop_shift [OF this, of "length ks" ks] k1 st'(6)
  have "?r st' = drop (length (k1 @ ks)) (?r st @ k1 @ ks)" by (simp only: append_assoc length_append)
  moreover have "length (k1 @ ks) \<le> length (a # as)" using k1 st' by simp
  ultimately show ?case using st1 st' by (metis arrivals.simps(2) bind.bind_lunit)
qed

lemma arrive_seen:
  assumes "bridging ev st" "arrival_key ev st a = Some key" "key_seen ev key st" "arrive ev a st = Some st'"
  shows "delivered st' = delivered st \<and> st_phones st' = st_phones st \<and> st_db st' = st_db st \<and>
    rx_counters (mt st') = (case rx_counters (mt st) of (rx, relayed, dups, fails, from) \<Rightarrow> (rx, relayed, dups + 1, fails, from))"
proof (cases a)
  case (Heard now buf rssi snr)
  with assms(2) have h: "16 \<le> length buf" "\<not> frame_ignored ev buf" "key = frame_key buf" by (auto split: if_splits)
  from h(1) assms(4) Heard have "quiet (log_air ev AIRTIME_RX_ALL (length buf)
      (upd_st_status (\<lambda>s. s\<lparr>s_duplicate_packets := s_duplicate_packets s + 1\<rparr>) st)) st'"
    unfolding Heard arrive.simps by (cases rule: process_cases) (use assms(3) h in \<open>auto dest: quiet_reack\<close>)
  then show ?thesis by (simp add: quiet_def delivered_def rx_counters_def Let_def)
next
  case (Published now payload)
  then obtain mesh where "mqtt_downlink_packet (ev_k ev) (ev_mc ev) (st_ch st) (mt st) payload = Some mesh" "key = (m_from mesh, m_id mesh)"
    using assms(2) by auto
  with assms Published inject_seen [of st ev mesh now] show ?thesis
    by (auto simp: mqtt_handle_publish_def bridging_def delivered_def rx_counters_def Let_def)
qed

section \<open>What comes from the broker stays marked\<close>



















section \<open>Properties\<close>

text \<open>
  C3: no packet is delivered twice, whichever way its copies come. After a packet with a new
  number has arrived, by radio or from the broker, and as long as fewer packets follow than the
  duplicate cache has entries, a further copy that arrives by either way reaches neither the
  application nor a phone nor the node database, is not relayed and is counted as a duplicate
  and nothing else. The handlers always return.
\<close>

theorem bridge_no_duplicate:
  assumes "bridging ev st" "arrival_key ev st first = Some key" "\<not> key_seen ev key st"
    and "length others < DUP_CACHE_SIZE (ev_k ev)" "arrival_key ev st copy = Some key"
  shows "\<exists>st2 st3. arrivals ev (first # others) st = Some st2 \<and> arrive ev copy st2 = Some st3 \<and>
    delivered st3 = delivered st2 \<and> st_phones st3 = st_phones st2 \<and> st_db st3 = st_db st2 \<and>
    rx_counters (mt st3) = (case rx_counters (mt st2) of (rx, relayed, dups, fails, from) \<Rightarrow> (rx, relayed, dups + 1, fails, from))"
proof -
  let ?r = "\<lambda>st. dup_recent (ev_k ev) (mt st)"
  from arrive_spec [OF assms(1), of first] assms(2,3) obtain st1 where st1: "arrive ev first st = Some st1" "bridging ev st1"
    "st_ch st1 = st_ch st" "mt_node_id (mt st1) = mt_node_id (mt st)" "?r st1 = tl (?r st) @ [key]" by metis
  from arrivals_spec [OF st1(2), of others] obtain st2 ks where st2: "arrivals ev others st1 = Some st2" "bridging ev st2"
    "st_ch st2 = st_ch st1" "mt_node_id (mt st2) = mt_node_id (mt st1)" "length ks \<le> length others"
    "?r st2 = drop (length ks) (?r st1 @ ks)" by blast
  have "key \<in> set (drop (length ks) ((tl (?r st) @ [key]) @ ks))"
    using st2(5) assms(4) by (simp add: drop_Cons' dup_recent_def)
  then have seen: "key_seen ev key st2"
    using dup.seen_iff [of "ev_k ev" "mt st2" key] st2(2,6) st1(5) by (simp add: bridging_def split_beta)
  have key: "arrival_key ev st2 copy = Some key"
    using arrival_key_cong [of st2 st ev copy] st1(3,4) st2(3,4) assms(5) by simp
  from arrive_spec [OF st2(2), of copy] obtain st3 where st3: "arrive ev copy st2 = Some st3" by blast
  from arrive_seen [OF st2(2) key seen st3] st1(1) st2(1) st3 show ?thesis by auto
qed

text \<open>
  C38: no session survives the loss of the network. However many turns the thread makes after the
  address has gone and whatever the client and the broker answer, it is disconnected after the
  first one, publishes nothing, keeps every entry that waits and changes nothing else of the node.
\<close>

theorem mqtt_offline_quiet:
  assumes "mqtt_thread_run ev ((io, now) # ts) (upd_mqtt (mqtt_net_event_handler NET_EVENT_IPV4_ADDR_DEL) st) = r"
  shows "\<exists>st'. r = Some ([], st') \<and> \<not> mq_connected (st_mqtt st') \<and> mq_sent (st_mqtt st') = mq_sent (st_mqtt st) \<and>
    mqtt_pending (st_mqtt st') = mqtt_pending (st_mqtt st) \<and> st'\<lparr>st_mqtt := st_mqtt st\<rparr> = st"
proof -
  let ?off = "\<lambda>st'. \<not> mq_net_has_ipv4 (st_mqtt st') \<and> mq_sent (st_mqtt st') = mq_sent (st_mqtt st) \<and>
    mqtt_pending (st_mqtt st') = mqtt_pending (st_mqtt st) \<and> st'\<lparr>st_mqtt := st_mqtt st\<rparr> = st"
  have step: "\<exists>st2. mqtt_thread_turn ev io now st1 = Some ([], st2) \<and> ?off st2 \<and> \<not> mq_connected (st_mqtt st2)"
    if "?off st1" for io now st1
    using that turn_offline [of st1 ev io now] by (auto simp: mqtt_handle_disconnect_pending_def Let_def)
  have run: "\<exists>st2. mqtt_thread_run ev ts st1 = Some ([], st2) \<and> ?off st2 \<and> \<not> mq_connected (st_mqtt st2)"
    if "?off st1" "\<not> mq_connected (st_mqtt st1)" for ts st1
    using that
  proof (induction ts arbitrary: st1)
    case (Cons t ts)
    obtain io now where t: "t = (io, now)" by force
    from step [OF Cons.prems(1), of io now] obtain st2 where "mqtt_thread_turn ev io now st1 = Some ([], st2)" "?off st2"
      "\<not> mq_connected (st_mqtt st2)" by blast
    with Cons.IH [of st2] t show ?case by auto
  qed simp
  have "?off (upd_mqtt (mqtt_net_event_handler NET_EVENT_IPV4_ADDR_DEL) st)" by simp
  from step [OF this, of io now] obtain st1 where "mqtt_thread_turn ev io now (upd_mqtt (mqtt_net_event_handler NET_EVENT_IPV4_ADDR_DEL) st) = Some ([], st1)"
    "?off st1" "\<not> mq_connected (st_mqtt st1)" by blast
  with run [of st1 ts] assms show ?thesis by auto
qed


text \<open>
  C37: packets queued for the broker get there. When the network is up and the broker takes the
  connection and the messages, a quarter as many turns of the thread as the queue has entries are
  enough to publish everything that waits, in order and once, also when the thread has to connect
  first.
\<close>

theorem mqtt_queue_flushed:
  assumes "\<forall>t\<in>set ts. broker_answers (fst t)" "online (ev_k ev) st" "\<not> MQTT_MAP_REPORT (ev_k ev)"
    and "MQTT_PUBLISH_QUEUE_SIZE (ev_k ev) \<le> 4 * length ts"
  shows "\<exists>st'. mqtt_thread_run ev ts st = Some ([], st') \<and> mqtt_pending (st_mqtt st') = [] \<and>
    mq_sent (st_mqtt st') = mq_sent (st_mqtt st) @ map (\<lambda>e. (pub_topic e, pub_payload e)) (mqtt_pending (st_mqtt st))"
proof -
  have "\<exists>st'. mqtt_thread_run ev ts st = Some ([], st') \<and> drained (4 * length ts) st st'"
    using assms(1,2)
  proof (induction ts arbitrary: st)
    case (Cons t ts)
    obtain io now where t: "t = (io, now)" by force
    from turn_online [of io ev st now] Cons.prems t assms(3) obtain st1 where
      "mqtt_thread_turn ev io now st = Some ([], st1)" "drained 4 st st1" "online (ev_k ev) st1" by auto
    with Cons.IH [of st1] Cons.prems t drained_trans [of 4 st st1] show ?case by fastforce
  qed (simp add: drained_refl)
  moreover have "length (mqtt_pending (st_mqtt st)) \<le> 4 * length ts"
    using assms(2,4) by (simp add: online_def mqtt_ring_ok_def)
  ultimately show ?thesis by (auto simp: drained_def)
qed

text \<open>
  An error of the socket goes unnoticed: when polling fails or reports an event other than input,
  the turn goes on as if nothing had happened, and the keep-alive is not sent either.
\<close>

theorem mqtt_poll_error_ignored:
  assumes "mq_connected (st_mqtt st)" "mq_polling (st_mqtt st)" "io_poll io < 0 \<or> 0 < io_poll io \<and> \<not> io_pollin io"
  shows "mqtt_process_once ev io now st = Some (ok, [], st)"
  using assms by (auto simp: mqtt_process_once_def mqtt_poll_socket_def)

end
