(* ===== verification/Boot.thy ===== *)
theory Boot
  imports Ble Gateway
begin

text \<open>
  The start of the stack, \<^verbatim>\<open>meshtastic_init\<close> of \<^verbatim>\<open>src/meshtastic.c\<close>, with the initialisers it
  calls: arguments, node number, channels and context first, then the configuration that was
  saved, the radio, the modules and the transports. Any failure after the context is set up takes
  the mark back that the stack is initialised. The saving of the configuration, of
  \<^verbatim>\<open>src/meshtastic_settings.c\<close>, is here too, with the theorem that the next start finds what was saved.

  What the surroundings answer is a parameter. An apply hook is an application's function; it is
  given by what it answers. Creating a thread is left out: the threads are modelled by what one of
  their turns does.
\<close>

section \<open>What the surroundings answer\<close>

record boot_world =
  bw_device_ready :: bool
  bw_hwinfo :: "bytes option"
  bw_psa_init :: bool
  bw_settings_subsys :: "errno option"
  bw_settings_load :: "errno option"
  bw_saved :: "(string \<times> bytes) list"
  bw_codec :: store_codec
  bw_to_hz :: "f32 \<Rightarrow> u32"
  bw_hooks :: "errno option option list"
  bw_bt :: bt_host
  bw_serial :: serial_kconfig
  bw_uart :: uart
  bw_iface :: "(bool \<times> bool) option"

text \<open>The transports' own state and the node.\<close>

record stack =
  sk_ble :: ble
  sk_serial :: serial
  sk_node :: node

abbreviation upd_node :: "(node \<Rightarrow> node) \<Rightarrow> stack \<Rightarrow> stack" where
  "upd_node f s \<equiv> s\<lparr>sk_node := f (sk_node s)\<rparr>"

section \<open>The context\<close>

text \<open>
  With a node number of its own the configuration may set it, otherwise the hardware does; a
  hardware number that turns out to be zero is left in the context with the error.
\<close>

definition boot_node_id :: "kconfig \<Rightarrow> boot_world \<Rightarrow> mconfig \<Rightarrow> mt_context \<Rightarrow> unit res \<times> mt_context" where
  "boot_node_id k w cfg c =
     (if NODE_ID_CUSTOM k
      then (ok, c\<lparr>mt_node_id := if cfg_node_id cfg \<noteq> 0 then cfg_node_id cfg else NODE_ID_DEFAULT k\<rparr>)
      else case node_id_from_hwinfo (bw_hwinfo w) of
          Inl e \<Rightarrow> (Inl e, if e = EINVAL then c\<lparr>mt_node_id := 0\<rparr> else c)
        | Inr node_id \<Rightarrow> (ok, c\<lparr>mt_node_id := node_id\<rparr>))"

definition boot_context :: "kconfig \<Rightarrow> mconfig \<Rightarrow> mt_context \<Rightarrow> mt_context" where
  "boot_context k cfg c = c\<lparr>
     mt_frequency := cfg_frequency cfg,
     mt_hop_limit := (if cfg_hop_limit cfg = 0 then DEFAULT_HOP_LIMIT k else cfg_hop_limit cfg),
     mt_tx_power := (if cfg_tx_power cfg = 0 then TX_POWER k else cfg_tx_power cfg),
     mt_long_name := (case cfg_long_name cfg of Some n \<Rightarrow> n | None \<Rightarrow> NODE_LONG_NAME k),
     mt_short_name := (case cfg_short_name cfg of Some n \<Rightarrow> n | None \<Rightarrow> NODE_SHORT_NAME k),
     mt_next_pkt_id := 1, mt_next_fromradio_id := 1, mt_dup_head := 0, mt_radio_rx_armed := False,
     mt_dup_cache := replicate (DUP_CACHE_SIZE k) (0, 0),
     mt_status := status_zero\<lparr>s_node_id := mt_node_id c\<rparr>\<rparr>"

definition boot_core :: "kconfig \<Rightarrow> boot_world \<Rightarrow> mconfig \<Rightarrow> node \<Rightarrow> (unit res \<times> node) option" where
  "boot_core k w cfg st =
     (if \<not> cfg_lora_dev cfg \<or> \<not> bw_device_ready w then Some (Inl ENODEV, st)
      else if cfg_psk cfg = None \<or> cfg_psk_len cfg \<noteq> 16 \<and> cfg_psk_len cfg \<noteq> 32 then Some (Inl EINVAL, st)
      else if cfg_channel_name cfg = None \<or> cfg_frequency cfg = 0 then Some (Inl EINVAL, st)
      else case boot_node_id k w cfg ((mt st)\<lparr>mt_lora_ready := True\<rparr>) of
          (Inl e, c) \<Rightarrow> Some (Inl e, set_mt c st)
        | (Inr _, c) \<Rightarrow> do {
            (t, c) \<leftarrow> channels_init_from_config cfg (st_ch st, c);
            let st = set_mt (boot_context k cfg c) st\<lparr>st_ch := t, st_rel := reliable_reset k\<rparr>;
            Some (if \<not> bw_psa_init w then (Inl EIO, st) else (ok, set_mt ((mt st)\<lparr>mt_initialized := True\<rparr>) st))
          })"

section \<open>Saved settings\<close>

definition settings_init :: "boot_world \<Rightarrow> store \<Rightarrow> unit res \<times> store" where
  "settings_init w so =
     (case bw_settings_subsys w of
        Some e \<Rightarrow> (Inl e, so)
      | None \<Rightarrow> (case bw_settings_load w of Some e \<Rightarrow> Inl e | None \<Rightarrow> ok, settings_load (bw_codec w) (bw_saved w) so))"

text \<open>
  Saving. Zephyr's \<^verbatim>\<open>settings_save_subtree\<close> is a parameter: it runs the export callback of the handler
  with a function that stores one value, and returns the callback's result with what was stored. \<open>n\<close> is
  the longest name the backend allows.
\<close>

type_synonym files = "(string \<times> bytes) list"

definition settings_subtree :: string where
  "settings_subtree = ''meshtastic''"

definition settings_export_prefixed :: "nat \<Rightarrow> (string \<Rightarrow> bytes \<Rightarrow> errno option) \<Rightarrow> string \<Rightarrow> bytes \<Rightarrow> errno option" where
  "settings_export_prefixed n active_export_func name val =
     (let full_name = settings_subtree @ ''/'' @ name
      in if n < length full_name then Some EINVAL else active_export_func full_name val)"

definition settings_export_cb :: "store_codec \<Rightarrow> nat \<Rightarrow> store \<Rightarrow> (string \<Rightarrow> bytes \<Rightarrow> errno option) \<Rightarrow> unit res \<times> files" where
  "settings_export_cb sc n so export_func =
     (let (r, kvs) = config_store_export sc so (settings_export_prefixed n export_func)
      in (r, map (\<lambda>(name, val). (settings_subtree @ ''/'' @ name, val)) kvs))"

type_synonym save_subtree = "((string \<Rightarrow> bytes \<Rightarrow> errno option) \<Rightarrow> unit res \<times> files) \<Rightarrow> unit res \<times> files"

definition settings_flush :: "save_subtree \<Rightarrow> store_codec \<Rightarrow> nat \<Rightarrow> store \<Rightarrow> unit res \<times> files \<times> store" where
  "settings_flush save sc n so =
     (let so = so\<lparr>so_save_scheduled := False\<rparr>; (r, files) = save (settings_export_cb sc n so) in (r, files, so))"

text \<open>The delayed work item: it is no longer scheduled once it runs, and a failure is only logged.\<close>

definition save_work_handler :: "save_subtree \<Rightarrow> store_codec \<Rightarrow> nat \<Rightarrow> store \<Rightarrow> files \<times> store" where
  "save_work_handler save sc n so =
     (let so = so\<lparr>so_save_scheduled := False\<rparr> in (snd (save (settings_export_cb sc n so)), so))"

text \<open>What Zephyr documents of saving: the callback is run on a function that stores a value.\<close>

definition saves_subtree :: "save_subtree \<Rightarrow> bool" where
  "saves_subtree save \<longleftrightarrow> (\<exists>f. \<forall>cb. save cb = cb f)"

text \<open>The hooks in the order of the linker section; a missing function is skipped.\<close>

fun settings_apply_all :: "errno option option list \<Rightarrow> unit res" where
  "settings_apply_all [] = ok"
| "settings_apply_all (None # hs) = settings_apply_all hs"
| "settings_apply_all (Some None # hs) = settings_apply_all hs"
| "settings_apply_all (Some (Some e) # hs) = Inl e"

definition boot_store :: "kconfig \<Rightarrow> boot_world \<Rightarrow> mconfig \<Rightarrow> node \<Rightarrow> unit res \<times> store" where
  "boot_store k w cfg st =
     (let so = config_store_seed k cfg (st_ch st) (mt st) (st_store st)
      in if SETTINGS k then settings_init w so else (ok, so))"

definition boot_settings :: "kconfig \<Rightarrow> boot_world \<Rightarrow> mconfig \<Rightarrow> node \<Rightarrow> (unit res \<times> node) option" where
  "boot_settings k w cfg st =
     (case boot_store k w cfg st of
        (Inl e, so) \<Rightarrow> Some (Inl e, st\<lparr>st_store := so\<rparr>)
      | (Inr _, so) \<Rightarrow> do {
          (r, t, c) \<leftarrow> config_store_apply_core (bw_to_hz w) so (st_ch st, mt st);
          let st = set_mt c st\<lparr>st_store := so, st_ch := t\<rparr>;
          Some (case r of Inl e \<Rightarrow> (Inl e, st) | Inr _ \<Rightarrow> (settings_apply_all (bw_hooks w), st))
        })"

section \<open>Radio and modules\<close>

definition metrics_init :: "kconfig \<Rightarrow> node \<Rightarrow> node" where
  "metrics_init k st = (if AIRTIME k then st\<lparr>st_link := (st_link st)\<lparr>l_air := airtime_init\<rparr>\<rparr> else st)"

definition boot_modules :: "env \<Rightarrow> int \<Rightarrow> node \<Rightarrow> unit res \<times> node" where
  "boot_modules ev now st =
     (let (r, l) = radio_init (ev_drv ev) (st_link st); st = st\<lparr>st_link := l\<rparr> in
      case r of
        Inl e \<Rightarrow> (Inl e, st)
      | Inr _ \<Rightarrow>
          (let st = (if GNSS (ev_k ev) then st\<lparr>st_gnss := gnss_init ev (st_gnss st)\<rparr> else st);
               st = (if DEVICE_METRICS (ev_m ev) then metrics_init (ev_k ev) st else st)
           in if NODEDB (ev_k ev)
              then let (r, db) = nodedb_init (ev_k ev) (mt_node_id (mt st)) (fill_user (ev_hw_model ev) (st_ch st) (mt st)) now
                in (r, st\<lparr>st_db := db\<rparr>)
              else (ok, st)))"

section \<open>Transports\<close>

definition boot_ble :: "kconfig \<Rightarrow> boot_world \<Rightarrow> stack \<Rightarrow> unit res \<times> stack" where
  "boot_ble k w s =
     (if \<not> BLE k then (ok, s)
      else let load = (if SETTINGS k then settings_load (bw_codec w) (bw_saved w) else id);
               (r, b, st) = ble_init (bw_bt w) load (sk_ble s) (sk_node s)
        in (r, s\<lparr>sk_ble := b, sk_node := st\<rparr>))"

definition boot_serial :: "env \<Rightarrow> boot_world \<Rightarrow> stack \<Rightarrow> unit res \<times> stack" where
  "boot_serial ev w s =
     (if \<not> SERIAL (ev_k ev) then (ok, s)
      else let (r, se, st) = serial_init ev (bw_serial w) (bw_uart w) (sk_serial s) (sk_node s) in (r, s\<lparr>sk_serial := se, sk_node := st\<rparr>))"

definition boot_mqtt :: "kconfig \<Rightarrow> boot_world \<Rightarrow> stack \<Rightarrow> unit res \<times> stack" where
  "boot_mqtt k w s =
     (if \<not> MQTT k then (ok, s)
      else let st = sk_node s;
               (r, q) = mqtt_init k (mqtt_iface_has_global_ipv4 (bw_iface w)) (st_ch st) (mt st) (st_mqtt st)
        in (r, s\<lparr>sk_node := st\<lparr>st_mqtt := q\<rparr>\<rparr>))"

section \<open>The whole start\<close>

text \<open>One initialiser after the other, up to the first that fails.\<close>

definition boot_then :: "(stack \<Rightarrow> unit res \<times> stack) \<Rightarrow> unit res \<times> stack \<Rightarrow> unit res \<times> stack" where
  "boot_then f rs = (case rs of (Inl e, s) \<Rightarrow> (Inl e, s) | (Inr _, s) \<Rightarrow> f s)"

definition boot_modules_stack :: "env \<Rightarrow> int \<Rightarrow> stack \<Rightarrow> unit res \<times> stack" where
  "boot_modules_stack ev now s = (let (r, st) = boot_modules ev now (sk_node s) in (r, s\<lparr>sk_node := st\<rparr>))"

definition boot_fail :: "unit res \<times> stack \<Rightarrow> unit res \<times> stack" where
  "boot_fail rs = (case rs of
     (Inl e, s) \<Rightarrow> (Inl e, upd_node (\<lambda>st. set_mt ((mt st)\<lparr>mt_initialized := False\<rparr>) st) s)
   | (Inr _, s) \<Rightarrow> (ok, s))"

definition meshtastic_init :: "env \<Rightarrow> boot_world \<Rightarrow> int \<Rightarrow> mconfig option \<Rightarrow> stack \<Rightarrow> (unit res \<times> stack) option" where
  "meshtastic_init ev w now cfg s =
     (case cfg of
        None \<Rightarrow> Some (Inl EINVAL, s)
      | Some cfg \<Rightarrow> do {
          (r, st) \<leftarrow> boot_core (ev_k ev) w cfg (sk_node s);
          case r of
            Inl e \<Rightarrow> Some (Inl e, s\<lparr>sk_node := st\<rparr>)
          | Inr _ \<Rightarrow> do {
              (r, st) \<leftarrow> boot_settings (ev_k ev) w cfg st;
              Some (boot_fail (boot_then (boot_mqtt (ev_k ev) w) (boot_then (boot_serial ev w) (boot_then (boot_ble (ev_k ev) w)
                (boot_then (boot_modules_stack ev now) (r, s\<lparr>sk_node := st\<rparr>))))))
            }
        })"

section \<open>What a start establishes\<close>

text \<open>What the handlers of a running node rely on.\<close>

definition running :: "env \<Rightarrow> node \<Rightarrow> bool" where
  "running ev st \<longleftrightarrow> bridging ev st \<and> mt_ch_hash (mt st) = channels_primary_hash (st_ch st) \<and>
     1 \<le> mt_hop_limit (mt st) \<and> mt_hop_limit (mt st) \<le> 7 \<and> mt_node_id (mt st) \<noteq> 0 \<and> store_inv (st_store st) \<and>
     st_rel st = reliable_reset (ev_k ev) \<and> mqtt_ring_ok (ev_k ev) (st_mqtt st) \<and> (\<forall>api\<in>set (st_phones st). phone_ring_ok api)"

text \<open>
  What is asked of the build and the caller: sizes within the ranges of Kconfig, a hop limit the
  header can hold, names that are C strings, and a memory that has not been used yet.
\<close>

definition boot_request :: "env \<Rightarrow> boot_world \<Rightarrow> mconfig \<Rightarrow> node \<Rightarrow> bool" where
  "boot_request ev w cfg st \<longleftrightarrow> kconfig_ok (ev_k ev) \<and> NODE_ID_DEFAULT (ev_k ev) \<noteq> 0 \<and> cfg_hop_limit cfg \<le> 7 \<and>
     (\<forall>s\<in>{NODE_LONG_NAME (ev_k ev), NODE_SHORT_NAME (ev_k ev)} \<union> set_option (cfg_long_name cfg) \<union> set_option (cfg_short_name cfg).
        CHR 0x00 \<notin> set s) \<and>
     bt_fromradio_queue_size (bw_bt w) \<in> {1..255} \<and> SERIAL_FROMRADIO_QUEUE_SIZE (bw_serial w) \<in> {1..255} \<and>
     ct_device_role (st_ch st) = 0 \<and> ct_rebroadcast_mode (st_ch st) = 0 \<and> st_phones st = [] \<and> st_mqtt st = mqtt_ctx_zero (ev_k ev)"

lemma fresh_mqtt_ring: "kconfig_ok k \<Longrightarrow> mqtt_ring_ok k (mqtt_ctx_zero k)"
  by (simp add: mqtt_ring_ok_def mqtt_ctx_zero_def kconfig_ok_def)

lemma fresh_phone_ring: "n \<in> {1..255} \<Longrightarrow> phone_ring_ok (phoneapi_init n)"
  by (simp add: phone_ring_ok_def phoneapi_init_def)

lemma boot_node_id_ok:
  assumes "boot_node_id k w cfg c = (Inr u, c')" "NODE_ID_DEFAULT k \<noteq> 0"
  shows "\<exists>n. n \<noteq> 0 \<and> c' = c\<lparr>mt_node_id := n\<rparr>"
  using assms by (auto simp: boot_node_id_def node_id_from_hwinfo_def Let_def split: if_splits option.splits sum.splits)

text \<open>The role of the device survives the initialisation of the channels.\<close>

abbreviation same_roles :: "channels \<Rightarrow> channels \<Rightarrow> bool" where
  "same_roles t t' \<equiv> ct_device_role t' = ct_device_role t \<and> ct_rebroadcast_mode t' = ct_rebroadcast_mode t"

lemma fixup_roles: "channel_fixup i t = Some t' \<Longrightarrow> same_roles t t'"
  by (auto simp: channel_fixup_def set_slot_raw_def bind_eq_Some_conv Let_def)

lemma fixup_loop_roles: "fixup_loop is t = Some t' \<Longrightarrow> same_roles t t'"
proof (induction "is" arbitrary: t)
  case (Cons i "is")
  then show ?case by (auto simp: bind_eq_Some_conv set_slot_raw_def dest!: fixup_roles)
qed simp

lemma init_from_config_roles: "channels_init_from_config cfg (t, c) = Some (t', c') \<Longrightarrow> same_roles t t'"
  by (auto simp: channels_init_from_config_def channels_init_defaults_def bind_eq_Some_conv set_slot_raw_def Let_def
      dest!: fixup_roles fixup_loop_roles)

text \<open>The first part: channels from the arguments, a fresh context, an empty retry table.\<close>

lemma boot_core_ok:
  assumes "boot_core k w cfg st = Some (Inr u, st')" "kconfig_ok k" "NODE_ID_DEFAULT k \<noteq> 0" "cfg_hop_limit cfg \<le> 7"
  obtains t c where "st' = set_mt c st\<lparr>st_ch := t, st_rel := reliable_reset k\<rparr>" "channels_inv t" "ch_role (slot t 0) = Role_PRIMARY"
    "\<forall>i<MAX_CHANNELS. i \<noteq> 0 \<longrightarrow> ch_role (slot t i) = Role_DISABLED" "ct_primary_index t = 0"
    "mt_ch_hash c = channels_primary_hash t" "dup_inv k c" "mt_initialized c" "mt_node_id c \<noteq> 0"
    "1 \<le> mt_hop_limit c" "mt_hop_limit c \<le> 7" "ct_device_role t = ct_device_role (st_ch st)" "ct_rebroadcast_mode t = ct_rebroadcast_mode (st_ch st)"
    "mt_status c = status_zero\<lparr>s_node_id := mt_node_id c\<rparr>" "mt_next_pkt_id c = 1"
proof -
  from assms(1) have a: "cfg_psk_len cfg \<le> 32" by (auto simp: boot_core_def split: if_splits)
  from assms(1) obtain v c1 where c1: "boot_node_id k w cfg ((mt st)\<lparr>mt_lora_ready := True\<rparr>) = (Inr v, c1)"
    by (auto simp: boot_core_def split: if_splits sum.splits prod.splits)
  obtain t where t: "channels_init_from_config cfg (st_ch st, c1) = Some (t, refresh_mt t c1)" "channels_inv t"
    "ct_primary_index t = 0" "ch_role (slot t 0) = Role_PRIMARY" "\<forall>i<MAX_CHANNELS. i \<noteq> 0 \<longrightarrow> ch_role (slot t i) = Role_DISABLED"
    by (rule init_from_config_spec [OF a])
  let ?c = "(boot_context k cfg (refresh_mt t c1))\<lparr>mt_initialized := True\<rparr>"
  have st': "st' = set_mt ?c st\<lparr>st_ch := t, st_rel := reliable_reset k\<rparr>"
    using assms(1) c1 t(1) by (auto simp: boot_core_def Let_def split: if_splits)
  have role: "ct_device_role t = ct_device_role (st_ch st) \<and> ct_rebroadcast_mode t = ct_rebroadcast_mode (st_ch st)"
    using t(1) init_from_config_roles by blast
  obtain n where n: "n \<noteq> 0" "c1 = (mt st)\<lparr>mt_lora_ready := True, mt_node_id := n\<rparr>" using boot_node_id_ok [OF c1 assms(3)] by auto
  have d: "dup_inv k ?c" using assms(2) by (simp add: dup_inv_def boot_context_def kconfig_ok_def)
  have hop: "1 \<le> mt_hop_limit ?c" "mt_hop_limit ?c \<le> 7"
    using assms(2,4) by (simp_all add: boot_context_def kconfig_ok_def word_le_nat_alt unat_gt_0 Suc_le_eq)
  show ?thesis
    by (rule that [OF st' t(2,4,5,3) _ d _ _ hop])
      (use n role in \<open>simp_all add: boot_context_def refresh_mt_def\<close>)
qed

text \<open>The configuration a start begins with is valid, and so is what the saved settings make of it.\<close>

lemma seed_configs:
  "seed_config_defaults k cfg t c = [
     Config_device (device_config_zero\<lparr>dc_role := ct_device_role t, dc_rebroadcast_mode := ct_rebroadcast_mode t, dc_serial_enabled := SERIAL k\<rparr>),
     Config_position \<lparr>pc_gps_mode = (if GNSS k then 1 else 2), pc_rest = []\<rparr>,
     config_init 3, config_init 4, config_init 5,
     Config_lora (lora_config_zero\<lparr>lo_use_preset := True, lo_modem_preset := 0,
       lo_region := lora_region_from_frequency (cfg_frequency cfg),
       lo_hop_limit := unat (mt_hop_limit c), lo_tx_enabled := True, lo_tx_power := mt_tx_power c\<rparr>),
     Config_bluetooth (if BLE_FIXED_PASSKEY k
       then \<lparr>bt_enabled = BLE k, bt_mode = 1, bt_fixed_pin = BLE_PASSKEY k, bt_rest = []\<rparr>
       else \<lparr>bt_enabled = BLE k, bt_mode = 2, bt_fixed_pin = 0, bt_rest = []\<rparr>),
     config_init 8, config_init 9, config_init 10]"
proof -
  have "the (index_for_config_tag 1) = 0" "the (index_for_config_tag 2) = 1" "the (index_for_config_tag 6) = 5" "the (index_for_config_tag 7) = 6"
    by code_simp+
  then show ?thesis by (simp add: seed_config_defaults_def config_names_def Let_def)
qed

lemma seed_modules:
  "\<exists>m. seed_module_defaults k = Module_mqtt m # map (\<lambda>p. module_init (snd p)) (tl module_names)"
proof -
  have "the (index_for_module_tag 1) = 0" by code_simp
  then show ?thesis by (simp add: seed_module_defaults_def module_names_def Let_def)
qed

lemma all_below_10: "(\<forall>i<10. P i) \<longleftrightarrow> P 0 \<and> P 1 \<and> P 2 \<and> P 3 \<and> P 4 \<and> P 5 \<and> P 6 \<and> P 7 \<and> P 8 \<and> P (9 :: nat)"
proof -
  have "[0..<10] = [0, 1, 2, 3, 4, 5, 6, 7, 8, 9 :: nat]" by code_simp
  moreover have "(\<forall>i<10. P i) \<longleftrightarrow> (\<forall>i\<in>set [0..<10]. P i)" by auto
  ultimately show ?thesis by simp
qed

lemma store_seed_inv:
  assumes "channels_inv t" "ch_role (slot t 0) = Role_PRIMARY" "\<forall>i<MAX_CHANNELS. i \<noteq> 0 \<longrightarrow> ch_role (slot t i) = Role_DISABLED"
    and "mt_hop_limit c \<le> 7" "ct_device_role t = 0" "ct_rebroadcast_mode t = 0"
    and "\<forall>s\<in>{NODE_LONG_NAME k, NODE_SHORT_NAME k} \<union> set_option (cfg_long_name cfg) \<union> set_option (cfg_short_name cfg). CHR 0x00 \<notin> set s"
  shows "store_inv (config_store_seed k cfg t c so)"
proof -
  let ?so = "config_store_seed k cfg t c so"
  have name: "name_ok n (copy_string n (Some s))" if "CHR 0x00 \<notin> set s" "0 < n" for n s
    using that length_strn [of n s] by (auto simp: name_ok_def copy_string_def strn_def dest: in_set_takeD)
  have names: "name_ok 40 (so_long_name ?so)" "name_ok 5 (so_short_name ?so)"
    using assms(7) by (auto simp: config_store_seed_def intro!: name split: option.splits)
  have ch: "channel_is_valid (so_channels ?so ! i) \<and> ch_index (so_channels ?so ! i) = i" if "i < 8" for i
  proof -
    have "length (cs_psk (ch_settings (slot t i))) \<le> 32" using assms(1) that by (simp add: channels_inv_def table_shape_def)
    moreover have "ch_role (slot t i) \<le> Role_SECONDARY" using assms(2,3) that by (cases "i = 0") auto
    ultimately show ?thesis using that by (simp add: config_store_seed_def channels_get_def channel_is_valid_def)
  qed
  have hop: "unat (mt_hop_limit c) \<le> 7" using assms(4) by (simp add: word_le_nat_alt)
  have cf: "\<forall>i<10. config_tag (so_configs ?so ! i) = snd (config_names ! i) \<and> config_is_valid (so_configs ?so ! i)"
    unfolding all_below_10 using assms(5,6) hop
    by (simp add: config_store_seed_def seed_configs config_names_def config_is_valid_def config_init_def index_for_config_tag_def
        device_config_zero_def lora_config_zero_def)
  have mo: "length (so_modules ?so) = 16" "\<forall>i<16. module_tag (so_modules ?so ! i) = snd (module_names ! i)"
  proof -
    obtain m where m: "so_modules ?so = Module_mqtt m # map (\<lambda>p. module_init (snd p)) (tl module_names)"
      using seed_modules by (auto simp: config_store_seed_def)
    then show "length (so_modules ?so) = 16" by (simp add: module_names_def)
    show "\<forall>i<16. module_tag (so_modules ?so ! i) = snd (module_names ! i)"
    proof (intro allI impI)
      fix i :: nat assume i: "i < 16"
      have "module_tag (module_init n) = n" for n by (simp add: module_init_def)
      with i show "module_tag (so_modules ?so ! i) = snd (module_names ! i)"
        by (cases i) (simp_all add: m nth_tl module_names_def [THEN arg_cong [where f = length]] module_names_def [THEN arg_cong [where f = "\<lambda>xs. xs ! 0"]])
    qed
  qed
  have "length (so_channels ?so) = 8" "length (so_configs ?so) = 10" by (simp_all add: config_store_seed_def seed_configs)
  with names ch cf mo show ?thesis by (simp add: store_inv_def)
qed

lemma settings_load_inv: "store_inv so \<Longrightarrow> store_inv (settings_load sc kvs so)"
proof -
  have step: "store_inv (snd (settings_set_cb sc key n v so))" if "store_inv so" for key n v so
    using that setting_set_inv [of so sc key] by (auto simp: settings_set_cb_def split: option.split) (metis prod.collapse)
  show "store_inv so \<Longrightarrow> ?thesis"
    unfolding settings_load_def by (induction kvs arbitrary: so) (auto simp: step split: prod.split)
qed

text \<open>Applying the configuration leaves number, cache, counters and mark of the context alone.\<close>

definition same_core :: "mt_context \<Rightarrow> mt_context \<Rightarrow> bool" where
  "same_core c c' \<longleftrightarrow> mt_node_id c' = mt_node_id c \<and> mt_dup_cache c' = mt_dup_cache c \<and> mt_dup_head c' = mt_dup_head c \<and>
     mt_initialized c' = mt_initialized c \<and> mt_next_pkt_id c' = mt_next_pkt_id c"

lemma same_core_trans: "same_core c c' \<Longrightarrow> same_core c' c'' \<Longrightarrow> same_core c c''"
  by (simp add: same_core_def)

lemma apply_slots_core: "apply_slots ps (t, c) = Some (r, t', c') \<Longrightarrow> same_core c c'"
proof (induction ps arbitrary: t c)
  case (Cons p ps)
  obtain i ch where p: "p = (i, ch)" by force
  from Cons.prems p obtain q t1 c1 where s: "channels_set_slot i ch (t, c) = Some (q, t1, c1)"
    and rest: "(case q of Inl e \<Rightarrow> Some (Inl e, t1, c1) | Inr _ \<Rightarrow> apply_slots ps (t1, c1)) = Some (r, t', c')"
    by (auto simp: bind_eq_Some_conv)
  have "same_core c c1" using set_slot_ctx [OF s] by (auto simp: refresh_mt_def same_core_def)
  with rest Cons.IH [of t1 c1] show ?case by (auto split: sum.splits intro: same_core_trans)
qed (simp add: same_core_def)

lemma apply_core_core:
  assumes "config_store_apply_core to_hz so (t, c) = Some (r, t', c')"
  shows "same_core c c'"
proof -
  let ?c = "c\<lparr>mt_long_name := so_long_name so, mt_short_name := so_short_name so\<rparr>"
  from assms obtain q t1 c1 where s: "apply_slots (zip [0..<MAX_CHANNELS] (so_channels so)) (t, ?c) = Some (q, t1, c1)"
    and out: "(r, t', c') = (case q of Inl e \<Rightarrow> (Inl e, t1, c1)
      | Inr _ \<Rightarrow> (ok, t1\<lparr>ct_device_role := dc_role (as_device (so_configs so ! 0)),
          ct_rebroadcast_mode := dc_rebroadcast_mode (as_device (so_configs so ! 0))\<rparr>,
          apply_lora to_hz (as_lora (so_configs so ! 5)) c1))"
    by (auto simp: config_store_apply_core_def Let_def bind_eq_Some_conv)
  have "same_core c1 c'" using out by (cases q) (auto simp: same_core_def apply_lora_def Let_def)
  then show ?thesis using apply_slots_core [OF s] by (simp add: same_core_def)
qed

text \<open>A store without a keyless secondary slot can always be applied.\<close>

definition keyed :: "store \<Rightarrow> bool" where
  "keyed so \<longleftrightarrow> (\<forall>ch\<in>set (so_channels so). \<not> keyless ch)"

lemma apply_slots_returns:
  "channels_live t \<Longrightarrow> mt_ch_hash c = channels_primary_hash t \<Longrightarrow>
   \<forall>p\<in>set ps. fst p < 8 \<and> length (cs_psk (ch_settings (snd p))) \<le> 32 \<and> \<not> keyless (snd p) \<Longrightarrow>
   \<exists>r t' c'. apply_slots ps (t, c) = Some (r, t', c')"
proof (induction ps arbitrary: t c)
  case (Cons p ps)
  obtain i ch where p: "p = (i, ch)" by force
  have "channels_set_slot i ch (t, c) \<noteq> None"
    using set_slot_None [of t i ch c] Cons.prems p by (simp add: channels_live_def)
  then obtain q t1 c1 where s: "channels_set_slot i ch (t, c) = Some (q, t1, c1)" by (cases "channels_set_slot i ch (t, c)") auto
  with set_slot_live [OF Cons.prems(1) _ Cons.prems(2) s] Cons.prems(3) p Cons.IH [of t1 c1] show ?case by (cases q) auto
qed simp

lemma apply_core_returns:
  assumes "store_inv so" "keyed so" "channels_live t" "mt_ch_hash c = channels_primary_hash t"
  shows "\<exists>r t' c'. config_store_apply_core to_hz so (t, c) = Some (r, t', c')"
proof -
  let ?c = "c\<lparr>mt_long_name := so_long_name so, mt_short_name := so_short_name so\<rparr>" and ?ps = "zip [0..<MAX_CHANNELS] (so_channels so)"
  have "\<forall>p\<in>set ?ps. fst p < 8 \<and> length (cs_psk (ch_settings (snd p))) \<le> 32 \<and> \<not> keyless (snd p)"
    using assms(1,2) by (auto simp: store_inv_def channel_is_valid_def keyed_def set_zip)
  from apply_slots_returns [OF assms(3) _ this, of ?c] assms(4) obtain r t' c' where "apply_slots ?ps (t, ?c) = Some (r, t', c')" by auto
  then show ?thesis by (cases r) (simp_all add: config_store_apply_core_def Let_def)
qed

text \<open>The second part.\<close>

lemma boot_store_inv: "store_inv (config_store_seed k cfg (st_ch st) (mt st) (st_store st)) \<Longrightarrow> store_inv (snd (boot_store k w cfg st))"
  by (auto simp: boot_store_def settings_init_def Let_def intro: settings_load_inv split: option.split)

lemma boot_settings_ok:
  assumes "boot_settings k w cfg st = Some (Inr u, st')" "channels_live (st_ch st)" "mt_ch_hash (mt st) = channels_primary_hash (st_ch st)"
    "1 \<le> mt_hop_limit (mt st)" "mt_hop_limit (mt st) \<le> 7" "store_inv (config_store_seed k cfg (st_ch st) (mt st) (st_store st))"
  obtains c t so where "st' = set_mt c st\<lparr>st_store := so, st_ch := t\<rparr>" "channels_live t" "mt_ch_hash c = channels_primary_hash t"
    "1 \<le> mt_hop_limit c" "mt_hop_limit c \<le> 7" "store_inv so" "same_core (mt st) c"
proof -
  obtain r so where so: "boot_store k w cfg st = (r, so)" by force
  have inv: "store_inv so" using boot_store_inv [OF assms(6), of w] so by simp
  have r: "r = ok" using assms(1) so by (cases r) (simp_all add: boot_settings_def)
  with assms(1) so obtain q t c where a: "config_store_apply_core (bw_to_hz w) so (st_ch st, mt st) = Some (q, t, c)"
    and out: "(Inr u, st') = (case q of Inl e \<Rightarrow> (Inl e, set_mt c st\<lparr>st_store := so, st_ch := t\<rparr>)
      | Inr _ \<Rightarrow> (settings_apply_all (bw_hooks w), set_mt c st\<lparr>st_store := so, st_ch := t\<rparr>))"
    by (auto simp: boot_settings_def bind_eq_Some_conv Let_def)
  have st': "st' = set_mt c st\<lparr>st_store := so, st_ch := t\<rparr>" using out by (cases q) simp_all
  from apply_core_live [OF inv assms(2,3) _ a] apply_core_core [OF a] assms(4,5) inv st' that show ?thesis by blast
qed

lemma boot_running:
  assumes "boot_request ev w cfg st" "boot_core (ev_k ev) w cfg st = Some (Inr u, st1)" "boot_settings (ev_k ev) w cfg st1 = Some (Inr v, st2)"
  shows "running ev st2 \<and> mt_next_pkt_id (mt st2) = 1"
proof -
  from assms(1) have q: "kconfig_ok (ev_k ev)" "NODE_ID_DEFAULT (ev_k ev) \<noteq> 0" "cfg_hop_limit cfg \<le> 7" by (simp_all add: boot_request_def)
  from assms(2) q obtain t c where st1: "st1 = set_mt c st\<lparr>st_ch := t, st_rel := reliable_reset (ev_k ev)\<rparr>" and t: "channels_inv t"
    "ch_role (slot t 0) = Role_PRIMARY" "\<forall>i<MAX_CHANNELS. i \<noteq> 0 \<longrightarrow> ch_role (slot t i) = Role_DISABLED" "ct_primary_index t = 0"
    and c: "mt_ch_hash c = channels_primary_hash t" "dup_inv (ev_k ev) c" "mt_initialized c" "mt_node_id c \<noteq> 0"
    "1 \<le> mt_hop_limit c" "mt_hop_limit c \<le> 7" and roles: "ct_device_role t = ct_device_role (st_ch st)" "ct_rebroadcast_mode t = ct_rebroadcast_mode (st_ch st)"
    and n: "mt_next_pkt_id c = 1"
    by (rule boot_core_ok) blast
  have live: "channels_live t" using t by (simp add: channels_live_def keyless_def)
  have so: "store_inv (config_store_seed (ev_k ev) cfg t c (st_store st))"
    by (rule store_seed_inv [OF t(1-3) c(6)]) (use assms(1) roles in \<open>simp_all add: boot_request_def\<close>)
  have "st_ch st1 = t" "mt st1 = c" "st_store st1 = st_store st" by (simp_all add: st1)
  with assms(3) live c so obtain c' t' so' where "st2 = set_mt c' st1\<lparr>st_store := so', st_ch := t'\<rparr>" "channels_live t'"
    "mt_ch_hash c' = channels_primary_hash t'" "1 \<le> mt_hop_limit c'" "mt_hop_limit c' \<le> 7" "store_inv so'" "same_core c c'"
    by (elim boot_settings_ok) simp_all
  with assms(1) st1 c n fresh_mqtt_ring [OF q(1)] show ?thesis
    by (simp add: running_def bridging_def same_core_def dup_inv_def boot_request_def)
qed

text \<open>The third part only adds to what runs.\<close>

lemma radio_init_core:
  "radio_init drv l = (r, l') \<Longrightarrow> same_core (l_mt l) (l_mt l') \<and> mt_ch_hash (l_mt l') = mt_ch_hash (l_mt l) \<and> mt_hop_limit (l_mt l') = mt_hop_limit (l_mt l)"
  by (auto simp: radio_init_def radio_arm_rx_def call_driver_def same_core_def Let_def split: option.splits)

lemma running_cong:
  assumes "running ev st" "st_ch st' = st_ch st" "same_core (mt st) (mt st')" "mt_ch_hash (mt st') = mt_ch_hash (mt st)"
    "mt_hop_limit (mt st') = mt_hop_limit (mt st)" "store_inv (st_store st')" "st_rel st' = st_rel st"
    "mqtt_ring_ok (ev_k ev) (st_mqtt st')" "\<forall>api\<in>set (st_phones st'). phone_ring_ok api"
  shows "running ev st'"
  using assms by (simp add: running_def bridging_def same_core_def dup_inv_def)

text \<open>What is in the database counts once it is compiled in.\<close>

definition knows_itself :: "env \<Rightarrow> node \<Rightarrow> bool" where
  "knows_itself ev st \<longleftrightarrow> (NODEDB (ev_k ev) \<longrightarrow> nodedb_inv (st_db st) \<and> (\<exists>n. nodedb_get (st_db st) (mt_node_id (mt st)) = Inr n))"

lemma boot_modules_ok:
  assumes "running ev st" "kconfig_ok (ev_k ev)" "boot_modules ev now st = (Inr u, st')"
  shows "running ev st' \<and> knows_itself ev st' \<and> mt_next_pkt_id (mt st') = mt_next_pkt_id (mt st) \<and> st_phones st' = st_phones st"
proof -
  obtain r l where l: "radio_init (ev_drv ev) (st_link st) = (r, l)" by force
  note c = radio_init_core [OF l]
  have r: "r = ok" using assms(3) l by (cases r) (simp_all add: boot_modules_def)
  let ?st = "if DEVICE_METRICS (ev_m ev) then metrics_init (ev_k ev) (if GNSS (ev_k ev) then st\<lparr>st_link := l, st_gnss := gnss_init ev (st_gnss st)\<rparr> else st\<lparr>st_link := l\<rparr>)
    else if GNSS (ev_k ev) then st\<lparr>st_link := l, st_gnss := gnss_init ev (st_gnss st)\<rparr> else st\<lparr>st_link := l\<rparr>"
  have same: "st_ch ?st = st_ch st" "mt ?st = l_mt l" "st_store ?st = st_store st" "st_rel ?st = st_rel st" "st_mqtt ?st = st_mqtt st"
    "st_phones ?st = st_phones st" by (simp_all add: metrics_init_def)
  have run: "running ev ?st" by (rule running_cong [OF assms(1)]) (use assms(1) c in \<open>simp_all add: same running_def\<close>)
  have id: "mt_node_id (l_mt l) \<noteq> 0" using assms(1) c by (simp add: same_core_def running_def)
  note db = nodedb_init_ok [OF assms(2) id, of "fill_user (ev_hw_model ev) (st_ch st) (l_mt l)" now]
  have st': "st' = (if NODEDB (ev_k ev) then ?st\<lparr>st_db := snd (nodedb_init (ev_k ev) (mt_node_id (l_mt l)) (fill_user (ev_hw_model ev) (st_ch st) (l_mt l)) now)\<rparr> else ?st)"
    using assms(3) l r same by (auto simp: boot_modules_def Let_def split_beta split: if_splits)
  have "running ev (?st\<lparr>st_db := d\<rparr>)" for d by (rule running_cong [OF run]) (use run in \<open>simp_all add: same_core_def running_def\<close>)
  with st' run db same c show ?thesis by (auto simp: knows_itself_def same_core_def)
qed

text \<open>A transport adds a queue of its own, or a connection to the broker.\<close>

lemma transports_ok:
  assumes "running ev (sk_node s)" "f s = (r, s')"
    and "f = boot_ble (ev_k ev) w \<and> bt_fromradio_queue_size (bw_bt w) \<in> {1..255} \<or>
      f = boot_serial ev w \<and> SERIAL_FROMRADIO_QUEUE_SIZE (bw_serial w) \<in> {1..255} \<or> f = boot_mqtt (ev_k ev) w"
  shows "running ev (sk_node s') \<and> st_db (sk_node s') = st_db (sk_node s) \<and> mt (sk_node s') = mt (sk_node s)"
proof -
  let ?st = "sk_node s" and ?st' = "sk_node s'"
  have p: "\<forall>api\<in>set (st_phones ?st). phone_ring_ok api" "mqtt_ring_ok (ev_k ev) (st_mqtt ?st)" using assms(1) by (simp_all add: running_def)
  have reboot: "phone_ring_ok (enqueue_rebooted pc api) = phone_ring_ok api" if "phone_ring_ok api" for pc api
    using that ring_push_spec [OF that] by (auto simp: enqueue_rebooted_def enqueue_fromradio_def split: sum.split)
  have so: "store_inv (st_store ?st)" using assms(1) by (simp add: running_def)
  have "(\<exists>so apis q. ?st' = ?st\<lparr>st_store := so, st_phones := apis, st_mqtt := q\<rparr> \<and> store_inv so \<and>
      (\<forall>api\<in>set apis. phone_ring_ok api) \<and> mqtt_ring_ok (ev_k ev) q)"
    using assms(3)
  proof (elim disjE conjE)
    assume f: "f = boot_ble (ev_k ev) w" and n: "bt_fromradio_queue_size (bw_bt w) \<in> {1..255}"
    show ?thesis
    proof (cases "BLE (ev_k ev)")
      case True
      let ?api = "phoneapi_init (bt_fromradio_queue_size (bw_bt w))"
      let ?so = "if SETTINGS (ev_k ev) then settings_load (bw_codec w) (bw_saved w) (st_store ?st) else st_store ?st"
      have "?st' = ?st\<lparr>st_store := st_store ?st, st_phones := st_phones ?st @ [?api], st_mqtt := st_mqtt ?st\<rparr> \<or>
          ?st' = ?st\<lparr>st_store := ?so, st_phones := st_phones ?st @ [?api], st_mqtt := st_mqtt ?st\<rparr>"
        using f True assms(2) by (auto simp: boot_ble_def ble_init_def Let_def split: if_splits)
      moreover have "store_inv ?so" using so settings_load_inv by simp
      moreover have "\<forall>api\<in>set (st_phones ?st @ [?api]). phone_ring_ok api" using p(1) fresh_phone_ring [OF n] by simp
      ultimately show ?thesis using p(2) so by blast
    next
      case False
      with f assms(2) p so show ?thesis
        by (intro exI [of _ "st_store ?st"] exI [of _ "st_phones ?st"] exI [of _ "st_mqtt ?st"]) (simp add: boot_ble_def)
    qed
  next
    assume f: "f = boot_serial ev w" and n: "SERIAL_FROMRADIO_QUEUE_SIZE (bw_serial w) \<in> {1..255}"
    let ?api = "phoneapi_init (SERIAL_FROMRADIO_QUEUE_SIZE (bw_serial w))"
    have "?st' = ?st \<or> ?st' = ?st\<lparr>st_phones := st_phones ?st @ [?api]\<rparr> \<or> ?st' = ?st\<lparr>st_phones := st_phones ?st @ [enqueue_rebooted (ev_pc ev) ?api]\<rparr>"
      using f assms(2) by (auto simp: boot_serial_def serial_init_def upd_phone_def Let_def split: if_splits sum.splits option.splits)
    then obtain apis where "?st' = ?st\<lparr>st_phones := apis, st_mqtt := st_mqtt ?st\<rparr>" "apis = st_phones ?st \<or> apis = st_phones ?st @ [?api] \<or>
      apis = st_phones ?st @ [enqueue_rebooted (ev_pc ev) ?api]"
    proof (elim disjE)
      assume "?st' = ?st"
      with that [of "st_phones ?st"] show thesis by simp
    qed auto
    with p so fresh_phone_ring [OF n] reboot show ?thesis
      by (intro exI [of _ "st_store ?st"] exI [of _ apis] exI [of _ "st_mqtt ?st"]) auto
  next
    assume f: "f = boot_mqtt (ev_k ev) w"
    let ?q = "snd (mqtt_init (ev_k ev) (mqtt_iface_has_global_ipv4 (bw_iface w)) (st_ch ?st) (mt ?st) (st_mqtt ?st))"
    have "mqtt_ring_ok (ev_k ev) ?q" using p(2) by (simp add: mqtt_init_def mqtt_ring_ok_def Let_def)
    moreover have "?st' = ?st\<lparr>st_phones := st_phones ?st, st_mqtt := if MQTT (ev_k ev) then ?q else st_mqtt ?st\<rparr>"
      using f assms(2) by (auto simp: boot_mqtt_def Let_def split_beta split: if_splits)
    ultimately show ?thesis using p so
      by (intro exI [of _ "st_store ?st"] exI [of _ "st_phones ?st"] exI [of _ "if MQTT (ev_k ev) then ?q else st_mqtt ?st"]) simp
  qed
  then obtain so apis q where st': "?st' = ?st\<lparr>st_store := so, st_phones := apis, st_mqtt := q\<rparr>" "store_inv so"
    "\<forall>api\<in>set apis. phone_ring_ok api" "mqtt_ring_ok (ev_k ev) q" by blast
  have "running ev ?st'" by (rule running_cong [OF assms(1)]) (use st' in \<open>simp_all add: same_core_def\<close>)
  with st' show ?thesis by simp
qed

lemma boot_then_ok: "boot_then f rs = (Inr u, s') \<Longrightarrow> \<exists>s v. rs = (Inr v, s) \<and> f s = (Inr u, s')"
  by (auto simp: boot_then_def split: prod.splits sum.splits)

text \<open>A start with everything in order: arguments the code accepts and surroundings in which no call fails.\<close>

definition all_answers :: "env \<Rightarrow> boot_world \<Rightarrow> bool" where
  "all_answers ev w \<longleftrightarrow> bw_device_ready w \<and> bw_psa_init w \<and> bw_settings_subsys w = None \<and> bw_settings_load w = None \<and>
     settings_apply_all (bw_hooks w) = ok \<and> (\<forall>n. lora_config (ev_drv ev) n = None) \<and>
     bt_enable (bw_bt w) = None \<and> bt_le_adv_start (bw_bt w) = None \<and>
     uart_device_ready (bw_uart w) \<and> uart_configure (bw_uart w) = None \<and> uart_callback_set (bw_uart w) = None \<and>
     NODE_ID_CUSTOM (ev_k ev) \<and> \<not> MQTT_MAP_REPORT (ev_k ev)"

definition good_arguments :: "mconfig \<Rightarrow> bool" where
  "good_arguments cfg \<longleftrightarrow> cfg_lora_dev cfg \<and> cfg_psk cfg \<noteq> None \<and> cfg_psk_len cfg \<in> {16, 32} \<and> cfg_channel_name cfg \<noteq> None \<and> cfg_frequency cfg \<noteq> 0"

lemma apply_slots_result: "apply_slots ps (t, c) = Some (r, t', c') \<Longrightarrow> \<forall>p\<in>set ps. fst p < 8 \<Longrightarrow> r = ok"
proof (induction ps arbitrary: t c)
  case (Cons p ps)
  obtain i ch where p: "p = (i, ch)" by force
  from Cons.prems(1) p obtain q t1 c1 where s: "channels_set_slot i ch (t, c) = Some (q, t1, c1)"
    and rest: "(case q of Inl e \<Rightarrow> Some (Inl e, t1, c1) | Inr _ \<Rightarrow> apply_slots ps (t1, c1)) = Some (r, t', c')"
    by (auto simp: bind_eq_Some_conv)
  have "q = ok" using s Cons.prems(2) p by (auto simp: channels_set_slot_def Let_def bind_eq_Some_conv split: if_splits)
  with rest Cons show ?case by simp
qed simp

lemma apply_core_result:
  assumes "config_store_apply_core to_hz so (t, c) = Some (r, t', c')"
  shows "r = ok"
proof -
  from assms obtain q t1 c1 where s: "apply_slots (zip [0..<MAX_CHANNELS] (so_channels so))
      (t, c\<lparr>mt_long_name := so_long_name so, mt_short_name := so_short_name so\<rparr>) = Some (q, t1, c1)"
    by (auto simp: config_store_apply_core_def Let_def bind_eq_Some_conv)
  have "q = ok" by (rule apply_slots_result [OF s]) (auto simp: set_zip)
  with s assms show ?thesis by (auto simp: config_store_apply_core_def Let_def)
qed

lemma boot_core_succeeds:
  assumes "good_arguments cfg" "all_answers ev w"
  shows "\<exists>st'. boot_core (ev_k ev) w cfg st = Some (ok, st')"
proof -
  have len: "cfg_psk_len cfg \<le> 32" using assms(1) by (auto simp: good_arguments_def)
  let ?d = "(mt st)\<lparr>mt_lora_ready := True, mt_node_id := if cfg_node_id cfg \<noteq> 0 then cfg_node_id cfg else NODE_ID_DEFAULT (ev_k ev)\<rparr>"
  obtain t where "channels_init_from_config cfg (st_ch st, ?d) = Some (t, refresh_mt t ?d)"
    by (rule init_from_config_spec [OF len]) blast
  with assms show ?thesis
    by (auto simp: boot_core_def boot_node_id_def good_arguments_def all_answers_def Let_def)
qed

lemma boot_settings_succeeds:
  assumes "all_answers ev w" "store_inv (config_store_seed (ev_k ev) cfg (st_ch st) (mt st) (st_store st))"
    "keyed (snd (boot_store (ev_k ev) w cfg st))" "channels_live (st_ch st)" "mt_ch_hash (mt st) = channels_primary_hash (st_ch st)"
  shows "\<exists>st'. boot_settings (ev_k ev) w cfg st = Some (ok, st')"
proof -
  obtain so where so: "boot_store (ev_k ev) w cfg st = (ok, so)"
    using assms(1) by (cases "SETTINGS (ev_k ev)") (auto simp: boot_store_def settings_init_def all_answers_def Let_def)
  have "store_inv so" "keyed so" using boot_store_inv [OF assms(2), of w] assms(3) so by simp_all
  from apply_core_returns [OF this assms(4,5)] obtain r t c where a: "config_store_apply_core (bw_to_hz w) so (st_ch st, mt st) = Some (r, t, c)" by blast
  moreover have "r = ok" by (rule apply_core_result [OF a])
  ultimately show ?thesis using so assms(1) by (simp add: boot_settings_def all_answers_def)
qed

lemma boot_rest_succeeds:
  assumes "all_answers ev w"
  shows "fst (boot_ble (ev_k ev) w s) = ok" "fst (boot_serial ev w s) = ok" "fst (boot_mqtt (ev_k ev) w s) = ok"
    and "mt_node_id (mt st) \<noteq> 0 \<Longrightarrow> kconfig_ok (ev_k ev) \<Longrightarrow> fst (boot_modules ev now st) = ok"
proof -
  show "fst (boot_ble (ev_k ev) w s) = ok" "fst (boot_serial ev w s) = ok" "fst (boot_mqtt (ev_k ev) w s) = ok"
    using assms by (simp_all add: all_answers_def boot_ble_def ble_init_def boot_serial_def serial_init_def configure_uart_def
        boot_mqtt_def mqtt_init_def Let_def)
  obtain r l where l: "radio_init (ev_drv ev) (st_link st) = (r, l)" by force
  have r: "r = ok" using l assms by (auto simp: all_answers_def radio_init_def call_driver_def Let_def)
  have "mt_node_id (l_mt l) = mt_node_id (mt st)" using radio_init_core [OF l] by (simp add: same_core_def)
  then show "mt_node_id (mt st) \<noteq> 0 \<Longrightarrow> kconfig_ok (ev_k ev) \<Longrightarrow> fst (boot_modules ev now st) = ok"
    using l r nodedb_init_ok [of "ev_k ev" "mt_node_id (l_mt l)"] by (auto simp: boot_modules_def metrics_init_def split_beta Let_def)
qed

lemma boot_then_fst: "fst rs = ok \<Longrightarrow> boot_then f rs = f (snd rs)"
  by (cases rs) (simp add: boot_then_def)

text \<open>What the second part of a start finds.\<close>

lemma boot_core_prepares:
  assumes "boot_request ev w cfg (sk_node s)" "boot_core (ev_k ev) w cfg (sk_node s) = Some (Inr u, st)"
  shows "store_inv (config_store_seed (ev_k ev) cfg (st_ch st) (mt st) (st_store st))" "channels_live (st_ch st)"
    "mt_ch_hash (mt st) = channels_primary_hash (st_ch st)"
proof -
  from assms(1) have k: "kconfig_ok (ev_k ev)" "NODE_ID_DEFAULT (ev_k ev) \<noteq> 0" "cfg_hop_limit cfg \<le> 7" by (simp_all add: boot_request_def)
  from assms(2) k obtain t d where st: "st = set_mt d (sk_node s)\<lparr>st_ch := t, st_rel := reliable_reset (ev_k ev)\<rparr>" and t: "channels_inv t"
    "ch_role (slot t 0) = Role_PRIMARY" "\<forall>i<MAX_CHANNELS. i \<noteq> 0 \<longrightarrow> ch_role (slot t i) = Role_DISABLED" "ct_primary_index t = 0"
    and d: "mt_ch_hash d = channels_primary_hash t" "mt_hop_limit d \<le> 7"
    and roles: "ct_device_role t = ct_device_role (st_ch (sk_node s))" "ct_rebroadcast_mode t = ct_rebroadcast_mode (st_ch (sk_node s))"
    by (rule boot_core_ok) blast
  have "store_inv (config_store_seed (ev_k ev) cfg t d (st_store (sk_node s)))"
    by (rule store_seed_inv [OF t(1-3) d(2)]) (use assms(1) roles in \<open>simp_all add: boot_request_def\<close>)
  then show "store_inv (config_store_seed (ev_k ev) cfg (st_ch st) (mt st) (st_store st))" by (simp add: st)
  show "channels_live (st_ch st)" "mt_ch_hash (mt st) = channels_primary_hash (st_ch st)" using t d by (simp_all add: st channels_live_def keyless_def)
qed

lemma boot_succeeds:
  assumes "boot_request ev w cfg (sk_node s)" "good_arguments cfg" "all_answers ev w"
    and "\<forall>st u. boot_core (ev_k ev) w cfg (sk_node s) = Some (Inr u, st) \<longrightarrow> keyed (snd (boot_store (ev_k ev) w cfg st))"
  shows "\<exists>s'. meshtastic_init ev w now (Some cfg) s = Some (ok, s')"
proof -
  obtain st where st: "boot_core (ev_k ev) w cfg (sk_node s) = Some (ok, st)" using boot_core_succeeds [OF assms(2,3)] by blast
  note p = boot_core_prepares [OF assms(1) st]
  have "keyed (snd (boot_store (ev_k ev) w cfg st))" using assms(4) st by blast
  from boot_settings_succeeds [OF assms(3) p(1) this p(2,3)] obtain st2 where st2: "boot_settings (ev_k ev) w cfg st = Some (ok, st2)" by blast
  have r: "running ev st2" using boot_running [OF assms(1) st st2] by simp
  then have "fst (boot_modules ev now st2) = ok"
    using boot_rest_succeeds(4) [OF assms(3)] assms(1) by (simp add: running_def boot_request_def)
  then have m: "fst (boot_then (boot_modules_stack ev now) (ok, s\<lparr>sk_node := st2\<rparr>)) = ok"
    by (auto simp: boot_then_def boot_modules_stack_def split_beta)
  have "fst (boot_then (boot_mqtt (ev_k ev) w) (boot_then (boot_serial ev w) (boot_then (boot_ble (ev_k ev) w)
                (boot_then (boot_modules_stack ev now) (ok, s\<lparr>sk_node := st2\<rparr>))))) = ok" (is "fst ?r = ok")
    using m boot_rest_succeeds(1-3) [OF assms(3)] by (simp add: boot_then_fst)
  then have "\<exists>s'. boot_fail ?r = (ok, s')" by (cases ?r) (simp add: boot_fail_def)
  with st st2 show ?thesis by (auto simp: meshtastic_init_def)
qed

lemma boot_fail_mark: "boot_fail rs = (Inl e, s) \<Longrightarrow> \<not> mt_initialized (mt (sk_node s))"
  by (auto simp: boot_fail_def split: prod.splits sum.splits)

text \<open>When a start returns.\<close>

lemma boot_keyed_returns:
  assumes q: "boot_request ev w c (sk_node s)"
    and keyed: "\<And>st. boot_core (ev_k ev) w c (sk_node s) = Some (ok, st) \<Longrightarrow> keyed (snd (boot_store (ev_k ev) w c st))"
  shows "\<exists>r s'. meshtastic_init ev w now (Some c) s = Some (r, s')"
proof -
  have "\<exists>r st. boot_core (ev_k ev) w c (sk_node s) = Some (r, st)"
  proof (cases "cfg_psk_len c \<le> 32")
    case True
    obtain v d where n: "boot_node_id (ev_k ev) w c ((mt (sk_node s))\<lparr>mt_lora_ready := True\<rparr>) = (v, d)" by force
    obtain t where "channels_init_from_config c (st_ch (sk_node s), d) = Some (t, refresh_mt t d)"
      by (rule init_from_config_spec [OF True]) blast
    with n show ?thesis by (cases v) (simp_all add: boot_core_def Let_def)
  qed (auto simp: boot_core_def)
  then obtain r st where c: "boot_core (ev_k ev) w c (sk_node s) = Some (r, st)" by blast
  show ?thesis
  proof (cases r)
    case (Inl e)
    with c show ?thesis by (simp add: meshtastic_init_def)
  next
    case (Inr u)
    have "\<exists>r' st'. boot_settings (ev_k ev) w c st = Some (r', st')"
    proof -
      note prep = boot_core_prepares [OF q c [unfolded Inr]]
      have inv: "store_inv (snd (boot_store (ev_k ev) w c st))" by (rule boot_store_inv [OF prep(1)])
      moreover have "keyed (snd (boot_store (ev_k ev) w c st))" using keyed c Inr by simp
      ultimately obtain a t' c' where "config_store_apply_core (bw_to_hz w) (snd (boot_store (ev_k ev) w c st)) (st_ch st, mt st) = Some (a, t', c')"
        using apply_core_returns prep(2,3) by blast
      then show ?thesis
        by (cases "boot_store (ev_k ev) w c st"; cases "fst (boot_store (ev_k ev) w c st)"; cases a) (auto simp: boot_settings_def)
    qed
    then obtain r' st' where "boot_settings (ev_k ev) w c st = Some (r', st')" by blast
    with c Inr show ?thesis by (simp add: meshtastic_init_def)
  qed
qed

lemma boot_keyless_hangs:
  assumes "boot_request ev w c (sk_node s)" "boot_core (ev_k ev) w c (sk_node s) = Some (ok, st)"
    and "boot_store (ev_k ev) w c st = (ok, so)" "keyless (so_channels so ! 0)"
  shows "meshtastic_init ev w now (Some c) s = None"
proof -
  from assms(1) have k: "kconfig_ok (ev_k ev)" "NODE_ID_DEFAULT (ev_k ev) \<noteq> 0" "cfg_hop_limit c \<le> 7" by (simp_all add: boot_request_def)
  from assms(2) k have p: "channels_inv (st_ch st) \<and> ct_primary_index (st_ch st) = 0" by (rule boot_core_ok) simp
  have so: "store_inv so" using boot_store_inv [OF boot_core_prepares(1) [OF assms(1,2)], of w] assms(3) by simp
  then have len: "length (so_channels so) = 8" "length (cs_psk (ch_settings (so_channels so ! 0))) \<le> 32"
    by (simp_all add: store_inv_def channel_is_valid_def)
  then obtain chs where chs: "so_channels so = so_channels so ! 0 # chs" by (cases "so_channels so") auto
  have "channels_set_slot 0 (so_channels so ! 0) (st_ch st, d) = None" for d
    using set_slot_None [of "st_ch st" 0 "so_channels so ! 0" d] p len(2) assms(4) by simp
  moreover have "zip [0..<8] (so_channels so) = (0, so_channels so ! 0) # zip [1..<8] chs"
    by (subst chs) (simp add: upt_conv_Cons)
  ultimately have "config_store_apply_core (bw_to_hz w) so (st_ch st, mt st) = None"
    by (simp add: config_store_apply_core_def Let_def)
  with assms(2,3) show ?thesis by (simp add: meshtastic_init_def boot_settings_def)
qed

section \<open>Properties\<close>

text \<open>
  C7: a start that reports success leaves a node that meets what its handlers rely on, whatever
  was saved before: the stack is marked as initialised, channels, mirrored hash and hop limit are
  consistent and the key lookup ends, the duplicate cache, the retry table, the rings of the
  phones and of the gateway are empty and in order, the saved configuration is valid, the node has
  a number and is in its own database, and the first packet will be number one.
\<close>

theorem boot_success_runs:
  assumes "boot_request ev w cfg (sk_node s)" "meshtastic_init ev w now (Some cfg) s = Some (Inr u, s')"
  shows "running ev (sk_node s') \<and> knows_itself ev (sk_node s') \<and> mt_next_pkt_id (mt (sk_node s')) = 1"
proof -
  from assms(2) obtain r1 st1 where c: "boot_core (ev_k ev) w cfg (sk_node s) = Some (r1, st1)"
    by (auto simp: meshtastic_init_def bind_eq_Some_conv)
  have r1: "r1 = ok" using assms(2) c by (cases r1) (simp_all add: meshtastic_init_def)
  with assms(2) c obtain r2 st2 where b: "boot_settings (ev_k ev) w cfg st1 = Some (r2, st2)"
    and f: "boot_fail (boot_then (boot_mqtt (ev_k ev) w) (boot_then (boot_serial ev w) (boot_then (boot_ble (ev_k ev) w)
                (boot_then (boot_modules_stack ev now) (r2, s\<lparr>sk_node := st2\<rparr>))))) = (Inr u, s')"
    by (auto simp: meshtastic_init_def bind_eq_Some_conv)
  then have "boot_then (boot_mqtt (ev_k ev) w) (boot_then (boot_serial ev w) (boot_then (boot_ble (ev_k ev) w)
      (boot_then (boot_modules_stack ev now) (r2, s\<lparr>sk_node := st2\<rparr>)))) = (ok, s')"
    by (auto simp: boot_fail_def split: prod.splits sum.splits)
  then obtain s3 s4 s5 where m: "r2 = ok" "boot_modules_stack ev now (s\<lparr>sk_node := st2\<rparr>) = (ok, s3)" "boot_ble (ev_k ev) w s3 = (ok, s4)"
    "boot_serial ev w s4 = (ok, s5)" "boot_mqtt (ev_k ev) w s5 = (ok, s')"
    by (auto dest!: boot_then_ok)
  have k: "kconfig_ok (ev_k ev)" "bt_fromradio_queue_size (bw_bt w) \<in> {1..255}" "SERIAL_FROMRADIO_QUEUE_SIZE (bw_serial w) \<in> {1..255}"
    using assms(1) by (simp_all add: boot_request_def)
  have r: "running ev st2" "mt_next_pkt_id (mt st2) = 1" using boot_running [OF assms(1)] c r1 b m(1) by auto
  from m(2) have "boot_modules ev now st2 = (ok, sk_node s3)" by (auto simp: boot_modules_stack_def split: prod.splits)
  from boot_modules_ok [OF r(1) k(1) this] r(2)
  have s3: "running ev (sk_node s3)" "knows_itself ev (sk_node s3)" "mt_next_pkt_id (mt (sk_node s3)) = 1" by simp_all
  from transports_ok [where f = "boot_ble (ev_k ev) w" and w = w, OF s3(1) m(3)] k(2) have s4: "running ev (sk_node s4)" "st_db (sk_node s4) = st_db (sk_node s3)" "mt (sk_node s4) = mt (sk_node s3)" by auto
  from transports_ok [where f = "boot_serial ev w" and w = w, OF s4(1) m(4)] k(3) have s5: "running ev (sk_node s5)" "st_db (sk_node s5) = st_db (sk_node s4)" "mt (sk_node s5) = mt (sk_node s4)" by auto
  from transports_ok [where f = "boot_mqtt (ev_k ev) w" and w = w, OF s5(1) m(5)] have "running ev (sk_node s')" "st_db (sk_node s') = st_db (sk_node s5)" "mt (sk_node s') = mt (sk_node s5)" by auto
  with s3 s4 s5 show ?thesis by (simp add: knows_itself_def)
qed

text \<open>
  C8: a start returns, successful or not, as long as no saved channel is a secondary one without
  a key; it never returns when the first saved channel is one, because the key lookup then goes
  round in circles, at this start and at every later one.
\<close>

theorem boot_returns:
  assumes "boot_request ev w cfg (sk_node s)"
  shows "((\<forall>st. boot_core (ev_k ev) w cfg (sk_node s) = Some (ok, st) \<longrightarrow> keyed (snd (boot_store (ev_k ev) w cfg st))) \<longrightarrow>
      (\<exists>r s'. meshtastic_init ev w now (Some cfg) s = Some (r, s'))) \<and>
    (\<forall>st so. boot_core (ev_k ev) w cfg (sk_node s) = Some (ok, st) \<longrightarrow> boot_store (ev_k ev) w cfg st = (ok, so) \<longrightarrow>
      keyless (so_channels so ! 0) \<longrightarrow> meshtastic_init ev w now (Some cfg) s = None)"
  using boot_keyed_returns [OF assms] boot_keyless_hangs [OF assms] by blast

text \<open>
  C9: a start that fails on a stack that had not been initialised before leaves it uninitialised. From
  then on every packet, every piece of data, every text and every unencrypted protobuf packet
  that is given to be sent is refused as invalid, and the attempt changes nothing. (The sender of encrypted
  protobuf packets, \<^verbatim>\<open>meshtastic_send_mesh_pb\<close>, does not check this.)
\<close>

theorem boot_failure_refuses:
  assumes "meshtastic_init ev w now cfg s = Some (Inl e, s')" "\<not> mt_initialized (mt (sk_node s))"
  shows "\<not> mt_initialized (mt (sk_node s')) \<and>
    (\<forall>now' p wait. send_packet ev now' p wait (sk_node s') = Some (Inl EINVAL, sk_node s')) \<and>
    (\<forall>now' dest port payload len wait. send_data ev now' dest port payload len wait (sk_node s') = Some (Inl EINVAL, sk_node s')) \<and>
    (\<forall>now' dest txt. send_text ev now' dest txt (sk_node s') = Some (Inl EINVAL, sk_node s')) \<and>
    (\<forall>now' mesh d. m_variant mesh = Decoded d \<longrightarrow> send_mesh_pb ev now' mesh (sk_node s') = Some (Inl EINVAL, sk_node s'))"
proof -
  have "\<not> mt_initialized (mt (sk_node s'))"
  proof (cases cfg)
    case None
    with assms show ?thesis by (simp add: meshtastic_init_def)
  next
    case (Some c)
    with assms(1) obtain r st where b: "boot_core (ev_k ev) w c (sk_node s) = Some (r, st)"
      by (auto simp: meshtastic_init_def bind_eq_Some_conv)
    show ?thesis
    proof (cases r)
      case (Inl e')
      have node: "mt_initialized (snd (boot_node_id k w' cfg' d)) = mt_initialized d" for k w' cfg' d
        by (simp add: boot_node_id_def split: sum.split)
      have init: "channels_init_from_config c (t, d) = Some (t', d') \<Longrightarrow> mt_initialized d' = mt_initialized d" for t d t' d'
        by (auto simp: channels_init_from_config_def refresh_mt_def bind_eq_Some_conv Let_def)
      have "\<not> mt_initialized (mt st)"
        using b Inl assms(2) node [of "ev_k ev" w c "(mt (sk_node s))\<lparr>mt_lora_ready := True\<rparr>"] init
        by (auto simp: boot_core_def boot_context_def bind_eq_Some_conv Let_def split: if_splits prod.splits sum.splits)
      with Some b Inl assms(1) show ?thesis by (auto simp: meshtastic_init_def)
    next
      case (Inr u)
      with Some b assms(1) show ?thesis by (auto simp: meshtastic_init_def bind_eq_Some_conv dest: boot_fail_mark)
    qed
  qed
  then show ?thesis by (simp add: send_packet_refused send_data_def send_text_def send_mesh_pb_def)
qed

section \<open>Saved and started again\<close>

lemma prefixed_inj: "map (\<lambda>(name, val). (p @ name, val)) xs = map (\<lambda>(name, val). (p @ name, val)) ys \<Longrightarrow> xs = ys"
  by (rule map_injective) (auto simp: inj_on_def inj_def)

text \<open>
  C17: the configuration survives a restart. When a flush of a valid store reported success and the
  backend hands the next start what was saved, by name without the subtree, then initialising the
  settings succeeds and replaces owner names, channels, configurations and modules of the store
  by exactly those saved, whatever valid store the start began with. The flush also takes back a
  save that was still scheduled.
\<close>

theorem settings_survive_reboot:
  assumes "codec_ok (bw_codec w)" "store_inv so" "store_inv so0" "saves_subtree save"
    "settings_flush save (bw_codec w) n so = (ok, files, so1)"
    "files = map (\<lambda>(name, val). (settings_subtree @ ''/'' @ name, val)) (bw_saved w)"
    "bw_settings_subsys w = None" "bw_settings_load w = None"
  shows "settings_init w so0 = (ok, so0\<lparr>so_long_name := so_long_name so, so_short_name := so_short_name so,
      so_channels := so_channels so, so_configs := so_configs so, so_modules := so_modules so\<rparr>) \<and>
    so1 = so\<lparr>so_save_scheduled := False\<rparr>"
proof -
  let ?so = "so\<lparr>so_save_scheduled := False\<rparr>"
  from assms(4) obtain f where f: "save cb = cb f" for cb unfolding saves_subtree_def by blast
  obtain r kvs where e: "config_store_export (bw_codec w) ?so (settings_export_prefixed n f) = (r, kvs)" by force
  with assms(5) f have r: "r = ok" "files = map (\<lambda>(name, val). (settings_subtree @ ''/'' @ name, val)) kvs" "so1 = ?so"
    by (auto simp: settings_flush_def settings_export_cb_def Let_def)
  then have "kvs = bw_saved w" using assms(6) prefixed_inj [of "settings_subtree @ ''/''" kvs "bw_saved w"] by simp
  with e r(1) have "config_store_export (bw_codec w) ?so (settings_export_prefixed n f) = (ok, bw_saved w)" by simp
  from config_survives_reboot [OF assms(1) _ assms(3) this] assms(2,7,8) r(3) show ?thesis by (simp add: settings_init_def)
qed

end
