(* ===== verification/Shell.thy ===== *)
theory Shell
  imports Network
begin

text \<open>
  The shell commands of \<^verbatim>\<open>src/meshtastic_shell.c\<close>. Commands that send are checked and queued in the
  shell's thread; a worker thread takes them off the queue and calls the senders of the stack.
  Commands that read or change the configuration run at once.

  A command receives its words as Zephyr's shell passes them, the name of the command first. What
  it prints is a list of lines, with the arguments of the formats filled in. Two things come from
  the platform and are fields of the surroundings: the largest \<^verbatim>\<open>unsigned long\<close>, and the text the C
  library has for an error number. So is the conversion of a scaled float to an integer, the
  arithmetic of the target's floating point unit.
\<close>

section \<open>State\<close>

datatype shell_work_op =
    SHELL_WORK_SEND_TEXT
  | SHELL_WORK_SEND_POSITION
  | SHELL_WORK_SEND_METRICS
  | SHELL_WORK_SEND_ENVIRONMENT
  | SHELL_WORK_SEND_NODEINFO

text \<open>
  A queued command. The payload array and its length are one string; the port number field is
  never set or read.
\<close>

record shell_work_item =
  wi_op :: shell_work_op
  wi_dest :: u32
  wi_channel_index :: u8
  wi_want_ack :: bool
  wi_payload :: string

definition work_item_zero :: "shell_work_op \<Rightarrow> shell_work_item" where
  "work_item_zero op = \<lparr>wi_op = op, wi_dest = 0, wi_channel_index = 0, wi_want_ack = False, wi_payload = []\<rparr>"

datatype shell_line = Shell_print string | Shell_warn string | Shell_error string

record shell_env =
  SHELL_QUEUE_SIZE :: nat
  sh_ulong_max :: nat
  sh_strerror :: "errno \<Rightarrow> string"
  sh_scaled :: "nat \<Rightarrow> f32 \<Rightarrow> int"

text \<open>The ranges of Kconfig and of the C standard.\<close>

definition shell_env_ok :: "shell_env \<Rightarrow> bool" where
  "shell_env_ok se \<longleftrightarrow> 1 \<le> SHELL_QUEUE_SIZE se \<and> SHELL_QUEUE_SIZE se \<le> 16 \<and> 2 ^ 32 \<le> Suc (sh_ulong_max se)"

record shell =
  sh_msgq :: "shell_work_item list"
  sh_out :: "shell_line list"
  sh_node :: node

definition meshtastic_shell_init :: "node \<Rightarrow> shell" where
  "meshtastic_shell_init st = \<lparr>sh_msgq = [], sh_out = [], sh_node = st\<rparr>"

definition say :: "shell_line list \<Rightarrow> shell \<Rightarrow> shell" where
  "say ls sh = sh\<lparr>sh_out := sh_out sh @ ls\<rparr>"

text \<open>A command that stops with an error after printing it.\<close>

definition fail :: "errno \<Rightarrow> string \<Rightarrow> shell \<Rightarrow> unit res \<times> shell" where
  "fail e msg sh = (Inl e, say [Shell_error msg] sh)"

section \<open>The formats of the printed lines\<close>

text \<open>\<^verbatim>\<open>%u\<close>, \<^verbatim>\<open>%d\<close> and \<^verbatim>\<open>%0nx\<close>.\<close>

fun fmt_u :: "nat \<Rightarrow> string" where
  "fmt_u n = (if n < 10 then [char_of (48 + n)] else fmt_u (n div 10) @ [char_of (48 + n mod 10)])"

declare fmt_u.simps [simp del]

definition fmt_d :: "int \<Rightarrow> string" where
  "fmt_d i = (if i < 0 then CHR ''-'' # fmt_u (nat (- i)) else fmt_u (nat i))"

definition fmt_x :: "nat \<Rightarrow> nat \<Rightarrow> string" where
  "fmt_x w n = map (\<lambda>i. hex_digit (n div 16 ^ (w - 1 - i) mod 16)) [0..<w]"

definition fmt_03u :: "nat \<Rightarrow> string" where
  "fmt_03u n = (if n < 10 then ''00'' else if n < 100 then ''0'' else []) @ fmt_u n"

definition fmt_yes_no :: "bool \<Rightarrow> string" where
  "fmt_yes_no b = (if b then ''yes'' else ''no'')"

definition fmt_on_off :: "bool \<Rightarrow> string" where
  "fmt_on_off b = (if b then ''on'' else ''off'')"

definition quoted :: "string \<Rightarrow> string" where
  "quoted s = CHR 0x22 # s @ [CHR 0x22]"

section \<open>Numbers in base 0\<close>

text \<open>
  \<^verbatim>\<open>strtoul(s, &end, 0)\<close>: white space, a sign, then a hexadecimal number after \<^verbatim>\<open>0x\<close>, an octal one
  after \<^verbatim>\<open>0\<close>, or a decimal one. A value that does not fit saturates; a sign negates modulo the
  range. The result is the value and the unparsed rest.
\<close>

definition digit_of :: "char \<Rightarrow> nat" where
  "digit_of c = (let n = of_char c :: nat in
     if 48 \<le> n \<and> n \<le> 57 then n - 48
     else if 97 \<le> n \<and> n \<le> 122 then n - 87
     else if 65 \<le> n \<and> n \<le> 90 then n - 55
     else 36)"

definition base_value :: "nat \<Rightarrow> string \<Rightarrow> nat" where
  "base_value b ds = foldl (\<lambda>v c. v * b + digit_of c) 0 ds"

definition split_base :: "string \<Rightarrow> nat \<times> string" where
  "split_base s =
     (case s of
        c # x # h # r \<Rightarrow>
          if c = CHR ''0'' \<and> (x = CHR ''x'' \<or> x = CHR ''X'') \<and> digit_of h < 16 then (16, h # r)
          else if c = CHR ''0'' then (8, s) else (10, s)
      | c # r \<Rightarrow> if c = CHR ''0'' then (8, s) else (10, s)
      | [] \<Rightarrow> (10, s))"

definition strtoul0 :: "nat \<Rightarrow> string \<Rightarrow> nat \<times> string" where
  "strtoul0 ulong_max s =
     (let s1 = dropWhile isspace s;
          (neg, s2) = (case s1 of
              [] \<Rightarrow> (False, s1)
            | c # r \<Rightarrow> if c = CHR ''-'' then (True, r) else if c = CHR ''+'' then (False, r) else (False, s1));
          (b, s3) = split_base s2;
          ds = takeWhile (\<lambda>c. digit_of c < b) s3
      in if ds = [] then (0, s)
         else let v = base_value b ds;
                  u = (if ulong_max < v then ulong_max
                       else if neg then (Suc ulong_max - v) mod Suc ulong_max else v)
              in (u, dropWhile (\<lambda>c. digit_of c < b) s3))"

section \<open>The worker\<close>

definition shell_err_msg :: "shell_env \<Rightarrow> errno \<Rightarrow> string" where
  "shell_err_msg se e =
     (if e = ENODATA then ''no GNSS fix available yet''
      else if e = ENODEV then ''no sensor readings available''
      else if e = ENOTSUP then ''not enabled in Kconfig''
      else sh_strerror se e)"

definition shell_report_result :: "env \<Rightarrow> shell_env \<Rightarrow> unit res \<Rightarrow> shell_line" where
  "shell_report_result ev se ret =
     (case ret of
        Inl e \<Rightarrow> Shell_error (''failed: '' @ shell_err_msg se e @ '' ('' @ fmt_d (ev_errno ev e) @ '')'')
      | Inr _ \<Rightarrow> Shell_print ''done'')"

definition shell_work_run :: "env \<Rightarrow> int \<Rightarrow> shell_work_item \<Rightarrow> node \<Rightarrow> (unit res \<times> node) option" where
  "shell_work_run ev now item st =
     (case wi_op item of
        SHELL_WORK_SEND_TEXT \<Rightarrow>
          if wi_channel_index item \<noteq> CHANNEL_INDEX_INVALID \<or> wi_want_ack item
          then send_packet ev now (packet_zero\<lparr>p_to := wi_dest item, p_portnum := PORT_TEXT_MESSAGE,
                 p_payload := Some (cstr_bytes (wi_payload item)), p_payload_len := length (wi_payload item),
                 p_channel_index := wi_channel_index item, p_want_ack := wi_want_ack item\<rparr>) K_FOREVER st
          else send_text ev now (wi_dest item) (wi_payload item) st
      | SHELL_WORK_SEND_POSITION \<Rightarrow> send_position ev now (wi_dest item) st
      | SHELL_WORK_SEND_METRICS \<Rightarrow> send_device_metrics ev now (wi_dest item) K_FOREVER st
      | SHELL_WORK_SEND_ENVIRONMENT \<Rightarrow> send_environment ev now (wi_dest item) K_FOREVER st
      | SHELL_WORK_SEND_NODEINFO \<Rightarrow> send_node_info ev now (wi_dest item) st)"

text \<open>One turn of the worker thread; with an empty queue it sleeps.\<close>

definition shell_work_turn :: "env \<Rightarrow> shell_env \<Rightarrow> int \<Rightarrow> shell \<Rightarrow> shell option" where
  "shell_work_turn ev se now sh =
     (case sh_msgq sh of
        [] \<Rightarrow> Some sh
      | item # q \<Rightarrow> do {
          (ret, st) \<leftarrow> shell_work_run ev now item (sh_node sh);
          Some (say [shell_report_result ev se ret] (sh\<lparr>sh_msgq := q, sh_node := st\<rparr>))
        })"

definition enqueue_shell_work :: "shell_env \<Rightarrow> shell_work_item \<Rightarrow> shell \<Rightarrow> unit res \<times> shell" where
  "enqueue_shell_work se item sh =
     (if SHELL_QUEUE_SIZE se \<le> length (sh_msgq sh) then fail ENOMSG ''Meshtastic shell queue is full'' sh
      else (ok, say [Shell_print ''queued''] (sh\<lparr>sh_msgq := sh_msgq sh @ [item]\<rparr>)))"

section \<open>Arguments\<close>

text \<open>A parser that fails prints its message and returns \<^verbatim>\<open>-EINVAL\<close>; \<open>Inl\<close> carries the message.\<close>

definition parse_u32 :: "shell_env \<Rightarrow> string \<Rightarrow> string + u32" where
  "parse_u32 se arg =
     (if arg = ''broadcast'' then Inr NODE_BROADCAST
      else let (parsed, rest) = strtoul0 (sh_ulong_max se) arg
           in if rest \<noteq> [] \<or> 2 ^ 32 - 1 < parsed then Inl (''invalid integer: '' @ arg)
              else Inr (word_of_nat parsed))"

definition parse_optional_dest :: "shell_env \<Rightarrow> string list \<Rightarrow> string + u32" where
  "parse_optional_dest se argv =
     (if length argv = 1 then Inr NODE_BROADCAST
      else if length argv = 2 then parse_u32 se (argv ! 1)
      else Inl ''too many arguments'')"

definition cmd_deferred_send :: "shell_env \<Rightarrow> shell_work_op \<Rightarrow> string list \<Rightarrow> shell \<Rightarrow> unit res \<times> shell" where
  "cmd_deferred_send se op argv sh =
     (case parse_optional_dest se argv of
        Inl msg \<Rightarrow> fail EINVAL msg sh
      | Inr dest \<Rightarrow> enqueue_shell_work se ((work_item_zero op)\<lparr>wi_dest := dest\<rparr>) sh)"

text \<open>The words from \<open>first_arg\<close> on, joined in a buffer of \<open>buf_max\<close> bytes; \<open>first\<close> says that no word precedes.\<close>

fun append_words :: "nat \<Rightarrow> bool \<Rightarrow> string \<Rightarrow> string list \<Rightarrow> string res" where
  "append_words buf_max first buf [] = Inr buf"
| "append_words buf_max first buf (w # ws) =
     (if \<not> first \<and> buf_max \<le> length buf then Inl ENOMEM
      else let buf = (if first then buf else buf @ '' '')
        in if buf_max < length buf + length w then Inl ENOMEM
           else append_words buf_max False (buf @ w) ws)"

definition append_message_from_argv :: "nat \<Rightarrow> string list \<Rightarrow> nat \<Rightarrow> string res" where
  "append_message_from_argv buf_max argv first_arg = append_words buf_max True [] (drop first_arg argv)"

definition shell_parse_channel_index :: "shell_env \<Rightarrow> string \<Rightarrow> string + nat" where
  "shell_parse_channel_index se arg =
     (let (parsed, rest) = strtoul0 (sh_ulong_max se) arg
      in if rest \<noteq> [] \<or> MAX_CHANNELS \<le> parsed then Inl (''invalid channel index: '' @ arg) else Inr parsed)"

section \<open>Names of roles and modes\<close>

definition shell_channel_role_name :: "nat \<Rightarrow> string" where
  "shell_channel_role_name role =
     (if role = Role_PRIMARY then ''primary''
      else if role = Role_SECONDARY then ''secondary''
      else ''disabled'')"

definition shell_parse_channel_role :: "string \<Rightarrow> string + nat" where
  "shell_parse_channel_role arg =
     (if arg = ''primary'' then Inr Role_PRIMARY
      else if arg = ''secondary'' then Inr Role_SECONDARY
      else if arg = ''disabled'' then Inr Role_DISABLED
      else Inl (''invalid channel role: '' @ arg))"

definition shell_device_role_name :: "nat \<Rightarrow> string" where
  "shell_device_role_name role =
     (if role = DeviceRole_CLIENT then ''client''
      else if role = DeviceRole_CLIENT_MUTE then ''client_mute''
      else if role = 2 then ''router''
      else if role = 11 then ''router_late''
      else if role = DeviceRole_CLIENT_BASE then ''client_base''
      else if role = 6 then ''sensor''
      else if role = 5 then ''tracker''
      else if role = 7 then ''tak''
      else if role = 8 then ''client_hidden''
      else if role = 9 then ''lost_and_found''
      else if role = 10 then ''tak_tracker''
      else ''unknown'')"

definition shell_parse_device_role :: "string \<Rightarrow> string + nat" where
  "shell_parse_device_role arg =
     (if arg = ''client'' then Inr DeviceRole_CLIENT
      else if arg = ''client_mute'' then Inr DeviceRole_CLIENT_MUTE
      else if arg = ''router'' then Inr 2
      else if arg = ''router_late'' then Inr 11
      else if arg = ''client_base'' then Inr DeviceRole_CLIENT_BASE
      else if arg = ''sensor'' then Inr 6
      else if arg = ''tracker'' then Inr 5
      else if arg = ''tak'' then Inr 7
      else if arg = ''client_hidden'' then Inr 8
      else if arg = ''lost_and_found'' then Inr 9
      else if arg = ''tak_tracker'' then Inr 10
      else Inl (''invalid device role: '' @ arg))"

definition shell_rebroadcast_mode_name :: "nat \<Rightarrow> string" where
  "shell_rebroadcast_mode_name mode =
     (if mode = Rebroadcast_ALL then ''all''
      else if mode = 1 then ''all_skip_decoding''
      else if mode = Rebroadcast_LOCAL_ONLY then ''local_only''
      else if mode = Rebroadcast_KNOWN_ONLY then ''known_only''
      else if mode = Rebroadcast_NONE then ''none''
      else if mode = Rebroadcast_CORE_PORTNUMS_ONLY then ''core_portnums_only''
      else ''unknown'')"

definition shell_parse_rebroadcast_mode :: "string \<Rightarrow> string + nat" where
  "shell_parse_rebroadcast_mode arg =
     (if arg = ''all'' then Inr Rebroadcast_ALL
      else if arg = ''all_skip_decoding'' then Inr 1
      else if arg = ''local_only'' then Inr Rebroadcast_LOCAL_ONLY
      else if arg = ''known_only'' then Inr Rebroadcast_KNOWN_ONLY
      else if arg = ''none'' then Inr Rebroadcast_NONE
      else if arg = ''core_portnums_only'' then Inr Rebroadcast_CORE_PORTNUMS_ONLY
      else Inl (''invalid rebroadcast mode: '' @ arg))"

section \<open>Channel keys\<close>

definition shell_parse_hex_nibble :: "char \<Rightarrow> int" where
  "shell_parse_hex_nibble c = (let n = int (of_char c) in
     if 48 \<le> n \<and> n \<le> 57 then n - 48
     else if 97 \<le> n \<and> n \<le> 102 then n - 97 + 10
     else if 65 \<le> n \<and> n \<le> 70 then n - 65 + 10
     else - 1)"

text \<open>The loop over the pairs of characters; an odd last character is not reached.\<close>

fun parse_hex_pairs :: "string \<Rightarrow> string + bytes" where
  "parse_hex_pairs (a # b # r) =
     (let hi = shell_parse_hex_nibble a; lo = shell_parse_hex_nibble b
      in if hi < 0 \<or> lo < 0 then Inl ''invalid hex in psk''
         else (case parse_hex_pairs r of
             Inl m \<Rightarrow> Inl m
           | Inr bs \<Rightarrow> Inr (word_of_int (push_bit 4 hi OR lo) # bs)))"
| "parse_hex_pairs _ = Inr []"

definition shell_parse_hex_psk :: "string \<Rightarrow> string + bytes" where
  "shell_parse_hex_psk hex =
     (if length hex \<noteq> 32 \<and> length hex \<noteq> 64 then Inl ''psk hex must be 32 or 64 characters''
      else parse_hex_pairs hex)"

definition psk_summary :: "channel \<Rightarrow> string" where
  "psk_summary ch =
     (let psk = cs_psk (ch_settings ch) in
      if \<not> ch_has_settings ch then ''psk: (none)''
      else if ch_role ch = Role_DISABLED then ''psk: n/a''
      else if psk = [] then (if ch_role ch = Role_SECONDARY then ''psk: inherit primary'' else ''psk: cleartext'')
      else if length psk = 1 then ''psk: shorthand '' @ fmt_u (unat (psk ! 0))
      else ''psk: '' @ fmt_u (length psk) @ ''-byte key'')"

definition shell_print_psk_summary :: "channel \<Rightarrow> shell_line list" where
  "shell_print_psk_summary ch = [Shell_print (psk_summary ch)]"

definition psk_hex :: "bytes \<Rightarrow> string" where
  "psk_hex psk = concat (map (\<lambda>b. fmt_x 2 (unat b)) psk)"

definition shell_print_psk_hex :: "channel \<Rightarrow> shell_line list" where
  "shell_print_psk_hex ch =
     (let psk = cs_psk (ch_settings ch) in
      if \<not> ch_has_settings ch \<or> ch_role ch = Role_DISABLED then []
      else if length psk \<noteq> 16 \<and> length psk \<noteq> 32 then shell_print_psk_summary ch
      else [Shell_print (''psk hex: '' @ psk_hex psk)])"

text \<open>The key words of \<^verbatim>\<open>psk\<close>; the array keeps its stale bytes, which its size hides.\<close>

definition shell_apply_channel_psk :: "shell_env \<Rightarrow> string \<Rightarrow> string option \<Rightarrow> channel \<Rightarrow> string + channel" where
  "shell_apply_channel_psk se kind arg ch =
     (let put = (\<lambda>psk. Inr (ch\<lparr>ch_settings := (ch_settings ch)\<lparr>cs_psk := psk\<rparr>\<rparr>)) in
      if kind = ''none'' then put []
      else if kind = ''default'' then put [1]
      else if kind = ''hex'' then
        (case arg of
           None \<Rightarrow> Inl ''usage: psk hex <32|64 hex chars>''
         | Some hex \<Rightarrow> (case shell_parse_hex_psk hex of Inl m \<Rightarrow> Inl m | Inr psk \<Rightarrow> put psk))
      else let (shorthand, rest) = strtoul0 (sh_ulong_max se) kind
        in if rest \<noteq> [] \<or> 10 < shorthand then Inl (''invalid psk: '' @ kind) else put [word_of_nat shorthand])"

section \<open>Channel commands\<close>

definition shell_print_channel_line :: "channels \<Rightarrow> nat \<Rightarrow> shell_line list" where
  "shell_print_channel_line t index =
     (case channels_get t index of
        None \<Rightarrow> []
      | Some ch \<Rightarrow> Shell_print (''['' @ fmt_u index @ ''] role='' @ shell_channel_role_name (ch_role ch) @ '' name='' @
            quoted (channels_get_name t index) @ '' hash=0x'' @ fmt_x 2 (unat (channels_get_hash t index)) @
            '' uplink='' @ fmt_on_off (ch_has_settings ch \<and> cs_uplink_enabled (ch_settings ch)) @
            '' downlink='' @ fmt_on_off (ch_has_settings ch \<and> cs_downlink_enabled (ch_settings ch)))
          # shell_print_psk_summary ch)"

definition cmd_channel_list :: "string list \<Rightarrow> shell \<Rightarrow> unit res \<times> shell" where
  "cmd_channel_list argv sh =
     (ok, say (concat (map (shell_print_channel_line (st_ch (sh_node sh))) [0..<MAX_CHANNELS])) sh)"

definition cmd_channel_show :: "shell_env \<Rightarrow> string list \<Rightarrow> shell \<Rightarrow> unit res \<times> shell" where
  "cmd_channel_show se argv sh =
     (let t = st_ch (sh_node sh) in
      if length argv \<noteq> 2 then fail EINVAL ''usage: meshtastic channel show <index>'' sh
      else case shell_parse_channel_index se (argv ! 1) of
          Inl m \<Rightarrow> fail EINVAL m sh
        | Inr index \<Rightarrow> (case channels_get t index of
              None \<Rightarrow> (Inl EINVAL, sh)
            | Some ch \<Rightarrow> (ok, say (
                [Shell_print (''index: '' @ fmt_u index),
                 Shell_print (''role: '' @ shell_channel_role_name (ch_role ch)),
                 Shell_print (''name: '' @ quoted (channels_get_name t index)),
                 Shell_print (''hash: 0x'' @ fmt_x 2 (unat (channels_get_hash t index)))] @
                (if ch_has_settings ch
                 then [Shell_print (''uplink: '' @ fmt_on_off (cs_uplink_enabled (ch_settings ch))),
                       Shell_print (''downlink: '' @ fmt_on_off (cs_downlink_enabled (ch_settings ch)))]
                 else []) @
                shell_print_psk_summary ch @ shell_print_psk_hex ch) sh)))"

text \<open>
  One option of \<^verbatim>\<open>channel set\<close> with the words it takes, and the loop over them: a later option wins.
  The flag says whether any was given.
\<close>

definition channel_option :: "shell_env \<Rightarrow> channel \<Rightarrow> string \<Rightarrow> string list \<Rightarrow> string + channel \<times> string list" where
  "channel_option se ch opt args =
     (let upd = (\<lambda>f rest. Inr (ch\<lparr>ch_settings := f (ch_settings ch)\<rparr>, rest));
          put = (\<lambda>r rest. case r of Inl m \<Rightarrow> Inl m | Inr ch \<Rightarrow> Inr (ch, rest)) in
      if opt = ''name'' then
        (case args of [] \<Rightarrow> Inl ''name requires a value'' | v # rest \<Rightarrow> upd (\<lambda>s. s\<lparr>cs_name := strn 12 v\<rparr>) rest)
      else if opt = ''role'' then
        (case args of [] \<Rightarrow> Inl ''role requires a value''
         | v # rest \<Rightarrow> (case shell_parse_channel_role v of Inl m \<Rightarrow> Inl m | Inr role \<Rightarrow> Inr (ch\<lparr>ch_role := role\<rparr>, rest)))
      else if opt = ''psk'' then
        (case args of [] \<Rightarrow> Inl ''psk requires a value''
         | v # rest \<Rightarrow>
             if v = ''hex'' then
               (case rest of [] \<Rightarrow> Inl ''psk hex requires hex digits''
                | h # rest \<Rightarrow> put (shell_apply_channel_psk se ''hex'' (Some h) ch) rest)
             else put (shell_apply_channel_psk se v None ch) rest)
      else if opt = ''uplink'' then
        (case args of [] \<Rightarrow> Inl ''uplink requires on|off'' | v # rest \<Rightarrow> upd (\<lambda>s. s\<lparr>cs_uplink_enabled := (v = ''on'')\<rparr>) rest)
      else if opt = ''downlink'' then
        (case args of [] \<Rightarrow> Inl ''downlink requires on|off'' | v # rest \<Rightarrow> upd (\<lambda>s. s\<lparr>cs_downlink_enabled := (v = ''on'')\<rparr>) rest)
      else Inl (''unknown option: '' @ opt))"

lemma channel_option_cases:
  assumes "channel_option se ch opt args = Inr (ch', rest)"
  obtains (Settings) f where "ch' = ch\<lparr>ch_settings := f (ch_settings ch)\<rparr>" "\<And>s. cs_psk (f s) = cs_psk s" "length rest < length args"
  | (Role) role where "ch' = ch\<lparr>ch_role := role\<rparr>" "role \<le> Role_SECONDARY" "length rest < length args"
  | (Psk) kind arg where "shell_apply_channel_psk se kind arg ch = Inr ch'" "length rest < length args"
  using assms
  by (auto simp: channel_option_def shell_parse_channel_role_def Let_def split: if_splits list.splits sum.splits)

function channel_options :: "shell_env \<Rightarrow> bool \<Rightarrow> channel \<Rightarrow> string list \<Rightarrow> string + bool \<times> channel" where
  "channel_options se changed ch [] = Inr (changed, ch)"
| "channel_options se changed ch (opt # args) =
     (case channel_option se ch opt args of
        Inl m \<Rightarrow> Inl m
      | Inr (ch, rest) \<Rightarrow> channel_options se True ch rest)"
  by pat_completeness auto

termination channel_options
  by (relation "measure (\<lambda>(se, changed, ch, args). length args)") (auto elim!: channel_option_cases)

definition store_set_channel :: "env \<Rightarrow> nat \<Rightarrow> channel \<Rightarrow> shell \<Rightarrow> (unit res \<times> shell) option" where
  "store_set_channel ev index ch sh =
     (let st = sh_node sh in do {
        (ret, so, t, c) \<leftarrow> config_store_set_channel (ev_k ev) index ch (st_store st, st_ch st, mt st);
        Some (ret, sh\<lparr>sh_node := set_mt c (st\<lparr>st_store := so, st_ch := t\<rparr>)\<rparr>)
      })"

text \<open>The end of both commands that write a slot; \<open>msg\<close> is the line printed on success.\<close>

definition set_and_report :: "env \<Rightarrow> string \<Rightarrow> (shell \<Rightarrow> string) \<Rightarrow> nat \<Rightarrow> channel \<Rightarrow> shell \<Rightarrow> (unit res \<times> shell) option" where
  "set_and_report ev what msg index ch sh = do {
     (ret, sh) \<leftarrow> store_set_channel ev index ch sh;
     Some (case ret of
        Inl e \<Rightarrow> fail e (''channel '' @ what @ '' failed: '' @ fmt_d (- ev_errno ev e)) sh
      | Inr _ \<Rightarrow> (ok, say [Shell_print (''channel '' @ fmt_u index @ msg sh)] sh))
   }"

definition channel_set_usage :: string where
  "channel_set_usage = ''usage: meshtastic channel set <index> '' @ ''[name <str>] [role primary|secondary|disabled] '' @
     ''[psk none|default|<0-10>|hex <hex>] '' @ ''[uplink on|off] [downlink on|off]''"

definition cmd_channel_set :: "env \<Rightarrow> shell_env \<Rightarrow> string list \<Rightarrow> shell \<Rightarrow> (unit res \<times> shell) option" where
  "cmd_channel_set ev se argv sh =
     (if length argv < 3 then Some (fail EINVAL channel_set_usage sh)
      else case shell_parse_channel_index se (argv ! 1) of
          Inl m \<Rightarrow> Some (fail EINVAL m sh)
        | Inr index \<Rightarrow> (case channels_get (st_ch (sh_node sh)) index of
              None \<Rightarrow> Some (Inl EINVAL, sh)
            | Some cur \<Rightarrow> (case channel_options se False (cur\<lparr>ch_index := index, ch_has_settings := True\<rparr>) (drop 2 argv) of
                  Inl m \<Rightarrow> Some (fail EINVAL m sh)
                | Inr (changed, ch) \<Rightarrow>
                    if \<not> changed then Some (fail EINVAL ''no channel options specified'' sh)
                    else set_and_report ev ''set'' (\<lambda>sh. '' updated (hash=0x'' @
                           fmt_x 2 (unat (channels_get_hash (st_ch (sh_node sh)) index)) @ '')'') index ch sh)))"

definition cmd_channel_disable :: "env \<Rightarrow> shell_env \<Rightarrow> string list \<Rightarrow> shell \<Rightarrow> (unit res \<times> shell) option" where
  "cmd_channel_disable ev se argv sh =
     (if length argv \<noteq> 2 then Some (fail EINVAL ''usage: meshtastic channel disable <index>'' sh)
      else case shell_parse_channel_index se (argv ! 1) of
          Inl m \<Rightarrow> Some (fail EINVAL m sh)
        | Inr index \<Rightarrow> (case channels_get (st_ch (sh_node sh)) index of
              None \<Rightarrow> Some (Inl EINVAL, sh)
            | Some cur \<Rightarrow> set_and_report ev ''disable'' (\<lambda>sh. '' disabled'') index
                (cur\<lparr>ch_role := Role_DISABLED, ch_has_settings := True\<rparr>) sh))"

section \<open>Device commands\<close>

definition cmd_device_role :: "env \<Rightarrow> string list \<Rightarrow> shell \<Rightarrow> unit res \<times> shell" where
  "cmd_device_role ev argv sh =
     (let st = sh_node sh in
      if length argv = 1
      then (ok, say [Shell_print (''role: '' @ shell_device_role_name (ct_device_role (st_ch st)))] sh)
      else if length argv \<noteq> 2 then fail EINVAL ''usage: meshtastic device role [name]'' sh
      else case shell_parse_device_role (argv ! 1) of
          Inl m \<Rightarrow> fail EINVAL m sh
        | Inr role \<Rightarrow>
            (let (ret, so, t) = config_store_set_device_role (ev_k ev) role (st_store st, st_ch st);
                 sh = sh\<lparr>sh_node := st\<lparr>st_store := so, st_ch := t\<rparr>\<rparr>
             in case ret of
                  Inl e \<Rightarrow> fail e (''role set failed: '' @ fmt_d (- ev_errno ev e)) sh
                | Inr _ \<Rightarrow> (ok, say [Shell_print (''role set to '' @ shell_device_role_name role)] sh)))"

definition cmd_device_rebroadcast :: "env \<Rightarrow> string list \<Rightarrow> shell \<Rightarrow> unit res \<times> shell" where
  "cmd_device_rebroadcast ev argv sh =
     (let st = sh_node sh in
      if length argv = 1
      then (ok, say [Shell_print (''rebroadcast: '' @ shell_rebroadcast_mode_name (ct_rebroadcast_mode (st_ch st)))] sh)
      else if length argv \<noteq> 2 then fail EINVAL ''usage: meshtastic device rebroadcast [mode]'' sh
      else case shell_parse_rebroadcast_mode (argv ! 1) of
          Inl m \<Rightarrow> fail EINVAL m sh
        | Inr mode \<Rightarrow>
            (let (ret, so, t) = config_store_set_rebroadcast_mode (ev_k ev) mode (st_store st, st_ch st);
                 sh = sh\<lparr>sh_node := st\<lparr>st_store := so, st_ch := t\<rparr>\<rparr>
             in case ret of
                  Inl e \<Rightarrow> fail e (''rebroadcast set failed: '' @ fmt_d (- ev_errno ev e)) sh
                | Inr _ \<Rightarrow> (ok, say [Shell_print (''rebroadcast set to '' @ shell_rebroadcast_mode_name mode)] sh)))"

section \<open>Status and the node database\<close>

text \<open>
  \<^verbatim>\<open>scaled_tenths\<close> and \<^verbatim>\<open>scaled_thousandths\<close> of a sensor value are the target's; the signal to noise
  ratio of an entry is a whole number, and ten times it is exact.
\<close>

definition scaled_whole :: "int \<Rightarrow> int \<Rightarrow> int" where
  "scaled_whole scaled divisor = scaled sdiv divisor"

definition scaled_fraction :: "int \<Rightarrow> int \<Rightarrow> nat" where
  "scaled_fraction scaled divisor =
     (let fraction = scaled smod divisor in nat (if fraction < 0 then - fraction else fraction))"

definition fmt_tenths :: "int \<Rightarrow> string" where
  "fmt_tenths scaled = fmt_d (scaled_whole scaled 10) @ ''.'' @ fmt_u (scaled_fraction scaled 10)"

definition fmt_millis :: "int \<Rightarrow> string" where
  "fmt_millis scaled = fmt_d (scaled_whole scaled 1000) @ ''.'' @ fmt_03u (scaled_fraction scaled 1000)"

definition shell_print_optional_voltage :: "shell_env \<Rightarrow> string \<Rightarrow> f32 opt_field \<Rightarrow> shell_line list" where
  "shell_print_optional_voltage se label v =
     (if \<not> fst v then [] else [Shell_print (label @ '': '' @ fmt_millis (sh_scaled se 1000 (snd v)))])"

definition shell_print_optional_tenths :: "shell_env \<Rightarrow> string \<Rightarrow> f32 opt_field \<Rightarrow> shell_line list" where
  "shell_print_optional_tenths se label v =
     (if \<not> fst v then [] else [Shell_print (label @ '': '' @ fmt_tenths (sh_scaled se 10 (snd v)))])"

definition shell_print_node_summary :: "nodedb_node \<Rightarrow> shell_line list" where
  "shell_print_node_summary n =
     [Shell_print (''0x'' @ fmt_x 8 (unat (nn_num n)) @ '' last='' @ fmt_u (unat (nn_last_heard_uptime_sec n)) @
        ''s snr='' @ fmt_tenths (nn_snr n * 10) @ '' hops='' @
        (if nn_has_hops_away n then fmt_u (unat (nn_hops_away n)) else ''?'') @
        '' via='' @ fmt_yes_no (nn_via_mqtt n) @
        '' long='' @ quoted (if nn_has_user n then nn_long_name n else []) @
        '' short='' @ quoted (if nn_has_user n then nn_short_name n else []))]"

definition cmd_nodedb_list :: "env \<Rightarrow> string list \<Rightarrow> shell \<Rightarrow> unit res \<times> shell" where
  "cmd_nodedb_list ev argv sh =
     (let db = st_db (sh_node sh); count = nodedb_count db in
      (ok, say (Shell_print (''nodes: '' @ fmt_u count) #
         concat (map (\<lambda>i. case nodedb_get_by_index db i of
             Inl e \<Rightarrow> [Shell_warn (''index '' @ fmt_u i @ '' unavailable ('' @ fmt_d (- ev_errno ev e) @ '')'')]
           | Inr n \<Rightarrow> shell_print_node_summary n) [0..<count])) sh))"

definition node_user_lines :: "nodedb_node \<Rightarrow> shell_line list" where
  "node_user_lines n =
     (if \<not> nn_has_user n then []
      else [Shell_print (''long name: '' @ nn_long_name n), Shell_print (''short name: '' @ nn_short_name n),
            Shell_print (''hw model: '' @ fmt_u (unat (nn_hw_model n))), Shell_print (''role: '' @ fmt_u (unat (nn_role n))),
            Shell_print (''licensed: '' @ fmt_yes_no (nn_is_licensed n))] @
           (if nn_has_is_unmessagable n then [Shell_print (''unmessagable: '' @ fmt_yes_no (nn_is_unmessagable n))] else []) @
           [Shell_print (''public key bytes: '' @ fmt_u (length (nn_public_key n)))])"

definition node_position_lines :: "nodedb_node \<Rightarrow> shell_line list" where
  "node_position_lines n =
     (let p = nn_position n in
      if \<not> nn_has_position n then []
      else [Shell_print (''position: lat_i='' @ fmt_d (pl_latitude_i p) @ '' lon_i='' @ fmt_d (pl_longitude_i p) @
              '' alt='' @ fmt_d (pl_altitude p) @ '' time='' @ fmt_u (unat (pl_time p)) @
              '' precision='' @ fmt_u (unat (pl_precision_bits p)))])"

definition node_metrics_lines :: "shell_env \<Rightarrow> nodedb_node \<Rightarrow> shell_line list" where
  "node_metrics_lines se n =
     (let m = nn_device_metrics n in
      if \<not> nn_has_device_metrics n then []
      else (if fst (dm_battery_level m) then [Shell_print (''battery: '' @ fmt_u (unat (snd (dm_battery_level m))) @ ''%'')] else []) @
           shell_print_optional_voltage se ''voltage'' (dm_voltage m) @
           (if fst (dm_uptime_seconds m) then [Shell_print (''uptime: '' @ fmt_u (unat (snd (dm_uptime_seconds m))) @ ''s'')] else []))"

definition node_environment_lines :: "shell_env \<Rightarrow> nodedb_node \<Rightarrow> shell_line list" where
  "node_environment_lines se n =
     (let m = nn_environment_metrics n in
      if \<not> nn_has_environment_metrics n then []
      else shell_print_optional_tenths se ''temperature'' (em_temperature m) @
           shell_print_optional_tenths se ''humidity'' (em_relative_humidity m) @
           shell_print_optional_tenths se ''pressure'' (em_barometric_pressure m))"

definition cmd_nodedb_show :: "env \<Rightarrow> shell_env \<Rightarrow> string list \<Rightarrow> shell \<Rightarrow> unit res \<times> shell" where
  "cmd_nodedb_show ev se argv sh =
     (if length argv \<noteq> 2 then fail EINVAL ''usage: meshtastic nodedb show <node|0xnode>'' sh
      else case parse_u32 se (argv ! 1) of
          Inl m \<Rightarrow> fail EINVAL m sh
        | Inr node_num \<Rightarrow> (case nodedb_get (st_db (sh_node sh)) node_num of
              Inl e \<Rightarrow> fail e (''node 0x'' @ fmt_x 8 (unat node_num) @ '' not found'') sh
            | Inr n \<Rightarrow> (ok, say (
                [Shell_print (''node: 0x'' @ fmt_x 8 (unat (nn_num n))),
                 Shell_print (''last heard: '' @ fmt_u (unat (nn_last_heard_uptime_sec n)) @ ''s''),
                 Shell_print (''snr: '' @ fmt_tenths (nn_snr n * 10)),
                 Shell_print (''channel: '' @ fmt_u (unat (nn_channel n))),
                 Shell_print (''next hop: 0x'' @ fmt_x 2 (unat (nn_next_hop n))),
                 Shell_print (''via mqtt: '' @ fmt_yes_no (nn_via_mqtt n))] @
                (if nn_has_hops_away n then [Shell_print (''hops away: '' @ fmt_u (unat (nn_hops_away n)))] else []) @
                node_user_lines n @ node_position_lines n @ node_metrics_lines se n @ node_environment_lines se n @
                (if nn_has_status n then [Shell_print (''status: '' @ nn_status n)] else [])) sh)))"

definition cmd_status :: "env \<Rightarrow> string list \<Rightarrow> shell \<Rightarrow> unit res \<times> shell" where
  "cmd_status ev argv sh =
     (let st = sh_node sh; s = get_status st; t = st_ch st in
      (ok, say (
        [Shell_print (''node: 0x'' @ fmt_x 8 (unat (s_node_id s))),
         Shell_print (''initialized: '' @ fmt_yes_no (s_initialized s)),
         Shell_print (''ble connected: '' @ fmt_yes_no (s_ble_connected s)),
         Shell_print (''tx: '' @ fmt_u (unat (s_tx_packets s)) @ '' ok, '' @ fmt_u (unat (s_tx_failures s)) @ '' failed''),
         Shell_print (''rx: '' @ fmt_u (unat (s_rx_packets s)) @ '' decoded, '' @ fmt_u (unat (s_duplicate_packets s)) @
           '' duplicates, '' @ fmt_u (unat (s_decode_failures s)) @ '' decode failures''),
         Shell_print (''rx dropped: '' @ fmt_u (unat (s_rx_dropped s)) @ '', rx re-arm failures: '' @
           fmt_u (unat (s_rx_rearm_failures s))),
         Shell_print (''relayed: '' @ fmt_u (unat (s_relayed_packets s)))] @
        (if RELIABLE (ev_k ev) then [Shell_print (''awaiting ack: '' @ fmt_u (reliable_pending (st_rel st)))] else []) @
        [Shell_print (''last rx: from=0x'' @ fmt_x 8 (unat (s_last_rx_from s)) @ '' rssi='' @ fmt_d (s_last_rssi s) @
           '' snr='' @ fmt_d (s_last_snr s)),
         Shell_print (''primary channel: '' @ fmt_u (ct_primary_index t) @ '' '' @ quoted (channels_primary_name t) @
           '' hash=0x'' @ fmt_x 2 (unat (channels_primary_hash t))),
         Shell_print (''device role: '' @ shell_device_role_name (ct_device_role t)),
         Shell_print (''rebroadcast mode: '' @ shell_rebroadcast_mode_name (ct_rebroadcast_mode t)),
         Shell_print (''rebroadcasting: '' @ fmt_yes_no (is_rebroadcaster t))]) sh))"

section \<open>Text messages\<close>

definition text_usage :: string where
  "text_usage = ''usage: meshtastic text send [-a] [-c <index>] [dest|broadcast] <message>''"

text \<open>The loop over the options, on the words not yet read.\<close>

fun text_options :: "shell_env \<Rightarrow> shell_work_item \<Rightarrow> string list \<Rightarrow> string + shell_work_item \<times> string list" where
  "text_options se item [] = Inr (item, [])"
| "text_options se item (w # ws) =
     (if w = ''-c'' then
        (case ws of
           v # m # r \<Rightarrow> (case shell_parse_channel_index se v of
               Inl msg \<Rightarrow> Inl msg
             | Inr index \<Rightarrow> text_options se (item\<lparr>wi_channel_index := word_of_nat index\<rparr>) (m # r))
         | _ \<Rightarrow> Inl text_usage)
      else if w = ''-a'' then
        (if ws = [] then Inl text_usage else text_options se (item\<lparr>wi_want_ack := True\<rparr>) ws)
      else Inr (item, w # ws))"

declare text_options.simps(2) [simp del]

text \<open>Destination and message: one word is a message to all, the first of several is the destination.\<close>

definition text_dest_message :: "shell_env \<Rightarrow> string list \<Rightarrow> string + u32 \<times> string res" where
  "text_dest_message se ws =
     (if length ws = 1 then Inr (NODE_BROADCAST, append_message_from_argv MAX_TEXT_LEN ws 0)
      else if 2 \<le> length ws then
        (case parse_u32 se (ws ! 0) of
           Inl msg \<Rightarrow> Inl msg
         | Inr dest \<Rightarrow> Inr (dest, append_message_from_argv MAX_TEXT_LEN ws 1))
      else Inl ''message required'')"

text \<open>What happens once the words are read: the request for an acknowledgement, the checks of the message, the queue.\<close>

definition text_enqueue :: "shell_env \<Rightarrow> shell_work_item \<Rightarrow> u32 \<Rightarrow> string res \<Rightarrow> shell \<Rightarrow> unit res \<times> shell" where
  "text_enqueue se item dest message sh =
     (let sh = (if wi_want_ack item \<and> dest = NODE_BROADCAST
                then say [Shell_warn ''-a ignored: broadcasts are not acknowledged''] sh else sh);
          item = item\<lparr>wi_dest := dest, wi_want_ack := wi_want_ack item \<and> dest \<noteq> NODE_BROADCAST\<rparr>
      in case message of
           Inl e \<Rightarrow> fail e (''message too long (max '' @ fmt_u MAX_TEXT_LEN @ '')'') sh
         | Inr txt \<Rightarrow>
             if txt = [] then fail EINVAL ''message must not be empty'' sh
             else enqueue_shell_work se (item\<lparr>wi_payload := txt\<rparr>) sh)"

definition cmd_text_send :: "shell_env \<Rightarrow> string list \<Rightarrow> shell \<Rightarrow> unit res \<times> shell" where
  "cmd_text_send se argv sh =
     (if length argv < 2 then fail EINVAL text_usage sh
      else case text_options se ((work_item_zero SHELL_WORK_SEND_TEXT)\<lparr>wi_channel_index := CHANNEL_INDEX_INVALID\<rparr>) (drop 1 argv) of
          Inl msg \<Rightarrow> fail EINVAL msg sh
        | Inr (item, ws) \<Rightarrow> (case text_dest_message se ws of
              Inl msg \<Rightarrow> fail EINVAL msg sh
            | Inr (dest, message) \<Rightarrow> text_enqueue se item dest message sh))"

definition cmd_gnss_send :: "shell_env \<Rightarrow> string list \<Rightarrow> shell \<Rightarrow> unit res \<times> shell" where
  "cmd_gnss_send se = cmd_deferred_send se SHELL_WORK_SEND_POSITION"

definition cmd_metrics_send :: "shell_env \<Rightarrow> string list \<Rightarrow> shell \<Rightarrow> unit res \<times> shell" where
  "cmd_metrics_send se = cmd_deferred_send se SHELL_WORK_SEND_METRICS"

definition cmd_environment_send :: "shell_env \<Rightarrow> string list \<Rightarrow> shell \<Rightarrow> unit res \<times> shell" where
  "cmd_environment_send se = cmd_deferred_send se SHELL_WORK_SEND_ENVIRONMENT"

definition cmd_nodeinfo_send :: "shell_env \<Rightarrow> string list \<Rightarrow> shell \<Rightarrow> unit res \<times> shell" where
  "cmd_nodeinfo_send se = cmd_deferred_send se SHELL_WORK_SEND_NODEINFO"

section \<open>The command table\<close>

type_synonym shell_handler = "string list \<Rightarrow> shell \<Rightarrow> (unit res \<times> shell) option"

text \<open>
  The subcommands of a group with their handlers, and the handler of a command line
  \<^verbatim>\<open>meshtastic <group> <command> <args>\<close>. The groups of features that are not built in are absent;
  a line without a handler is refused by Zephyr's shell.
\<close>

definition subcommands :: "env \<Rightarrow> shell_env \<Rightarrow> string \<Rightarrow> (string \<times> shell_handler) list" where
  "subcommands ev se g =
     (let run = (\<lambda>h argv sh. Some (h argv sh)) in
      if g = ''channel'' then
        [(''list'', run cmd_channel_list), (''show'', run (cmd_channel_show se)),
         (''set'', cmd_channel_set ev se), (''disable'', cmd_channel_disable ev se)]
      else if g = ''device'' then [(''role'', run (cmd_device_role ev)), (''rebroadcast'', run (cmd_device_rebroadcast ev))]
      else if g = ''text'' \<and> MESSAGE (ev_m ev) then [(''send'', run (cmd_text_send se))]
      else if g = ''nodedb'' \<and> NODEDB (ev_k ev) then [(''list'', run (cmd_nodedb_list ev)), (''show'', run (cmd_nodedb_show ev se))]
      else if g = ''gnss'' \<and> GNSS (ev_k ev) then [(''send'', run (cmd_gnss_send se))]
      else if g = ''metrics'' \<and> DEVICE_METRICS (ev_m ev) then [(''send'', run (cmd_metrics_send se))]
      else if g = ''environment'' \<and> ENVIRONMENT_METRICS (ev_m ev) then [(''send'', run (cmd_environment_send se))]
      else if g = ''nodeinfo'' \<and> NODEINFO (ev_m ev) then [(''send'', run (cmd_nodeinfo_send se))]
      else [])"

definition meshtastic_cmds :: "env \<Rightarrow> shell_env \<Rightarrow> string list \<Rightarrow> (shell \<Rightarrow> (unit res \<times> shell) option) option" where
  "meshtastic_cmds ev se line =
     (case line of
        [] \<Rightarrow> None
      | g # argv \<Rightarrow>
          if g = ''status'' then Some (\<lambda>sh. Some (cmd_status ev line sh))
          else (case argv of
             [] \<Rightarrow> None
           | c # _ \<Rightarrow> map_option (\<lambda>h. h argv) (map_of (subcommands ev se g) c)))"

section \<open>Joining the words of a message\<close>

text \<open>The specification of the buffer loop: the words with a blank between each two of them.\<close>

fun join_words :: "string list \<Rightarrow> string" where
  "join_words [] = []"
| "join_words [w] = w"
| "join_words (w # v # ws) = w @ '' '' @ join_words (v # ws)"

lemma append_words_rest:
  assumes "length buf \<le> m"
  shows "append_words m False buf ws =
    (let t = buf @ concat (map (\<lambda>w. '' '' @ w) ws) in if length t \<le> m then Inr t else Inl ENOMEM)"
  using assms by (induction ws arbitrary: buf) (auto simp: Let_def)

lemma join_words_Cons: "join_words (w # ws) = w @ concat (map (\<lambda>v. '' '' @ v) ws)"
  by (induction ws arbitrary: w) auto

lemma append_message_joins:
  "append_message_from_argv m argv i =
     (let t = join_words (drop i argv) in if length t \<le> m then Inr t else Inl ENOMEM)"
  by (cases "drop i argv")
     (auto simp: append_message_from_argv_def append_words_rest join_words_Cons Let_def)

section \<open>Numbers\<close>

lemma digit_of_hex_digit: "n < 16 \<Longrightarrow> digit_of (hex_digit n) = n"
  by (auto simp: digit_of_def hex_digit_def Let_def)

lemma digit_of_decimal: "n < 10 \<Longrightarrow> digit_of (char_of (48 + n)) = n"
  by (simp add: digit_of_def Let_def)

lemma base_value_snoc: "base_value b (ds @ [c]) = base_value b ds * b + digit_of c"
  by (simp add: base_value_def)

lemma fmt_u_value: "base_value 10 (fmt_u n) = n"
proof (induction n rule: fmt_u.induct)
  case (1 n)
  show ?case
  proof (cases "n < 10")
    case True
    then show ?thesis by (subst fmt_u.simps) (simp add: base_value_def digit_of_decimal)
  next
    case False
    then show ?thesis using 1 by (subst fmt_u.simps) (simp add: base_value_snoc digit_of_decimal)
  qed
qed

lemma decimal_digit: "k < 10 \<Longrightarrow> char_of (48 + k :: nat) \<in> set ''0123456789''"
proof -
  assume "k < 10"
  then have "k \<in> {0,1,2,3,4,5,6,7,8,9}" by auto
  then show ?thesis by (elim insertE) (simp_all add: char_of_def bit_0)
qed

lemma fmt_u_decimal: "set (fmt_u n) \<subseteq> set ''0123456789''"
proof (induction n rule: fmt_u.induct)
  case (1 n)
  show ?case
  proof (cases "n < 10")
    case True
    then have "fmt_u n = [char_of (48 + n)]" by (subst fmt_u.simps) simp
    with decimal_digit [OF True] show ?thesis by (metis empty_set empty_subsetI insert_subset list.simps(15))
  next
    case False
    then have "fmt_u n = fmt_u (n div 10) @ [char_of (48 + n mod 10)]" by (subst fmt_u.simps) simp
    moreover have "set (fmt_u (n div 10)) \<subseteq> set ''0123456789''" using 1 False by blast
    moreover have "char_of (48 + n mod 10) \<in> set ''0123456789''" by (rule decimal_digit) simp
    ultimately show ?thesis by (metis empty_set empty_subsetI insert_subset list.simps(15) set_append Un_least)
  qed
qed

lemma decimal_class:
  "c \<in> set ''0123456789'' \<Longrightarrow> digit_of c < 10 \<and> \<not> isspace c \<and> c \<noteq> CHR ''-'' \<and> c \<noteq> CHR ''+''"
  by (auto simp: digit_of_def isspace_def)

lemma fmt_u_digits: "c \<in> set (fmt_u n) \<Longrightarrow> digit_of c < 10 \<and> \<not> isspace c \<and> c \<noteq> CHR ''-'' \<and> c \<noteq> CHR ''+''"
  using decimal_class fmt_u_decimal by blast

lemma fmt_u_nonempty [simp]: "fmt_u n \<noteq> []"
  by (subst fmt_u.simps) simp

lemma fmt_u_leading: "0 < n \<Longrightarrow> hd (fmt_u n) \<noteq> CHR ''0''"
proof (induction n rule: fmt_u.induct)
  case (1 n)
  show ?case
  proof (cases "n < 10")
    case True
    with 1(2) have "n \<in> {1,2,3,4,5,6,7,8,9}" by auto
    then show ?thesis by (auto simp: fmt_u.simps [of n] char_of_def bit_0)
  next
    case False
    then show ?thesis using 1 by (subst fmt_u.simps) (simp add: hd_append)
  qed
qed

lemma split_base_decimal:
  assumes "0 < n"
  shows "split_base (fmt_u n) = (10, fmt_u n)"
proof -
  obtain c r where f: "fmt_u n = c # r" by (cases "fmt_u n") auto
  with fmt_u_leading [OF assms] show ?thesis by (auto simp: split_base_def split: list.splits)
qed

text \<open>What the number parser makes of a decimal number: itself, or the largest value there is.\<close>

lemma strtoul0_decimal: "strtoul0 m (fmt_u n) = (min n m, [])"
proof (cases "n = 0")
  case True
  have "fmt_u 0 = ''0''" by code_simp
  with True show ?thesis
    by (simp add: strtoul0_def isspace_def split_base_def digit_of_def base_value_def)
next
  case False
  obtain c r where f: "fmt_u n = c # r" by (cases "fmt_u n") auto
  have d: "\<forall>c \<in> set (fmt_u n). digit_of c < 10 \<and> \<not> isspace c \<and> c \<noteq> CHR ''-'' \<and> c \<noteq> CHR ''+''"
    using fmt_u_digits by blast
  then have s: "dropWhile isspace (fmt_u n) = fmt_u n" "c \<noteq> CHR ''-''" "c \<noteq> CHR ''+''" by (simp_all add: f)
  have t: "takeWhile (\<lambda>c. digit_of c < 10) (fmt_u n) = fmt_u n" "dropWhile (\<lambda>c. digit_of c < 10) (fmt_u n) = []"
    using d by (simp_all add: takeWhile_eq_all_conv dropWhile_eq_Nil_conv)
  have b: "split_base (fmt_u n) = (10, fmt_u n)" using False by (intro split_base_decimal) simp
  show ?thesis
    unfolding strtoul0_def Let_def s(1)
    using s(2,3) b t fmt_u_value [of n] by (simp add: f)
qed

lemma fmt_x_Suc: "fmt_x (Suc w) n = fmt_x w (n div 16) @ [hex_digit (n mod 16)]"
  unfolding fmt_x_def
  by (auto simp: Suc_diff_le less_imp_Suc_add div_mult2_eq [symmetric] simp flip: power_Suc intro!: map_cong)
     (metis Suc_diff_Suc div_mult2_eq power_Suc)

lemma fmt_x_value: "n < 16 ^ w \<Longrightarrow> base_value 16 (fmt_x w n) = n"
proof (induction w arbitrary: n)
  case 0
  then show ?case by (simp add: fmt_x_def base_value_def)
next
  case (Suc w)
  then have "n div 16 < 16 ^ w" by (simp add: less_mult_imp_div_less mult.commute)
  with Suc.IH show ?case by (simp add: fmt_x_Suc base_value_snoc digit_of_hex_digit)
qed

lemma fmt_x_digits: "c \<in> set (fmt_x w n) \<Longrightarrow> digit_of c < 16"
  by (auto simp: fmt_x_def digit_of_hex_digit)

lemma length_fmt_x [simp]: "length (fmt_x w n) = w"
  by (simp add: fmt_x_def)

lemma strtoul0_hex:
  assumes "n < 16 ^ w" "0 < w" "n \<le> m"
  shows "strtoul0 m (''0x'' @ fmt_x w n) = (n, [])"
proof -
  obtain h r where f: "fmt_x w n = h # r" using assms(2) by (cases "fmt_x w n") (auto simp flip: length_0_conv)
  have d: "\<forall>c \<in> set (fmt_x w n). digit_of c < 16" using fmt_x_digits by blast
  then have t: "takeWhile (\<lambda>c. digit_of c < 16) (h # r) = h # r" "dropWhile (\<lambda>c. digit_of c < 16) (h # r) = []"
    unfolding f by (simp_all add: takeWhile_eq_all_conv dropWhile_eq_Nil_conv del: takeWhile.simps dropWhile.simps)
  have b: "split_base (''0x'' @ h # r) = (16, h # r)" using d by (simp add: split_base_def f)
  have s: "dropWhile isspace (''0x'' @ h # r) = ''0x'' @ h # r" by (simp add: isspace_def)
  show ?thesis
    unfolding strtoul0_def Let_def f s
    using b fmt_x_value [OF assms(1)] assms(3) by (simp add: f t del: takeWhile.simps dropWhile.simps)
qed

text \<open>A node number is accepted in the form in which the shell prints it.\<close>

lemma parse_u32_hex:
  assumes "shell_env_ok se"
  shows "parse_u32 se (''0x'' @ fmt_x 8 (unat n)) = Inr n"
proof -
  have n: "unat n < 2 ^ 32" using unsigned_less [of n] by simp
  then have "unat n \<le> sh_ulong_max se" using assms by (simp add: shell_env_ok_def)
  with n have "strtoul0 (sh_ulong_max se) (''0x'' @ fmt_x 8 (unat n)) = (unat n, [])"
    by (intro strtoul0_hex) simp_all
  with n show ?thesis by (simp add: parse_u32_def)
qed

section \<open>Keys in hexadecimal\<close>

lemma nibble_hex_digit: "n < 16 \<Longrightarrow> shell_parse_hex_nibble (hex_digit n) = int n"
  by (auto simp: shell_parse_hex_nibble_def hex_digit_def Let_def)

lemma nibbles_byte:
  assumes "l < 16"
  shows "push_bit 4 (int h) OR int l = int (16 * h + l)"
proof -
  have "take_bit 4 (int l) = int l" using assms by (simp add: take_bit_int_eq_self)
  then have "\<not> bit (push_bit 4 (int h)) n \<or> \<not> bit (int l) n" for n
    by (metis bit_push_bit_iff bit_take_bit_iff not_le)
  then have "push_bit 4 (int h) + int l = push_bit 4 (int h) OR int l" by (rule disjunctive_add)
  then show ?thesis by (simp add: push_bit_eq_mult)
qed

lemma fmt_x_byte: "fmt_x 2 n = [hex_digit (n div 16 mod 16), hex_digit (n mod 16)]"
  by (simp add: fmt_x_def upt_rec)

lemma parse_hex_byte:
  fixes b :: u8
  shows "parse_hex_pairs (fmt_x 2 (unat b) @ r) = (case parse_hex_pairs r of Inl m \<Rightarrow> Inl m | Inr bs \<Rightarrow> Inr (b # bs))"
proof -
  have "unat b < 256" using unsigned_less [of b] by simp
  then have h: "unat b div 16 < 16" by auto
  have "push_bit 4 (int (unat b div 16)) OR int (unat b mod 16) = int (unat b)"
    using nibbles_byte [of "unat b mod 16" "unat b div 16"] by simp
  with h show ?thesis by (simp add: fmt_x_byte nibble_hex_digit Let_def split: sum.splits)
qed

lemma parse_psk_hex [simp]: "parse_hex_pairs (psk_hex psk) = Inr psk"
  by (induction psk) (simp_all add: psk_hex_def parse_hex_byte)

lemma length_psk_hex [simp]: "length (psk_hex psk) = 2 * length psk"
  by (induction psk) (simp_all add: psk_hex_def)

section \<open>Sessions\<close>

text \<open>
  What holds at the shell at any time: the queue fits its buffer, every waiting text can be sent,
  the channel table is consistent and its key lookups end, and the saved configuration is valid.
\<close>

definition work_item_ok :: "shell_work_item \<Rightarrow> bool" where
  "work_item_ok item \<longleftrightarrow>
     wi_op item = SHELL_WORK_SEND_TEXT \<longrightarrow>
       0 < length (wi_payload item) \<and> length (wi_payload item) \<le> MAX_TEXT_LEN \<and>
       (wi_channel_index item < 8 \<or> wi_channel_index item = CHANNEL_INDEX_INVALID) \<and>
       (wi_want_ack item \<longrightarrow> wi_dest item \<noteq> NODE_BROADCAST)"

definition node_configured :: "node \<Rightarrow> bool" where
  "node_configured st \<longleftrightarrow> channels_live (st_ch st) \<and> mt_ch_hash (mt st) = channels_primary_hash (st_ch st) \<and> store_inv (st_store st)"

definition shell_ok :: "shell_env \<Rightarrow> shell \<Rightarrow> bool" where
  "shell_ok se sh \<longleftrightarrow> length (sh_msgq sh) \<le> SHELL_QUEUE_SIZE se \<and> list_all work_item_ok (sh_msgq sh) \<and> node_configured (sh_node sh)"

lemma say_simps [simp]:
  "sh_msgq (say ls sh) = sh_msgq sh" "sh_node (say ls sh) = sh_node sh" "sh_out (say ls sh) = sh_out sh @ ls"
  "shell_ok se (say ls sh) = shell_ok se sh"
  by (simp_all add: say_def shell_ok_def)

lemma fail_simps [simp]: "fail e m sh = (r, sh') \<longleftrightarrow> r = Inl e \<and> sh' = say [Shell_error m] sh"
  by (auto simp: fail_def)

lemma enqueue_ok:
  assumes "shell_ok se sh" "work_item_ok item" "enqueue_shell_work se item sh = (r, sh')"
  shows "shell_ok se sh'"
  using assms by (auto simp: enqueue_shell_work_def shell_ok_def say_def split: if_splits)

lemma keeps_configured: "keeps st st' \<Longrightarrow> node_configured st' = node_configured st"
  by (simp add: keeps_def node_configured_def)

lemma keeps_gnss [simp]: "keeps (st\<lparr>st_gnss := g\<rparr>) st' = keeps st st'"
  by (simp add: keeps_def)

lemma shell_work_run_keeps: "shell_work_run ev now item st = Some (ret, st') \<Longrightarrow> keeps st st'"
  by (auto simp: shell_work_run_def send_text_def send_data_def send_position_def position_build_packet_def Let_def
      send_device_metrics_def send_telemetry_def send_environment_def send_node_info_def send_node_info_ex_def
      dest!: keeps_send_packet intro!: keeps_emit
      split: shell_work_op.splits if_splits option.splits sum.splits prod.splits)

lemma shell_work_run_returns:
  assumes "channels_live (st_ch st)"
  shows "\<exists>ret st'. shell_work_run ev now item st = Some (ret, st')"
proof -
  have s: "\<exists>ret st'. send_packet ev now p wait (st\<lparr>st_gnss := g\<rparr>) = Some (ret, st')" for p wait g
    by (rule send_packet_returns) (simp add: assms)
  have t: "\<exists>ret st'. send_packet ev now p wait st = Some (ret, st')" for p wait
    by (rule send_packet_returns) (simp add: assms)
  show ?thesis
    by (auto simp: shell_work_run_def send_text_def send_data_def send_position_def position_build_packet_def Let_def s t
      send_device_metrics_def send_telemetry_def send_environment_def send_node_info_def send_node_info_ex_def
      split: shell_work_op.splits option.splits sum.splits)
qed

lemma shell_work_turn_ok:
  assumes "shell_ok se sh" "shell_work_turn ev se now sh = Some sh'"
  shows "shell_ok se sh'"
  using assms
  by (auto simp: shell_work_turn_def shell_ok_def say_def bind_eq_Some_conv split: list.splits
      dest!: shell_work_run_keeps keeps_configured)

lemma shell_work_turn_returns:
  assumes "shell_ok se sh"
  shows "\<exists>sh'. shell_work_turn ev se now sh = Some sh'"
proof (cases "sh_msgq sh")
  case (Cons item q)
  obtain ret st' where "shell_work_run ev now item (sh_node sh) = Some (ret, st')"
    using shell_work_run_returns assms by (metis shell_ok_def node_configured_def)
  with Cons show ?thesis by (simp add: shell_work_turn_def)
qed (simp add: shell_work_turn_def)

section \<open>Commands that change the configuration\<close>

lemma apply_channel_psk_ok:
  assumes "shell_apply_channel_psk se kind arg ch = Inr ch'"
  shows "length (cs_psk (ch_settings ch')) \<le> 32 \<and> ch_role ch' = ch_role ch \<and> ch_has_settings ch' = ch_has_settings ch"
proof -
  have "2 * length bs \<le> length h" if "parse_hex_pairs h = Inr bs" for h bs
    using that by (induction h arbitrary: bs rule: parse_hex_pairs.induct) (auto simp: Let_def split: if_splits sum.splits)
  then have "length psk \<le> 32" if "shell_parse_hex_psk h = Inr psk" for h psk
    using that by (fastforce simp: shell_parse_hex_psk_def split: if_splits)
  with assms show ?thesis
    by (auto simp: shell_apply_channel_psk_def Let_def split: if_splits option.splits sum.splits prod.splits)
qed

lemma parse_channel_role_ok: "shell_parse_channel_role arg = Inr role \<Longrightarrow> role \<le> Role_SECONDARY"
  by (auto simp: shell_parse_channel_role_def split: if_splits)

lemma channel_options_ok:
  assumes "channel_options se b ch args = Inr (changed, ch')" "length (cs_psk (ch_settings ch)) \<le> 32" "ch_has_settings ch"
  shows "length (cs_psk (ch_settings ch')) \<le> 32 \<and> ch_has_settings ch' \<and> (changed \<longleftrightarrow> b \<or> args \<noteq> [])"
  using assms
proof (induction se b ch args rule: channel_options.induct)
  case (1 se b ch)
  then show ?case by simp
next
  case (2 se b ch opt args)
  then obtain ch1 rest where o: "channel_option se ch opt args = Inr (ch1, rest)" by (auto split: sum.splits)
  then have "length (cs_psk (ch_settings ch1)) \<le> 32 \<and> ch_has_settings ch1"
    using 2(3,4) by (cases rule: channel_option_cases) (auto dest: apply_channel_psk_ok)
  with 2(1) [OF o refl] 2(2) o show ?case by simp
qed

lemma set_channel_None:
  assumes "channels_inv t" "index < 8"
  shows "config_store_set_channel k index ch (st, t, c) = None \<longleftrightarrow>
    keyless ch \<and> (index = ct_primary_index t \<or> keyless (slot t (ct_primary_index t)))"
proof (cases "channel_is_valid ch")
  case True
  then have "length (cs_psk (ch_settings ch)) \<le> 32" by (simp add: channel_is_valid_def)
  from set_slot_None [OF assms this] True assms(2) show ?thesis
    by (auto simp: config_store_set_channel_def Let_def bind_eq_None_conv split: prod.splits sum.splits)
next
  case False
  then show ?thesis by (auto simp: config_store_set_channel_def keyless_def channel_is_valid_def)
qed

lemma store_set_channel_ok:
  assumes "shell_ok se sh" "index < 8" "store_set_channel ev index ch sh = Some (r, sh')"
  shows "shell_ok se sh' \<and> sh_out sh' = sh_out sh \<and> sh_msgq sh' = sh_msgq sh \<and>
    (channel_is_valid ch \<longrightarrow> r = ok \<and> slot (st_ch (sh_node sh')) index = fixup_slot index (ch\<lparr>ch_index := index\<rparr>))"
proof -
  let ?st = "sh_node sh"
  have c: "channels_live (st_ch ?st)" "mt_ch_hash (mt ?st) = channels_primary_hash (st_ch ?st)" "store_inv (st_store ?st)"
    using assms(1) by (simp_all add: shell_ok_def node_configured_def)
  from assms(3) obtain so t d where s: "config_store_set_channel (ev_k ev) index ch (st_store ?st, st_ch ?st, mt ?st) = Some (r, so, t, d)"
    and sh': "sh' = sh\<lparr>sh_node := set_mt d (?st\<lparr>st_store := so, st_ch := t\<rparr>)\<rparr>"
    by (auto simp: store_set_channel_def Let_def bind_eq_Some_conv)
  show ?thesis
  proof (cases "channel_is_valid ch")
    case False
    with s assms(1,2) show ?thesis by (auto simp: config_store_set_channel_def sh' shell_ok_def node_configured_def)
  next
    case True
    then have psk: "length (cs_psk (ch_settings ch)) \<le> 32" by (simp add: channel_is_valid_def)
    from s True assms(2) obtain q tc where q0: "channels_set_slot index ch (st_ch ?st, mt ?st) = Some (q, tc)"
      by (auto simp: config_store_set_channel_def Let_def bind_eq_Some_conv)
    let ?so = "(st_store ?st)\<lparr>so_channels := (so_channels (st_store ?st))[index := ch\<lparr>ch_index := index\<rparr>]\<rparr>"
    from s True assms(2) q0 have e: "(case q of Inl e \<Rightarrow> (Inl e, ?so, tc) | Inr _ \<Rightarrow> (ok, schedule_save (ev_k ev) ?so, tc)) = (r, so, t, d)"
      by (simp add: config_store_set_channel_def Let_def)
    have "tc = (t, d) \<and> r = q \<and> (q = ok \<longrightarrow> so = schedule_save (ev_k ev) ?so)"
    proof (cases q)
      case (Inr u)
      with e show ?thesis by simp
    qed (use e in auto)
    then have "tc = (t, d)" "r = q" and so: "q = ok \<longrightarrow> so = schedule_save (ev_k ev) ?so" by simp_all
    with q0 have q: "channels_set_slot index ch (st_ch ?st, mt ?st) = Some (q, t, d)" "r = q" by simp_all
    note q = q(1) and so = so q(2)
    have inv: "channels_inv (st_ch ?st)" using c(1) by (simp add: channels_live_def)
    have "q = ok" "slot t index = fixup_slot index (ch\<lparr>ch_index := index\<rparr>)"
      using set_slot_result [OF inv assms(2) psk q] by simp_all
    moreover have "channels_live t \<and> mt_ch_hash d = channels_primary_hash t" by (rule set_slot_live [OF c(1) psk c(2) q])
    moreover have "store_inv so" using so \<open>q = ok\<close> store_inv_channel [OF c(3) True assms(2)] by simp
    ultimately show ?thesis using so assms(1) by (simp add: sh' shell_ok_def node_configured_def)
  qed
qed

lemma device_index: "the (index_for_config_tag device_tag) = 0"
  by code_simp

lemma store_inv_device:
  assumes "store_inv st" "dc_role d \<le> DeviceRole_CLIENT_BASE" "dc_rebroadcast_mode d \<le> Rebroadcast_CORE_PORTNUMS_ONLY"
  shows "store_inv (st\<lparr>so_configs := (so_configs st)[0 := Config_device d]\<rparr>)"
proof (rule store_inv_config [OF assms(1)])
  show "config_tag (Config_device d) = snd (config_names ! 0)" by code_simp
  have "index_for_config_tag device_tag = Some 0" by code_simp
  with assms(2,3) show "config_is_valid (Config_device d)" by (simp add: config_is_valid_def)
qed simp

lemma as_device_valid:
  assumes "store_inv st"
  shows "dc_role (as_device (so_configs st ! 0)) \<le> DeviceRole_CLIENT_BASE \<and>
    dc_rebroadcast_mode (as_device (so_configs st ! 0)) \<le> Rebroadcast_CORE_PORTNUMS_ONLY"
proof -
  have "config_is_valid (so_configs st ! 0)" using assms by (simp add: store_inv_def)
  then show ?thesis by (auto simp: as_device_def config_is_valid_def device_config_zero_def split: config.splits)
qed

lemma device_commands_ok:
  assumes "shell_ok se sh" "cmd_device_role ev argv sh = (r, sh') \<or> cmd_device_rebroadcast ev argv sh = (r, sh')"
  shows "shell_ok se sh'"
proof -
  have i: "store_inv (st_store (sh_node sh))" "channels_live (st_ch (sh_node sh))"
    using assms(1) by (simp_all add: shell_ok_def node_configured_def)
  note v = as_device_valid [OF i(1)] and d = store_inv_device [OF i(1)]
  have p: "channels_primary_hash (t\<lparr>ct_device_role := x\<rparr>) = channels_primary_hash t"
    "channels_primary_hash (t\<lparr>ct_rebroadcast_mode := x\<rparr>) = channels_primary_hash t" for t x
    by (simp_all add: channels_primary_hash_def)
  show ?thesis
    using assms v d
    by (auto simp: cmd_device_role_def cmd_device_rebroadcast_def config_store_set_device_role_def
        config_store_set_rebroadcast_mode_def device_index Let_def shell_ok_def node_configured_def p
        split: if_splits sum.splits)
qed

lemma parse_channel_index_lt: "shell_parse_channel_index se arg = Inr i \<Longrightarrow> i < 8"
  by (auto simp: shell_parse_channel_index_def split: if_splits prod.splits)

text \<open>What a command does to the shell: it stays in order, and what was printed stays printed.\<close>

definition shell_keeps :: "shell_env \<Rightarrow> shell \<Rightarrow> shell \<Rightarrow> bool" where
  "shell_keeps se sh sh' \<longleftrightarrow> shell_ok se sh' \<and> prefix (sh_out sh) (sh_out sh')"

lemma shell_keeps_say [simp]: "shell_keeps se sh (say ls sh') \<longleftrightarrow> shell_ok se sh' \<and> prefix (sh_out sh) (sh_out sh' @ ls)"
  by (simp add: shell_keeps_def)

lemma set_and_report_ok:
  assumes "shell_ok se sh" "index < 8" "set_and_report ev what msg index ch sh = Some (r, sh')"
  shows "shell_keeps se sh sh'"
proof -
  from assms(3) obtain q sh1 where q: "store_set_channel ev index ch sh = Some (q, sh1)"
    by (auto simp: set_and_report_def bind_eq_Some_conv)
  have "shell_ok se sh1" "sh_out sh1 = sh_out sh" using store_set_channel_ok [OF assms(1,2) q] by simp_all
  with q assms(3) show ?thesis by (cases q) (auto simp: set_and_report_def)
qed

lemma cmd_channel_set_cases:
  obtains (Refused) m where "cmd_channel_set ev se argv sh = Some (fail EINVAL m sh)"
  | (Set) index changed ch msg where "3 \<le> length argv" "shell_parse_channel_index se (argv ! 1) = Inr index" "index < 8"
      "channel_options se False ((slot (st_ch (sh_node sh)) index)\<lparr>ch_index := index, ch_has_settings := True\<rparr>) (drop 2 argv) = Inr (changed, ch)"
      "changed" "cmd_channel_set ev se argv sh = set_and_report ev ''set'' msg index ch sh"
proof (cases "shell_parse_channel_index se (argv ! 1)")
  case (Inl m)
  then show thesis using Refused by (cases "length argv < 3") (simp_all add: cmd_channel_set_def)
next
  case (Inr index)
  note i = parse_channel_index_lt [OF Inr]
  let ?ch = "(slot (st_ch (sh_node sh)) index)\<lparr>ch_index := index, ch_has_settings := True\<rparr>"
  show thesis
  proof (cases "length argv < 3")
    case True
    then show thesis using Refused by (simp add: cmd_channel_set_def)
  next
    case False
    show thesis
    proof (cases "channel_options se False ?ch (drop 2 argv)")
      case (Inl m)
      with False Inr i show thesis using Refused by (simp add: cmd_channel_set_def channels_get_def)
    next
      case opts: (Inr cc)
      obtain changed ch where "cc = (changed, ch)" by force
      with opts False Inr i show thesis using Refused Set by (cases changed) (simp_all add: cmd_channel_set_def channels_get_def)
    qed
  qed
qed

lemma cmd_channel_set_ok:
  assumes "shell_ok se sh" "cmd_channel_set ev se argv sh = Some (r, sh')"
  shows "shell_keeps se sh sh'"
proof (cases rule: cmd_channel_set_cases [of ev se argv sh])
  case (Refused m)
  with assms show ?thesis by simp
next
  case (Set index changed ch msg)
  with assms show ?thesis by (intro set_and_report_ok) simp_all
qed

lemma cmd_channel_disable_cases:
  obtains (Refused) m where "cmd_channel_disable ev se argv sh = Some (fail EINVAL m sh)"
  | (Set) index msg where "index < 8" "cmd_channel_disable ev se argv sh = set_and_report ev ''disable'' msg index
      ((slot (st_ch (sh_node sh)) index)\<lparr>ch_role := Role_DISABLED, ch_has_settings := True\<rparr>) sh"
proof (cases "length argv = 2")
  case True
  then show thesis
    using Refused Set parse_channel_index_lt [of se "argv ! 1"]
    by (cases "shell_parse_channel_index se (argv ! 1)") (simp_all add: cmd_channel_disable_def channels_get_def)
qed (use Refused in \<open>simp add: cmd_channel_disable_def\<close>)

lemma cmd_channel_disable_ok:
  assumes "shell_ok se sh" "cmd_channel_disable ev se argv sh = Some (r, sh')"
  shows "shell_keeps se sh sh'"
proof (cases rule: cmd_channel_disable_cases [of ev se argv sh])
  case (Refused m)
  with assms show ?thesis by simp
next
  case (Set index msg)
  with assms show ?thesis by (intro set_and_report_ok) simp_all
qed

definition text_item :: "shell_work_item \<Rightarrow> bool" where
  "text_item item \<longleftrightarrow> wi_op item = SHELL_WORK_SEND_TEXT \<and> (wi_channel_index item < 8 \<or> wi_channel_index item = CHANNEL_INDEX_INVALID)"

lemma small_index: "i < 8 \<Longrightarrow> (word_of_nat i :: u8) < 8"
  by (simp add: word_less_nat_alt unat_of_nat)

lemma text_options_cases:
  assumes "text_options se item (w # ws) = Inr (item', ws')"
  obtains (Channel) v m r i where "w = ''-c''" "ws = v # m # r" "shell_parse_channel_index se v = Inr i"
      "text_options se (item\<lparr>wi_channel_index := word_of_nat i\<rparr>) (m # r) = Inr (item', ws')"
  | (Ack) "w = ''-a''" "w \<noteq> ''-c''" "ws \<noteq> []" "text_options se (item\<lparr>wi_want_ack := True\<rparr>) ws = Inr (item', ws')"
  | (End) "item' = item" "ws' = w # ws"
proof -
  note p = assms [unfolded text_options.simps(2) [of se item w ws]]
  show thesis
  proof (cases "w = ''-c''")
    case True
    from p obtain v m r where ws: "ws = v # m # r" unfolding if_P [OF True] by (auto split: list.splits)
    with p Channel True show thesis unfolding if_P [OF True] by (auto split: sum.splits)
  next
    case False
    show thesis
    proof (cases "w = ''-a''")
      case True
      from p have "ws \<noteq> [] \<and> text_options se (item\<lparr>wi_want_ack := True\<rparr>) ws = Inr (item', ws')"
        unfolding if_not_P [OF False] if_P [OF True] by (simp split: if_splits)
      with Ack True False show thesis by blast
    next
      case a: False
      from p show thesis unfolding if_not_P [OF False] if_not_P [OF a] by (intro End) simp_all
    qed
  qed
qed

lemma text_options_item:
  assumes "text_options se item ws = Inr (item', ws')" "text_item item"
  shows "text_item item'"
  using assms
proof (induction se item ws rule: text_options.induct)
  case (2 se item w ws)
  from 2(3) show ?case
  proof (cases rule: text_options_cases)
    case (Channel v m r i)
    have "text_item (item\<lparr>wi_channel_index := word_of_nat i\<rparr>)"
      using 2(4) small_index parse_channel_index_lt [OF Channel(3)] by (simp add: text_item_def)
    with 2(1) [OF Channel(1) Channel(2) refl Channel(3)] Channel(4) show ?thesis by blast
  next
    case Ack
    with 2(2,4) show ?thesis by (simp add: text_item_def)
  next
    case End
    with 2(4) show ?thesis by simp
  qed
qed simp

lemma text_dest_message_ok: "text_dest_message se ws = Inr (dest, Inr txt) \<Longrightarrow> length txt \<le> MAX_TEXT_LEN"
  by (auto simp: text_dest_message_def append_message_joins Let_def split: if_splits sum.splits)

lemma enqueue_keeps:
  assumes "shell_ok se sh" "work_item_ok item" "enqueue_shell_work se item sh = (r, sh')"
  shows "shell_keeps se sh sh'"
  using enqueue_ok [OF assms] assms(3)
  by (auto simp: shell_keeps_def enqueue_shell_work_def split: if_splits)

lemma text_enqueue_ok:
  assumes "shell_ok se sh" "text_item item" "\<And>txt. message = Inr txt \<Longrightarrow> length txt \<le> MAX_TEXT_LEN"
    "text_enqueue se item dest message sh = (r, sh')"
  shows "shell_keeps se sh sh'"
proof (cases message)
  case (Inl e)
  with assms show ?thesis by (auto simp: text_enqueue_def Let_def split: if_splits)
next
  case (Inr t)
  let ?i = "item\<lparr>wi_dest := dest, wi_want_ack := wi_want_ack item \<and> dest \<noteq> NODE_BROADCAST, wi_payload := t\<rparr>"
  obtain ls where e: "text_enqueue se item dest message sh =
      (if t = [] then fail EINVAL ''message must not be empty'' (say ls sh) else enqueue_shell_work se ?i (say ls sh))"
  proof (cases "wi_want_ack item \<and> dest = NODE_BROADCAST")
    case True
    then show thesis using Inr by (intro that [of "[Shell_warn ''-a ignored: broadcasts are not acknowledged'']"]) (simp add: text_enqueue_def)
  next
    case False
    then show thesis using Inr by (intro that [of "[]"]) (simp only: text_enqueue_def if_not_P [OF False] Let_def say_def sum.case append_Nil2, simp)
  qed
  show ?thesis
  proof (cases "t = []")
    case True
    with e assms(1,4) show ?thesis by (auto simp: fail_def)
  next
    case False
    have "work_item_ok ?i" using assms(2,3) Inr False by (auto simp: work_item_ok_def text_item_def)
    with False e assms(1,4) have "shell_keeps se (say ls sh) sh'" by (intro enqueue_keeps [of se "say ls sh" ?i r]) auto
    then show ?thesis by (auto simp: shell_keeps_def dest: append_prefixD)
  qed
qed

lemma cmd_text_send_ok:
  assumes "shell_ok se sh" "cmd_text_send se argv sh = (r, sh')"
  shows "shell_keeps se sh sh'"
proof -
  have i: "text_item ((work_item_zero SHELL_WORK_SEND_TEXT)\<lparr>wi_channel_index := CHANNEL_INDEX_INVALID\<rparr>)"
    by (simp add: text_item_def work_item_zero_def)
  show ?thesis
  proof (cases "\<exists>m. cmd_text_send se argv sh = fail EINVAL m sh")
    case True
    with assms show ?thesis by (auto simp: fail_def)
  next
    case False
    then obtain item ws dest message where "text_options se ((work_item_zero SHELL_WORK_SEND_TEXT)\<lparr>wi_channel_index := CHANNEL_INDEX_INVALID\<rparr>) (drop 1 argv) = Inr (item, ws)"
      "text_dest_message se ws = Inr (dest, message)" "cmd_text_send se argv sh = text_enqueue se item dest message sh"
      by (auto simp: cmd_text_send_def split: if_splits sum.splits)
    with assms text_options_item [OF _ i] show ?thesis by (intro text_enqueue_ok [of se sh item message dest r]) (auto dest: text_dest_message_ok)
  qed
qed

lemma cmd_deferred_send_ok:
  assumes "shell_ok se sh" "cmd_deferred_send se op argv sh = (r, sh')" "op \<noteq> SHELL_WORK_SEND_TEXT"
  shows "shell_keeps se sh sh'"
  using assms
  by (auto simp: cmd_deferred_send_def split: sum.splits intro!: enqueue_keeps simp: work_item_ok_def work_item_zero_def)

lemma quiet_commands_ok:
  assumes "shell_ok se sh"
  shows "shell_keeps se sh (snd (cmd_status ev a sh))" "shell_keeps se sh (snd (cmd_channel_list a sh))"
    "shell_keeps se sh (snd (cmd_channel_show se a sh))" "shell_keeps se sh (snd (cmd_nodedb_list ev a sh))"
    "shell_keeps se sh (snd (cmd_nodedb_show ev se a sh))"
  using assms
  by (simp_all add: cmd_status_def cmd_channel_list_def cmd_channel_show_def cmd_nodedb_list_def cmd_nodedb_show_def
      Let_def fail_def shell_keeps_def split: sum.split option.split)

lemma sending_commands_ok:
  assumes "shell_ok se sh"
  shows "shell_keeps se sh (snd (cmd_text_send se a sh))" "shell_keeps se sh (snd (cmd_gnss_send se a sh))"
    "shell_keeps se sh (snd (cmd_metrics_send se a sh))" "shell_keeps se sh (snd (cmd_environment_send se a sh))"
    "shell_keeps se sh (snd (cmd_nodeinfo_send se a sh))"
proof -
  have d: "shell_keeps se sh (snd (cmd_deferred_send se op a sh))" if "op \<noteq> SHELL_WORK_SEND_TEXT" for op
    by (rule cmd_deferred_send_ok [OF assms, of op a "fst (cmd_deferred_send se op a sh)"]) (simp_all add: that)
  show "shell_keeps se sh (snd (cmd_text_send se a sh))"
    by (rule cmd_text_send_ok [OF assms, of a "fst (cmd_text_send se a sh)"]) simp
  show "shell_keeps se sh (snd (cmd_gnss_send se a sh))" "shell_keeps se sh (snd (cmd_metrics_send se a sh))"
    "shell_keeps se sh (snd (cmd_environment_send se a sh))" "shell_keeps se sh (snd (cmd_nodeinfo_send se a sh))"
    by (simp_all add: cmd_gnss_send_def cmd_metrics_send_def cmd_environment_send_def cmd_nodeinfo_send_def d)
qed

lemma device_commands_keep:
  assumes "shell_ok se sh"
  shows "shell_keeps se sh (snd (cmd_device_role ev a sh))" "shell_keeps se sh (snd (cmd_device_rebroadcast ev a sh))"
  using device_commands_ok [OF assms, of ev a "fst (cmd_device_role ev a sh)" "snd (cmd_device_role ev a sh)"]
    device_commands_ok [OF assms, of ev a "fst (cmd_device_rebroadcast ev a sh)" "snd (cmd_device_rebroadcast ev a sh)"]
  by (auto simp: shell_keeps_def cmd_device_role_def cmd_device_rebroadcast_def Let_def fail_def split: sum.split prod.split)

lemmas simple_commands_ok = quiet_commands_ok sending_commands_ok device_commands_keep

lemma meshtastic_cmds_cases:
  assumes "meshtastic_cmds ev se line = Some f" "shell_ok se sh"
  obtains (Simple) r sh' where "f sh = Some (r, sh')" "shell_keeps se sh sh'"
  | (Set) argv where "line = ''channel'' # ''set'' # argv" "f = cmd_channel_set ev se (''set'' # argv)"
  | (Disable) argv where "line = ''channel'' # ''disable'' # argv" "f = cmd_channel_disable ev se (''disable'' # argv)"
proof -
  from assms(1) obtain g argv where line: "line = g # argv" by (auto simp: meshtastic_cmds_def split: list.splits)
  show thesis
  proof (cases "g = ''status''")
    case True
    with assms line simple_commands_ok(1) [OF assms(2)] show thesis
      by (intro Simple [of "fst (cmd_status ev line sh)" "snd (cmd_status ev line sh)"]) (auto simp: meshtastic_cmds_def)
  next
    case False
    with assms(1) line obtain c args h where a: "argv = c # args" "map_of (subcommands ev se g) c = Some h" "f = h argv"
      by (auto simp: meshtastic_cmds_def split: list.splits)
    have "(\<exists>k. h = (\<lambda>a s. Some (k a s)) \<and> shell_keeps se sh (snd (k argv sh))) \<or>
        g = ''channel'' \<and> c = ''set'' \<and> h = cmd_channel_set ev se \<or> g = ''channel'' \<and> c = ''disable'' \<and> h = cmd_channel_disable ev se"
      using a(2) simple_commands_ok [OF assms(2)]
      by (simp add: subcommands_def Let_def split: if_splits) blast+
    then show thesis
    proof (elim disjE exE conjE)
      fix k
      assume "h = (\<lambda>a s. Some (k a s))" "shell_keeps se sh (snd (k argv sh))"
      with a(3) show thesis by (intro Simple [of "fst (k argv sh)" "snd (k argv sh)"]) simp_all
    qed (use a line Set Disable in simp_all)
  qed
qed

lemma meshtastic_cmds_ok:
  assumes "meshtastic_cmds ev se line = Some f" "shell_ok se sh" "f sh = Some (r, sh')"
  shows "shell_keeps se sh sh'"
  using assms(1,2)
proof (cases rule: meshtastic_cmds_cases)
  case (Simple r1 sh1)
  with assms(3) show ?thesis by simp
next
  case (Set argv)
  with assms(2,3) show ?thesis by (intro cmd_channel_set_ok) simp_all
next
  case (Disable argv)
  with assms(2,3) show ?thesis by (intro cmd_channel_disable_ok) simp_all
qed

text \<open>When a command does not return.\<close>

lemma set_and_report_None:
  assumes "shell_ok se sh" "index < 8"
  shows "set_and_report ev what msg index ch sh = None \<longleftrightarrow> keyless ch \<and> index = ct_primary_index (st_ch (sh_node sh))"
proof -
  have live: "channels_live (st_ch (sh_node sh))" using assms(1) by (simp add: shell_ok_def node_configured_def)
  then have "channels_inv (st_ch (sh_node sh))" by (simp add: channels_live_def)
  note n = set_channel_None [OF this assms(2), of "ev_k ev" ch "st_store (sh_node sh)" "mt (sh_node sh)"]
  have "set_and_report ev what msg index ch sh = None \<longleftrightarrow>
      config_store_set_channel (ev_k ev) index ch (st_store (sh_node sh), st_ch (sh_node sh), mt (sh_node sh)) = None"
    by (cases "config_store_set_channel (ev_k ev) index ch (st_store (sh_node sh), st_ch (sh_node sh), mt (sh_node sh))")
      (auto simp: set_and_report_def store_set_channel_def Let_def)
  with n live show ?thesis by (auto simp: channels_live_def)
qed

lemma channel_set_None:
  assumes "shell_ok se sh"
  shows "cmd_channel_set ev se argv sh = None \<longleftrightarrow> 3 \<le> length argv \<and>
    (\<exists>index changed ch. shell_parse_channel_index se (argv ! 1) = Inr index \<and> index = ct_primary_index (st_ch (sh_node sh)) \<and>
       channel_options se False ((slot (st_ch (sh_node sh)) index)\<lparr>ch_index := index, ch_has_settings := True\<rparr>) (drop 2 argv) = Inr (changed, ch) \<and>
       keyless ch)" (is "?l \<longleftrightarrow> ?r")
proof
  assume ?l
  then show ?r
  proof (cases rule: cmd_channel_set_cases [of ev se argv sh])
    case (Set index changed ch msg)
    with \<open>?l\<close> set_and_report_None [OF assms Set(3), of ev "''set''" msg ch] show ?thesis by auto
  qed simp
next
  assume ?r
  then obtain index changed ch where r: "3 \<le> length argv" "shell_parse_channel_index se (argv ! 1) = Inr index"
    "index = ct_primary_index (st_ch (sh_node sh))"
    "channel_options se False ((slot (st_ch (sh_node sh)) index)\<lparr>ch_index := index, ch_has_settings := True\<rparr>) (drop 2 argv) = Inr (changed, ch)"
    "keyless ch" by blast
  have "channels_inv (st_ch (sh_node sh))" using assms by (simp add: shell_ok_def node_configured_def channels_live_def)
  then have "length (cs_psk (ch_settings (slot (st_ch (sh_node sh)) index))) \<le> 32"
    using parse_channel_index_lt [OF r(2)] by (simp add: channels_inv_def table_shape_def)
  then have "changed" using channel_options_ok [OF r(4)] r(1) by simp
  with r parse_channel_index_lt [OF r(2)] set_and_report_None [OF assms parse_channel_index_lt [OF r(2)]]
  show ?l by (simp add: cmd_channel_set_def channels_get_def)
qed

section \<open>Properties of the shell\<close>

text \<open>A session: command lines and turns of the worker in any order, as long as each returns.\<close>

inductive shell_session :: "env \<Rightarrow> shell_env \<Rightarrow> shell \<Rightarrow> shell \<Rightarrow> bool" for ev se where
  start: "shell_session ev se sh sh"
| command: "shell_session ev se sh0 sh \<Longrightarrow> meshtastic_cmds ev se line = Some f \<Longrightarrow> f sh = Some (r, sh') \<Longrightarrow>
    shell_session ev se sh0 sh'"
| worker: "shell_session ev se sh0 sh \<Longrightarrow> shell_work_turn ev se now sh = Some sh' \<Longrightarrow> shell_session ev se sh0 sh'"

lemma worker_prints: "shell_work_turn ev se now sh = Some sh' \<Longrightarrow> prefix (sh_out sh) (sh_out sh')"
  by (auto simp: shell_work_turn_def bind_eq_Some_conv split: list.splits)

text \<open>
  C26: whatever commands are entered and however the worker's turns fall between them, the shell
  stays in order. The queue never exceeds its buffer, each waiting text has between one and 233
  bytes, names a slot or none and asks for an acknowledgement only from a single node; the channel
  table stays consistent with a key for every slot, the mirrored hash is the one of the primary
  slot, the saved configuration stays valid, nothing printed is lost, and the worker's next turn
  returns.
\<close>

theorem shell_session_consistent:
  assumes "shell_session ev se sh0 sh" "shell_ok se sh0"
  shows "shell_ok se sh \<and> prefix (sh_out sh0) (sh_out sh) \<and> (\<exists>sh'. shell_work_turn ev se now sh = Some sh')"
proof -
  have "shell_ok se sh \<and> prefix (sh_out sh0) (sh_out sh)"
    using assms
  proof (induction rule: shell_session.induct)
    case (command sh0 sh line f r sh')
    with meshtastic_cmds_ok [of ev se line f sh r sh'] show ?case by (auto simp: shell_keeps_def)
  next
    case (worker sh0 sh now sh')
    with worker_prints [OF worker(2)] shell_work_turn_ok [of se sh ev now sh'] show ?case by auto
  qed simp
  with shell_work_turn_returns show ?thesis by blast
qed

text \<open>
  C28: every command line returns, with one exception: \<^verbatim>\<open>channel set\<close> on the primary slot with options
  that make it a secondary slot without a key. The key lookup of the update then follows the
  primary slot to itself for ever.
\<close>

theorem shell_command_returns:
  assumes "shell_ok se sh" "meshtastic_cmds ev se line = Some f"
  shows "f sh = None \<longleftrightarrow> (\<exists>args index changed ch. line = ''channel'' # ''set'' # args \<and> 2 \<le> length args \<and>
    shell_parse_channel_index se (args ! 0) = Inr index \<and> index = ct_primary_index (st_ch (sh_node sh)) \<and>
    channel_options se False ((slot (st_ch (sh_node sh)) index)\<lparr>ch_index := index, ch_has_settings := True\<rparr>) (drop 1 args) = Inr (changed, ch) \<and>
    keyless ch)"
proof (cases "\<exists>args. line = ''channel'' # ''set'' # args")
  case True
  then obtain args where line: "line = ''channel'' # ''set'' # args" by blast
  with assms(2) have "f = cmd_channel_set ev se (''set'' # args)" by (simp add: meshtastic_cmds_def subcommands_def Let_def)
  with line channel_set_None [OF assms(1), of ev "''set'' # args"] show ?thesis by (auto simp: numeral_3_eq_3 numeral_2_eq_2)
next
  case False
  have "f sh \<noteq> None"
    using assms(2,1)
  proof (cases rule: meshtastic_cmds_cases)
    case (Disable argv)
    show ?thesis
      unfolding Disable(2)
      by (cases rule: cmd_channel_disable_cases [of ev se "''disable'' # argv" sh])
        (auto simp: set_and_report_None [OF assms(1)] keyless_def)
  qed (use False in auto)
  with False show ?thesis by auto
qed

text \<open>The options of \<^verbatim>\<open>text send\<close> as a user means them, and the words for them.\<close>

datatype text_opt = Opt_ack | Opt_channel nat

definition text_opt_words :: "text_opt \<Rightarrow> string list" where
  "text_opt_words opt = (case opt of Opt_ack \<Rightarrow> [''-a''] | Opt_channel i \<Rightarrow> [''-c'', fmt_u i])"

definition text_opt_apply :: "text_opt \<Rightarrow> shell_work_item \<Rightarrow> shell_work_item" where
  "text_opt_apply opt item = (case opt of Opt_ack \<Rightarrow> item\<lparr>wi_want_ack := True\<rparr> | Opt_channel i \<Rightarrow> item\<lparr>wi_channel_index := word_of_nat i\<rparr>)"

definition text_opts_channel :: "text_opt list \<Rightarrow> u8" where
  "text_opts_channel opts = fold (\<lambda>opt c. case opt of Opt_ack \<Rightarrow> c | Opt_channel i \<Rightarrow> word_of_nat i) opts CHANNEL_INDEX_INVALID"

lemma parse_index_decimal:
  "shell_env_ok se \<Longrightarrow> i < 8 \<Longrightarrow> shell_parse_channel_index se (fmt_u i) = Inr i"
  by (simp add: shell_parse_channel_index_def strtoul0_decimal shell_env_ok_def)

lemma text_options_words:
  assumes "shell_env_ok se" "\<forall>i. Opt_channel i \<in> set opts \<longrightarrow> i < 8" "d \<noteq> ''-a''" "d \<noteq> ''-c''"
  shows "text_options se item (concat (map text_opt_words opts) @ d # ws) = Inr (fold text_opt_apply opts item, d # ws)"
  using assms(2)
proof (induction opts arbitrary: item)
  case Nil
  with assms(3,4) show ?case by (simp add: text_options.simps(2))
next
  case (Cons opt opts)
  obtain m r where mr: "concat (map text_opt_words opts) @ d # ws = m # r" by (cases "concat (map text_opt_words opts)") auto
  have IH: "text_options se i (m # r) = Inr (fold text_opt_apply opts i, d # ws)" for i
    using Cons mr by simp
  show ?case
  proof (cases opt)
    case Opt_ack
    then have "text_options se item (concat (map text_opt_words (opt # opts)) @ d # ws) = text_options se (item\<lparr>wi_want_ack := True\<rparr>) (m # r)"
      by (simp add: text_opt_words_def mr text_options.simps(2) [of se item "''-a''"])
    with Opt_ack show ?thesis by (simp add: IH text_opt_apply_def [of Opt_ack])
  next
    case (Opt_channel i)
    with Cons.prems have "shell_parse_channel_index se (fmt_u i) = Inr i" using parse_index_decimal [OF assms(1)] by simp
    with Opt_channel have "text_options se item (concat (map text_opt_words (opt # opts)) @ d # ws) =
        text_options se (item\<lparr>wi_channel_index := word_of_nat i\<rparr>) (m # r)"
      by (simp add: text_opt_words_def mr text_options.simps(2) [of se item "''-c''"])
    with Opt_channel show ?thesis by (simp add: IH text_opt_apply_def [of "Opt_channel i"])
  qed
qed

lemma text_opts_item:
  "fold text_opt_apply opts item = item\<lparr>wi_want_ack := wi_want_ack item \<or> Opt_ack \<in> set opts,
     wi_channel_index := fold (\<lambda>opt c. case opt of Opt_ack \<Rightarrow> c | Opt_channel i \<Rightarrow> word_of_nat i) opts (wi_channel_index item)\<rparr>"
  by (induction opts arbitrary: item) (auto simp: text_opt_apply_def split: text_opt.split)

text \<open>The item a text command queues.\<close>

definition text_work :: "text_opt list \<Rightarrow> u32 \<Rightarrow> string list \<Rightarrow> shell_work_item" where
  "text_work opts dest ws = \<lparr>wi_op = SHELL_WORK_SEND_TEXT, wi_dest = dest, wi_channel_index = text_opts_channel opts,
     wi_want_ack = (Opt_ack \<in> set opts \<and> dest \<noteq> NODE_BROADCAST), wi_payload = join_words ws\<rparr>"

lemma text_queued:
  assumes "shell_env_ok se" "\<forall>i. Opt_channel i \<in> set opts \<longrightarrow> i < 8" "d \<noteq> ''-a''" "d \<noteq> ''-c''"
    "parse_u32 se d = Inr dest" "join_words ws \<noteq> []" "length (join_words ws) \<le> MAX_TEXT_LEN"
    "length (sh_msgq sh) < SHELL_QUEUE_SIZE se"
  obtains ls where "cmd_text_send se (''send'' # concat (map text_opt_words opts) @ d # ws) sh =
    (ok, say ls (sh\<lparr>sh_msgq := sh_msgq sh @ [text_work opts dest ws]\<rparr>))"
proof -
  let ?i = "(work_item_zero SHELL_WORK_SEND_TEXT)\<lparr>wi_channel_index := CHANNEL_INDEX_INVALID\<rparr>"
  let ?a = "concat (map text_opt_words opts) @ d # ws"
  have ws: "ws \<noteq> []" using assms(6) by auto
  have o: "text_options se ?i ?a = Inr (fold text_opt_apply opts ?i, d # ws)"
    by (rule text_options_words [OF assms(1-4)])
  have m: "text_dest_message se (d # ws) = Inr (dest, Inr (join_words ws))"
    using assms(5,7) ws by (cases ws) (auto simp: text_dest_message_def append_message_joins Let_def)
  have c: "cmd_text_send se (''send'' # ?a) sh = text_enqueue se (fold text_opt_apply opts ?i) dest (Inr (join_words ws)) sh"
    by (simp add: cmd_text_send_def o m)
  have "\<exists>ls. text_enqueue se (fold text_opt_apply opts ?i) dest (Inr (join_words ws)) sh =
      (ok, say ls (sh\<lparr>sh_msgq := sh_msgq sh @ [text_work opts dest ws]\<rparr>))"
  proof (cases "Opt_ack \<in> set opts \<and> dest = NODE_BROADCAST")
    case True
    then show ?thesis using assms(6,8)
      by (auto simp: text_enqueue_def enqueue_shell_work_def text_opts_item text_work_def text_opts_channel_def work_item_zero_def say_def)
  next
    case False
    then show ?thesis using assms(6,8)
      by (auto simp: text_enqueue_def enqueue_shell_work_def text_opts_item text_work_def text_opts_channel_def work_item_zero_def say_def)
  qed
  with c that show thesis by auto
qed

text \<open>Turns of the worker at the given times.\<close>

fun shell_work_turns :: "env \<Rightarrow> shell_env \<Rightarrow> int list \<Rightarrow> shell \<Rightarrow> shell option" where
  "shell_work_turns ev se [] sh = Some sh"
| "shell_work_turns ev se (now # nows) sh = shell_work_turn ev se now sh \<bind> shell_work_turns ev se nows"

lemma work_turns_drain:
  assumes "shell_ok se sh" "sh_msgq sh = q @ rest" "length nows = length q"
  shows "\<exists>sh'. shell_work_turns ev se nows sh = Some sh' \<and> sh_msgq sh' = rest \<and> shell_ok se sh' \<and>
    length (sh_out sh') = length (sh_out sh) + length q"
  using assms
proof (induction nows arbitrary: sh q)
  case (Cons now nows)
  then obtain item q1 where q: "q = item # q1" by (cases q) auto
  obtain sh1 where t: "shell_work_turn ev se now sh = Some sh1" using shell_work_turn_returns [OF Cons.prems(1)] by blast
  then have "sh_msgq sh1 = q1 @ rest" "length (sh_out sh1) = Suc (length (sh_out sh))"
    using Cons.prems(2) q by (auto simp: shell_work_turn_def bind_eq_Some_conv)
  with Cons.IH [of sh1 q1] shell_work_turn_ok [OF Cons.prems(1) t] Cons.prems(3) q t show ?case by auto
qed simp

text \<open>
  C27: a text command is carried out as typed. With options in any order, a destination and a
  message of one to 233 bytes, and room in the queue, the command is accepted; after as many turns
  of the worker as commands were waiting, one result line for each, the next turn hands the
  stack exactly the words of the message with single blanks between them: through the plain text
  sender without options, otherwise in a packet for the destination on the channel of the last
  \<^verbatim>\<open>-c\<close>, with the request for an acknowledgement of \<^verbatim>\<open>-a\<close> unless it is for everyone. The
  result is reported and the queue is empty.
\<close>

theorem shell_text_sent:
  assumes "shell_ok se sh" "shell_env_ok se" "\<forall>i. Opt_channel i \<in> set opts \<longrightarrow> i < 8" "d \<noteq> ''-a''" "d \<noteq> ''-c''"
    "parse_u32 se d = Inr dest" "join_words ws \<noteq> []" "length (join_words ws) \<le> MAX_TEXT_LEN"
    "length (sh_msgq sh) < SHELL_QUEUE_SIZE se" "length nows = length (sh_msgq sh)"
  shows "\<exists>sh1 sh2 ret st. cmd_text_send se (''send'' # concat (map text_opt_words opts) @ d # ws) sh = (ok, sh1) \<and>
    shell_work_turns ev se nows sh1 = Some sh2 \<and>
    length (sh_out sh2) = length (sh_out sh1) + length (sh_msgq sh) \<and>
    (if text_opts_channel opts = CHANNEL_INDEX_INVALID \<and> \<not> (Opt_ack \<in> set opts \<and> dest \<noteq> NODE_BROADCAST)
     then send_text ev now dest (join_words ws) (sh_node sh2)
     else send_packet ev now (packet_zero\<lparr>p_to := dest, p_portnum := PORT_TEXT_MESSAGE,
        p_payload := Some (cstr_bytes (join_words ws)), p_payload_len := length (join_words ws),
        p_channel_index := text_opts_channel opts, p_want_ack := (Opt_ack \<in> set opts \<and> dest \<noteq> NODE_BROADCAST)\<rparr>) K_FOREVER (sh_node sh2))
      = Some (ret, st) \<and>
    shell_work_turn ev se now sh2 = Some (say [shell_report_result ev se ret] (sh2\<lparr>sh_msgq := [], sh_node := st\<rparr>))"
proof -
  obtain ls where q: "cmd_text_send se (''send'' # concat (map text_opt_words opts) @ d # ws) sh =
      (ok, say ls (sh\<lparr>sh_msgq := sh_msgq sh @ [text_work opts dest ws]\<rparr>))"
    by (rule text_queued [OF assms(2-9)])
  let ?s = "say ls (sh\<lparr>sh_msgq := sh_msgq sh @ [text_work opts dest ws]\<rparr>)"
  have ok1: "shell_ok se ?s" using cmd_text_send_ok [OF assms(1) q] by (simp add: shell_keeps_def)
  from work_turns_drain [OF ok1, of "sh_msgq sh" "[text_work opts dest ws]" nows ev] assms(10)
  obtain sh2 where t: "shell_work_turns ev se nows ?s = Some sh2" "sh_msgq sh2 = [text_work opts dest ws]" "shell_ok se sh2"
    "length (sh_out sh2) = length (sh_out ?s) + length (sh_msgq sh)" by auto
  obtain ret st where r: "shell_work_run ev now (text_work opts dest ws) (sh_node sh2) = Some (ret, st)"
    using shell_work_run_returns t(3) by (metis shell_ok_def node_configured_def)
  have e: "shell_work_run ev now (text_work opts dest ws) (sh_node sh2) =
    (if text_opts_channel opts = CHANNEL_INDEX_INVALID \<and> \<not> (Opt_ack \<in> set opts \<and> dest \<noteq> NODE_BROADCAST)
     then send_text ev now dest (join_words ws) (sh_node sh2)
     else send_packet ev now (packet_zero\<lparr>p_to := dest, p_portnum := PORT_TEXT_MESSAGE,
        p_payload := Some (cstr_bytes (join_words ws)), p_payload_len := length (join_words ws),
        p_channel_index := text_opts_channel opts, p_want_ack := (Opt_ack \<in> set opts \<and> dest \<noteq> NODE_BROADCAST)\<rparr>) K_FOREVER (sh_node sh2))"
    by (simp add: shell_work_run_def text_work_def)
  have "shell_work_turn ev se now sh2 = Some (say [shell_report_result ev se ret] (sh2\<lparr>sh_msgq := [], sh_node := st\<rparr>))"
    by (simp add: shell_work_turn_def t(2) r)
  with q t(1,4) r [unfolded e] show ?thesis by blast
qed

lemma channel_psk_hex_option:
  assumes "length psk = 16 \<or> length psk = 32"
  shows "channel_options se False ch [''psk'', ''hex'', psk_hex psk] =
    Inr (True, ch\<lparr>ch_settings := (ch_settings ch)\<lparr>cs_psk := psk\<rparr>\<rparr>)"
proof -
  have "shell_parse_hex_psk (psk_hex psk) = Inr psk" using assms by (auto simp: shell_parse_hex_psk_def)
  then show ?thesis by (simp add: channel_option_def shell_apply_channel_psk_def)
qed

lemma set_and_report_valid:
  assumes "shell_ok se sh" "index < 8" "channel_is_valid ch" "\<not> keyless ch"
  shows "\<exists>sh'. set_and_report ev what msg index ch sh = Some (ok, sh') \<and> shell_ok se sh' \<and>
    slot (st_ch (sh_node sh')) index = fixup_slot index (ch\<lparr>ch_index := index\<rparr>)"
proof -
  have n: "set_and_report ev what msg index ch sh \<noteq> None" using set_and_report_None [OF assms(1,2)] assms(4) by simp
  then obtain r sh1 where s: "store_set_channel ev index ch sh = Some (r, sh1)" by (auto simp: set_and_report_def bind_eq_Some_conv)
  from store_set_channel_ok [OF assms(1,2) s] assms(3) have "r = ok" "shell_ok se sh1"
    "slot (st_ch (sh_node sh1)) index = fixup_slot index (ch\<lparr>ch_index := index\<rparr>)" by simp_all
  with s show ?thesis by (simp add: set_and_report_def)
qed

lemma fixup_slot_psk: "ch_has_settings ch \<Longrightarrow> cs_psk (ch_settings (fixup_slot i ch)) = cs_psk (ch_settings ch)"
  by (simp add: fixup_slot_def Let_def)

text \<open>
  C29: a key entered in hexadecimal is the key of the slot, and the one the shell shows. On a slot
  in use, \<^verbatim>\<open>channel set\<close> with a key of 16 or 32 bytes succeeds, the slot then has exactly these bytes
  as its key and its old role, and the last line \<^verbatim>\<open>channel show\<close> prints for it are the digits
  entered.
\<close>

theorem shell_psk_roundtrip:
  assumes "shell_ok se sh" "shell_env_ok se" "i < 8" "length psk = 16 \<or> length psk = 32"
    "ch_role (slot (st_ch (sh_node sh)) i) \<in> {Role_PRIMARY, Role_SECONDARY}"
  shows "\<exists>sh'. cmd_channel_set ev se [''set'', fmt_u i, ''psk'', ''hex'', psk_hex psk] sh = Some (ok, sh') \<and>
    cs_psk (ch_settings (slot (st_ch (sh_node sh')) i)) = psk \<and>
    ch_role (slot (st_ch (sh_node sh')) i) = ch_role (slot (st_ch (sh_node sh)) i) \<and>
    last (sh_out (snd (cmd_channel_show se [''show'', fmt_u i] sh'))) = Shell_print (''psk hex: '' @ psk_hex psk)"
proof -
  let ?cur = "(slot (st_ch (sh_node sh)) i)\<lparr>ch_index := i, ch_has_settings := True\<rparr>"
  let ?ch = "?cur\<lparr>ch_settings := (ch_settings ?cur)\<lparr>cs_psk := psk\<rparr>\<rparr>"
  have p: "shell_parse_channel_index se (fmt_u i) = Inr i" by (rule parse_index_decimal [OF assms(2,3)])
  obtain msg where c: "cmd_channel_set ev se [''set'', fmt_u i, ''psk'', ''hex'', psk_hex psk] sh = set_and_report ev ''set'' msg i ?ch sh"
    using p assms(3) channel_psk_hex_option [OF assms(4), of se ?cur] by (simp add: cmd_channel_set_def channels_get_def)
  have "channel_is_valid ?ch" "\<not> keyless ?ch" using assms(4,5) by (auto simp: channel_is_valid_def keyless_def)
  from set_and_report_valid [OF assms(1,3) this, of ev "''set''" msg] obtain sh' where
    s: "set_and_report ev ''set'' msg i ?ch sh = Some (ok, sh')" "slot (st_ch (sh_node sh')) i = fixup_slot i (?ch\<lparr>ch_index := i\<rparr>)" by blast
  then have k: "cs_psk (ch_settings (slot (st_ch (sh_node sh')) i)) = psk" "ch_has_settings (slot (st_ch (sh_node sh')) i)"
    "ch_role (slot (st_ch (sh_node sh')) i) = ch_role (slot (st_ch (sh_node sh)) i)"
    by (simp_all add: fixup_slot_psk fixup_slot_role)
  have "shell_print_psk_hex (slot (st_ch (sh_node sh')) i) = [Shell_print (''psk hex: '' @ psk_hex psk)]"
    using k assms(4,5) by (auto simp: shell_print_psk_hex_def)
  then have "last (sh_out (snd (cmd_channel_show se [''show'', fmt_u i] sh'))) = Shell_print (''psk hex: '' @ psk_hex psk)"
    using p assms(3) by (simp add: cmd_channel_show_def channels_get_def Let_def)
  with c s(1) k show ?thesis by simp
qed

text \<open>
  C30: what the shell makes of a decimal node number. A number of 32 bits is itself. A larger one is
  refused only where \<^verbatim>\<open>unsigned long\<close> is wider than 32 bits; on a 32-bit target \<^verbatim>\<open>strtoul\<close> saturates, the
  check against \<^verbatim>\<open>UINT32_MAX\<close> never fires, and the message goes to everyone.
\<close>

theorem shell_number_bounds:
  assumes "shell_env_ok se"
  shows "parse_u32 se (fmt_u n) =
    (if n < 2 ^ 32 then Inr (word_of_nat n)
     else if sh_ulong_max se = 2 ^ 32 - 1 then Inr NODE_BROADCAST
     else Inl (''invalid integer: '' @ fmt_u n))"
proof -
  have "CHR ''b'' \<notin> set (fmt_u n)" using fmt_u_decimal [of n] by auto
  then have b: "fmt_u n \<noteq> ''broadcast''" by (metis list.set_intros(1))
  have m: "2 ^ 32 - 1 \<le> sh_ulong_max se" using assms by (simp add: shell_env_ok_def)
  show ?thesis using b m by (simp add: parse_u32_def strtoul0_decimal min_def)
qed

text \<open>A fixed point value is printed by its size alone unless it is at least one below zero: \<open>-0.5\<close> loses its sign.\<close>

lemma fmt_tenths_sign: "fmt_tenths v = (if v \<le> - 10 then ''-'' else []) @ fmt_tenths \<bar>v\<bar>"
proof -
  have f: "scaled_fraction v 10 = scaled_fraction \<bar>v\<bar> 10"
    by (simp add: scaled_fraction_def Let_def signed_modulo_int_def signed_divide_int_def sgn_if abs_if minus_div_mult_eq_mod)
  have w: "scaled_whole v 10 = (if v < 0 then - (\<bar>v\<bar> div 10) else v div 10)" "scaled_whole \<bar>v\<bar> 10 = \<bar>v\<bar> div 10"
    by (simp_all add: scaled_whole_def signed_divide_int_def sgn_if)
  show ?thesis
  proof (cases "v \<le> - 10")
    case True
    then have "0 < \<bar>v\<bar> div 10" by auto
    with True f w show ?thesis by (simp add: fmt_tenths_def fmt_d_def)
  next
    case False
    then have "v < 0 \<Longrightarrow> \<bar>v\<bar> div 10 = 0" by auto
    with False f w show ?thesis by (auto simp: fmt_tenths_def fmt_d_def)
  qed
qed

text \<open>A role or mode is accepted by the name the shell prints for it.\<close>

lemma role_names_parse:
  "\<forall>r \<in> set [0, 1, 2, 5, 6, 7, 8, 9, 10, 11, 12]. shell_parse_device_role (shell_device_role_name r) = Inr r"
  "\<forall>m < 6. shell_parse_rebroadcast_mode (shell_rebroadcast_mode_name m) = Inr m"
  "\<forall>r \<le> Role_SECONDARY. shell_parse_channel_role (shell_channel_role_name r) = Inr r"
  by code_simp+

section \<open>From the keyboard to the other node\<close>

lemma report_done: "shell_report_result ev se ret = Shell_print ''done'' \<longleftrightarrow> ret = ok"
  by (cases ret) (simp_all add: shell_report_result_def)

text \<open>Whether a text asks for an acknowledgement, and the slot named to the sender: slot 0 without options.\<close>

definition text_acked :: "text_opt list \<Rightarrow> u32 \<Rightarrow> bool" where
  "text_acked opts dest \<longleftrightarrow> Opt_ack \<in> set opts \<and> dest \<noteq> NODE_BROADCAST"

definition text_slot :: "text_opt list \<Rightarrow> u32 \<Rightarrow> u8" where
  "text_slot opts dest = (if text_opts_channel opts = CHANNEL_INDEX_INVALID \<and> \<not> text_acked opts dest then 0 else text_opts_channel opts)"

lemma text_work_packet:
  assumes "join_words ws \<noteq> []" "length (join_words ws) \<le> MAX_TEXT_LEN"
  shows "shell_work_run ev now (text_work opts dest ws) st =
    send_packet ev now (text_request_on (text_slot opts dest) (text_acked opts dest) dest (join_words ws)) K_FOREVER st"
proof (cases "text_opts_channel opts = CHANNEL_INDEX_INVALID \<and> \<not> text_acked opts dest")
  case True
  then show ?thesis using assms
    by (auto simp: shell_work_run_def text_work_def text_slot_def text_acked_def send_text_def send_data_def packet_zero_def)
next
  case False
  then show ?thesis using assms
    by (auto simp: shell_work_run_def text_work_def text_slot_def text_acked_def packet_zero_def)
qed

text \<open>
  C2: what is typed at one node is read at the other. A text command is entered at the shell of
  a running node, other commands may be waiting before it; when its turn comes the worker sends it
  and the shell reports that it is done. Then every node in range that shares the channel the message
  goes out on, decodes packets of the sender and has not seen the packet gets, from the newest frame
  on the air, the words typed with single blanks between them, with sender, destination and the
  request for an acknowledgement. It is told once to the receive callback and once as a received
  packet, and besides only once as a text, when the message module is built in.
\<close>

theorem shell_text_delivered:
  assumes "shell_ok se sh" "shell_env_ok se" "\<forall>i. Opt_channel i \<in> set opts \<longrightarrow> i < 8" "d \<noteq> ''-a''" "d \<noteq> ''-c''"
    "parse_u32 se d = Inr dest" "join_words ws \<noteq> []" "length (join_words ws) \<le> MAX_TEXT_LEN"
    "length (sh_msgq sh) < SHELL_QUEUE_SIZE se" "length nows = length (sh_msgq sh)"
    "cmd_text_send se (''send'' # concat (map text_opt_words opts) @ d # ws) sh = (ok, sh1)"
    "shell_work_turns eva se nows sh1 = Some sh2" "shell_work_turn eva se now sh2 = Some sh3" "last (sh_out sh3) = Shell_print ''done''"
    and net: "pb_Data_ok (ev_pb eva)" "psa_ctr_ok (ev_psa eva)" "ev_pb evb = ev_pb eva" "ev_psa evb = ev_psa eva"
    and nodes: "channels_live (st_ch b)" "mt_initialized (mt (sh_node sh2))" "dest \<noteq> 0" "dest = mt_node_id (mt b) \<or> dest = NODE_BROADCAST"
      "shares_channel (st_ch (sh_node sh2)) (channels_resolve_send_index (ev_k eva) (st_db (sh_node sh2)) (st_ch (sh_node sh2)) dest
         (asked_slot (sh_node sh2) (text_slot opts dest)) 0) (st_ch b) j"
      "decode_known_only (ev_k evb) (st_db b) (st_ch b) (mt_node_id (mt (sh_node sh2)))" "mt_recv_cb (mt b)" "mt_event_cb (mt b)"
      "\<not> frame_seen evb (last (r_on_air (st_radio (sh_node sh3)))) b"
  shows "\<exists>b' p rest. router_process_lora_rx evb now' (last (r_on_air (st_radio (sh_node sh3)))) rssi snr b = Some b' \<and>
    mt_log (mt b') = mt_log (mt b) @ [RecvCb p, Event EVENT_PACKET_RECEIVED None (Some p)] @ rest \<and>
    filter is_delivery rest = (if MESSAGE (ev_m evb) \<and> p_from p \<noteq> 0 \<and> p_from p \<noteq> mt_node_id (mt b)
      then [Event EVENT_TEXT_MESSAGE None (Some p)] else []) \<and>
    p_payload p = Some (cstr_bytes (join_words ws)) \<and> p_payload_len p = length (join_words ws) \<and>
    p_from p = mt_node_id (mt (sh_node sh2)) \<and> p_to p = dest \<and> p_want_ack p = text_acked opts dest"
proof -
  obtain ls where q: "cmd_text_send se (''send'' # concat (map text_opt_words opts) @ d # ws) sh =
      (ok, say ls (sh\<lparr>sh_msgq := sh_msgq sh @ [text_work opts dest ws]\<rparr>))"
    by (rule text_queued [OF assms(2-9)])
  then have sh1: "sh1 = say ls (sh\<lparr>sh_msgq := sh_msgq sh @ [text_work opts dest ws]\<rparr>)" using assms(11) by simp
  have "shell_ok se sh1" using cmd_text_send_ok [OF assms(1,11)] by (simp add: shell_keeps_def)
  from work_turns_drain [OF this, of "sh_msgq sh" "[text_work opts dest ws]" nows eva] assms(10,12) sh1
  have sh2: "sh_msgq sh2 = [text_work opts dest ws]" "shell_ok se sh2" by auto
  from assms(13) sh2(1) obtain ret a' where r: "shell_work_run eva now (text_work opts dest ws) (sh_node sh2) = Some (ret, a')"
    and sh3: "sh_node sh3 = a'" "last (sh_out sh3) = shell_report_result eva se ret"
    by (auto simp: shell_work_turn_def bind_eq_Some_conv say_def)
  have "ret = ok" using assms(14) sh3(2) report_done by metis
  with r text_work_packet [OF assms(7,8)]
  have s: "send_packet eva now (text_request_on (text_slot opts dest) (text_acked opts dest) dest (join_words ws)) K_FOREVER (sh_node sh2) = Some (ok, a')" by simp
  have inv: "channels_inv (st_ch (sh_node sh2))" using sh2(2) by (simp add: shell_ok_def node_configured_def channels_live_def)
  have len: "0 < length (join_words ws)" using assms(7) by simp
  have told: "text_told evb p True nid = (if MESSAGE (ev_m evb) \<and> p_from p \<noteq> 0 \<and> p_from p \<noteq> nid
      then [Event EVENT_TEXT_MESSAGE None (Some p)] else [])"
    if "p_portnum p = PORT_TEXT_MESSAGE" "p_payload p = Some x" "p_payload_len p \<noteq> 0" "p_to p = nid \<or> p_to p = NODE_BROADCAST" for p x nid
    using that by (auto simp: text_told_def)
  show ?thesis
    by (rule text_packet_delivered [OF net inv nodes(1,2) s nodes(3-6) _ len assms(8), of now' rssi snr])
      (use nodes(4,7-9) sh3(1) told assms(7) in auto)
qed

end
