(* ===== verification/Announce.thy ===== *)
theory Announce
  imports Modules
begin

text \<open>
  The threads that send without being asked: the telemetry thread of \<^verbatim>\<open>src/meshtastic_metrics.c\<close>,
  the environment thread of \<^verbatim>\<open>src/meshtastic_environment.c\<close> and the announcements of
  \<^verbatim>\<open>src/meshtastic_nodeinfo.c\<close>. A turn is what a thread does between two sleeps; a run is a list
  of the times at which it woke up. \<^verbatim>\<open>k_sleep\<close> sleeps at least as long as it is told to.
\<close>

section \<open>The threads\<close>

record announce_kconfig =
  DEVICE_METRICS_AUTO_SEND :: bool
  DEVICE_METRICS_INTERVAL_SEC :: nat
  ENVIRONMENT_METRICS_AUTO_SEND :: bool
  ENVIRONMENT_METRICS_INTERVAL_SEC :: nat
  NODEINFO_START_DELAY_SEC :: nat
  NODEINFO_INTERVAL_SEC :: nat

definition environment_auto :: "env \<Rightarrow> announce_kconfig \<Rightarrow> bool" where
  "environment_auto ev ak \<longleftrightarrow> ENVIRONMENT_METRICS (ev_m ev) \<and> ENVIRONMENT_METRICS_AUTO_SEND ak"

definition telemetry_period_sec :: "env \<Rightarrow> announce_kconfig \<Rightarrow> nat" where
  "telemetry_period_sec ev ak =
     (let period = 2 ^ 32 - 1;
          period = (if DEVICE_METRICS_AUTO_SEND ak then min period (DEVICE_METRICS_INTERVAL_SEC ak) else period)
      in if environment_auto ev ak then min period (ENVIRONMENT_METRICS_INTERVAL_SEC ak) else period)"

text \<open>The results of the senders are ignored; \<open>None\<close> is a key lookup that does not return.\<close>

definition telemetry_turn_device :: "env \<Rightarrow> announce_kconfig \<Rightarrow> int \<Rightarrow> node \<Rightarrow> node option" where
  "telemetry_turn_device ev ak now st =
     (if DEVICE_METRICS_AUTO_SEND ak then map_option snd (send_device_metrics ev now NODE_BROADCAST K_NO_WAIT st) else Some st)"

definition env_thread_turn :: "env \<Rightarrow> int \<Rightarrow> node \<Rightarrow> node option" where
  "env_thread_turn ev now st = map_option snd (send_environment ev now NODE_BROADCAST K_NO_WAIT st)"

definition telemetry_thread_turn :: "env \<Rightarrow> announce_kconfig \<Rightarrow> int \<Rightarrow> node \<Rightarrow> node option" where
  "telemetry_thread_turn ev ak now st =
     telemetry_turn_device ev ak now st \<bind> (if environment_auto ev ak then env_thread_turn ev now else Some)"

definition nodeinfo_thread_turn :: "env \<Rightarrow> int \<Rightarrow> node \<Rightarrow> node option" where
  "nodeinfo_thread_turn ev now st = map_option snd (send_node_info ev now NODE_BROADCAST st)"

text \<open>The times at which a thread wakes that sleeps \<open>p\<close> milliseconds before each turn.\<close>

fun wakes :: "int \<Rightarrow> int \<Rightarrow> int list \<Rightarrow> bool" where
  "wakes t p [] = True"
| "wakes t p (u # us) \<longleftrightarrow> t + p \<le> u \<and> wakes u p us"

fun thread_run :: "(int \<Rightarrow> node \<Rightarrow> node option) \<Rightarrow> int list \<Rightarrow> node \<Rightarrow> node option" where
  "thread_run turn [] st = Some st"
| "thread_run turn (t # ts) st = turn t st \<bind> thread_run turn ts"

text \<open>The announcements wait for the start delay first and sleep after each turn.\<close>

definition nodeinfo_wakes :: "announce_kconfig \<Rightarrow> int \<Rightarrow> int list \<Rightarrow> bool" where
  "nodeinfo_wakes ak t ts \<longleftrightarrow>
     (case ts of
        [] \<Rightarrow> True
      | u # us \<Rightarrow> t + 1000 * int (NODEINFO_START_DELAY_SEC ak) \<le> u \<and> wakes u (1000 * int (NODEINFO_INTERVAL_SEC ak)) us)"

section \<open>Threads as interfaces\<close>

text \<open>
  A background thread: its turns return while the key lookups do, and leave alone what the data
  path does not touch. A periodic sender also hands at most \<open>n\<close> frames to the radio in a turn.
\<close>

locale background_thread =
  fixes turn :: "int \<Rightarrow> node \<Rightarrow> node option"
  assumes returns: "channels_live (st_ch st) \<Longrightarrow> \<exists>st'. turn now st = Some st' \<and> keeps st st'"
begin

lemma run_returns:
  assumes "channels_live (st_ch st)"
  shows "\<exists>st'. thread_run turn ts st = Some st' \<and> keeps st st'"
  using assms
proof (induction ts arbitrary: st)
  case (Cons t ts)
  obtain st1 where t: "turn t st = Some st1" "keeps st st1" using returns Cons.prems by blast
  from Cons.IH [of st1] keepsD(1) [OF t(2)] Cons.prems obtain st2 where "thread_run turn ts st1 = Some st2" "keeps st1 st2" by auto
  with t show ?case by (auto intro: keeps_trans)
qed auto

end

locale periodic_sender = background_thread +
  fixes n :: nat
  assumes sends: "sends_at_most n (turn now)"
begin

lemma run_sends: "sends_at_most (n * length ts) (thread_run turn ts)"
proof (induction ts)
  case Nil
  show ?case by (simp add: sends_at_most_def)
next
  case (Cons t ts)
  have "thread_run turn (t # ts) = (\<lambda>st. turn t st \<bind> thread_run turn ts)" by auto
  with sends_bind [OF sends [of t] Cons] show ?case by simp
qed

end

lemma wakes_count:
  assumes "wakes t p ts" "\<forall>u\<in>set ts. u \<le> e" "0 < p" "t \<le> e"
  shows "int (length ts) * p \<le> e - t"
  using assms
proof (induction ts arbitrary: t)
  case (Cons u us)
  then have "int (length us) * p \<le> e - u" "t + p \<le> u" by auto
  then show ?case by (simp add: algebra_simps)
qed simp

section \<open>The senders as background threads\<close>

lemma sent_quietly:
  assumes "channels_live (st_ch st)"
  shows "\<exists>st'. map_option snd (send_data ev now dest port payload len wait st) = Some st' \<and> keeps st st'"
proof -
  obtain ret st' where "send_data ev now dest port payload len wait st = Some (ret, st')"
    using send_packet_returns [OF assms] unfolding send_data_def by blast
  then show ?thesis using keeps_send_packet unfolding send_data_def by force
qed

lemma telemetry_quietly:
  assumes "channels_live (st_ch st)"
  shows "\<exists>st'. map_option snd (send_telemetry ev now dest t wait st) = Some st' \<and> keeps st st'"
  using sent_quietly [OF assms] by (auto simp: send_telemetry_def intro: keeps_emit split: option.split)

lemma sends_telemetry: "sends_at_most 1 (\<lambda>st. map_option snd (send_telemetry ev now dest t K_NO_WAIT st))"
  unfolding sends_at_most_def
proof (intro allI impI)
  fix st st'
  assume s: "map_option snd (send_telemetry ev now dest t K_NO_WAIT st) = Some st'"
  show "\<exists>ws. frames st' = frames st @ ws \<and> length ws \<le> 1"
  proof (cases "pb_encode (enc_Telemetry (ev_mpb ev)) MAX_PAYLOAD_LEN t")
    case None
    with s show ?thesis by (auto simp: send_telemetry_def frames_def emit_event_def)
  next
    case (Some payload)
    with s obtain ret where "send_packet ev now (packet_zero\<lparr>p_to := dest, p_portnum := PORT_TELEMETRY,
        p_payload := Some payload, p_payload_len := length payload\<rparr>) K_NO_WAIT st = Some (ret, st')"
      by (auto simp: send_telemetry_def send_data_def)
    then show ?thesis by (rule frames_send_no_wait) blast
  qed
qed

interpretation environment_thread: periodic_sender "env_thread_turn ev" 1 for ev
proof
  fix st :: node and now
  assume "channels_live (st_ch st)"
  then show "\<exists>st'. env_thread_turn ev now st = Some st' \<and> keeps st st'"
    using telemetry_quietly by (auto simp: env_thread_turn_def send_environment_def intro: keeps_emit split: sum.split)
next
  fix now
  have "\<exists>ws. frames st' = frames st @ ws \<and> length ws \<le> 1" if "env_thread_turn ev now st = Some st'" for st st'
  proof (cases "collect_environment (ev_sensors ev now)")
    case (Inl e)
    with that show ?thesis by (auto simp: env_thread_turn_def send_environment_def frames_def emit_event_def)
  next
    case (Inr m)
    with that have "map_option snd (send_telemetry ev now NODE_BROADCAST (Telemetry_environment_metrics m) K_NO_WAIT st) = Some st'"
      by (simp add: env_thread_turn_def send_environment_def)
    from sends_at_mostD [OF sends_telemetry this] show ?thesis by blast
  qed
  then show "sends_at_most 1 (env_thread_turn ev now)" by (simp add: sends_at_most_def)
qed

interpretation device_thread: periodic_sender "telemetry_turn_device ev ak" "of_bool (DEVICE_METRICS_AUTO_SEND ak)" for ev ak
proof
  fix st :: node and now
  assume "channels_live (st_ch st)"
  then show "\<exists>st'. telemetry_turn_device ev ak now st = Some st' \<and> keeps st st'"
    using telemetry_quietly by (auto simp: telemetry_turn_device_def send_device_metrics_def)
next
  fix now
  have "\<exists>ws. frames st' = frames st @ ws \<and> length ws \<le> of_bool (DEVICE_METRICS_AUTO_SEND ak)"
    if "telemetry_turn_device ev ak now st = Some st'" for st st'
  proof (cases "DEVICE_METRICS_AUTO_SEND ak")
    case True
    with that have "map_option snd (send_telemetry ev now NODE_BROADCAST (Telemetry_device_metrics (collect_device_metrics ev now st)) K_NO_WAIT st) = Some st'"
      by (simp add: telemetry_turn_device_def send_device_metrics_def)
    from sends_at_mostD [OF sends_telemetry this] True show ?thesis by auto
  qed (use that in \<open>simp add: telemetry_turn_device_def\<close>)
  then show "sends_at_most (of_bool (DEVICE_METRICS_AUTO_SEND ak)) (telemetry_turn_device ev ak now)" by (simp add: sends_at_most_def)
qed

interpretation telemetry_thread: periodic_sender "telemetry_thread_turn ev ak"
  "of_bool (DEVICE_METRICS_AUTO_SEND ak) + of_bool (environment_auto ev ak)" for ev ak
proof
  fix st :: node and now
  assume l: "channels_live (st_ch st)"
  then obtain st1 where d: "telemetry_turn_device ev ak now st = Some st1" "keeps st st1" using device_thread.returns by blast
  have "channels_live (st_ch st1)" using l keepsD(1) [OF d(2)] by simp
  then obtain st2 where "(if environment_auto ev ak then env_thread_turn ev now else Some) st1 = Some st2" "keeps st1 st2"
    using environment_thread.returns [of st1 ev now] by (cases "environment_auto ev ak") auto
  with d show "\<exists>st'. telemetry_thread_turn ev ak now st = Some st' \<and> keeps st st'"
    by (auto simp: telemetry_thread_turn_def intro: keeps_trans)
next
  fix now
  have "sends_at_most (of_bool (environment_auto ev ak)) (if environment_auto ev ak then env_thread_turn ev now else Some)"
    using environment_thread.sends [of ev now] by (simp add: sends_at_most_def)
  from sends_bind [OF device_thread.sends this]
  show "sends_at_most (of_bool (DEVICE_METRICS_AUTO_SEND ak) + of_bool (environment_auto ev ak)) (telemetry_thread_turn ev ak now)"
    by (simp add: sends_at_most_def telemetry_thread_turn_def)
qed

interpretation nodeinfo_thread: background_thread "nodeinfo_thread_turn ev" for ev
proof
  fix st :: node and now
  assume l: "channels_live (st_ch st)"
  show "\<exists>st'. nodeinfo_thread_turn ev now st = Some st' \<and> keeps st st'"
  proof (cases "nodeinfo_build_packet ev NODE_BROADCAST False 0 0 st")
    case (Inr p)
    obtain ret st' where "send_packet ev now p K_FOREVER st = Some (ret, st')" using send_packet_returns [OF l] by blast
    with Inr show ?thesis using keeps_send_packet by (force simp: nodeinfo_thread_turn_def send_node_info_def send_node_info_ex_def)
  qed (simp add: nodeinfo_thread_turn_def send_node_info_def send_node_info_ex_def)
qed

section \<open>How often the threads send\<close>

lemma telemetry_period_min:
  assumes "DEVICE_METRICS_INTERVAL_SEC ak \<le> 86400" "ENVIRONMENT_METRICS_INTERVAL_SEC ak \<le> 86400"
  shows "telemetry_period_sec ev ak =
    (if DEVICE_METRICS_AUTO_SEND ak
     then if environment_auto ev ak then min (DEVICE_METRICS_INTERVAL_SEC ak) (ENVIRONMENT_METRICS_INTERVAL_SEC ak)
       else DEVICE_METRICS_INTERVAL_SEC ak
     else if environment_auto ev ak then ENVIRONMENT_METRICS_INTERVAL_SEC ak else 2 ^ 32 - 1)"
  using assms by (simp add: telemetry_period_sec_def Let_def)

text \<open>
  C31: the telemetry thread never stops and keeps to its period. Whenever it wakes, each turn
  returns without touching channels, configuration or identity, and up to any moment the frames it
  has handed to the radio are at most one per enabled kind of telemetry and elapsed period, nothing
  queued before being lost. The period is the shorter of the two configured intervals, for both kinds.
\<close>

theorem telemetry_rate:
  assumes "channels_live (st_ch st)" "wakes t0 (1000 * int (telemetry_period_sec ev ak)) ts" "\<forall>t\<in>set ts. t \<le> t1" "t0 \<le> t1"
    "DEVICE_METRICS_INTERVAL_SEC ak \<in> {30..86400}" "ENVIRONMENT_METRICS_INTERVAL_SEC ak \<in> {30..86400}"
  shows "\<exists>st' ws. thread_run (telemetry_thread_turn ev ak) ts st = Some st' \<and> keeps st st' \<and> frames st' = frames st @ ws \<and>
    int (length ws) * (1000 * int (telemetry_period_sec ev ak)) \<le>
      (of_bool (DEVICE_METRICS_AUTO_SEND ak) + of_bool (environment_auto ev ak)) * (t1 - t0) \<and>
    (DEVICE_METRICS_AUTO_SEND ak \<and> environment_auto ev ak \<longrightarrow>
      telemetry_period_sec ev ak = min (DEVICE_METRICS_INTERVAL_SEC ak) (ENVIRONMENT_METRICS_INTERVAL_SEC ak))"
proof -
  let ?n = "of_bool (DEVICE_METRICS_AUTO_SEND ak) + of_bool (environment_auto ev ak) :: nat"
  let ?p = "1000 * int (telemetry_period_sec ev ak)"
  obtain st' where r: "thread_run (telemetry_thread_turn ev ak) ts st = Some st'" "keeps st st'"
    using telemetry_thread.run_returns [OF assms(1)] by blast
  obtain ws where ws: "frames st' = frames st @ ws" "length ws \<le> ?n * length ts"
    using sends_at_mostD [OF telemetry_thread.run_sends r(1)] by blast
  note m = telemetry_period_min [of ak ev]
  have p: "0 < ?p" using m assms(5,6) by (simp split: if_splits)
  have c: "int (length ts) * ?p \<le> t1 - t0" by (rule wakes_count [OF assms(2,3) p assms(4)])
  have "int (length ws) * ?p \<le> int ?n * int (length ts) * ?p"
  proof (rule mult_right_mono)
    have "int (length ws) \<le> int (?n * length ts)" using ws(2) by (simp only: of_nat_le_iff)
    then show "int (length ws) \<le> int ?n * int (length ts)" by (simp only: of_nat_mult)
  qed (use p in simp)
  also have "\<dots> \<le> int ?n * (t1 - t0)" using c by (simp only: mult.assoc mult_left_mono of_nat_0_le_iff)
  finally have "int (length ws) * ?p \<le> int ?n * (t1 - t0)" .
  with r ws(1) m assms(5,6) show ?thesis by (intro exI [of _ st'] exI [of _ ws]) simp
qed

end
