(* ===== verification/Scenarios.thy ===== *)
theory Scenarios
  imports Examples Network Boot Shell Announce
begin

text \<open>
  Two sample nodes in radio range of each other, and the theorems on whole nodes applied to them:
  the first one sends a text and later receives the acknowledgement, the second one receives,
  acknowledges and relays. The theorems on transports, gateway, start, shell and telemetry are applied
  to the same nodes.
\<close>

section \<open>The sample nodes\<close>

definition ex_ack_data :: data where
  "ex_ack_data = data_zero\<lparr>d_portnum := 5, d_payload := [24, 0], d_request_id := 7\<rparr>"

definition ex_nanopb2 :: nanopb where
  "ex_nanopb2 = ex_nanopb\<lparr>
     enc_Data := (\<lambda>d. if d = ex_data then Some [8, 1, 18, 2, 104, 105]
                     else if d = ex_ack_data then Some [8, 5, 18, 2, 24, 0, 53, 7, 0, 0, 0] else None),
     dec_Data := (\<lambda>bs. if bs = [8, 1, 18, 2, 104, 105] then Some ex_data
                      else if bs = [8, 5, 18, 2, 24, 0, 53, 7, 0, 0, 0] then Some ex_ack_data
                      else if bs = [] then Some data_zero else None)\<rparr>"

definition ex_world :: env where
  "ex_world = \<lparr>ev_k = default_kconfig,
     ev_m = \<lparr>MESSAGE = True, NODEINFO = True, NODEINFO_PEER_CACHE_SIZE = 4, NODEINFO_UNKNOWN_SUPPRESS_SEC = 60,
       NODEINFO_REPLY_SUPPRESS_SEC = 60, DEVICE_METRICS = True, ENVIRONMENT_METRICS = False,
       TELEMETRY_WANT_RESPONSE = True, TELEMETRY_REPLY_SUPPRESS_SEC = 60, GNSS_ALIAS = False, GNSS_AUTO_SEND = False,
       GNSS_SEND_INTERVAL_SEC = 900, GNSS_RETRY_INTERVAL_SEC = 30, GNSS_REPLY_SUPPRESS_SEC = 180\<rparr>,
     ev_pb = ex_nanopb2, ev_mpb = \<lparr>enc_Telemetry = (\<lambda>t. None), enc_Position = (\<lambda>p. None)\<rparr>, ev_pc = ex_phone_codec,
     ev_mc = ex_mqtt_codec, ev_psa = ex_psa, ev_drv = ex_driver, ev_errno = (\<lambda>e. 22), ev_hw_model = 255,
     ev_percent = (\<lambda>a b. 0),
     ev_sensors = (\<lambda>n. \<lparr>fg_ready = False, fg_relative_pct = None, fg_absolute_pct = None, fg_voltage = None,
       sn_ambient_temp = None, sn_die_temp = None, sn_humidity = None, sn_pressure = None, sn_gas = None, sn_light = None\<rparr>)\<rparr>"

definition ex_node :: node where
  "ex_node = \<lparr>st_link = \<lparr>l_mt = ex_mt, l_radio = radio_zero, l_air = airtime_init\<rparr>, st_ch = stale_table, st_db = ex_db,
     st_rel = \<lparr>rel_entries = replicate 3 reliable_entry_zero, rel_work = None\<rparr>, st_phones = [phoneapi_init 4],
     st_mqtt = ex_mqtt, st_store = ex_store,
     st_peers = replicate 4 (fresh_peer 0 0), st_dev_peers = replicate 4 \<lparr>tp_from = 0, tp_last_reply_ms = 0, tp_reply_time_valid = False\<rparr>,
     st_env_peers = [], st_gnss = \<lparr>gs_data = \<lparr>gd_latitude = 0, gd_longitude = 0, gd_altitude = 0, gd_speed = 0, gd_bearing = 0,
       gd_hdop = 0, gd_fix_quality = 0, gd_fix_status = FIX_NO_FIX, gd_satellites_cnt = 0, gd_geoid_separation = 0\<rparr>,
       gs_has_fix = False, gs_seq = 0, gs_last_sent_ms = 0, gs_last_attempt_ms = 0, gs_last_reply_ms = 0,
       gs_reply_time_valid = False, gs_work_submitted = False\<rparr>\<rparr>"

definition ex_peer :: node where
  "ex_peer = set_mt ex_mt2 ex_node"

lemma ex_nanopb2_ok: "pb_Data_ok ex_nanopb2"
  by (auto simp: pb_Data_ok_def pb_roundtrip_def ex_nanopb2_def ex_data_def ex_ack_data_def data_zero_def)

lemma ex_routing_ok: "pb_roundtrip (enc_Routing ex_nanopb2) (dec_Routing ex_nanopb2)"
  by (auto simp: pb_roundtrip_def ex_nanopb2_def ex_nanopb_def)

lemma ex_world_simps [simp]:
  "ev_k ex_world = default_kconfig" "ev_pb ex_world = ex_nanopb2" "ev_psa ex_world = ex_psa" "ev_drv ex_world = ex_driver"
  by (simp_all add: ex_world_def)

lemma ex_node_simps [simp]:
  "mt ex_node = ex_mt" "st_ch ex_node = stale_table" "st_db ex_node = ex_db" "st_radio ex_node = radio_zero"
  "mt ex_peer = ex_mt2" "st_ch ex_peer = stale_table" "st_db ex_peer = ex_db" "st_radio ex_peer = radio_zero"
  by (simp_all add: ex_node_def ex_peer_def)

lemma ex_live [simp]: "channels_live (st_ch ex_node)" "channels_live (st_ch ex_peer)"
  using ex_table_live by simp_all

section \<open>Sending\<close>

theorem send_packet_on_air_witness:
  "\<exists>ret st'. send_packet ex_world 1000 (ex_packet\<lparr>p_id := 0, p_hop_limit := 0\<rparr>) K_FOREVER ex_node = Some (ret, st') \<and>
    (ret = ok \<longrightarrow> (\<exists>wire oks. r_on_air (st_radio st') = oks @ [wire] \<and> r_outbound (st_radio st') = []))"
proof -
  have "\<not> payload_args_bad (ex_packet\<lparr>p_id := 0, p_hop_limit := 0\<rparr>)" by code_simp
  from send_packet_on_air [OF ex_live(1) _ _ this, of ex_world 1000]
  show ?thesis by (auto simp: ex_mt_def ex_packet_def radio_zero_def)
qed

theorem send_packet_failure_witness:
  "send_packet ex_world 1000 (ex_packet\<lparr>p_to := 0\<rparr>) K_NO_WAIT ex_node = Some (Inl EINVAL, ex_node)"
proof -
  obtain e st' where s: "send_packet ex_world 1000 (ex_packet\<lparr>p_to := 0\<rparr>) K_NO_WAIT ex_node = Some (Inl e, st')"
    using send_packet_refused [of ex_node "ex_packet\<lparr>p_to := 0\<rparr>" ex_world 1000 K_NO_WAIT] by auto
  from send_packet_failure [OF s] s show ?thesis by simp
qed

section \<open>Receiving\<close>

theorem dispatch_amplification_witness:
  "\<exists>st' ws. dispatch_modules ex_world 1000 (ex_packet\<lparr>p_from := 0x99\<rparr>) ex_node = Some st' \<and>
    frames st' = frames ex_node @ ws \<and> length ws \<le> 1"
  using dispatch_amplification [OF ex_live(1), of ex_world 1000 "ex_packet\<lparr>p_from := 0x99\<rparr>"]
  by (simp add: ex_packet_def ex_mt_def)

definition ex_frame :: bytes where
  "ex_frame = [255, 255, 255, 255, 0x44, 0x33, 0x22, 0x11, 7, 0, 0, 0, 0x63, 8, 0, 0, 0x52, 0x5B, 0x48, 0x58, 0x32, 0x33]"

theorem relay_rule_witness:
  "\<exists>w'. r_outbound (st_radio (routing_sniff_rebroadcast ex_world (get_header ex_frame) ex_frame ex_packet ex_peer)) = [w'] \<and>
    relayed_copy ex_frame w'"
proof -
  have "16 \<le> length ex_frame" "length ex_frame \<le> 255" by (simp_all add: ex_frame_def)
  note r = relay_rule [OF this refl, where st = ex_peer and ev = ex_world and p = ex_packet]
  have "is_rebroadcaster stale_table \<and> ct_rebroadcast_mode stale_table \<noteq> Rebroadcast_LOCAL_ONLY \<and>
      h_src (get_header ex_frame) \<noteq> mt_node_id ex_mt2 \<and> h_dest (get_header ex_frame) \<noteq> mt_node_id ex_mt2 \<and>
      h_flags (get_header ex_frame) AND 7 \<noteq> 0 \<and> p_id ex_packet \<noteq> 0" by code_simp
  with r show ?thesis by (auto simp: radio_zero_def default_kconfig_def)
qed

theorem flood_bounded_witness:
  "\<exists>w'. relays 1 ex_frame w' \<and> unat (h_flags (get_header w') AND 0x07) = 2 \<and> frame_key w' = (0x11223344, 7)"
proof -
  have len: "16 \<le> length ex_frame" "length ex_frame \<le> 255" by (simp_all add: ex_frame_def)
  let ?st' = "routing_sniff_rebroadcast ex_world (get_header ex_frame) ex_frame ex_packet ex_peer"
  have m: "may_relay ex_peer ex_frame ex_packet" by (simp add: may_relay_def) code_simp
  then have "r_outbound (st_radio ?st') = r_outbound (st_radio ex_peer) @
      [ex_frame[12 := relay_flags (h_flags (get_header ex_frame)) (h_flags (get_header ex_frame) AND 7)]]"
    by (simp add: sniff_spec [OF len] radio_zero_def default_kconfig_def)
  from relays.hop [OF relays.here len this] obtain w' where w': "relays 1 ex_frame w'" by auto
  have "unat (h_flags (get_header ex_frame) AND 7) = 3 \<and> frame_key ex_frame = (0x11223344, 7)" by code_simp
  with flood_bounded [OF w'] w' show ?thesis by auto
qed

lemma ex_dup_inv: "dup_inv default_kconfig ex_mt" "dup_inv default_kconfig ex_mt2"
  by code_simp+

theorem no_duplicate_delivery_witness:
  "\<exists>st2 st3. rx_run ex_world [(1000, ex_frame, - 90, 5)] ex_peer = Some st2 \<and>
    router_process_lora_rx ex_world 2000 (ex_frame[12 := 0x62]) (- 95) 4 st2 = Some st3 \<and> delivered st3 = delivered st2 \<and>
    s_duplicate_packets (mt_status (mt st3)) = s_duplicate_packets (mt_status (mt st2)) + 1"
proof -
  have len: "16 \<le> length ex_frame" "16 \<le> length (ex_frame[12 := 0x62])" by (simp_all add: ex_frame_def)
  have key: "frame_key (ex_frame[12 := 0x62]) = frame_key ex_frame" by code_simp
  have "\<not> frame_seen ex_world ex_frame ex_peer" by simp code_simp
  from no_duplicate_delivery [OF ex_live(2) _ _ len(1) this _ len(2) key, of "[]" 1000 "- 90" 5 2000 "- 95" 4]
  obtain st2 st3 where "rx_run ex_world [(1000, ex_frame, - 90, 5)] ex_peer = Some st2"
    "router_process_lora_rx ex_world 2000 (ex_frame[12 := 0x62]) (- 95) 4 st2 = Some st3" "delivered st3 = delivered st2"
    and st: "mt_status (mt st3) = (mt_status (mt st3))\<lparr>s_rx_packets := s_rx_packets (mt_status (mt st2)),
      s_relayed_packets := s_relayed_packets (mt_status (mt st2)),
      s_duplicate_packets := s_duplicate_packets (mt_status (mt st2)) + 1\<rparr>"
    using ex_dup_inv by (auto simp: default_kconfig_def)
  moreover have "s_duplicate_packets (mt_status (mt st3)) = s_duplicate_packets (mt_status (mt st2)) + 1"
    by (subst st) simp
  ultimately show ?thesis by blast
qed

section \<open>A message and its acknowledgement\<close>

lemma send_packet_steps:
  assumes "send_packet_prepare ev p st = Some (Inr (local, wire), st1)"
    "(\<lambda>(ret, l). (ret, r_on_air (l_radio l))) (radio_send_wire_wait (ev_k ev) (ev_drv ev) wire K_FOREVER (st_link st1)) = (ok, air)"
  obtains st' where "send_packet ev now p K_FOREVER st = Some (ok, st')" "r_on_air (st_radio st') = air"
proof -
  obtain l where l: "radio_send_wire_wait (ev_k ev) (ev_drv ev) wire K_FOREVER (st_link st1) = (ok, l)" "r_on_air (l_radio l) = air"
    using assms(2) by (auto split: prod.splits)
  let ?st2 = "st1\<lparr>st_link := l\<rparr>"
  obtain st3 where c: "send_packet_complete ev local wire ok True ?st2 = (ok, st3)" "st_radio st3 = l_radio l"
    by (auto simp: send_packet_complete_def Let_def)
  obtain n rel where t: "track_packet ev now local wire st3 = (set_radio ((st_radio st3)\<lparr>r_calls := n\<rparr>) st3)\<lparr>st_rel := rel\<rparr>"
    by (rule track_packet_frame)
  show thesis
    by (rule that [of "track_packet ev now local wire st3"]) (use assms(1) l c t in \<open>simp_all add: send_packet_def radio_send_def\<close>)
qed

lemma ex_build2: "build_wire_packet default_kconfig ex_nanopb2 ex_psa ex_db stale_table ex_packet = Some (Inr ex_frame)"
  by code_simp

lemma ex_prepare_text:
  "send_packet_prepare ex_world (text_request NODE_BROADCAST ''hi'') ex_node =
     Some (Inr (ex_packet, ex_frame), set_mt (ex_mt\<lparr>mt_next_pkt_id := 8\<rparr>) ex_node)"
proof -
  have "allocate_packet_id ex_mt = (7, ex_mt\<lparr>mt_next_pkt_id := 8\<rparr>)" by code_simp
  moreover have "defaulted ex_node 7 (text_request NODE_BROADCAST ''hi'') = ex_packet"
    by (simp add: defaulted_def ex_packet_def ex_mt_def packet_zero_def cstr_bytes_def)
  moreover have "\<not> payload_args_bad (text_request NODE_BROADCAST ''hi'')" by code_simp
  moreover have "mt_initialized ex_mt" by (simp add: ex_mt_def)
  ultimately show ?thesis using ex_build2 by (simp add: send_packet_prepare_def fill_defaults_def packet_zero_def)
qed

lemma ex_radio_text:
  "(\<lambda>(ret, l). (ret, r_on_air (l_radio l))) (radio_send_wire_wait default_kconfig ex_driver ex_frame K_FOREVER
     \<lparr>l_mt = ex_mt\<lparr>mt_next_pkt_id := 8\<rparr>, l_radio = radio_zero, l_air = airtime_init\<rparr>) = (ok, [ex_frame])"
  by code_simp

lemma ex_send_text:
  obtains a' where "send_text ex_world 1000 NODE_BROADCAST ''hi'' ex_node = Some (ok, a')" "r_on_air (st_radio a') = [ex_frame]"
proof -
  let ?st1 = "set_mt (ex_mt\<lparr>mt_next_pkt_id := 8\<rparr>) ex_node"
  have "st_link ?st1 = \<lparr>l_mt = ex_mt\<lparr>mt_next_pkt_id := 8\<rparr>, l_radio = radio_zero, l_air = airtime_init\<rparr>"
    by (simp add: ex_node_def)
  with ex_radio_text have r: "(\<lambda>(ret, l). (ret, r_on_air (l_radio l)))
      (radio_send_wire_wait (ev_k ex_world) (ev_drv ex_world) ex_frame K_FOREVER (st_link ?st1)) = (ok, [ex_frame])" by simp
  from ex_prepare_text r obtain a' where
    "send_packet ex_world 1000 (text_request NODE_BROADCAST ''hi'') K_FOREVER ex_node = Some (ok, a')"
    "r_on_air (st_radio a') = [ex_frame]"
    by (rule send_packet_steps)
  with that [of a'] show thesis by (simp add: send_text_def send_data_def)
qed

lemma ex_resolve_text: "channels_resolve_send_index default_kconfig ex_db stale_table NODE_BROADCAST 0 0 = 0"
  by code_simp

theorem text_message_delivered_witness:
  "\<exists>a' b' p rest. send_text ex_world 1000 NODE_BROADCAST ''hi'' ex_node = Some (ok, a') \<and>
    router_process_lora_rx ex_world 1200 (last (r_on_air (st_radio a'))) (- 90) 5 ex_peer = Some b' \<and>
    mt_log (mt b') = mt_log ex_mt2 @ [RecvCb p, Event EVENT_PACKET_RECEIVED None (Some p)] @ rest \<and>
    p_payload p = Some (cstr_bytes ''hi'') \<and> p_from p = 0x11223344"
proof -
  obtain a' where a': "send_text ex_world 1000 NODE_BROADCAST ''hi'' ex_node = Some (ok, a')" "r_on_air (st_radio a') = [ex_frame]"
    by (rule ex_send_text)
  have new: "\<not> frame_seen ex_world ex_frame ex_peer" by simp code_simp
  have "\<exists>b' p rest. router_process_lora_rx ex_world 1200 (last (r_on_air (st_radio a'))) (- 90) 5 ex_peer = Some b' \<and>
      mt_log (mt b') = mt_log (mt ex_peer) @ [RecvCb p, Event EVENT_PACKET_RECEIVED None (Some p)] @ rest \<and>
      p_portnum p = PORT_TEXT_MESSAGE \<and> p_payload p = Some (cstr_bytes ''hi'') \<and> p_payload_len p = length ''hi'' \<and>
      p_from p = mt_node_id (mt ex_node) \<and> p_to p = NODE_BROADCAST \<and> p_id p \<noteq> 0 \<and>
      s_rx_packets (mt_status (mt b')) = s_rx_packets (mt_status (mt ex_peer)) + 1"
    by (rule text_message_delivered [OF _ _ _ _ _ ex_live(2) _ a'(1), where j = 0])
      (use ex_nanopb2_ok ex_psa_ok ex_table_inv ex_resolve_text ex_shares ex_known new a'(2) in
        \<open>simp_all add: ex_mt_def ex_mt2_def\<close>)
  with a'(1) show ?thesis by (auto simp: ex_mt_def)
qed

text \<open>The packet that asked for the acknowledgement, as the second node received it.\<close>

definition ex_request :: packet where
  "ex_request = ex_packet\<lparr>p_to := 0x55667788, p_want_ack := True\<rparr>"

definition ex_waiting :: node where
  "ex_waiting = ex_node\<lparr>st_rel := \<lparr>rel_entries = [reliable_entry_zero\<lparr>e_id := 7, e_dest := 0x55667788, e_portnum := 1\<rparr>],
     rel_work = Some 13000\<rparr>\<rparr>"

definition ex_ack_packet :: packet where
  "ex_ack_packet = packet_zero\<lparr>p_from := 0x55667788, p_to := 0x11223344, p_id := 7, p_portnum := 5, p_payload := Some [24, 0],
     p_payload_len := 2, p_request_id := 7, p_hop_limit := 2, p_hop_start := 2, p_want_ack := True\<rparr>"

definition ex_ack_frame :: bytes where
  "ex_ack_frame = [0x44, 0x33, 0x22, 0x11, 0x88, 0x77, 0x66, 0x55, 7, 0, 0, 0, 0x4A, 8, 0, 0,
     0x52, 0x5F, 0x48, 0x58, 0x42, 0x5A, 0x6F, 0x5D, 0x5A, 0x5A, 0x5A]"

abbreviation ex_peer8 :: node where
  "ex_peer8 \<equiv> set_mt (ex_mt2\<lparr>mt_next_pkt_id := 8\<rparr>) ex_peer"

lemma ex_ack_id: "allocate_packet_id ex_mt2 = (7, ex_mt2\<lparr>mt_next_pkt_id := 8\<rparr>)"
  by code_simp

lemma ex_ack_bytes: "pb_encode (enc_Routing ex_nanopb2) MAX_PAYLOAD_LEN (Routing_error_reason 0) = Some [24, 0]"
  by code_simp

lemma ex_ack_mesh:
  "ack_mesh ex_peer8 7 ex_request [24, 0] = mesh_zero\<lparr>m_from := 0x55667788, m_to := 0x11223344, m_id := 7, m_hop_limit := 2,
     m_hop_start := 2, m_want_ack := True, m_priority_ack := True, m_variant := Decoded ex_ack_data\<rparr>"
proof -
  have "routing_hop_limit_for_reply (ex_mt2\<lparr>mt_next_pkt_id := 8\<rparr>) ex_request = 2 \<and>
      routing_ack_should_request_ack (ex_mt2\<lparr>mt_next_pkt_id := 8\<rparr>) ex_request \<and>
      reply_channel stale_table ex_request = 0 \<and> p_id ex_request = 7 \<and> p_from ex_request = 0x11223344" by code_simp
  then show ?thesis
    by (simp add: ack_mesh_def ex_ack_data_def mesh_zero_def data_zero_def ex_mt2_def)
qed

lemma ex_build_ack: "build_wire_packet default_kconfig ex_nanopb2 ex_psa ex_db stale_table ex_ack_packet = Some (Inr ex_ack_frame)"
  by code_simp

lemma ex_prepare_ack:
  "send_packet_prepare ex_world ex_ack_packet ex_peer8 = Some (Inr (ex_ack_packet, ex_ack_frame), ex_peer8)"
proof -
  have "defaulted ex_peer8 7 ex_ack_packet = ex_ack_packet"
    by (simp add: defaulted_def ex_ack_packet_def packet_zero_def)
  moreover have "\<not> payload_args_bad ex_ack_packet \<and> p_id ex_ack_packet = 7 \<and> p_to ex_ack_packet \<noteq> 0" by code_simp
  moreover have "mt_initialized ex_mt2" by (simp add: ex_mt_def ex_mt2_def)
  ultimately show ?thesis using ex_build_ack by (simp add: send_packet_prepare_def fill_defaults_def)
qed

lemma ex_radio_ack:
  "(\<lambda>(ret, l). (ret, r_on_air (l_radio l))) (radio_send_wire_wait default_kconfig ex_driver ex_ack_frame K_FOREVER
     \<lparr>l_mt = ex_mt2\<lparr>mt_next_pkt_id := 8\<rparr>, l_radio = radio_zero, l_air = airtime_init\<rparr>) = (ok, [ex_ack_frame])"
  by code_simp

lemma ex_send_ack:
  obtains b' where "routing_send_ack ex_world 2000 ex_request ex_peer = Some (ok, b')" "r_on_air (st_radio b') = [ex_ack_frame]"
proof -
  have "st_link ex_peer8 = \<lparr>l_mt = ex_mt2\<lparr>mt_next_pkt_id := 8\<rparr>, l_radio = radio_zero, l_air = airtime_init\<rparr>"
    by (simp add: ex_node_def ex_peer_def)
  with ex_radio_ack have r: "(\<lambda>(ret, l). (ret, r_on_air (l_radio l)))
      (radio_send_wire_wait (ev_k ex_world) (ev_drv ex_world) ex_ack_frame K_FOREVER (st_link ex_peer8)) = (ok, [ex_ack_frame])"
    by simp
  from ex_prepare_ack r obtain b' where b': "send_packet ex_world 2000 ex_ack_packet K_FOREVER ex_peer8 = Some (ok, b')"
    "r_on_air (st_radio b') = [ex_ack_frame]"
    by (rule send_packet_steps)
  have "mesh_decoded_packet (ack_mesh ex_peer8 7 ex_request [24, 0]) ex_ack_data = ex_ack_packet"
    unfolding ex_ack_mesh by code_simp
  moreover have "m_variant (ack_mesh ex_peer8 7 ex_request [24, 0]) = Decoded ex_ack_data" by (simp add: ex_ack_mesh)
  ultimately have "send_mesh_pb ex_world 2000 (ack_mesh ex_peer8 7 ex_request [24, 0]) ex_peer8 = Some (ok, b')"
    using b'(1) by (simp add: send_mesh_pb_def)
  moreover have "p_to ex_request = mt_node_id ex_mt2" by code_simp
  ultimately show thesis
    using b'(2) that [of b'] by (simp add: routing_send_ack_def ex_ack_id ex_ack_bytes)
qed

lemma ex_resolve_ack: "channels_resolve_send_index default_kconfig ex_db stale_table 0x11223344 0 0 = 0"
  by code_simp

theorem delivery_confirmed_witness:
  "\<exists>b' a'. routing_send_ack ex_world 2000 ex_request ex_peer = Some (ok, b') \<and>
    router_process_lora_rx ex_world 2200 (last (r_on_air (st_radio b'))) (- 90) 5 ex_waiting = Some a' \<and>
    map e_id (rel_entries (st_rel a')) = [0]"
proof -
  obtain b' where b': "routing_send_ack ex_world 2000 ex_request ex_peer = Some (ok, b')" "r_on_air (st_radio b') = [ex_ack_frame]"
    by (rule ex_send_ack)
  have w: "mt ex_waiting = ex_mt" "st_ch ex_waiting = stale_table" "st_db ex_waiting = ex_db"
    "rel_entries (st_rel ex_waiting) = [reliable_entry_zero\<lparr>e_id := 7, e_dest := 0x55667788, e_portnum := 1\<rparr>]"
    by (simp_all add: ex_waiting_def)
  have new: "\<not> frame_seen ex_world ex_ack_frame ex_waiting" by (simp add: w) code_simp
  have rel: "RELIABLE default_kconfig" by code_simp
  have "\<exists>a'. router_process_lora_rx ex_world 2200 (last (r_on_air (st_radio b'))) (- 90) 5 ex_waiting = Some a' \<and>
      st_rel a' = (st_rel ex_waiting)\<lparr>rel_entries := (rel_entries (st_rel ex_waiting))[0 := (rel_entries (st_rel ex_waiting) ! 0)\<lparr>e_id := 0\<rparr>]\<rparr> \<and>
      Event EVENT_TX_ACKED None (Some (outcome_packet (mt_node_id (mt ex_waiting)) (outcome_of (rel_entries (st_rel ex_waiting) ! 0))))
        \<in> set (mt_log (mt a'))"
    by (rule delivery_confirmed [OF _ _ _ _ _ _ _ _ _ _ _ _ _ _ _ b'(1), where j = 0])
      (use ex_nanopb2_ok ex_psa_ok ex_routing_ok ex_table_inv ex_table_live ex_resolve_ack ex_shares ex_known new rel b'(2) w in
        \<open>simp_all add: ex_mt_def ex_mt2_def ex_request_def ex_packet_def packet_zero_def\<close>)
  with b'(1) w(4) show ?thesis by fastforce
qed

section \<open>The serial line\<close>

definition ex_serial :: serial where
  "ex_serial = \<lparr>se_api = 0, se_rx_rb = [], se_tx_rb = [], se_rx_overflow = False, se_rx_work = False, se_tx_work = False,
     se_tx_cont_work = False, se_tx_irq = False, se_rx_irq = True, se_fifo = [], se_out = []\<rparr>"

definition ex_serial_k :: serial_kconfig where
  "ex_serial_k = \<lparr>SERIAL_RX_BUF_SIZE = 64, SERIAL_TX_BUF_SIZE = 256, SERIAL_FROMRADIO_QUEUE_SIZE = 8\<rparr>"

definition ex_uart :: uart where
  "ex_uart = \<lparr>ring_buf_put_ptr = (\<lambda>rb. 64 - length rb), ring_buf_get_ptr = length,
     uart_fifo_read = (\<lambda>fifo n. int (min n (length fifo))), uart_fifo_fill = (\<lambda>bs. int (min 1 (length bs))),
     uart_irq_rx_ready = (\<lambda>fifo. fifo \<noteq> []), uart_irq_tx_ready = (\<lambda>rb. True), uart_device_ready = True,
     uart_configure = None, uart_callback_set = None\<rparr>"

lemma ex_uart_ok: "uart_ok ex_serial_k ex_uart"
  by (simp add: uart_ok_def ex_serial_k_def ex_uart_def)

text \<open>A receive ring that holds a longest frame, and bytes that arrive in three portions after some noise.\<close>

abbreviation ex_rx_k :: serial_kconfig where
  "ex_rx_k \<equiv> ex_serial_k\<lparr>SERIAL_RX_BUF_SIZE := 520\<rparr>"

abbreviation ex_rx_uart :: uart where
  "ex_rx_uart \<equiv> ex_uart\<lparr>ring_buf_put_ptr := \<lambda>rb. 520 - length rb\<rparr>"

abbreviation ex_rx_events :: "rx_event list" where
  "ex_rx_events \<equiv> [Arrive [1, 0x94], Arrive [2, 0x94], Interrupt, Run 1000, Arrive [0xC3, 0, 1, 7], Interrupt, Run 1100]"

theorem serial_rx_stream_witness:
  "map_option snd (rx_line ex_world ex_rx_uart ex_rx_events (ex_serial, ex_node)) \<in>
     {Some ex_node, handle_toradio ex_world 1000 0 [7] ex_node, handle_toradio ex_world 1100 0 [7] ex_node}"
proof -
  have a: "arrived ex_rx_events = concat (map (\<lambda>(g, p). g @ serial_encode_frame p 516) [([1, 0x94, 2], [7])])" by code_simp
  have r: "ring_ok ex_rx_k ex_rx_uart" by (simp add: ring_ok_def uart_ok_def ex_serial_k_def ex_uart_def)
  have sp: "516 \<le> SERIAL_RX_BUF_SIZE ex_rx_k \<and> spaced True ex_rx_events" by simp
  from serial_rx_stream [OF _ a _ _ r disjI2 [OF sp], of ex_serial ex_world ex_node]
  obtain ts ms where ts: "length ts = length ms" "set ts \<subseteq> {1000, 1100}" "prefix ms [[7]]"
    "map_option snd (rx_line ex_world ex_rx_uart ex_rx_events (ex_serial, ex_node)) = timed_toradio ex_world 0 (zip ts ms) ex_node"
    by (auto simp: ex_serial_def)
  have one: "handle_toradio ex_world t 0 [7] ex_node \<bind> timed_toradio ex_world 0 [] = handle_toradio ex_world t 0 [7] ex_node" for t
    by (cases "handle_toradio ex_world t 0 [7] ex_node") simp_all
  consider "ms = []" | "ms = [[7]]" using ts(3) by (cases ms) (auto simp: prefix_Cons)
  then show ?thesis
  proof cases
    case 2
    then obtain t where "ts = [t]" using ts(1) by (cases ts) auto
    with 2 ts(2,4) one show ?thesis by auto
  qed (use ts in simp)
qed

theorem serial_tx_stream_witness:
  "\<exists>s' st'. tx_work_handler ex_world ex_serial_k ex_serial ex_node = Some (s', st') \<and> length (se_tx_rb s') \<le> 256"
proof -
  have "phone_ok (st_phones ex_node ! se_api ex_serial)"
    by (auto simp: phone_ok_def ex_node_def ex_serial_def phone_ring_ok_def phoneapi_init_def)
  from serial_tx_stream [OF this, of ex_serial_k ex_world]
  show ?thesis by (auto simp: ex_node_def ex_serial_def ex_serial_k_def)
qed

theorem serial_line_framed_witness:
  "\<exists>fs. se_out (serial_data_ready ex_serial) @ se_tx_rb (serial_data_ready ex_serial) =
     concat (map (\<lambda>f. serial_encode_frame f 516) fs)"
proof -
  have "(serial_step ex_world ex_serial_k ex_uart)\<^sup>*\<^sup>* (ex_serial, ex_node) (serial_data_ready ex_serial, ex_node)"
    by (intro r_into_rtranclp serial_step.data_ready)
  from serial_line_framed [OF ex_uart_ok this] show ?thesis by (auto simp: ex_serial_def)
qed

theorem serial_rx_blocked_witness:
  "\<exists>s. rx_work_handler ex_world 5000 (serial_data_ready (ex_serial\<lparr>se_rx_rb := [0x94, 0xC3, 0, 200, 1]\<rparr>)) ex_node = Some (s, ex_node) \<and>
     se_rx_rb s = [0x94, 0xC3, 0, 200, 1]"
proof -
  let ?s = "ex_serial\<lparr>se_rx_rb := [0x94, 0xC3, 0, 200, 1]\<rparr>"
  have "(serial_step ex_world ex_serial_k ex_uart)\<^sup>*\<^sup>* (?s, ex_node) (serial_data_ready ?s, ex_node)"
    by (intro r_into_rtranclp serial_step.data_ready)
  from serial_rx_blocked [OF ex_uart_ok this, of 200 5000] show ?thesis
    by (simp add: ex_serial_k_def serial_data_ready_def)
qed

section \<open>The Bluetooth transport\<close>

definition ex_ble :: ble where
  "ex_ble = \<lparr>bl_api = 0, bl_fromnum_notify_enabled = True, bl_log_notify_enabled = False, bl_conn = Some 1,
     bl_to_radio_buf = replicate 512 0, bl_to_radio_len = 0, bl_to_radio_work = False, bl_fromradio_work = False,
     bl_fromradio_staged = [1, 2, 3, 4], bl_fromradio_buf = replicate 512 0, bl_fromradio_len = 0, bl_fromradio_ready = True,
     bl_notified = [], bl_hangups = 0\<rparr>"

definition ex_bt :: bt_host where
  "ex_bt = \<lparr>bt_gatt_attr_read = (\<lambda>len offset v. if length v < offset then None else Some (take len (drop offset v))),
     bt_is_ready = False, bt_enable = None, bt_le_adv_start = None, bt_adv_enabled = True, bt_fromradio_queue_size = 4\<rparr>"

definition ex_ble_node :: node where
  "ex_ble_node = ex_node\<lparr>st_phones := [push_frame [5, 6, 7, 8, 9] (phoneapi_init 4)]\<rparr>"

lemma ex_bt_ok: "attr_read_ok ex_bt"
  by (simp add: attr_read_ok_def ex_bt_def)

lemma ex_ble_holds: "ble_holds [[1, 2, 3, 4], [5, 6, 7, 8, 9]] (ex_ble, ex_ble_node)"
proof -
  have "phone_ring_ok (push_frame [5, 6, 7, 8, 9] (phoneapi_init 4))" "\<not> config_active (push_frame [5, 6, 7, 8, 9] (phoneapi_init 4))"
    "phone_frames (push_frame [5, 6, 7, 8, 9] (phoneapi_init 4)) = [[5, 6, 7, 8, 9]]" by code_simp+
  then show ?thesis by (simp add: ble_holds_def ble_ok_def ble_frames_def ble_phone_def ex_ble_def ex_ble_node_def)
qed

theorem ble_frames_delivered_witness:
  "\<exists>bs. ble_read_all ex_world ex_bt 3 2 (ex_ble, ex_ble_node) = Some ([[1, 2, 3, 4], [5, 6, 7, 8, 9]], bs)"
proof -
  have "\<forall>f\<in>set [[1, 2, 3, 4], [5, 6, 7, 8, 9 :: u8]]. length f \<le> API_FRAME_MAX \<and> \<not> 3 dvd length f" by code_simp
  from ble_frames_delivered [OF ex_bt_ok ex_ble_holds this, of ex_world] show ?thesis
    by (auto simp: numeral_2_eq_2 simp del: ble_read_all.simps)
qed

theorem ble_frame_lost_witness:
  "\<exists>bs. ble_long_read ex_world ex_bt 2 (ex_ble, ex_ble_node) = Some ([1, 2, 3, 4], bs) \<and> ble_holds [] bs"
  using ble_frame_lost [OF ex_bt_ok ex_ble_holds, of 2 ex_world] by simp

theorem ble_last_write_handled_witness:
  "bl_to_radio_work (ble_writes ([[1]] @ [[2]]) ex_ble)"
  using ble_last_write_handled [of "[[1]]" "[2]" ex_ble ex_world 0 ex_node] by (simp add: ex_ble_def)

theorem ble_session_isolated_witness:
  "fst (read_fromradio ex_bt 20 0 (ble_connected 2 0 (ble_disconnected 1 (ex_ble, ex_ble_node)))) = Some []"
proof -
  obtain b' st' where e: "ble_connected 2 0 (ble_disconnected 1 (ex_ble, ex_ble_node)) = (b', st')" by force
  have "bl_api ex_ble < length (st_phones ex_ble_node)" by (simp add: ex_ble_def ex_ble_node_def)
  from ble_session_isolated [OF ex_bt_ok this e, of 20 0 ex_world] show ?thesis unfolding e by simp
qed

section \<open>The gateway's thread\<close>

definition ex_io :: mqtt_io where
  "ex_io = \<lparr>io_iface = Some (True, True), io_iface_later = Some (True, True), io_getaddrinfo = (0, Some (Some [127, 0, 0, 1])),
     io_sockaddr_size = 24, io_connect = ok, io_sock = 3, io_connect_poll = 1, io_connect_input = [EVT_CONNACK 0],
     io_abort_lost = True, io_subscribe = (ok, False), io_disconnect_lost = True, io_publish = (\<lambda>n. (ok, False)), io_poll = 0,
     io_pollin = False, io_input = ([], ok), io_live = (ok, False), io_version = ''4.2''\<rparr>"

lemma ex_world_mc [simp]: "ev_mc ex_world = ex_mqtt_codec" "st_mqtt ex_node = ex_mqtt" "st_mqtt ex_peer = ex_mqtt"
  by (simp_all add: ex_world_def ex_peer_def ex_node_def)

theorem bridge_no_duplicate_witness:
  "\<exists>st2 st3. arrivals ex_world [Published 1000 [10]] ex_peer = Some st2 \<and>
    arrive ex_world (Heard 2000 ex_frame (- 95) 4) st2 = Some st3 \<and> delivered st3 = delivered st2"
proof -
  have b: "bridging ex_world ex_peer" using ex_dup_inv(2) ex_table_live by (simp add: bridging_def) (simp add: ex_mt2_def ex_mt_def)
  have len: "16 \<le> length ex_frame" by (simp add: ex_frame_def)
  have ign: "\<not> frame_ignored ex_world ex_frame" by (simp add: default_kconfig_def)
  have "map_option (\<lambda>m. (m_from m, m_id m)) (mqtt_downlink_packet default_kconfig ex_mqtt_codec stale_table ex_mt2 [10]) =
      Some (frame_key ex_frame)" by code_simp
  then have k1: "arrival_key ex_world ex_peer (Published 1000 [10]) = Some (frame_key ex_frame)" by simp
  have k2: "arrival_key ex_world ex_peer (Heard 2000 ex_frame (- 95) 4) = Some (frame_key ex_frame)"
    using len ign by simp
  have new: "\<not> key_seen ex_world (frame_key ex_frame) ex_peer" by simp code_simp
  from bridge_no_duplicate [OF b k1 new _ k2, of "[]"] show ?thesis by (auto simp: default_kconfig_def)
qed



theorem mqtt_offline_quiet_witness:
  "\<exists>st'. mqtt_thread_run ex_world [(ex_io, 0)] (upd_mqtt (mqtt_net_event_handler NET_EVENT_IPV4_ADDR_DEL) ex_node) = Some ([], st') \<and>
     \<not> mq_connected (st_mqtt st')"
  using mqtt_offline_quiet [of ex_world ex_io 0 "[]" ex_node] by auto

theorem mqtt_queue_flushed_witness:
  "\<exists>st'. mqtt_thread_run ex_world (replicate 8 (ex_io, 0)) (upd_mqtt (mqtt_queue_publish default_kconfig ''t'' [1]) ex_node) = Some ([], st') \<and>
     mq_sent (st_mqtt st') = [(''t'', [1])]"
proof -
  let ?q = "mqtt_queue_publish default_kconfig ''t'' [1] ex_mqtt"
  let ?st = "upd_mqtt (mqtt_queue_publish default_kconfig ''t'' [1]) ex_node"
  have e: "?q = mqtt_work_notify (mqtt_push default_kconfig \<lparr>pub_topic = ''t'', pub_payload = [1]\<rparr> ex_mqtt)"
    by (simp add: mqtt_queue_publish_def mqtt_push_def ex_kconfig strn_def)
  have z: "mq_net_has_ipv4 ex_mqtt" "\<not> mq_disconnect_pending ex_mqtt" "mq_sent ex_mqtt = []" "mq_count ex_mqtt = 0"
    "length (mqtt_build_subscribe_topic stale_table ex_mqtt) < 128" by code_simp+
  have "mqtt_pending ex_mqtt = []" using z(4) by (simp add: mqtt_pending_def)
  then have q: "mqtt_pending ?q = [\<lparr>pub_topic = ''t'', pub_payload = [1]\<rparr>]" "mqtt_ring_ok default_kconfig ?q"
    "mq_net_has_ipv4 ?q" "\<not> mq_disconnect_pending ?q" "mq_sent ?q = []" "length (mqtt_build_subscribe_topic stale_table ?q) < 128"
    using mqtt_push_spec [OF ex_mqtt_ring, of "\<lparr>pub_topic = ''t'', pub_payload = [1]\<rparr>"] z
    unfolding e by (simp_all add: mqtt_work_notify_def ex_kconfig mqtt_push_def mqtt_put_def mqtt_drop_oldest_if_full_def mqtt_build_subscribe_topic_def)
  then have "online (ev_k ex_world) ?st" by (simp add: online_def)
  moreover have "\<forall>t\<in>set (replicate 8 (ex_io, 0 :: int)). broker_answers (fst t)" by (simp add: broker_answers_def ex_io_def)
  moreover have "\<not> MQTT_MAP_REPORT (ev_k ex_world)" "MQTT_PUBLISH_QUEUE_SIZE (ev_k ex_world) \<le> 4 * length (replicate 8 (ex_io, 0 :: int))"
    by (simp_all add: default_kconfig_def)
  ultimately obtain st' where st': "mqtt_thread_run ex_world (replicate 8 (ex_io, 0)) ?st = Some ([], st')"
    "mq_sent (st_mqtt st') = mq_sent (st_mqtt ?st) @ map (\<lambda>e. (pub_topic e, pub_payload e)) (mqtt_pending (st_mqtt ?st))"
    using mqtt_queue_flushed [of "replicate 8 (ex_io, 0)" ex_world ?st] by blast
  from st'(2) q(1,5) have "mq_sent (st_mqtt st') = [(''t'', [1])]" by simp
  with st'(1) show ?thesis by blast
qed

section \<open>Starting the sample node\<close>

definition ex_cfg :: mconfig where
  "ex_cfg = \<lparr>cfg_lora_dev = True, cfg_node_id = 0x11223344, cfg_psk = Some default_psk, cfg_psk_len = 16, cfg_channel_name = Some ''LongFast'',
     cfg_frequency = 869525000, cfg_hop_limit = 0, cfg_tx_power = 0, cfg_long_name = None, cfg_short_name = None\<rparr>"

definition ex_boot :: boot_world where
  "ex_boot = \<lparr>bw_device_ready = True, bw_hwinfo = None, bw_psa_init = True, bw_settings_subsys = None, bw_settings_load = None,
     bw_saved = [], bw_codec = ex_codec, bw_to_hz = (\<lambda>f. 0), bw_hooks = [None, Some None], bw_bt = ex_bt, bw_serial = ex_serial_k,
     bw_uart = ex_uart, bw_iface = Some (True, True)\<rparr>"

definition ex_stack :: stack where
  "ex_stack = \<lparr>sk_ble = ex_ble, sk_serial = ex_serial, sk_node = set_mt (ex_mt\<lparr>mt_initialized := False\<rparr>)
     (ex_node\<lparr>st_ch := stale_table\<lparr>ct_device_role := 0, ct_rebroadcast_mode := 0\<rparr>, st_phones := [], st_mqtt := mqtt_ctx_zero default_kconfig\<rparr>)\<rparr>"

lemma ex_boot_request: "boot_request ex_world ex_boot ex_cfg (sk_node ex_stack)"
  using kconfig_ok_default
  by (simp add: boot_request_def) (simp add: default_kconfig_def ex_cfg_def ex_boot_def ex_bt_def ex_serial_k_def ex_stack_def)

lemma ex_boot_keyed:
  assumes "boot_core default_kconfig ex_boot ex_cfg (sk_node ex_stack) = Some (Inr u, st)"
  shows "keyed (snd (boot_store default_kconfig ex_boot ex_cfg st))"
proof -
  have "map_option (\<lambda>(r, st). keyed (snd (boot_store default_kconfig ex_boot ex_cfg st)))
      (boot_core default_kconfig ex_boot ex_cfg (sk_node ex_stack)) = Some True" by code_simp
  with assms show ?thesis by simp
qed

lemma ex_boot_succeeds: "\<exists>s'. meshtastic_init ex_world ex_boot 0 (Some ex_cfg) ex_stack = Some (ok, s')"
proof (rule boot_succeeds [OF ex_boot_request])
  show "good_arguments ex_cfg" by (simp add: good_arguments_def ex_cfg_def)
  show "all_answers ex_world ex_boot" by (simp add: all_answers_def ex_boot_def ex_bt_def ex_uart_def ex_driver_def) (simp add: default_kconfig_def)
qed (use ex_boot_keyed in simp)

theorem boot_success_runs_witness:
  "\<exists>s'. meshtastic_init ex_world ex_boot 0 (Some ex_cfg) ex_stack = Some (ok, s') \<and> running ex_world (sk_node s')"
proof -
  obtain s' where s': "meshtastic_init ex_world ex_boot 0 (Some ex_cfg) ex_stack = Some (ok, s')" using ex_boot_succeeds by blast
  with boot_success_runs [OF ex_boot_request s'] show ?thesis by blast
qed

theorem boot_returns_witness:
  "\<exists>r s'. meshtastic_init ex_world ex_boot 5 (Some ex_cfg) ex_stack = Some (r, s')"
  using boot_returns [OF ex_boot_request, of 5] ex_boot_keyed by auto

theorem boot_failure_refuses_witness:
  "\<exists>e s'. meshtastic_init ex_world ex_boot 0 None ex_stack = Some (Inl e, s') \<and>
     send_packet ex_world 0 ex_packet K_FOREVER (sk_node s') = Some (Inl EINVAL, sk_node s')"
proof -
  have i: "meshtastic_init ex_world ex_boot 0 None ex_stack = Some (Inl EINVAL, ex_stack)" by (simp add: meshtastic_init_def)
  have "\<not> mt_initialized (mt (sk_node ex_stack))" by (simp add: ex_stack_def)
  from boot_failure_refuses [OF i this] i show ?thesis by blast
qed

section \<open>The shell\<close>

text \<open>A 32-bit target whose queue already holds a node information request.\<close>

definition ex_shell_env :: shell_env where
  "ex_shell_env = \<lparr>SHELL_QUEUE_SIZE = 4, sh_ulong_max = 2 ^ 32 - 1, sh_strerror = (\<lambda>e. ''error''), sh_scaled = (\<lambda>n f. 0)\<rparr>"

definition ex_shell :: shell where
  "ex_shell = (meshtastic_shell_init ex_node)\<lparr>sh_msgq := [(work_item_zero SHELL_WORK_SEND_NODEINFO)\<lparr>wi_dest := NODE_BROADCAST\<rparr>]\<rparr>"

lemma ex_shell_env_ok: "shell_env_ok ex_shell_env"
  by (simp add: shell_env_ok_def ex_shell_env_def)

lemma ex_shell_ok: "shell_ok ex_shell_env ex_shell"
proof -
  have "mt_ch_hash ex_mt = channels_primary_hash stale_table" by code_simp
  then show ?thesis
    using ex_table_live ex_store_inv
    by (simp add: shell_ok_def node_configured_def ex_shell_def ex_shell_env_def meshtastic_shell_init_def work_item_ok_def
        work_item_zero_def) (simp add: ex_node_def)
qed

lemma ex_shell_simps [simp]: "sh_node ex_shell = ex_node" "length (sh_msgq ex_shell) = 1"
  by (simp_all add: ex_shell_def meshtastic_shell_init_def)

theorem shell_session_consistent_witness:
  "\<exists>sh r. meshtastic_cmds ex_world ex_shell_env [''device'', ''role'', ''router''] \<bind> (\<lambda>f. f ex_shell) = Some (r, sh) \<and>
    shell_ok ex_shell_env sh \<and> (\<exists>sh'. shell_work_turn ex_world ex_shell_env 1000 sh = Some sh')"
proof -
  let ?c = "cmd_device_role ex_world [''role'', ''router'']"
  have m: "meshtastic_cmds ex_world ex_shell_env [''device'', ''role'', ''router''] = Some (\<lambda>sh. Some (?c sh))"
    by (simp add: meshtastic_cmds_def subcommands_def)
  obtain r sh where c: "?c ex_shell = (r, sh)" by force
  have "shell_session ex_world ex_shell_env ex_shell sh"
    by (rule shell_session.command [OF shell_session.start m]) (simp add: c)
  from shell_session_consistent [OF this ex_shell_ok, of 1000] m c show ?thesis by auto
qed

theorem shell_command_returns_witness:
  "cmd_channel_set ex_world ex_shell_env [''set'', ''0'', ''role'', ''secondary'', ''psk'', ''none''] ex_shell = None"
proof -
  let ?a = "[''0'', ''role'', ''secondary'', ''psk'', ''none'']"
  have m: "meshtastic_cmds ex_world ex_shell_env (''channel'' # ''set'' # ?a) = Some (cmd_channel_set ex_world ex_shell_env (''set'' # ?a))"
    by (simp add: meshtastic_cmds_def subcommands_def)
  have "fmt_u 0 = ''0''" by code_simp
  with parse_index_decimal [OF ex_shell_env_ok, of 0] have i: "shell_parse_channel_index ex_shell_env ''0'' = Inr 0" by simp
  have p: "ct_primary_index stale_table = 0" by code_simp
  have "\<exists>ch. channel_options ex_shell_env False ((slot stale_table 0)\<lparr>ch_index := 0, ch_has_settings := True\<rparr>) (tl ?a) = Inr (True, ch) \<and> keyless ch"
    by (simp add: channel_option_def shell_parse_channel_role_def shell_apply_channel_psk_def keyless_def)
  with shell_command_returns [OF ex_shell_ok m] i p show ?thesis by auto
qed

theorem shell_text_sent_witness:
  "\<exists>sh1 sh2. cmd_text_send ex_shell_env [''send'', ''-a'', ''0x55'', ''hello'', ''there''] ex_shell = (ok, sh1) \<and>
    shell_work_turns ex_world ex_shell_env [1000] sh1 = Some sh2 \<and>
    (\<exists>ret st. send_packet ex_world 2000 (packet_zero\<lparr>p_to := 0x55, p_portnum := PORT_TEXT_MESSAGE,
        p_payload := Some (cstr_bytes ''hello there''), p_payload_len := length ''hello there'',
        p_channel_index := CHANNEL_INDEX_INVALID, p_want_ack := True\<rparr>) K_FOREVER (sh_node sh2) = Some (ret, st) \<and>
      shell_work_turn ex_world ex_shell_env 2000 sh2 =
        Some (say [shell_report_result ex_world ex_shell_env ret] (sh2\<lparr>sh_msgq := [], sh_node := st\<rparr>)))"
proof -
  have d: "parse_u32 ex_shell_env ''0x55'' = Inr 0x55"
    by (simp add: parse_u32_def strtoul0_def split_base_def digit_of_def base_value_def isspace_def ex_shell_env_def)
  have t: "text_opts_channel [Opt_ack] = CHANNEL_INDEX_INVALID" by (simp add: text_opts_channel_def)
  have "length (sh_msgq ex_shell) < SHELL_QUEUE_SIZE ex_shell_env" by (simp add: ex_shell_env_def)
  from shell_text_sent [OF ex_shell_ok ex_shell_env_ok _ _ _ d _ _ this, of "[Opt_ack]" "[''hello'', ''there'']" "[1000]" ex_world 2000]
  show ?thesis by (auto simp: t text_opt_words_def simp del: shell_work_turns.simps)
qed

theorem shell_text_delivered_witness:
  "\<exists>sh1 sh3 b' p rest. cmd_text_send ex_shell_env [''send'', ''broadcast'', ''hi''] (meshtastic_shell_init ex_node) = (ok, sh1) \<and>
    shell_work_turn ex_world ex_shell_env 1000 sh1 = Some sh3 \<and>
    router_process_lora_rx ex_world 1200 (last (r_on_air (st_radio (sh_node sh3)))) (- 90) 5 ex_peer = Some b' \<and>
    mt_log (mt b') = mt_log ex_mt2 @ [RecvCb p, Event EVENT_PACKET_RECEIVED None (Some p)] @ rest \<and>
    p_payload p = Some (cstr_bytes ''hi'') \<and> \<not> p_want_ack p"
proof -
  let ?sh = "meshtastic_shell_init ex_node"
  obtain a' where a': "send_text ex_world 1000 NODE_BROADCAST ''hi'' ex_node = Some (ok, a')" "r_on_air (st_radio a') = [ex_frame]"
    by (rule ex_send_text)
  have sh: "shell_ok ex_shell_env ?sh" "sh_node ?sh = ex_node" "sh_msgq ?sh = []"
    using ex_shell_ok by (simp_all add: shell_ok_def ex_shell_def meshtastic_shell_init_def)
  have d: "parse_u32 ex_shell_env ''broadcast'' = Inr NODE_BROADCAST" by (simp add: parse_u32_def)
  have room: "length (sh_msgq ?sh) < SHELL_QUEUE_SIZE ex_shell_env" by (simp add: sh ex_shell_env_def)
  obtain ls where c: "cmd_text_send ex_shell_env [''send'', ''broadcast'', ''hi''] ?sh =
      (ok, say ls (?sh\<lparr>sh_msgq := [text_work [] NODE_BROADCAST [''hi'']]\<rparr>))"
    by (rule text_queued [OF ex_shell_env_ok _ _ _ d _ _ room, of "[]" "[''hi'']"]) (auto simp: sh)
  let ?sh1 = "say ls (?sh\<lparr>sh_msgq := [text_work [] NODE_BROADCAST [''hi'']]\<rparr>)"
  let ?sh3 = "say [shell_report_result ex_world ex_shell_env ok] (?sh1\<lparr>sh_msgq := [], sh_node := a'\<rparr>)"
  have t: "text_opts_channel [] = CHANNEL_INDEX_INVALID" "text_slot [] NODE_BROADCAST = 0" "\<not> text_acked [] NODE_BROADCAST"
    by (simp_all add: text_opts_channel_def text_slot_def text_acked_def)
  have r: "shell_work_run ex_world 1000 (text_work [] NODE_BROADCAST [''hi'']) ex_node = Some (ok, a')"
    using a'(1) t(1) by (simp add: shell_work_run_def text_work_def)
  then have w: "shell_work_turn ex_world ex_shell_env 1000 ?sh1 = Some ?sh3"
    by (simp add: shell_work_turn_def say_def sh(2))
  have new: "\<not> frame_seen ex_world ex_frame ex_peer" by simp code_simp
  have "\<exists>b' p rest. router_process_lora_rx ex_world 1200 (last (r_on_air (st_radio (sh_node ?sh3)))) (- 90) 5 ex_peer = Some b' \<and>
      mt_log (mt b') = mt_log (mt ex_peer) @ [RecvCb p, Event EVENT_PACKET_RECEIVED None (Some p)] @ rest \<and>
      filter is_delivery rest = (if MESSAGE (ev_m ex_world) \<and> p_from p \<noteq> 0 \<and> p_from p \<noteq> mt_node_id (mt ex_peer)
        then [Event EVENT_TEXT_MESSAGE None (Some p)] else []) \<and>
      p_payload p = Some (cstr_bytes (join_words [''hi''])) \<and> p_payload_len p = length (join_words [''hi'']) \<and>
      p_from p = mt_node_id (mt (sh_node ?sh1)) \<and> p_to p = NODE_BROADCAST \<and> p_want_ack p = text_acked [] NODE_BROADCAST"
    by (rule shell_text_delivered [OF sh(1) ex_shell_env_ok _ _ _ d _ _ room _ _ _ w, where nows = "[]" and opts = "[]" and ws = "[''hi'']" and j = 0])
      (use c ex_nanopb2_ok ex_psa_ok ex_live(2) ex_resolve_text ex_shares ex_known new a'(2) t in
        \<open>simp_all add: ex_mt_def ex_mt2_def sh say_def report_done asked_slot_def\<close>)
  with c w t(3) show ?thesis by (auto simp: ex_mt_def)
qed

theorem shell_psk_roundtrip_witness:
  "\<exists>sh'. cmd_channel_set ex_world ex_shell_env [''set'', ''0'', ''psk'', ''hex'', ''d4f1bb3a20290759f0bcffabcf4e6901''] ex_shell = Some (ok, sh') \<and>
    cs_psk (ch_settings (slot (st_ch (sh_node sh')) 0)) = default_psk"
proof -
  have h: "psk_hex default_psk = ''d4f1bb3a20290759f0bcffabcf4e6901''" "fmt_u 0 = ''0''" by code_simp+
  have r: "ch_role (slot (st_ch (sh_node ex_shell)) 0) \<in> {Role_PRIMARY, Role_SECONDARY}"
    by (simp add: stale_table_def default_slot0_def)
  from shell_psk_roundtrip [OF ex_shell_ok ex_shell_env_ok _ _ r, of default_psk ex_world] h show ?thesis by auto
qed

theorem shell_number_bounds_witness:
  "parse_u32 ex_shell_env ''4294967301'' = Inr NODE_BROADCAST"
proof -
  have "fmt_u 4294967301 = ''4294967301''" by (simp add: fmt_u.simps char_of_def bit_0)
  with shell_number_bounds [OF ex_shell_env_ok, of 4294967301] show ?thesis by (simp add: ex_shell_env_def)
qed

section \<open>Telemetry\<close>

definition ex_announce :: announce_kconfig where
  "ex_announce = \<lparr>DEVICE_METRICS_AUTO_SEND = True, DEVICE_METRICS_INTERVAL_SEC = 900, ENVIRONMENT_METRICS_AUTO_SEND = False,
     ENVIRONMENT_METRICS_INTERVAL_SEC = 60, NODEINFO_START_DELAY_SEC = 30, NODEINFO_INTERVAL_SEC = 10800\<rparr>"

theorem telemetry_rate_witness:
  "\<exists>st' ws. thread_run (telemetry_thread_turn ex_world ex_announce) [900000, 1800050] ex_node = Some st' \<and>
    frames st' = frames ex_node @ ws \<and> length ws \<le> 2"
proof -
  have a: "\<not> environment_auto ex_world ex_announce" by (simp add: environment_auto_def ex_announce_def)
  then have p: "telemetry_period_sec ex_world ex_announce = 900" by (simp add: telemetry_period_sec_def ex_announce_def)
  have i: "DEVICE_METRICS_INTERVAL_SEC ex_announce \<in> {30..86400}" "ENVIRONMENT_METRICS_INTERVAL_SEC ex_announce \<in> {30..86400}"
    and d: "DEVICE_METRICS_AUTO_SEND ex_announce" by (simp_all add: ex_announce_def)
  have w: "wakes 0 (1000 * int (telemetry_period_sec ex_world ex_announce)) [900000, 1800050]" by (simp add: p)
  have e: "\<forall>t\<in>set [900000, 1800050 :: int]. t \<le> 1800050" by simp
  from telemetry_rate [OF ex_live(1) w e _ i] show ?thesis unfolding p using a d by fastforce
qed

section \<open>Saving and starting again\<close>

lemma export_accepted:
  assumes "\<forall>key\<in>set keys. (\<exists>v. setting_get sc st key STORE_VALUE_MAX = Inr v) \<and> (\<forall>v. f key v = None)"
  shows "\<exists>kvs. export_loop sc st f keys = (ok, kvs)"
  using assms by (induction keys) auto

theorem settings_survive_reboot_witness:
  "\<exists>kvs files so. settings_flush (\<lambda>cb. cb (\<lambda>name val. None)) ex_codec 64 ex_store = (ok, files, so) \<and>
    fst (settings_init (ex_boot\<lparr>bw_saved := kvs\<rparr>) (ex_store\<lparr>so_long_name := ''x''\<rparr>)) = ok \<and>
    so_long_name (snd (settings_init (ex_boot\<lparr>bw_saved := kvs\<rparr>) (ex_store\<lparr>so_long_name := ''x''\<rparr>))) = ''Zephyr''"
proof -
  let ?f = "settings_export_prefixed 64 (\<lambda>name val. None)" and ?so = "ex_store\<lparr>so_save_scheduled := False\<rparr>"
  have so: "?so = ex_store" by (simp add: ex_store_def)
  have "\<forall>key\<in>set export_keys. length (settings_subtree @ ''/'' @ key) \<le> 64" by code_simp
  then have "\<forall>key\<in>set export_keys. \<forall>v. ?f key v = None" by (auto simp: settings_export_prefixed_def Let_def not_less)
  moreover have "\<forall>key\<in>set export_keys. \<exists>v. setting_get ex_codec ex_store key STORE_VALUE_MAX = Inr v"
    using ex_encodes all_keys_ok by (auto simp: export_keys_names)
  ultimately obtain kvs where "config_store_export ex_codec ex_store ?f = (ok, kvs)"
    using export_accepted [of export_keys ex_codec ex_store ?f] unfolding config_store_export_def by blast
  then obtain files so1 where f: "settings_flush (\<lambda>cb. cb (\<lambda>name val. None)) ex_codec 64 ex_store = (ok, files, so1)"
    "files = map (\<lambda>(name, val). (settings_subtree @ ''/'' @ name, val)) kvs"
    unfolding settings_flush_def settings_export_cb_def Let_def so by simp
  let ?w = "ex_boot\<lparr>bw_saved := kvs\<rparr>"
  have w: "bw_codec ?w = ex_codec" "bw_settings_subsys ?w = None" "bw_settings_load ?w = None" "bw_saved ?w = kvs"
    by (simp_all add: ex_boot_def)
  have s: "saves_subtree (\<lambda>cb. cb (\<lambda>name val. None))" by (auto simp: saves_subtree_def)
  have inv: "store_inv (ex_store\<lparr>so_long_name := ''x''\<rparr>)" by code_simp
  have n: "so_long_name ex_store = ''Zephyr''" by (simp add: ex_store_def)
  from settings_survive_reboot [of ?w ex_store _ _ 64 files so1, OF _ ex_store_inv inv s _ _ w(2,3)] ex_codec_ok f w(1,4) n
  show ?thesis by (intro exI [of _ kvs] exI [of _ files] exI [of _ so1]) auto
qed

end
